(* ===== verification/Prelude.thy ===== *)
theory Prelude
  imports
    Main
    "HOL-Library.Word"
    "HOL-Library.Char_ord"
    "HOL-Library.List_Lexorder"
    "HOL-Library.Product_Lexorder"
begin

text \<open>
  What every component shares: the Rust integer operations the sources call
  (checked, saturating and wrapping, each at its width), results of fallible
  operations, runs of a machine over a list of actions, and the interfaces
  (locales) through which the components get their run-level facts from
  step-level ones.

  Conventions. An unsigned integer of width \<open>w\<close> is a \<^typ>\<open>nat\<close> below \<open>2 ^ w\<close>, a signed
  one an \<^typ>\<open>int\<close> in \<open>- (2 ^ (w - 1)) ..< 2 ^ (w - 1)\<close>; where a source operation can
  leave the range, the model calls the operation below that says what Rust does
  there. A Rust \<open>String\<close> is the list of its UTF-8 bytes (a \<^typ>\<open>char\<close> is one byte), so
  \<open>len\<close> is \<^const>\<open>length\<close> and the derived order is the byte order. \<open>Result<T, E>\<close> is the
  sum \<open>E + T\<close> with \<open>Inl\<close> the error. A method taking \<open>&mut self\<close> returns the pair of its
  result and the state it leaves behind, on the error paths as well, so that
  ``unchanged on error'' is a theorem and not a convention.
\<close>

named_theorems rust_int \<open>definitions of the integer operations of the sources\<close>
named_theorems op_defs \<open>definitions of the state-changing operations of a component\<close>

section \<open>Results\<close>

type_synonym ('e, 'a) result = "'e + 'a"

abbreviation (input) Ok :: "'a \<Rightarrow> ('e, 'a) result" where "Ok \<equiv> Inr"
abbreviation (input) Err :: "'e \<Rightarrow> ('e, 'a) result" where "Err \<equiv> Inl"

fun is_ok :: "('e, 'a) result \<Rightarrow> bool" where
  "is_ok (Inr _) = True"
| "is_ok (Inl _) = False"

lemma is_ok_iff: "is_ok r \<longleftrightarrow> (\<exists>x. r = Inr x)"
  by (cases r) auto

lemma not_is_ok_iff: "\<not> is_ok r \<longleftrightarrow> (\<exists>e. r = Inl e)"
  by (cases r) auto

text \<open>The \<open>?\<close> operator: an error returns at once, a value goes on.\<close>

definition and_then :: "('e, 'a) result \<Rightarrow> ('a \<Rightarrow> ('e, 'b) result) \<Rightarrow> ('e, 'b) result" where
  "and_then r f = (case r of Inl e \<Rightarrow> Inl e | Inr x \<Rightarrow> f x)"

lemma and_then_simps [simp]:
  "and_then (Inl e) f = Inl e"
  "and_then (Inr x) f = f x"
  by (simp_all add: and_then_def)

lemma and_then_eq_Inr: "and_then r f = Inr y \<longleftrightarrow> (\<exists>x. r = Inr x \<and> f x = Inr y)"
  by (cases r) auto

text \<open>\<open>ok_or(e)\<close>\<close>

definition ok_or :: "'a option \<Rightarrow> 'e \<Rightarrow> ('e, 'a) result" where
  "ok_or x e = (case x of None \<Rightarrow> Inl e | Some y \<Rightarrow> Inr y)"

lemma ok_or_simps [simp]:
  "ok_or None e = Inl e"
  "ok_or (Some y) e = Inr y"
  by (simp_all add: ok_or_def)

text \<open>\<open>is_some_and\<close> of \<open>Option\<close>.\<close>

definition is_some_and :: "('a \<Rightarrow> bool) \<Rightarrow> 'a option \<Rightarrow> bool" where
  "is_some_and P x = (case x of None \<Rightarrow> False | Some y \<Rightarrow> P y)"

lemma is_some_and_simps [simp]:
  "is_some_and P None = False"
  "is_some_and P (Some y) = P y"
  by (simp_all add: is_some_and_def)

section \<open>Rust integers\<close>

definition u_max :: "nat \<Rightarrow> nat" where
  "u_max w = 2 ^ w - 1"

definition checked_add_u :: "nat \<Rightarrow> nat \<Rightarrow> nat \<Rightarrow> nat option" where
  [rust_int]: "checked_add_u w a b = (if a + b < 2 ^ w then Some (a + b) else None)"

definition saturating_add_u :: "nat \<Rightarrow> nat \<Rightarrow> nat \<Rightarrow> nat" where
  [rust_int]: "saturating_add_u w a b = min (a + b) (u_max w)"

definition i_min :: "nat \<Rightarrow> int" where
  "i_min w = - (2 ^ (w - 1))"

definition i_max :: "nat \<Rightarrow> int" where
  "i_max w = 2 ^ (w - 1) - 1"

definition i_ok :: "nat \<Rightarrow> int \<Rightarrow> bool" where
  "i_ok w x \<longleftrightarrow> i_min w \<le> x \<and> x \<le> i_max w"

definition checked_i :: "nat \<Rightarrow> int \<Rightarrow> int option" where
  [rust_int]: "checked_i w x = (if i_ok w x then Some x else None)"

definition saturating_i :: "nat \<Rightarrow> int \<Rightarrow> int" where
  [rust_int]: "saturating_i w x = max (i_min w) (min x (i_max w))"

lemma saturating_i_nonneg: "0 \<le> x \<Longrightarrow> saturating_i w x = min x (i_max w)"
  using one_le_power [of "2::int" "w - 1"]
  by (auto simp: saturating_i_def i_min_def i_max_def max_def min_def simp del: one_le_power)

text \<open>Plain signed arithmetic in a release build wraps around (two's complement).\<close>

definition wrap_i :: "nat \<Rightarrow> int \<Rightarrow> int" where
  [rust_int]: "wrap_i w x = (x + 2 ^ (w - 1)) mod 2 ^ w - 2 ^ (w - 1)"

lemma checked_add_u_Some [simp]:
  "checked_add_u w a b = Some c \<longleftrightarrow> a + b < 2 ^ w \<and> c = a + b"
  by (auto simp: checked_add_u_def)

lemma checked_add_u_None [simp]: "checked_add_u w a b = None \<longleftrightarrow> 2 ^ w \<le> a + b"
  by (auto simp: checked_add_u_def)

lemma checked_i_Some [simp]: "checked_i w x = Some y \<longleftrightarrow> i_ok w x \<and> y = x"
  by (auto simp: checked_i_def)

lemma checked_i_None [simp]: "checked_i w x = None \<longleftrightarrow> \<not> i_ok w x"
  by (simp add: checked_i_def)

lemma saturating_add_u_le: "saturating_add_u w a b \<le> u_max w"
  by (simp add: saturating_add_u_def)

lemma saturating_add_u_ge: "a \<le> u_max w \<Longrightarrow> a \<le> saturating_add_u w a b"
  by (simp add: saturating_add_u_def)

lemma saturating_add_u_eq: "a + b \<le> u_max w \<Longrightarrow> saturating_add_u w a b = a + b"
  by (simp add: saturating_add_u_def)

lemma saturating_add_u_0 [simp]: "a \<le> u_max w \<Longrightarrow> saturating_add_u w a 0 = a"
  by (simp add: saturating_add_u_def)

lemma le_u_max_iff: "a \<le> u_max w \<longleftrightarrow> a < 2 ^ w"
  by (simp add: u_max_def Suc_le_eq [symmetric] le_diff_conv2)

lemma i_ok_bounds: "0 < w \<Longrightarrow> i_ok w x \<longleftrightarrow> - (2 ^ (w - 1)) \<le> x \<and> x < 2 ^ (w - 1)"
  by (auto simp: i_ok_def i_min_def i_max_def)

lemma i_ok_between: "i_ok w a \<Longrightarrow> i_ok w c \<Longrightarrow> a \<le> b \<Longrightarrow> b \<le> c \<Longrightarrow> i_ok w b"
  by (auto simp: i_ok_def)

lemma wrap_i_id:
  assumes "0 < w" and "i_ok w x"
  shows "wrap_i w x = x"
proof -
  have "(2::int) ^ w = 2 * 2 ^ (w - 1)"
    using assms(1) by (cases w) auto
  with assms have "(x + 2 ^ (w - 1)) mod 2 ^ w = x + 2 ^ (w - 1)"
    by (intro mod_pos_pos_trivial) (auto simp: i_ok_def i_min_def i_max_def)
  then show ?thesis by (simp add: wrap_i_def)
qed

section \<open>Machines and their runs\<close>

text \<open>The state a machine reaches by taking the actions of a list in order.\<close>

fun exec :: "('s \<Rightarrow> 'a \<Rightarrow> 's) \<Rightarrow> 's \<Rightarrow> 'a list \<Rightarrow> 's" where
  "exec step s [] = s"
| "exec step s (a # as) = exec step (step s a) as"

lemma exec_append: "exec step s (as @ bs) = exec step (exec step s as) bs"
  by (induction as arbitrary: s) auto

text \<open>
  A component promises that each of its operations keeps its well-formedness
  invariant; its clients get the invariant after any sequence of operations.
\<close>

locale invariant_machine =
  fixes step :: "'s \<Rightarrow> 'a \<Rightarrow> 's"
    and inv :: "'s \<Rightarrow> bool"
  assumes step_inv: "inv s \<Longrightarrow> inv (step s a)"
begin

lemma exec_inv: "inv s \<Longrightarrow> inv (exec step s as)"
  by (induction as arbitrary: s) (auto intro: step_inv)

end

text \<open>
  A component with a quantity that no operation takes back, on states that satisfy
  its invariant (an epoch, a clock axis, a counter).
\<close>

locale monotone_machine = invariant_machine step inv
  for step :: "'s \<Rightarrow> 'a \<Rightarrow> 's" and inv :: "'s \<Rightarrow> bool" +
  fixes level :: "'s \<Rightarrow> 'l::order"
  assumes step_mono: "inv s \<Longrightarrow> level s \<le> level (step s a)"
begin

lemma exec_mono: "inv s \<Longrightarrow> level s \<le> level (exec step s as)"
proof (induction as arbitrary: s)
  case (Cons a as)
  then have "level s \<le> level (step s a)" by (intro step_mono)
  also have "\<dots> \<le> level (exec step (step s a) as)"
    using Cons by (intro Cons.IH step_inv)
  finally show ?case by simp
qed simp

end

text \<open>A component with states no operation leaves.\<close>

locale absorbing_machine =
  fixes step :: "'s \<Rightarrow> 'a \<Rightarrow> 's"
    and final :: "'s \<Rightarrow> bool"
  assumes step_final: "final s \<Longrightarrow> step s a = s"
begin

lemma exec_final: "final s \<Longrightarrow> exec step s as = s"
  by (induction as) (auto simp: step_final)

end

section \<open>Lists\<close>

lemma strict_sorted_filter: "sorted_wrt (<) xs \<Longrightarrow> sorted_wrt (<) (filter P xs)"
  by (rule sorted_wrt_filter)

lemma sorted_wrt_less_distinct: "sorted_wrt (<) (xs :: 'a::preorder list) \<Longrightarrow> distinct xs"
  by (induction xs) auto

lemma strict_sorted_equal:
  "sorted_wrt (<) xs \<Longrightarrow> sorted_wrt (<) ys \<Longrightarrow> set xs = set ys \<Longrightarrow> xs = (ys :: 'a::linorder list)"
  using strict_sorted_equal by (metis strict_sorted_iff)

lemma map_filter_all:
  "(\<And>x. x \<in> set xs \<Longrightarrow> f x = Some (g x)) \<Longrightarrow> List.map_filter f xs = map g xs"
  by (induction xs) (simp_all add: map_filter_simps)

lemma in_map_filter: "y \<in> set (List.map_filter f xs) \<longleftrightarrow> (\<exists>x\<in>set xs. f x = Some y)"
  by (induction xs) (auto simp: map_filter_simps split: option.split)

text \<open>\<open>position\<close> of an iterator: the index of the first element that satisfies \<open>P\<close>.\<close>

fun position :: "('a \<Rightarrow> bool) \<Rightarrow> 'a list \<Rightarrow> nat option" where
  "position P [] = None"
| "position P (x # xs) = (if P x then Some 0 else map_option Suc (position P xs))"

lemma position_None_iff: "position P xs = None \<longleftrightarrow> (\<forall>x\<in>set xs. \<not> P x)"
  by (induction xs) auto

lemma position_SomeD:
  "position P xs = Some i \<Longrightarrow> i < length xs \<and> P (xs ! i) \<and> (\<forall>j<i. \<not> P (xs ! j))"
proof (induction xs arbitrary: i)
  case (Cons x xs)
  show ?case
  proof (cases "P x")
    case False
    with Cons.prems obtain k where k: "position P xs = Some k" "i = Suc k" by auto
    with Cons.IH [OF k(1)] False show ?thesis by (auto simp: less_Suc_eq_0_disj)
  qed (use Cons.prems in auto)
qed simp

section \<open>Bytes and decimal text\<close>

definition is_ascii_digit :: "char \<Rightarrow> bool" where
  "is_ascii_digit b \<longleftrightarrow> CHR ''0'' \<le> b \<and> b \<le> CHR ''9''"

definition is_ascii_lowercase :: "char \<Rightarrow> bool" where
  "is_ascii_lowercase b \<longleftrightarrow> CHR ''a'' \<le> b \<and> b \<le> CHR ''z''"

definition is_ascii_uppercase :: "char \<Rightarrow> bool" where
  "is_ascii_uppercase b \<longleftrightarrow> CHR ''A'' \<le> b \<and> b \<le> CHR ''Z''"

definition is_ascii_alphanumeric :: "char \<Rightarrow> bool" where
  "is_ascii_alphanumeric b \<longleftrightarrow> is_ascii_digit b \<or> is_ascii_lowercase b \<or> is_ascii_uppercase b"

text \<open>\<open>b - b'0'\<close>\<close>

definition digit_val :: "char \<Rightarrow> nat" where
  "digit_val b = of_char b - of_char CHR ''0''"

definition digit_char :: "nat \<Rightarrow> char" where
  "digit_char d = char_of (of_char CHR ''0'' + d)"

text \<open>The decimal text of a number, as \<open>{}\<close> prints it, and \<open>{:0w}\<close>.\<close>

fun dec :: "nat \<Rightarrow> string" where
  "dec n = (if n < 10 then [digit_char n] else dec (n div 10) @ [digit_char (n mod 10)])"

declare dec.simps [simp del]

definition pad0 :: "nat \<Rightarrow> string \<Rightarrow> string" where
  "pad0 w s = replicate (w - length s) CHR ''0'' @ s"

definition decimal_value :: "string \<Rightarrow> nat" where
  "decimal_value ds = foldl (\<lambda>v b. v * 10 + digit_val b) 0 ds"

lemma digit_char:
  assumes "d < 10"
  shows "is_ascii_digit (digit_char d)" "digit_val (digit_char d) = d"
proof -
  have "of_char (digit_char d) = 48 + d"
    using assms by (simp add: digit_char_def of_char_of)
  then show "is_ascii_digit (digit_char d)" "digit_val (digit_char d) = d"
    using assms by (simp_all add: is_ascii_digit_def less_eq_char_def digit_val_def)
qed

lemma decimal_foldl:
  "foldl (\<lambda>v b. v * 10 + digit_val b) v ds = v * 10 ^ length ds + decimal_value ds"
proof (induction ds arbitrary: v)
  case (Cons d ds)
  have "foldl (\<lambda>v b. v * 10 + digit_val b) (digit_val d) ds
      = digit_val d * 10 ^ length ds + decimal_value ds"
    by (rule Cons.IH)
  with Cons.IH [of "v * 10 + digit_val d"] show ?case
    by (simp add: decimal_value_def algebra_simps)
qed (simp add: decimal_value_def)

lemma decimal_value_Cons: "decimal_value (d # ds) = digit_val d * 10 ^ length ds + decimal_value ds"
  using decimal_foldl [of "digit_val d" ds] by (simp add: decimal_value_def)

lemma decimal_value_snoc: "decimal_value (ds @ [d]) = decimal_value ds * 10 + digit_val d"
  by (simp add: decimal_value_def)

lemma dec_digits: "list_all is_ascii_digit (dec n)"
proof (induction n rule: dec.induct)
  case (1 n)
  then show ?case by (subst dec.simps) (auto simp: digit_char)
qed

lemma dec_value: "decimal_value (dec n) = n"
proof (induction n rule: dec.induct)
  case (1 n)
  then show ?case
    by (subst dec.simps) (auto simp: decimal_value_snoc digit_char decimal_value_Cons decimal_value_def)
qed

lemma dec_not_Nil [simp]: "dec n \<noteq> []"
  by (subst dec.simps) simp

lemma dec_length: "0 < w \<Longrightarrow> n < 10 ^ w \<Longrightarrow> length (dec n) \<le> w"
proof (induction n arbitrary: w rule: dec.induct)
  case (1 n)
  show ?case
  proof (cases "n < 10")
    case True
    with 1 show ?thesis by (subst dec.simps) simp
  next
    case False
    with "1.prems" have "w \<noteq> 1" by auto
    with "1.prems"(1) obtain v where v: "w = Suc v" "0 < v"
      by (cases w) auto
    with "1.prems" have "n div 10 < 10 ^ v" by (simp add: less_mult_imp_div_less mult.commute)
    with "1.IH" [OF False] v have "length (dec (n div 10)) \<le> v" by blast
    with False v show ?thesis by (subst dec.simps) simp
  qed
qed

lemma digit_val_0 [simp]: "digit_val CHR ''0'' = 0" "is_ascii_digit CHR ''0''"
  by (simp_all add: digit_val_def is_ascii_digit_def)

lemma pad0_digits: "list_all is_ascii_digit (pad0 w (dec n))"
  using dec_digits [of n] by (auto simp: pad0_def list_all_iff set_replicate_conv_if split: if_splits)

lemma decimal_value_zeros: "decimal_value (replicate k CHR ''0'' @ ds) = decimal_value ds"
  by (induction k) (simp_all add: decimal_value_Cons)

lemma pad0_value: "decimal_value (pad0 w (dec n)) = n"
  by (simp add: pad0_def decimal_value_zeros dec_value)

lemma pad0_length: "0 < w \<Longrightarrow> n < 10 ^ w \<Longrightarrow> length (pad0 w (dec n)) = w"
  using dec_length [of w n] by (simp add: pad0_def)

end
