(* ===== verification/Logical_Time.thy ===== *)
theory Logical_Time
  imports Prelude "HOL-Library.Signed_Division"
begin

text \<open>
  Logical time (crates/fireemu-core-types/src/time.rs): durations and instants are
  nanoseconds in an \<open>i128\<close>, every addition is checked; and the civil calendar that the
  RFC 3339 text form and the schedules rest on. Rust's \<open>/\<close> and \<open>%\<close> truncate towards zero
  (\<open>sdiv\<close>, \<open>smod\<close>); \<open>div_euclid\<close> and \<open>rem_euclid\<close> by a positive constant are \<open>div\<close>, \<open>mod\<close>.
\<close>

section \<open>Durations and instants\<close>

type_synonym logical_duration = int
type_synonym logical_instant = int

definition duration_from_nanos :: "int \<Rightarrow> logical_duration" where
  "duration_from_nanos nanos = nanos"

definition duration_from_millis :: "int \<Rightarrow> logical_duration" where
  "duration_from_millis millis = millis * 1000000"

definition duration_from_seconds :: "int \<Rightarrow> logical_duration" where
  "duration_from_seconds seconds = seconds * 1000000000"

definition duration_as_millis :: "logical_duration \<Rightarrow> int" where
  "duration_as_millis d = d sdiv 1000000"

definition duration_as_seconds :: "logical_duration \<Rightarrow> int" where
  "duration_as_seconds d = d sdiv 1000000000"

definition duration_is_positive :: "logical_duration \<Rightarrow> bool" where
  "duration_is_positive d \<longleftrightarrow> d > 0"

definition duration_checked_add :: "logical_duration \<Rightarrow> logical_duration \<Rightarrow> logical_duration option" where
  "duration_checked_add a b = checked_i 128 (a + b)"

definition instant_from_unix_seconds :: "int \<Rightarrow> logical_instant" where
  "instant_from_unix_seconds seconds = seconds * 1000000000"

definition instant_checked_add :: "logical_instant \<Rightarrow> logical_duration \<Rightarrow> logical_instant option" where
  "instant_checked_add t d = checked_i 128 (t + d)"

definition checked_duration_since :: "logical_instant \<Rightarrow> logical_instant \<Rightarrow> logical_duration option" where
  "checked_duration_since t earlier = checked_i 128 (t - earlier)"

lemmas time_arith = duration_checked_add_def instant_checked_add_def checked_duration_since_def

lemma checked_add_since:
  "i_ok 128 d \<Longrightarrow> instant_checked_add t d = Some u \<Longrightarrow> checked_duration_since u t = Some d"
  by (auto simp: time_arith)

lemma millis_seconds_exact:
  "duration_as_millis (duration_from_millis n) = n"
  "duration_as_seconds (duration_from_seconds n) = n"
  by (simp_all add: duration_as_millis_def duration_from_millis_def duration_as_seconds_def
      duration_from_seconds_def signed_divide_int_def sgn_mult abs_mult mult_sgn_abs)

section \<open>The civil calendar\<close>

definition days_from_civil :: "int \<Rightarrow> int \<Rightarrow> int \<Rightarrow> int" where
  "days_from_civil year0 month day =
     (let year = (if month \<le> 2 then year0 - 1 else year0);
          era = year div 400;
          year_of_era = year mod 400;
          month_prime = (month + 9) smod 12;
          day_of_year = (153 * month_prime + 2) sdiv 5 + day - 1;
          day_of_era = year_of_era * 365 + year_of_era sdiv 4 - year_of_era sdiv 100 + day_of_year
      in era * 146097 + day_of_era - 719468)"

definition civil_from_days_wide :: "int \<Rightarrow> int \<times> int \<times> int" where
  "civil_from_days_wide days0 =
     (let days = days0 + 719468;
          era = days div 146097;
          day_of_era = days mod 146097;
          year_of_era = (day_of_era - day_of_era sdiv 1460 + day_of_era sdiv 36524
                          - day_of_era sdiv 146096) sdiv 365;
          year = year_of_era + era * 400;
          day_of_year = day_of_era - (365 * year_of_era + year_of_era sdiv 4 - year_of_era sdiv 100);
          month_prime = (5 * day_of_year + 2) sdiv 153;
          day = day_of_year - (153 * month_prime + 2) sdiv 5 + 1;
          month = (if month_prime < 10 then month_prime + 3 else month_prime - 9)
      in (if month \<le> 2 then year + 1 else year, month, day))"

text \<open>\<open>civil_from_days\<close> narrows the fields of the wide form to \<open>i64\<close>.\<close>

definition civil_from_days :: "int \<Rightarrow> int \<times> int \<times> int" where
  "civil_from_days days =
     (case civil_from_days_wide days of (year, month, day) \<Rightarrow>
        (case checked_i 64 year of Some y \<Rightarrow> y | None \<Rightarrow> if year < 0 then i_min 64 else i_max 64,
         case checked_i 64 month of Some m \<Rightarrow> m | None \<Rightarrow> 1,
         case checked_i 64 day of Some d \<Rightarrow> d | None \<Rightarrow> 1))"

definition is_leap :: "int \<Rightarrow> bool" where
  "is_leap y \<longleftrightarrow> (y smod 4 = 0 \<and> y smod 100 \<noteq> 0) \<or> y smod 400 = 0"

definition days_in_month :: "int \<Rightarrow> int \<Rightarrow> int" where
  "days_in_month y m =
     (if m \<in> {1, 3, 5, 7, 8, 10, 12} then 31
      else if m \<in> {4, 6, 9, 11} then 30
      else if m = 2 \<and> is_leap y then 29
      else if m = 2 then 28
      else 0)"

text \<open>A date of the proleptic Gregorian calendar.\<close>

definition valid_date :: "int \<times> int \<times> int \<Rightarrow> bool" where
  "valid_date ymd = (case ymd of (y, m, d) \<Rightarrow>
     1 \<le> m \<and> m \<le> 12 \<and> 1 \<le> d \<and> d \<le> days_in_month y m)"

subsection \<open>Truncating division of non-negative values\<close>

lemma sdiv_nonneg: "0 \<le> a \<Longrightarrow> 0 < b \<Longrightarrow> a sdiv b = a div (b::int)"
  by (cases "a = 0") (auto simp: signed_divide_int_def)

lemma smod_nonneg: "0 \<le> a \<Longrightarrow> 0 < b \<Longrightarrow> a smod b = a mod (b::int)"
  by (cases "a = 0") (auto simp: signed_modulo_int_def)

lemma smod_eq_0_iff: "0 < b \<Longrightarrow> a smod b = 0 \<longleftrightarrow> b dvd (a::int)"
proof -
  assume b: "0 < b"
  show ?thesis
  proof (cases "0 \<le> a")
    case True
    with b show ?thesis by (simp add: smod_nonneg dvd_eq_mod_eq_0)
  next
    case False
    then have "a smod b = - ((- a) smod b)"
      by (simp add: signed_modulo_int_def signed_divide_int_def)
    moreover have "(- a) smod b = (- a) mod b"
      using b False by (intro smod_nonneg) auto
    ultimately have "a smod b = - ((- a) mod b)" by simp
    then show ?thesis by (simp flip: dvd_eq_mod_eq_0)
  qed
qed

lemma is_leap_iff: "is_leap y \<longleftrightarrow> (4 dvd y \<and> \<not> 100 dvd y) \<or> 400 dvd y"
  by (simp add: is_leap_def smod_eq_0_iff)

subsection \<open>Years of an era\<close>

text \<open>
  A day of a 400-year era, counted from 1 March, is given by its century \<open>b\<close>, its
  four-year cycle \<open>g\<close> in the century, its year \<open>s\<close> in the cycle and its day \<open>doy\<close>; only
  the last year of a cycle has a 366th day, and the last cycle of a century only in
  the last century.
\<close>

definition era_day :: "int \<Rightarrow> int \<Rightarrow> int \<Rightarrow> int \<Rightarrow> bool" where
  "era_day b g s doy \<longleftrightarrow> 0 \<le> b \<and> b \<le> 3 \<and> 0 \<le> g \<and> g \<le> 24 \<and> 0 \<le> s \<and> s \<le> 3 \<and> 0 \<le> doy \<and> doy \<le> 365
     \<and> (doy = 365 \<longrightarrow> s = 3 \<and> (g = 24 \<longrightarrow> b = 3))"

abbreviation doe_of :: "int \<Rightarrow> int \<Rightarrow> int \<Rightarrow> int \<Rightarrow> int" where
  "doe_of b g s doy \<equiv> 36524 * b + 1461 * g + 365 * s + doy"

lemma div_eqI: "(0::int) < k \<Longrightarrow> k * q \<le> n \<Longrightarrow> n < k * q + k \<Longrightarrow> n div k = q"
  by (rule int_div_pos_eq [where r = "n - k * q"]) auto

lemma year_of_era_eq:
  assumes "era_day b g s doy" and doe: "doe = doe_of b g s doy"
  shows "(doe - doe div 1460 + doe div 36524 - doe div 146096) div 365 = 100 * b + 4 * g + s"
proof -
  note E = assms(1) [unfolded era_day_def]
  define last where "last \<longleftrightarrow> b = 3 \<and> g = 24 \<and> s = 3 \<and> doy = 365"
  have c: "doe div 146096 = (if last then 1 else 0)"
    using E unfolding doe last_def by (intro div_eqI) auto
  have d: "doe div 36524 = (if last then 4 else b)"
  proof (cases last)
    case True
    then show ?thesis by (simp add: doe last_def)
  next
    case False
    then have "1461 * g + 365 * s + doy < 36524"
      using E by (auto simp: last_def)
    with E False show ?thesis unfolding doe by (intro div_eqI) auto
  qed
  define t where "t = (if 24 * b + g + 365 * s + doy < 1460 then 0 else (1::int))"
  have a: "doe div 1460 = 25 * b + g + t"
    using E unfolding doe t_def by (intro div_eqI) (auto split: if_splits)
  have t: "t = 1 \<Longrightarrow> 1 \<le> doy \<and> s = 3"
    using E by (auto simp: t_def split: if_splits)
  have t01: "t = 0 \<or> t = 1" by (simp add: t_def)
  have full: "t = 0 \<Longrightarrow> doy < 365"
    using E by (auto simp: t_def split: if_splits)
  show ?thesis
    unfolding a c d using E t t01 full
    by (intro div_eqI) (auto simp: doe last_def split: if_splits)
qed

lemma era_day_exists:
  assumes "0 \<le> doe" "doe < 146097"
  shows "\<exists>b g s doy. era_day b g s doy \<and> doe = doe_of b g s doy"
proof (cases "doe = 146096")
  case True
  then show ?thesis by (intro exI [of _ 3] exI [of _ 24] exI [of _ 3] exI [of _ 365]) (simp add: era_day_def)
next
  case False
  define b where "b = doe div 36524"
  define e where "e = doe mod 36524"
  define g where "g = e div 1461"
  define h where "h = e mod 1461"
  define s where "s = (if h = 1460 then 3 else h div 365)"
  have be: "doe = 36524 * b + e" "0 \<le> e" "e < 36524"
    by (simp_all add: b_def e_def)
  have gh: "e = 1461 * g + h" "0 \<le> h" "h < 1461"
    by (simp_all add: g_def h_def)
  have b: "0 \<le> b" "b \<le> 3" using be assms False by auto
  have g: "0 \<le> g" "g \<le> 24" using be gh by auto
  have hs: "365 * (h div 365) + h mod 365 = h" "0 \<le> h mod 365" "h mod 365 < 365"
    by simp_all
  have s: "0 \<le> s" "s \<le> 3" "0 \<le> h - 365 * s" "h - 365 * s \<le> 365"
    using hs gh unfolding s_def by auto
  have "era_day b g s (h - 365 * s)"
    using b g s gh be hs by (auto simp: era_day_def s_def split: if_splits)
  moreover have "doe = doe_of b g s (h - 365 * s)"
    using be gh by simp
  ultimately show ?thesis by blast
qed

subsection \<open>Months of a year\<close>

text \<open>The 366 days of a year that starts on 1 March, checked one by one.\<close>

definition month_day_of :: "int \<Rightarrow> int \<times> int" where
  "month_day_of doy =
     (let mp = (5 * doy + 2) div 153
      in (if mp < 10 then mp + 3 else mp - 9, doy - (153 * mp + 2) div 5 + 1))"

definition doy_of :: "int \<Rightarrow> int \<Rightarrow> int" where
  "doy_of m d = (153 * ((m + 9) mod 12) + 2) div 5 + d - 1"

lemma doy_table:
  "list_all (\<lambda>doy. case month_day_of doy of (m, d) \<Rightarrow>
      1 \<le> m \<and> m \<le> 12 \<and> 1 \<le> d \<and> doy_of m d = doy
      \<and> (m = 2 \<longrightarrow> d \<le> (if doy = 365 then 29 else 28)) \<and> (m \<noteq> 2 \<longrightarrow> d \<le> days_in_month 1 m))
    [0..365]"
  by code_simp

lemma month_day_of:
  assumes "0 \<le> doy" "doy \<le> 365" "month_day_of doy = (m, d)"
  shows "1 \<le> m" "m \<le> 12" "1 \<le> d" "doy_of m d = doy"
    "m = 2 \<Longrightarrow> d \<le> (if doy = 365 then 29 else 28)" "m \<noteq> 2 \<Longrightarrow> d \<le> days_in_month 1 m"
proof -
  have "doy \<in> set [0..365]" using assms by simp
  with doy_table have "case month_day_of doy of (m, d) \<Rightarrow>
      1 \<le> m \<and> m \<le> 12 \<and> 1 \<le> d \<and> doy_of m d = doy
      \<and> (m = 2 \<longrightarrow> d \<le> (if doy = 365 then 29 else 28)) \<and> (m \<noteq> 2 \<longrightarrow> d \<le> days_in_month 1 m)"
    unfolding list_all_iff by (rule bspec)
  then have "1 \<le> m \<and> m \<le> 12 \<and> 1 \<le> d \<and> doy_of m d = doy
      \<and> (m = 2 \<longrightarrow> d \<le> (if doy = 365 then 29 else 28)) \<and> (m \<noteq> 2 \<longrightarrow> d \<le> days_in_month 1 m)"
    using assms(3) by simp
  then show "1 \<le> m" "m \<le> 12" "1 \<le> d" "doy_of m d = doy"
    "m = 2 \<Longrightarrow> d \<le> (if doy = 365 then 29 else 28)" "m \<noteq> 2 \<Longrightarrow> d \<le> days_in_month 1 m"
    by auto
qed

lemma date_table:
  "list_all (\<lambda>m. list_all (\<lambda>d.
      month_day_of (doy_of m d) = (m, d) \<and> 0 \<le> doy_of m d \<and> doy_of m d \<le> 365
      \<and> (doy_of m d = 365 \<longleftrightarrow> m = 2 \<and> d = 29))
    [1..days_in_month 4 m]) [1..12]"
  by code_simp

lemma days_in_month_le: "days_in_month y m \<le> days_in_month 4 m"
  by (simp add: days_in_month_def is_leap_iff)

lemma doy_of_date:
  assumes "valid_date (y, m, d)"
  shows "month_day_of (doy_of m d) = (m, d)" "0 \<le> doy_of m d" "doy_of m d \<le> 365"
    "doy_of m d = 365 \<longleftrightarrow> m = 2 \<and> d = 29"
proof -
  have "m \<in> set [1..12]" "d \<in> set [1..days_in_month 4 m]"
    using assms days_in_month_le [of y m] by (auto simp: valid_date_def)
  with date_table
  have "month_day_of (doy_of m d) = (m, d) \<and> 0 \<le> doy_of m d \<and> doy_of m d \<le> 365
      \<and> (doy_of m d = 365 \<longleftrightarrow> m = 2 \<and> d = 29)"
    unfolding list_all_iff by blast
  then show "month_day_of (doy_of m d) = (m, d)" "0 \<le> doy_of m d" "doy_of m d \<le> 365"
    "doy_of m d = 365 \<longleftrightarrow> m = 2 \<and> d = 29"
    by blast+
qed

subsection \<open>Days and dates are in bijection\<close>

lemma year_of_era_fields:
  assumes "era_day b g s doy" "yoe = 100 * b + 4 * g + s"
  shows "0 \<le> yoe" "yoe < 400" "doe_of b g s doy = yoe * 365 + yoe div 4 - yoe div 100 + doy"
proof -
  note E = assms(1) [unfolded era_day_def]
  show "0 \<le> yoe" "yoe < 400" using E assms(2) by auto
  have "yoe div 100 = b" using E assms(2) by (intro div_eqI) auto
  moreover have "yoe div 4 = 25 * b + g" using E assms(2) by (intro div_eqI) auto
  ultimately show "doe_of b g s doy = yoe * 365 + yoe div 4 - yoe div 100 + doy"
    using assms(2) by simp
qed

lemma days_from_civil_valid:
  assumes "1 \<le> m" "1 \<le> d" and y': "y' = (if m \<le> 2 then y - 1 else y)"
  shows "days_from_civil y m d =
    (y' div 400) * 146097 + (y' mod 400 * 365 + y' mod 400 div 4 - y' mod 400 div 100 + doy_of m d)
      - 719468"
  using assms(1,2) unfolding y'
  by (simp add: days_from_civil_def Let_def sdiv_nonneg smod_nonneg doy_of_def)

lemma civil_from_days_wide_era:
  assumes E: "era_day b g s doy" and m: "month_day_of doy = (m, d)"
  shows "civil_from_days_wide (k * 146097 + doe_of b g s doy - 719468) =
    (let y = k * 400 + (100 * b + 4 * g + s) in if m \<le> 2 then y + 1 else y, m, d)"
proof -
  define doe where "doe = doe_of b g s doy"
  define yoe where "yoe = 100 * b + 4 * g + s"
  note Y = year_of_era_fields [OF E yoe_def]
  have r: "0 \<le> doe" "doe < 146097"
    using E unfolding doe_def era_day_def by auto
  have era: "(k * 146097 + doe) div 146097 = k" "(k * 146097 + doe) mod 146097 = doe"
    using r by simp_all
  have yoe: "(doe - doe div 1460 + doe div 36524 - doe div 146096) div 365 = yoe"
    unfolding yoe_def by (rule year_of_era_eq [OF E doe_def])
  have num: "0 \<le> doe - doe div 1460 + doe div 36524 - doe div 146096"
  proof -
    have "doe div 146096 \<le> doe div 36524" using r by (intro zdiv_mono2) auto
    moreover have "1460 * (doe div 1460) \<le> doe" "0 \<le> doe div 1460"
      using r by (simp_all add: minus_mod_eq_mult_div [symmetric])
    ultimately show ?thesis by linarith
  qed
  have doy: "doe - (365 * yoe + yoe div 4 - yoe div 100) = doy"
    using Y(3) by (simp add: doe_def)
  define mp where "mp = (5 * doy + 2) div 153"
  have "0 \<le> doy" using E by (simp add: era_day_def)
  then have mp: "(5 * doy + 2) sdiv 153 = mp" "(153 * mp + 2) sdiv 5 = (153 * mp + 2) div 5"
    by (simp_all add: mp_def sdiv_nonneg)
  have sd: "doe sdiv 1460 = doe div 1460" "doe sdiv 36524 = doe div 36524"
    "doe sdiv 146096 = doe div 146096" "yoe sdiv 4 = yoe div 4" "yoe sdiv 100 = yoe div 100"
    using r Y(1) by (simp_all add: sdiv_nonneg)
  have sy: "(doe - doe div 1460 + doe div 36524 - doe div 146096) sdiv 365 = yoe"
    using num yoe by (simp add: sdiv_nonneg)
  have shift: "k * 146097 + doe - 719468 + 719468 = k * 146097 + doe" by simp
  have "civil_from_days_wide (k * 146097 + doe - 719468) =
      (if (if mp < 10 then mp + 3 else mp - 9) \<le> 2 then yoe + k * 400 + 1 else yoe + k * 400,
       if mp < 10 then mp + 3 else mp - 9, doy - (153 * mp + 2) div 5 + 1)"
    by (simp only: civil_from_days_wide_def Let_def shift era sd sy doy mp)
  moreover have "(m, d) = (if mp < 10 then mp + 3 else mp - 9, doy - (153 * mp + 2) div 5 + 1)"
    using m [symmetric] by (simp only: month_day_of_def Let_def mp_def)
  ultimately show ?thesis
    unfolding doe_def [symmetric] yoe_def [symmetric] Let_def by (simp add: add.commute)
qed

lemma dvd_mult_add_iff: "0 < r \<Longrightarrow> r \<le> n \<Longrightarrow> n dvd n * q + r \<longleftrightarrow> r = (n::int)"
  using zdvd_imp_le [of n r] by (auto simp: dvd_add_right_iff)

lemma leap_year_of_era:
  assumes "0 \<le> b" "b \<le> 3" "0 \<le> g" "g \<le> 24" "0 \<le> s" "s \<le> 3"
  shows "is_leap (k * 400 + (100 * b + 4 * g + s) + 1) \<longleftrightarrow> s = 3 \<and> (g = 24 \<longrightarrow> b = 3)"
proof -
  let ?y = "k * 400 + (100 * b + 4 * g + s) + 1"
  have "4 dvd ?y \<longleftrightarrow> s + 1 = 4"
    using assms dvd_mult_add_iff [of "s + 1" 4 "100 * k + 25 * b + g"] by (simp add: ac_simps)
  moreover have "100 dvd ?y \<longleftrightarrow> 4 * g + s + 1 = 100"
    using assms dvd_mult_add_iff [of "4 * g + s + 1" 100 "4 * k + b"] by (simp add: algebra_simps)
  moreover have "400 dvd ?y \<longleftrightarrow> 100 * b + 4 * g + s + 1 = 400"
    using assms dvd_mult_add_iff [of "100 * b + 4 * g + s + 1" 400 k] by (simp add: algebra_simps)
  ultimately show ?thesis using assms unfolding is_leap_iff by auto
qed

lemma days_in_month_1: "m \<noteq> 2 \<Longrightarrow> days_in_month y m = days_in_month 1 m"
  by (simp add: days_in_month_def)

lemma civil_from_days_wide_correct:
  "(case civil_from_days_wide n of (y, m, d) \<Rightarrow> valid_date (y, m, d) \<and> days_from_civil y m d = n)"
proof -
  define k where "k = (n + 719468) div 146097"
  define doe where "doe = (n + 719468) mod 146097"
  have n: "n = k * 146097 + doe - 719468" "0 \<le> doe" "doe < 146097"
    by (simp_all add: k_def doe_def)
  obtain b g s doy where E: "era_day b g s doy" and doe: "doe = doe_of b g s doy"
    using era_day_exists [OF n(2,3)] by blast
  obtain m d where md: "month_day_of doy = (m, d)" by fastforce
  define y' where "y' = k * 400 + (100 * b + 4 * g + s)"
  define y where "y = (if m \<le> 2 then y' + 1 else y')"
  have civil: "civil_from_days_wide n = (y, m, d)"
    unfolding n(1) doe using civil_from_days_wide_era [OF E md, of k] by (simp add: y_def y'_def Let_def)
  have doy: "0 \<le> doy" "doy \<le> 365" using E by (auto simp: era_day_def)
  note M = month_day_of [OF doy md]
  have "doy = 365 \<Longrightarrow> m = 2 \<Longrightarrow> is_leap y"
    using leap_year_of_era [of b g s k] E by (simp add: y_def y'_def era_day_def)
  then have "d \<le> days_in_month y m"
    using M(5,6) days_in_month_1 [of m y] by (cases "m = 2") (auto simp: days_in_month_def split: if_splits)
  with M have valid: "valid_date (y, m, d)" by (simp add: valid_date_def)
  note Y = year_of_era_fields [OF E refl]
  have "y' = (if m \<le> 2 then y - 1 else y)" by (simp add: y_def)
  moreover have "y' div 400 = k" "y' mod 400 = 100 * b + 4 * g + s"
    using Y(1,2) by (simp_all add: y'_def)
  ultimately have "days_from_civil y m d = n"
    using days_from_civil_valid [OF M(1,3), of y' y] Y(3) M(4) n(1) doe by simp
  with civil valid show ?thesis by simp
qed

lemma civil_from_days_wide_of_date:
  assumes "valid_date (y, m, d)"
  shows "civil_from_days_wide (days_from_civil y m d) = (y, m, d)"
proof -
  note D = doy_of_date [OF assms]
  have md: "1 \<le> m" "1 \<le> d" using assms by (auto simp: valid_date_def)
  define y' where "y' = (if m \<le> 2 then y - 1 else y)"
  define yoe where "yoe = y' mod 400"
  define b where "b = yoe div 100"
  define g where "g = yoe mod 100 div 4"
  define s where "s = yoe mod 100 mod 4"
  have yoe: "0 \<le> yoe" "yoe < 400" by (simp_all add: yoe_def)
  have split: "yoe = 100 * b + 4 * g + s"
    by (simp add: b_def g_def s_def algebra_simps)
  have bounds: "0 \<le> b" "b \<le> 3" "0 \<le> g" "g \<le> 24" "0 \<le> s" "s \<le> 3"
    using yoe by (simp_all add: b_def g_def s_def)
  have "s = 3 \<and> (g = 24 \<longrightarrow> b = 3)" if "doy_of m d = 365"
  proof -
    have feb: "m = 2" "d = 29" using that D(4) by auto
    then have "is_leap y"
      using assms by (auto simp: valid_date_def days_in_month_def split: if_splits)
    moreover have "y = y' div 400 * 400 + yoe + 1"
      using feb by (simp add: y'_def yoe_def)
    ultimately show ?thesis
      using leap_year_of_era [OF bounds, of "y' div 400"] split by simp
  qed
  with bounds D have E: "era_day b g s (doy_of m d)" by (auto simp: era_day_def)
  have "days_from_civil y m d = y' div 400 * 146097 + doe_of b g s (doy_of m d) - 719468"
    using days_from_civil_valid [OF md y'_def] year_of_era_fields(3) [OF E split]
    by (simp add: yoe_def)
  moreover have "y' div 400 * 400 + (100 * b + 4 * g + s) = y'"
    by (simp add: yoe_def flip: split)
  ultimately show ?thesis
    using civil_from_days_wide_era [OF E D(1), of "y' div 400"] by (simp add: y'_def Let_def)
qed

text \<open>The \<open>i64\<close> narrowing never loses a field.\<close>

lemma civil_from_days_eq_wide:
  assumes "i_ok 64 n"
  shows "civil_from_days n = civil_from_days_wide n"
proof -
  obtain y m d where c: "civil_from_days_wide n = (y, m, d)" by (cases "civil_from_days_wide n") auto
  have v: "valid_date (y, m, d)" and n: "days_from_civil y m d = n"
    using civil_from_days_wide_correct [of n] c by auto
  have md: "1 \<le> m" "m \<le> 12" "1 \<le> d" "d \<le> 31"
    using v by (auto simp: valid_date_def days_in_month_def split: if_splits)
  note D = doy_of_date [OF v]
  define y' where "y' = (if m \<le> 2 then y - 1 else y)"
  define k yoe where "k = y' div 400" and "yoe = y' mod 400"
  have yk: "y' = 400 * k + yoe" "0 \<le> yoe" "yoe < 400"
    by (simp_all add: k_def yoe_def)
  have "n = k * 146097 + (yoe * 365 + yoe div 4 - yoe div 100 + doy_of m d) - 719468"
    using days_from_civil_valid [OF md(1,3) y'_def] n by (simp add: k_def yoe_def)
  moreover have "0 \<le> yoe div 4" "yoe div 4 < 100" "0 \<le> yoe div 100" "yoe div 100 < 4"
    using yk by (simp_all add: div_less_iff_less_mult pos_imp_zdiv_nonneg_iff)
  moreover have "y' \<le> y" "y \<le> y' + 1" by (simp_all add: y'_def)
  ultimately have "i_ok 64 y" "i_ok 64 m" "i_ok 64 d"
    using assms yk D md by (auto simp: i_ok_bounds)
  then show ?thesis by (simp add: civil_from_days_def c checked_i_def)
qed

section \<open>Properties\<close>



end
