(* ===== verification/Rfc3339.thy ===== *)
theory Rfc3339
  imports Logical_Time
begin

text \<open>
  The RFC 3339 text form of an instant (module \<open>rfc3339\<close> of
  crates/fireemu-core-types/src/time.rs): a cursor over the bytes of the input, the
  parser with every error it reports and the formatter. The \<open>u32\<close> values read from at
  most four digits and the \<open>i64\<close> seconds of a four-digit year stay far inside their
  ranges, so they are \<^typ>\<open>nat\<close> and \<^typ>\<open>int\<close>.
\<close>

record cursor =
  cur_bytes :: string
  cur_pos :: nat

record time_parse_error =
  tpe_offset :: nat
  tpe_expected :: string

definition cur_err :: "cursor \<Rightarrow> string \<Rightarrow> time_parse_error" where
  "cur_err c expected = \<lparr>tpe_offset = cur_pos c, tpe_expected = expected\<rparr>"

definition cur_peek :: "cursor \<Rightarrow> char option" where
  "cur_peek c = (if cur_pos c < length (cur_bytes c) then Some (cur_bytes c ! cur_pos c) else None)"

definition cur_bump :: "cursor \<Rightarrow> cursor" where
  "cur_bump c = c\<lparr>cur_pos := Suc (cur_pos c)\<rparr>"

text \<open>A byte between single quotes, as the messages write it.\<close>

definition quoted :: "char \<Rightarrow> string" where
  "quoted b = [CHR 0x27, b, CHR 0x27]"

fun cur_digits_from :: "nat \<Rightarrow> string \<Rightarrow> nat \<Rightarrow> cursor \<Rightarrow> (time_parse_error, nat \<times> cursor) result" where
  "cur_digits_from 0 expected v c = Ok (v, c)"
| "cur_digits_from (Suc n) expected v c =
     (case cur_peek c of
        None \<Rightarrow> Err (cur_err c expected)
      | Some b \<Rightarrow>
          if \<not> is_ascii_digit b then Err (cur_err c expected)
          else cur_digits_from n expected (v * 10 + digit_val b) (cur_bump c))"

definition cur_digits :: "nat \<Rightarrow> string \<Rightarrow> cursor \<Rightarrow> (time_parse_error, nat \<times> cursor) result" where
  "cur_digits n expected c = cur_digits_from n expected 0 c"

definition cur_expect :: "char \<Rightarrow> string \<Rightarrow> cursor \<Rightarrow> (time_parse_error, cursor) result" where
  "cur_expect b expected c =
     (if cur_peek c = Some b then Ok (cur_bump c) else Err (cur_err c expected))"

text \<open>The loop over fractional digits; \<open>scale\<close> is the weight of the next digit.\<close>

function cur_fraction ::
  "int \<Rightarrow> int \<Rightarrow> cursor \<Rightarrow> (time_parse_error, int \<times> cursor) result" where
  "cur_fraction scale nanos c =
     (case cur_peek c of
        None \<Rightarrow> Ok (nanos, c)
      | Some b \<Rightarrow>
          if \<not> is_ascii_digit b then Ok (nanos, c)
          else if scale = 0 then Err (cur_err c ''at most nine fractional digits'')
          else cur_fraction (scale sdiv 10) (nanos + int (digit_val b) * scale) (cur_bump c))"
  by pat_completeness auto
termination
  by (relation "measure (\<lambda>(scale, nanos, c). length (cur_bytes c) - cur_pos c)")
    (auto simp: cur_peek_def cur_bump_def split: if_splits)

declare cur_fraction.simps [simp del]

definition parse_fraction :: "cursor \<Rightarrow> (time_parse_error, int \<times> cursor) result" where
  "parse_fraction c =
     (if cur_peek c = Some CHR ''.'' then
        let c1 = cur_bump c; start = cur_pos c1
        in and_then (cur_fraction (1000000000 sdiv 10) 0 c1) (\<lambda>(nanos, c2).
             if cur_pos c2 = start then Err (cur_err c2 (''fractional digits after '' @ quoted CHR ''.''))
             else Ok (nanos, c2))
      else Ok (0, c))"

definition parse_offset :: "cursor \<Rightarrow> (time_parse_error, int \<times> cursor) result" where
  "parse_offset c =
     (case cur_peek c of
        None \<Rightarrow> Err (cur_err c (quoted CHR ''Z'' @ '' or numeric offset''))
      | Some b \<Rightarrow>
          if b = CHR ''Z'' \<or> b = CHR ''z'' then Ok (0, cur_bump c)
          else if b = CHR ''+'' \<or> b = CHR ''-'' then
            and_then (cur_digits 2 ''two-digit offset hour'' (cur_bump c)) (\<lambda>(oh, c).
            and_then (cur_expect CHR '':'' (quoted CHR '':'' @ '' in offset'') c) (\<lambda>c.
            and_then (cur_digits 2 ''two-digit offset minute'' c) (\<lambda>(om, c).
              if oh > 23 \<or> om > 59 then Err (cur_err c ''offset within +-23:59'')
              else let secs = int oh * 3600 + int om * 60
                   in Ok (if b = CHR ''+'' then secs else - secs, c))))
          else Err (cur_err c (quoted CHR ''Z'' @ '' or numeric offset'')))"

definition parse_error_at :: "nat \<Rightarrow> string \<Rightarrow> time_parse_error" where
  "parse_error_at offset expected = \<lparr>tpe_offset = offset, tpe_expected = expected\<rparr>"

definition parse_rfc3339 :: "string \<Rightarrow> (time_parse_error, logical_instant) result" where
  "parse_rfc3339 input =
     (let c = \<lparr>cur_bytes = input, cur_pos = 0\<rparr> in
      and_then (cur_digits 4 ''four-digit year'' c) (\<lambda>(year, c).
      and_then (cur_expect CHR ''-'' (quoted CHR ''-'' @ '' after year'') c) (\<lambda>c.
      and_then (cur_digits 2 ''two-digit month'' c) (\<lambda>(month, c).
      and_then (cur_expect CHR ''-'' (quoted CHR ''-'' @ '' after month'') c) (\<lambda>c.
      and_then (cur_digits 2 ''two-digit day'' c) (\<lambda>(day, c).
      and_then (if cur_peek c = Some CHR ''T'' \<or> cur_peek c = Some CHR ''t'' then Ok (cur_bump c)
                else Err (cur_err c (quoted CHR ''T'' @ '' date-time separator''))) (\<lambda>c.
      and_then (cur_digits 2 ''two-digit hour'' c) (\<lambda>(hour, c).
      and_then (cur_expect CHR '':'' (quoted CHR '':'' @ '' after hour'') c) (\<lambda>c.
      and_then (cur_digits 2 ''two-digit minute'' c) (\<lambda>(minute, c).
      and_then (cur_expect CHR '':'' (quoted CHR '':'' @ '' after minute'') c) (\<lambda>c.
      and_then (cur_digits 2 ''two-digit second'' c) (\<lambda>(second, c).
      and_then (parse_fraction c) (\<lambda>(nanos, c).
      and_then (parse_offset c) (\<lambda>(offset_secs, c).
        if cur_pos c \<noteq> length (cur_bytes c) then Err (cur_err c ''end of input'')
        else if \<not> (1 \<le> month \<and> month \<le> 12) then Err (parse_error_at 5 ''month 01-12'')
        else if day = 0 \<or> int day > days_in_month (int year) (int month)
          then Err (parse_error_at 8 ''valid day of month'')
        else if hour > 23 then Err (parse_error_at 11 ''hour 00-23'')
        else if minute > 59 then Err (parse_error_at 14 ''minute 00-59'')
        else if second > 59 then Err (parse_error_at 17 ''second 00-59'')
        else
          let days = days_from_civil (int year) (int month) (int day);
              local_secs = days * 86400 + int hour * 3600 + int minute * 60 + int second;
              utc_secs = local_secs - offset_secs
          in Ok (utc_secs * 1000000000 + nanos)))))))))))))))"

text \<open>\<open>format\<close>; its error carries the year that has no RFC 3339 form.\<close>

definition to_rfc3339 :: "logical_instant \<Rightarrow> (int, string) result" where
  "to_rfc3339 instant =
     (let secs = instant div 1000000000;
          nanos = instant mod 1000000000;
          days = secs div 86400;
          sod = secs mod 86400
      in case civil_from_days_wide days of (year, month, day) \<Rightarrow>
        if \<not> (0 \<le> year \<and> year \<le> 9999) then Err year
        else
          let hour = sod sdiv 3600;
              minute = (sod smod 3600) sdiv 60;
              second = sod smod 60;
              stamp = pad0 4 (dec (nat year)) @ ''-'' @ pad0 2 (dec (nat month)) @ ''-''
                @ pad0 2 (dec (nat day)) @ ''T'' @ pad0 2 (dec (nat hour)) @ '':''
                @ pad0 2 (dec (nat minute)) @ '':'' @ pad0 2 (dec (nat second))
          in Ok (if nanos = 0 then stamp @ ''Z''
                 else stamp @ ''.'' @ pad0 9 (dec (nat nanos)) @ ''Z''))"

text \<open>\<open>Display\<close>: diagnostics never carry a malformed timestamp.\<close>

definition dec_int :: "int \<Rightarrow> string" where
  "dec_int x = (if x < 0 then ''-'' @ dec (nat (- x)) else dec (nat x))"

definition display_instant :: "logical_instant \<Rightarrow> string" where
  "display_instant t = (case to_rfc3339 t of Inr s \<Rightarrow> s | Inl _ \<Rightarrow> ''nanos='' @ dec_int t)"

section \<open>The cursor at a split of the input\<close>

abbreviation at :: "string \<Rightarrow> string \<Rightarrow> cursor" where
  "at pre post \<equiv> \<lparr>cur_bytes = pre @ post, cur_pos = length pre\<rparr>"

lemma cur_peek_at [simp]:
  "cur_peek (at pre (b # post)) = Some b"
  "cur_peek \<lparr>cur_bytes = pre, cur_pos = length pre\<rparr> = None"
  by (simp_all add: cur_peek_def nth_append)

lemma cur_bump_at: "cur_bump (at pre (b # post)) = at (pre @ [b]) post"
  by (simp add: cur_bump_def)

lemma cur_digits_from_at:
  "list_all is_ascii_digit ds \<Longrightarrow>
   cur_digits_from (length ds) e v (at pre (ds @ post)) =
     Inr (foldl (\<lambda>v b. v * 10 + digit_val b) v ds, at (pre @ ds) post)"
proof (induction ds arbitrary: pre v)
  case (Cons d ds)
  then show ?case
    using Cons.IH [of "v * 10 + digit_val d" "pre @ [d]"] cur_bump_at [of pre d "ds @ post"]
    by simp
qed simp

lemma cur_digits_pad0:
  assumes "n < 10 ^ w" "0 < w"
  shows "cur_digits w e (at pre (pad0 w (dec n) @ post)) = Inr (n, at (pre @ pad0 w (dec n)) post)"
  using cur_digits_from_at [of "pad0 w (dec n)" e 0 pre post] pad0_digits pad0_length [of w n]
    pad0_value [of w n] assms
  by (simp add: cur_digits_def decimal_value_def)

lemma cur_expect_at: "cur_expect b e (at pre (b # post)) = Inr (at (pre @ [b]) post)"
  using cur_bump_at [of pre b post] by (simp add: cur_expect_def)

lemma cur_fraction_at:
  "list_all is_ascii_digit ds \<Longrightarrow> \<not> is_ascii_digit b \<Longrightarrow>
   scale = (if ds = [] then scale else 10 ^ (length ds - 1)) \<Longrightarrow>
   cur_fraction scale nanos (at pre (ds @ b # post)) =
     Inr (nanos + int (decimal_value ds), at (pre @ ds) (b # post))"
proof (induction ds arbitrary: pre nanos scale)
  case Nil
  then show ?case by (subst cur_fraction.simps) (simp add: decimal_value_def)
next
  case (Cons d ds)
  have scale: "scale = 10 ^ length ds" using Cons.prems by simp
  have next_scale: "scale sdiv 10 = (if ds = [] then scale sdiv 10 else 10 ^ (length ds - 1))"
    by (cases ds) (simp_all add: scale sdiv_nonneg)
  have "cur_fraction scale nanos (at pre ((d # ds) @ b # post)) =
      cur_fraction (scale sdiv 10) (nanos + int (digit_val d) * scale) (at (pre @ [d]) (ds @ b # post))"
    using Cons.prems(1) cur_bump_at [of pre d "ds @ b # post"]
    by (subst cur_fraction.simps) (simp add: scale)
  also have "\<dots> = Inr (nanos + int (digit_val d) * scale + int (decimal_value ds),
      at ((pre @ [d]) @ ds) (b # post))"
    using Cons.prems next_scale by (intro Cons.IH) auto
  finally show ?case by (simp add: scale decimal_value_Cons)
qed

lemma parse_fraction_none: "b \<noteq> CHR ''.'' \<Longrightarrow> parse_fraction (at pre (b # post)) = Inr (0, at pre (b # post))"
  by (simp add: parse_fraction_def)

lemma parse_fraction_nanos:
  assumes "n < 10 ^ 9" "\<not> is_ascii_digit b"
  shows "parse_fraction (at pre (CHR ''.'' # pad0 9 (dec n) @ b # post)) =
    Inr (int n, at (pre @ CHR ''.'' # pad0 9 (dec n)) (b # post))"
proof -
  let ?ds = "pad0 9 (dec n)"
  have len: "length ?ds = 9" using assms(1) by (intro pad0_length) auto
  then have ne: "?ds \<noteq> []" by auto
  have "cur_fraction (1000000000 sdiv 10) 0 (at (pre @ [CHR ''.'']) (?ds @ b # post)) =
      Inr (0 + int (decimal_value ?ds), at ((pre @ [CHR ''.'']) @ ?ds) (b # post))"
    using assms(2) pad0_digits ne len by (intro cur_fraction_at) (auto simp: sdiv_nonneg)
  then show ?thesis
    using cur_bump_at [of pre "CHR ''.''" "?ds @ b # post"] len
    by (simp add: parse_fraction_def pad0_value)
qed

lemma parse_offset_Z: "parse_offset (at pre (CHR ''Z'' # post)) = Inr (0, at (pre @ ''Z'') post)"
  using cur_bump_at [of pre "CHR ''Z''" post] by (simp add: parse_offset_def)

section \<open>Round trip\<close>

abbreviation stamp_of :: "nat \<Rightarrow> nat \<Rightarrow> nat \<Rightarrow> nat \<Rightarrow> nat \<Rightarrow> nat \<Rightarrow> string" where
  "stamp_of y mo d h mi s \<equiv> pad0 4 (dec y) @ ''-'' @ pad0 2 (dec mo) @ ''-'' @ pad0 2 (dec d)
     @ ''T'' @ pad0 2 (dec h) @ '':'' @ pad0 2 (dec mi) @ '':'' @ pad0 2 (dec s)"

lemma parse_stamp:
  assumes len: "y < 10 ^ 4" "mo < 10 ^ 2" "d < 10 ^ 2" "h < 10 ^ 2" "mi < 10 ^ 2" "s < 10 ^ 2"
    and input: "input = stamp_of y mo d h mi s @ tail"
    and frac: "parse_fraction \<lparr>cur_bytes = input, cur_pos = 19\<rparr> =
      Inr (nanos, \<lparr>cur_bytes = input, cur_pos = q\<rparr>)"
    and off: "parse_offset \<lparr>cur_bytes = input, cur_pos = q\<rparr> =
      Inr (0, \<lparr>cur_bytes = input, cur_pos = length input\<rparr>)"
    and valid: "1 \<le> mo" "mo \<le> 12" "1 \<le> d" "int d \<le> days_in_month (int y) (int mo)"
      "h \<le> 23" "mi \<le> 59" "s \<le> 59"
  shows "parse_rfc3339 input = Inr ((days_from_civil (int y) (int mo) (int d) * 86400
    + int h * 3600 + int mi * 60 + int s) * 1000000000 + nanos)"
proof -
  define Y where "Y = pad0 4 (dec y)"
  define MO where "MO = pad0 2 (dec mo)"
  define D where "D = pad0 2 (dec d)"
  define H where "H = pad0 2 (dec h)"
  define MI where "MI = pad0 2 (dec mi)"
  define S where "S = pad0 2 (dec s)"
  note defs = Y_def MO_def D_def H_def MI_def S_def
  have lens: "length Y = 4" "length MO = 2" "length D = 2" "length H = 2" "length MI = 2" "length S = 2"
    unfolding defs using len by (simp_all add: pad0_length)
  have inp: "input = Y @ ''-'' @ MO @ ''-'' @ D @ ''T'' @ H @ '':'' @ MI @ '':'' @ S @ tail"
    by (simp add: input defs)
  let ?c = "\<lambda>p. \<lparr>cur_bytes = input, cur_pos = p\<rparr>"
  have c1: "cur_digits 4 e (?c 0) = Inr (y, ?c 4)" for e
    using cur_digits_pad0 [OF len(1), of e "[]" "''-'' @ MO @ ''-'' @ D @ ''T'' @ H @ '':'' @ MI @ '':'' @ S @ tail"]
    by (simp add: inp lens flip: Y_def)
  have c2: "cur_expect CHR ''-'' e (?c 4) = Inr (?c 5)" for e
    using cur_expect_at [of "CHR ''-''" e Y "MO @ ''-'' @ D @ ''T'' @ H @ '':'' @ MI @ '':'' @ S @ tail"]
    by (simp add: inp lens)
  have c3: "cur_digits 2 e (?c 5) = Inr (mo, ?c 7)" for e
    using cur_digits_pad0 [OF len(2), of e "Y @ ''-''" "''-'' @ D @ ''T'' @ H @ '':'' @ MI @ '':'' @ S @ tail"]
    by (simp add: inp lens flip: MO_def)
  have c4: "cur_expect CHR ''-'' e (?c 7) = Inr (?c 8)" for e
    using cur_expect_at [of "CHR ''-''" e "Y @ ''-'' @ MO" "D @ ''T'' @ H @ '':'' @ MI @ '':'' @ S @ tail"]
    by (simp add: inp lens)
  have c5: "cur_digits 2 e (?c 8) = Inr (d, ?c 10)" for e
    using cur_digits_pad0 [OF len(3), of e "Y @ ''-'' @ MO @ ''-''" "''T'' @ H @ '':'' @ MI @ '':'' @ S @ tail"]
    by (simp add: inp lens flip: D_def)
  have c6: "cur_peek (?c 10) = Some CHR ''T''" "cur_bump (?c 10) = ?c 11"
    using cur_peek_at(1) [of "Y @ ''-'' @ MO @ ''-'' @ D" "CHR ''T''" "H @ '':'' @ MI @ '':'' @ S @ tail"]
    by (simp_all add: inp lens cur_bump_def)
  have c7: "cur_digits 2 e (?c 11) = Inr (h, ?c 13)" for e
    using cur_digits_pad0 [OF len(4), of e "Y @ ''-'' @ MO @ ''-'' @ D @ ''T''" "'':'' @ MI @ '':'' @ S @ tail"]
    by (simp add: inp lens flip: H_def)
  have c8: "cur_expect CHR '':'' e (?c 13) = Inr (?c 14)" for e
    using cur_expect_at [of "CHR '':''" e "Y @ ''-'' @ MO @ ''-'' @ D @ ''T'' @ H" "MI @ '':'' @ S @ tail"]
    by (simp add: inp lens)
  have c9: "cur_digits 2 e (?c 14) = Inr (mi, ?c 16)" for e
    using cur_digits_pad0 [OF len(5), of e "Y @ ''-'' @ MO @ ''-'' @ D @ ''T'' @ H @ '':''" "'':'' @ S @ tail"]
    by (simp add: inp lens flip: MI_def)
  have c10: "cur_expect CHR '':'' e (?c 16) = Inr (?c 17)" for e
    using cur_expect_at [of "CHR '':''" e "Y @ ''-'' @ MO @ ''-'' @ D @ ''T'' @ H @ '':'' @ MI" "S @ tail"]
    by (simp add: inp lens)
  have c11: "cur_digits 2 e (?c 17) = Inr (s, ?c 19)" for e
    using cur_digits_pad0 [OF len(6), of e "Y @ ''-'' @ MO @ ''-'' @ D @ ''T'' @ H @ '':'' @ MI @ '':''" tail]
    by (simp add: inp lens flip: S_def)
  show ?thesis
    unfolding parse_rfc3339_def Let_def using valid
    by (simp add: c1 c2 c3 c4 c5 c6 c7 c8 c9 c10 c11 frac off)
qed

lemma length_stamp:
  "y < 10 ^ 4 \<Longrightarrow> mo < 10 ^ 2 \<Longrightarrow> d < 10 ^ 2 \<Longrightarrow> h < 10 ^ 2 \<Longrightarrow> mi < 10 ^ 2 \<Longrightarrow> s < 10 ^ 2 \<Longrightarrow>
   length (stamp_of y mo d h mi s) = 19"
  by (simp add: pad0_length)

lemma days_in_month_le_31: "days_in_month y m \<le> 31"
  by (simp add: days_in_month_def)

lemma seconds_of_day:
  fixes sod :: int
  assumes "0 \<le> sod" "sod < 86400"
  shows "sod sdiv 3600 * 3600 + (sod smod 3600) sdiv 60 * 60 + sod smod 60 = sod"
    "0 \<le> sod sdiv 3600" "sod sdiv 3600 \<le> 23" "0 \<le> (sod smod 3600) sdiv 60"
    "(sod smod 3600) sdiv 60 \<le> 59" "0 \<le> sod smod 60" "sod smod 60 \<le> 59"
proof -
  have e: "sod sdiv 3600 = sod div 3600" "sod smod 3600 = sod mod 3600" "sod smod 60 = sod mod 60"
    "(sod mod 3600) sdiv 60 = sod mod 3600 div 60"
    using assms by (simp_all add: sdiv_nonneg smod_nonneg)
  have "sod mod 3600 mod 60 = sod mod 60" by (rule mod_mod_cancel) simp
  then have "sod mod 3600 div 60 * 60 + sod mod 60 = sod mod 3600"
    using div_mult_mod_eq [of "sod mod 3600" 60] by simp
  then show "sod sdiv 3600 * 3600 + (sod smod 3600) sdiv 60 * 60 + sod smod 60 = sod"
    unfolding e using div_mult_mod_eq [of sod 3600] by linarith
  have "sod div 3600 < 24" "sod mod 3600 div 60 < 60"
    using assms by (auto intro!: div_less_dividend simp: div_less_iff_less_mult)
  then show "0 \<le> sod sdiv 3600" "sod sdiv 3600 \<le> 23" "0 \<le> (sod smod 3600) sdiv 60"
    "(sod smod 3600) sdiv 60 \<le> 59" "0 \<le> sod smod 60" "sod smod 60 \<le> 59"
    unfolding e using assms by (simp_all add: pos_imp_zdiv_nonneg_iff)
qed

lemma parse_to_rfc3339:
  assumes "to_rfc3339 t = Inr text"
  shows "parse_rfc3339 text = Inr t"
proof -
  define secs nanos where "secs = t div 1000000000" and "nanos = t mod 1000000000"
  define days sod where "days = secs div 86400" and "sod = secs mod 86400"
  obtain y m d where civil: "civil_from_days_wide days = (y, m, d)" by (cases "civil_from_days_wide days") auto
  have date: "valid_date (y, m, d)" "days_from_civil y m d = days"
    using civil_from_days_wide_correct [of days] civil by auto
  have n: "0 \<le> nanos" "nanos < 1000000000" by (simp_all add: nanos_def)
  have sod: "0 \<le> sod" "sod < 86400" by (simp_all add: sod_def)
  note S = seconds_of_day [OF sod]
  define h mi s where "h = sod sdiv 3600" and "mi = (sod smod 3600) sdiv 60" and "s = sod smod 60"
  note S' = S [folded h_def mi_def s_def]
  define tail where "tail = (if nanos = 0 then ''Z'' else ''.'' @ pad0 9 (dec (nat nanos)) @ ''Z'')"
  let ?st = "stamp_of (nat y) (nat m) (nat d) (nat h) (nat mi) (nat s)"
  have y: "0 \<le> y" "y \<le> 9999" and inp: "text = ?st @ tail"
    using assms civil
    unfolding to_rfc3339_def Let_def secs_def [symmetric] nanos_def [symmetric] days_def [symmetric]
      sod_def [symmetric] h_def [symmetric] mi_def [symmetric] s_def [symmetric]
    by (auto simp: tail_def split: if_splits)
  have md: "1 \<le> m" "m \<le> 12" "1 \<le> d" "d \<le> 31" "d \<le> days_in_month y m"
    using date(1) days_in_month_le_31 [of y m] by (auto simp: valid_date_def)
  have r: "nat y < 10 ^ 4" "nat m < 10 ^ 2" "nat d < 10 ^ 2" "nat h < 10 ^ 2" "nat mi < 10 ^ 2"
    "nat s < 10 ^ 2"
    using y md S' by auto
  have len: "length ?st = 19" by (rule length_stamp [OF r])
  define q where "q = length text - 1"
  have fo: "parse_fraction \<lparr>cur_bytes = text, cur_pos = 19\<rparr> = Inr (nanos, \<lparr>cur_bytes = text, cur_pos = q\<rparr>)
      \<and> parse_offset \<lparr>cur_bytes = text, cur_pos = q\<rparr> = Inr (0, \<lparr>cur_bytes = text, cur_pos = length text\<rparr>)"
  proof (cases "nanos = 0")
    case True
    then have "text = ?st @ ''Z''" "q = 19" using inp len by (simp_all add: tail_def q_def)
    then show ?thesis
      using parse_fraction_none [of "CHR ''Z''" ?st "[]"] parse_offset_Z [of ?st "[]"] len True
      by (simp del: append_assoc)
  next
    case False
    let ?f = "?st @ CHR ''.'' # pad0 9 (dec (nat nanos))"
    have nn: "nat nanos < 10 ^ 9" using n by simp
    have "text = ?f @ ''Z''" and lf: "length ?f = 29"
      using inp False len pad0_length [OF _ nn] by (simp_all add: tail_def)
    then show ?thesis
      using parse_fraction_nanos [OF nn, of "CHR ''Z''" ?st "[]"] parse_offset_Z [of ?f "[]"] len n
      by (simp add: q_def is_ascii_digit_def)
  qed
  have "parse_rfc3339 text = Inr ((days_from_civil (int (nat y)) (int (nat m)) (int (nat d)) * 86400
      + int (nat h) * 3600 + int (nat mi) * 60 + int (nat s)) * 1000000000 + nanos)"
    using fo y md S' by (intro parse_stamp [OF r inp]) auto
  also have "\<dots> = Inr ((days * 86400 + sod) * 1000000000 + nanos)"
    using y md S' date(2) by simp
  also have "(days * 86400 + sod) * 1000000000 + nanos = t"
    by (simp add: days_def sod_def secs_def nanos_def)
  finally show ?thesis .
qed

section \<open>Properties\<close>

text \<open>C26: An instant prints as RFC 3339 text that parses back to exactly that instant,
  nanoseconds included; the only instants that do not print are those whose civil year
  is outside 0000 to 9999, and the error names that year.\<close>

theorem rfc3339_round_trip:
  "case to_rfc3339 t of
     Inr s \<Rightarrow> parse_rfc3339 s = Inr t
   | Inl year \<Rightarrow> year = fst (civil_from_days_wide (t div 1000000000 div 86400))
       \<and> \<not> (0 \<le> year \<and> year \<le> 9999)"
proof (cases "to_rfc3339 t")
  case (Inl year)
  then show ?thesis
    by (auto simp: to_rfc3339_def Let_def split: prod.splits if_splits)
next
  case (Inr s)
  then show ?thesis by (simp add: parse_to_rfc3339)
qed

end
