(* ===== verification/BTree.thy ===== *)
theory BTree
  imports Prelude
begin

text \<open>
  The ordered collections of Rust's standard library, as the sources use them:
  \<open>BTreeSet\<close> is the strictly ascending list of its elements, \<open>BTreeMap\<close> the association
  list strictly ascending in its keys. Iteration order is list order. The interfaces
  \<open>ordered_set\<close> and \<open>ordered_map\<close> state what the components rely on; both are
  interpreted here on the executable definitions.
\<close>

section \<open>Sets\<close>

type_synonym 'a bset = "'a list"

definition bs_wf :: "'a::linorder bset \<Rightarrow> bool" where
  "bs_wf s \<longleftrightarrow> sorted_wrt (<) s"

definition bs_insert :: "'a::linorder \<Rightarrow> 'a bset \<Rightarrow> 'a bset" where
  "bs_insert x s = filter (\<lambda>y. y < x) s @ x # filter (\<lambda>y. x < y) s"

definition bs_remove :: "'a::linorder \<Rightarrow> 'a bset \<Rightarrow> 'a bset" where
  "bs_remove x s = filter (\<lambda>y. y \<noteq> x) s"

definition bs_contains :: "'a::linorder bset \<Rightarrow> 'a \<Rightarrow> bool" where
  "bs_contains s x \<longleftrightarrow> x \<in> set s"

definition bs_first :: "'a::linorder bset \<Rightarrow> 'a option" where
  "bs_first s = (case s of [] \<Rightarrow> None | x # _ \<Rightarrow> Some x)"

text \<open>\<open>range((Excluded(x), Unbounded)).next()\<close>\<close>

definition bs_next_after :: "'a::linorder bset \<Rightarrow> 'a \<Rightarrow> 'a option" where
  "bs_next_after s x = bs_first (filter (\<lambda>y. x < y) s)"

text \<open>\<open>range(..=x)\<close>\<close>

definition bs_upto :: "'a::linorder bset \<Rightarrow> 'a \<Rightarrow> 'a list" where
  "bs_upto s x = filter (\<lambda>y. y \<le> x) s"

text \<open>\<open>collect::<BTreeSet<_>>()\<close>\<close>

definition bs_of_list :: "'a::linorder list \<Rightarrow> 'a bset" where
  "bs_of_list xs = foldl (\<lambda>s x. bs_insert x s) [] xs"

lemma bs_wf_Nil [simp]: "bs_wf []"
  by (simp add: bs_wf_def)

lemma set_bs_insert [simp]: "set (bs_insert x s) = insert x (set s)"
  by (auto simp: bs_insert_def)

lemma set_bs_remove [simp]: "set (bs_remove x s) = set s - {x}"
  by (auto simp: bs_remove_def)

lemma bs_contains_iff [simp]: "bs_contains s x \<longleftrightarrow> x \<in> set s"
  by (simp add: bs_contains_def)

lemma bs_wf_insert [intro]: "bs_wf s \<Longrightarrow> bs_wf (bs_insert x s)"
  by (auto simp: bs_wf_def bs_insert_def sorted_wrt_append sorted_wrt_filter)

lemma bs_wf_remove [intro]: "bs_wf s \<Longrightarrow> bs_wf (bs_remove x s)"
  by (simp add: bs_wf_def bs_remove_def sorted_wrt_filter)

lemma bs_wf_filter [intro]: "bs_wf s \<Longrightarrow> bs_wf (filter P s)"
  by (simp add: bs_wf_def sorted_wrt_filter)

lemma bs_wf_ConsD: "bs_wf (x # s) \<Longrightarrow> bs_wf s \<and> (\<forall>y\<in>set s. x < y)"
  by (auto simp: bs_wf_def)

lemma bs_wf_distinct: "bs_wf s \<Longrightarrow> distinct s"
  by (simp add: bs_wf_def sorted_wrt_less_distinct)

lemma bs_ext: "bs_wf s \<Longrightarrow> bs_wf t \<Longrightarrow> set s = set t \<Longrightarrow> s = t"
  by (simp add: bs_wf_def strict_sorted_equal)

lemma bs_first_eq: "bs_first s = (if s = [] then None else Some (hd s))"
  by (simp add: bs_first_def split: list.split)

lemma bs_first_Some:
  "bs_wf s \<Longrightarrow> bs_first s = Some x \<longleftrightarrow> x \<in> set s \<and> (\<forall>y\<in>set s. x \<le> y)"
proof (cases s)
  case (Cons y ys)
  moreover assume "bs_wf s"
  ultimately show ?thesis
    by (fastforce simp: bs_first_def bs_wf_def dest: order.strict_trans1)
qed (simp add: bs_first_def)

lemma bs_first_None [simp]: "bs_first s = None \<longleftrightarrow> s = []"
  by (simp add: bs_first_def split: list.split)

lemma bs_next_after_Some:
  "bs_wf s \<Longrightarrow> bs_next_after s x = Some y \<longleftrightarrow>
     y \<in> set s \<and> x < y \<and> (\<forall>z\<in>set s. x < z \<longrightarrow> y \<le> z)"
  unfolding bs_next_after_def by (subst bs_first_Some) auto

lemma bs_next_after_None:
  "bs_next_after s x = None \<longleftrightarrow> (\<forall>z\<in>set s. \<not> x < z)"
  by (auto simp: bs_next_after_def filter_empty_conv)

lemma set_bs_of_list_aux: "set (foldl (\<lambda>s x. bs_insert x s) s xs) = set s \<union> set xs"
  by (induction xs arbitrary: s) auto

lemma set_bs_of_list [simp]: "set (bs_of_list xs) = set xs"
  by (simp add: bs_of_list_def set_bs_of_list_aux)

lemma bs_wf_of_list_aux: "bs_wf s \<Longrightarrow> bs_wf (foldl (\<lambda>s x. bs_insert x s) s xs)"
  by (induction xs arbitrary: s) auto

lemma bs_wf_of_list [intro, simp]: "bs_wf (bs_of_list xs)"
  by (simp add: bs_of_list_def bs_wf_of_list_aux)

text \<open>
  What a client of an ordered set relies on: membership after an update, and that
  the iteration order is ascending whatever the order of the updates was.
\<close>

locale ordered_set =
  fixes elems :: "'s \<Rightarrow> 'a::linorder list"
    and ins :: "'a \<Rightarrow> 's \<Rightarrow> 's"
    and rem :: "'a \<Rightarrow> 's \<Rightarrow> 's"
    and wf :: "'s \<Rightarrow> bool"
  assumes set_ins: "set (elems (ins x s)) = insert x (set (elems s))"
    and set_rem: "set (elems (rem x s)) = set (elems s) - {x}"
    and wf_ins: "wf s \<Longrightarrow> wf (ins x s)"
    and wf_rem: "wf s \<Longrightarrow> wf (rem x s)"
    and ascending: "wf s \<Longrightarrow> sorted_wrt (<) (elems s)"
begin

lemma elems_eq_sorted_list:
  assumes "wf s"
  shows "elems s = sorted_list_of_set (set (elems s))"
  by (rule strict_sorted_equal)
    (use ascending [OF assms] in \<open>auto simp: strict_sorted_list_of_set\<close>)

lemma elems_by_set:
  "wf s \<Longrightarrow> wf t \<Longrightarrow> set (elems s) = set (elems t) \<Longrightarrow> elems s = elems t"
  using elems_eq_sorted_list by metis

lemma ins_rem_fresh:
  "wf s \<Longrightarrow> x \<notin> set (elems s) \<Longrightarrow> elems (rem x (ins x s)) = elems s"
  by (rule elems_by_set) (auto intro: wf_ins wf_rem simp: set_ins set_rem)

end

interpretation bset: ordered_set "\<lambda>s. s" bs_insert bs_remove bs_wf
  by unfold_locales (auto simp: bs_wf_def bs_insert_def bs_remove_def
      sorted_wrt_append sorted_wrt_filter)

section \<open>Maps\<close>

type_synonym ('k, 'v) bmap = "('k \<times> 'v) list"

definition bm_wf :: "('k::linorder, 'v) bmap \<Rightarrow> bool" where
  "bm_wf m \<longleftrightarrow> sorted_wrt (<) (map fst m)"

abbreviation bm_get :: "('k::linorder, 'v) bmap \<Rightarrow> 'k \<Rightarrow> 'v option" where
  "bm_get \<equiv> map_of"

definition bm_contains :: "('k::linorder, 'v) bmap \<Rightarrow> 'k \<Rightarrow> bool" where
  "bm_contains m k \<longleftrightarrow> bm_get m k \<noteq> None"

definition bm_insert :: "'k::linorder \<Rightarrow> 'v \<Rightarrow> ('k, 'v) bmap \<Rightarrow> ('k, 'v) bmap" where
  "bm_insert k v m = filter (\<lambda>p. fst p < k) m @ (k, v) # filter (\<lambda>p. k < fst p) m"

definition bm_remove :: "'k::linorder \<Rightarrow> ('k, 'v) bmap \<Rightarrow> ('k, 'v) bmap" where
  "bm_remove k m = filter (\<lambda>p. fst p \<noteq> k) m"

definition bm_keys :: "('k::linorder, 'v) bmap \<Rightarrow> 'k list" where
  "bm_keys m = map fst m"

definition bm_values :: "('k::linorder, 'v) bmap \<Rightarrow> 'v list" where
  "bm_values m = map snd m"

lemma bm_wf_Nil [simp]: "bm_wf []"
  by (simp add: bm_wf_def)

lemma map_of_filter_key:
  "map_of (filter (\<lambda>p. P (fst p)) m) j = (if P j then map_of m j else None)"
  by (induction m) auto

lemmas map_of_filter_keys =
  map_of_filter_key [where P = "\<lambda>j. j < k" for k]
  map_of_filter_key [where P = "\<lambda>j. k < j" for k]
  map_of_filter_key [where P = "\<lambda>j. j \<noteq> k" for k]

lemma bm_get_insert [simp]: "bm_get (bm_insert k v m) = (bm_get m)(k \<mapsto> v)"
proof
  fix j
  show "bm_get (bm_insert k v m) j = ((bm_get m)(k \<mapsto> v)) j"
    by (cases j k rule: linorder_cases)
      (auto simp: bm_insert_def map_add_def map_of_filter_keys split: option.split)
qed

lemma bm_get_remove [simp]: "bm_get (bm_remove k m) = (bm_get m)(k := None)"
  by (rule ext) (auto simp: bm_remove_def map_of_filter_keys)

lemma bm_contains_iff: "bm_contains m k \<longleftrightarrow> k \<in> fst ` set m"
  by (simp add: bm_contains_def map_of_eq_None_iff)

lemma bm_wf_insert [intro]: "bm_wf m \<Longrightarrow> bm_wf (bm_insert k v m)"
  by (auto simp: bm_wf_def bm_insert_def sorted_wrt_append sorted_wrt_map sorted_wrt_filter)

lemma bm_wf_remove [intro]: "bm_wf m \<Longrightarrow> bm_wf (bm_remove k m)"
  by (auto simp: bm_wf_def bm_remove_def sorted_wrt_map sorted_wrt_filter)

lemma bm_wf_filter [intro]: "bm_wf m \<Longrightarrow> bm_wf (filter P m)"
  by (auto simp: bm_wf_def sorted_wrt_map sorted_wrt_filter)

lemma bm_wf_distinct: "bm_wf m \<Longrightarrow> distinct (map fst m)"
  by (simp add: bm_wf_def sorted_wrt_less_distinct)

lemma bm_get_eq_Some: "bm_wf m \<Longrightarrow> bm_get m k = Some v \<longleftrightarrow> (k, v) \<in> set m"
  by (simp add: bm_wf_distinct)

lemma set_bm_remove: "set (bm_remove k m) = {p \<in> set m. fst p \<noteq> k}"
  by (simp add: bm_remove_def)

lemma set_bm_insert: "set (bm_insert k v m) = insert (k, v) {p \<in> set m. fst p \<noteq> k}"
  by (auto simp: bm_insert_def)

lemma bm_remove_absent: "k \<notin> fst ` set m \<Longrightarrow> bm_remove k m = m"
  by (force simp: bm_remove_def filter_id_conv)

lemma bm_insert_Nil [simp]: "bm_insert k v [] = [(k, v)]"
  by (simp add: bm_insert_def)

lemma bm_insert_not_Nil [simp]: "bm_insert k v m \<noteq> []"
  by (simp add: bm_insert_def)

lemma length_bm_insert:
  assumes "bm_wf m"
  shows "length (bm_insert k v m) = (if bm_contains m k then length m else Suc (length m))"
proof -
  have d: "distinct (map fst (bm_insert k v m))" "distinct (map fst m)"
    using assms by (auto intro: bm_wf_distinct)
  have "fst ` set (bm_insert k v m) = insert k (fst ` set m)"
    by (auto simp: set_bm_insert image_iff)
  with d have "length (map fst (bm_insert k v m)) = card (insert k (fst ` set m))"
    by (metis distinct_card set_map)
  moreover have "length (map fst m) = card (fst ` set m)"
    using d by (metis distinct_card set_map)
  ultimately show ?thesis
    by (auto simp: bm_contains_iff card_insert_if)
qed

lemma map_of_eqI:
  assumes "bm_wf m" "bm_wf n" "bm_get m = bm_get n"
  shows "m = n"
proof (rule map_sorted_distinct_set_unique [where f = fst])
  have "set m = set n"
    using assms by (auto simp flip: bm_get_eq_Some)
  then show "inj_on fst (set m \<union> set n)"
    using assms(1) by (auto simp: distinct_map dest: bm_wf_distinct)
  show "set m = set n" by fact
qed (use assms in \<open>auto simp: bm_wf_def strict_sorted_iff dest: bm_wf_distinct\<close>)

lemma bm_remove_insert:
  "bm_wf m \<Longrightarrow> bm_get m k = Some v \<Longrightarrow> bm_insert k v (bm_remove k m) = m"
  by (rule map_of_eqI) auto

lemma bm_insert_insert:
  "bm_wf m \<Longrightarrow> bm_insert k v (bm_insert k w m) = bm_insert k v m"
  by (rule map_of_eqI) auto

text \<open>What a client of an ordered map relies on.\<close>

locale ordered_map =
  fixes entries :: "'m \<Rightarrow> ('k::linorder \<times> 'v) list"
    and get :: "'m \<Rightarrow> 'k \<Rightarrow> 'v option"
    and ins :: "'k \<Rightarrow> 'v \<Rightarrow> 'm \<Rightarrow> 'm"
    and rem :: "'k \<Rightarrow> 'm \<Rightarrow> 'm"
    and wf :: "'m \<Rightarrow> bool"
  assumes get_entries: "wf m \<Longrightarrow> get m = map_of (entries m)"
    and get_ins: "wf m \<Longrightarrow> get (ins k v m) = (get m)(k \<mapsto> v)"
    and get_rem: "wf m \<Longrightarrow> get (rem k m) = (get m)(k := None)"
    and wf_ins: "wf m \<Longrightarrow> wf (ins k v m)"
    and wf_rem: "wf m \<Longrightarrow> wf (rem k m)"
    and keys_ascending: "wf m \<Longrightarrow> sorted_wrt (<) (map fst (entries m))"
begin

lemma entries_by_get:
  "wf m \<Longrightarrow> wf n \<Longrightarrow> get m = get n \<Longrightarrow> entries m = entries n"
  by (rule map_of_eqI) (auto simp: bm_wf_def keys_ascending get_entries [symmetric])

lemma rem_ins: "wf m \<Longrightarrow> get m k = None \<Longrightarrow> entries (rem k (ins k v m)) = entries m"
  by (rule entries_by_get) (auto intro: wf_ins wf_rem simp: get_ins get_rem wf_ins)

lemma ins_get: "wf m \<Longrightarrow> get m k = Some v \<Longrightarrow> entries (ins k v m) = entries m"
  by (rule entries_by_get) (auto intro: wf_ins simp: get_ins)

end

interpretation bmap: ordered_map "\<lambda>m. m" map_of bm_insert bm_remove bm_wf
  by unfold_locales (auto simp: bm_wf_def [symmetric])

end
