(* ===== verification/Event_Record.thy ===== *)
theory Event_Record
  imports Logical_Time
begin

text \<open>
  Delivery of one event (crates/fireemu-core-events: event.rs, retry.rs, state.rs):
  the event type syntax, the retry policy with its backoff, and the delivery state
  machine of a record. Attempts are \<open>u32\<close>, event ids \<open>u128\<close>, epochs \<open>u64\<close>.
\<close>

section \<open>Events\<close>

datatype event_source = Database | Firestore | Storage | Scheduler | Manual | PubSub | Auth | Eventarc

datatype event_type_error = EtEmpty | EtTooLong | EtInvalidCharacter nat

definition event_type_max_bytes :: nat where
  "event_type_max_bytes = 256"

definition event_type_try_new :: "string \<Rightarrow> (event_type_error, string) result" where
  "event_type_try_new value =
     (if value = [] then Err EtEmpty
      else if length value > event_type_max_bytes then Err EtTooLong
      else case position (\<lambda>b. \<not> (is_ascii_alphanumeric b \<or> b = CHR ''.'' \<or> b = CHR ''_'' \<or> b = CHR ''-'')) value of
             Some offset \<Rightarrow> Err (EtInvalidCharacter offset)
           | None \<Rightarrow> Ok value)"

record logical_event =
  ev_event_id :: nat
  ev_session_id :: nat
  ev_epoch :: nat
  ev_source :: event_source
  ev_event_type :: string
  ev_subject :: string
  ev_logical_time :: logical_instant
  ev_causation_id :: "nat option"
  ev_correlation_id :: nat
  ev_payload :: "8 word list"

section \<open>Retry policy\<close>

record retry_policy =
  rp_max_attempts :: nat
  rp_base_backoff :: logical_duration
  rp_max_backoff :: logical_duration
  rp_max_doublings :: "nat option"
  rp_max_retry_duration :: "logical_duration option"

datatype retry_policy_error = ZeroAttempts | NegativeBackoff | BaseExceedsMax

definition retry_try_new ::
  "nat \<Rightarrow> logical_duration \<Rightarrow> logical_duration \<Rightarrow> (retry_policy_error, retry_policy) result" where
  "retry_try_new max_attempts base_backoff max_backoff =
     (if max_attempts = 0 then Err ZeroAttempts
      else if base_backoff < 0 \<or> max_backoff < 0 then Err NegativeBackoff
      else if base_backoff > max_backoff then Err BaseExceedsMax
      else Ok \<lparr>rp_max_attempts = max_attempts, rp_base_backoff = base_backoff,
               rp_max_backoff = max_backoff, rp_max_doublings = None,
               rp_max_retry_duration = None\<rparr>)"

definition retry_try_with_limits ::
  "nat \<Rightarrow> logical_duration \<Rightarrow> logical_duration \<Rightarrow> nat \<Rightarrow> logical_duration option
   \<Rightarrow> (retry_policy_error, retry_policy) result" where
  "retry_try_with_limits max_attempts base_backoff max_backoff max_doublings max_retry_duration =
     (if is_some_and (\<lambda>duration. duration < 0) max_retry_duration then Err NegativeBackoff
      else and_then (retry_try_new max_attempts base_backoff max_backoff) (\<lambda>policy.
             Ok (policy\<lparr>rp_max_doublings := Some max_doublings,
                       rp_max_retry_duration := max_retry_duration\<rparr>)))"

definition linear_step_nanos :: int where
  "linear_step_nanos = 2000000000"

definition backoff_for_attempt :: "retry_policy \<Rightarrow> nat \<Rightarrow> logical_duration" where
  "backoff_for_attempt p attempt =
     (let base = rp_base_backoff p;
          cap = rp_max_backoff p;
          shift = attempt - 1;
          doublings = (case rp_max_doublings p of None \<Rightarrow> shift | Some limit \<Rightarrow> min shift limit);
          exponential = (if doublings < 120 then checked_i 128 (base * 2 ^ doublings) else None);
          linear_steps = shift - doublings;
          scaled = Option.bind exponential (\<lambda>unit.
            checked_i 128 (unit + saturating_i 128 (linear_step_nanos * int linear_steps)))
      in case scaled of None \<Rightarrow> cap | Some v \<Rightarrow> min v cap)"

definition allows_retry_after :: "retry_policy \<Rightarrow> nat \<Rightarrow> bool" where
  "allows_retry_after p attempt \<longleftrightarrow> attempt < rp_max_attempts p"

definition allows_retry_after_elapsed :: "retry_policy \<Rightarrow> nat \<Rightarrow> logical_duration \<Rightarrow> bool" where
  "allows_retry_after_elapsed p attempt elapsed \<longleftrightarrow>
     (if allows_retry_after p attempt then True
      else is_some_and (\<lambda>limit.
             is_some_and (\<lambda>next. next \<le> limit)
               (duration_checked_add elapsed (backoff_for_attempt p attempt)))
           (rp_max_retry_duration p))"

section \<open>The delivery state machine\<close>

datatype event_state =
    Pending
  | Leased
  | Running
  | Succeeded
  | RetryWaiting (retry_at: logical_instant)
  | DeadLettered nat
  | Cancelled
  | DiscardedStaleEpoch

fun is_terminal :: "event_state \<Rightarrow> bool" where
  "is_terminal Succeeded = True"
| "is_terminal (DeadLettered _) = True"
| "is_terminal Cancelled = True"
| "is_terminal DiscardedStaleEpoch = True"
| "is_terminal _ = False"

fun state_name :: "event_state \<Rightarrow> string" where
  "state_name Pending = ''Pending''"
| "state_name Leased = ''Leased''"
| "state_name Running = ''Running''"
| "state_name Succeeded = ''Succeeded''"
| "state_name (RetryWaiting _) = ''RetryWaiting''"
| "state_name (DeadLettered _) = ''DeadLettered''"
| "state_name Cancelled = ''Cancelled''"
| "state_name DiscardedStaleEpoch = ''DiscardedStaleEpoch''"

datatype event_transition_error =
    Terminal string
  | InvalidTransition string string
  | RetryNotDue
  | EpochIsCurrent
  | AttemptOverflow
  | RetryInstantOverflow

datatype failure_outcome = RetryScheduled logical_instant | OutcomeDeadLettered

record event_record =
  er_event :: logical_event
  er_state :: event_state
  er_attempt :: nat

definition er_new :: "logical_event \<Rightarrow> event_record" where
  "er_new event = \<lparr>er_event = event, er_state = Pending, er_attempt = 0\<rparr>"

abbreviation er_terminal :: "event_record \<Rightarrow> bool" where
  "er_terminal r \<equiv> is_terminal (er_state r)"

definition er_guard :: "event_record \<Rightarrow> string \<Rightarrow> bool \<Rightarrow> (event_transition_error, unit) result" where
  "er_guard r action allowed =
     (if is_terminal (er_state r) then Err (Terminal (state_name (er_state r)))
      else if \<not> allowed then Err (InvalidTransition (state_name (er_state r)) action)
      else Ok ())"

text \<open>Every operation returns its result and the record it leaves.\<close>

type_synonym 'a record_op = "event_record \<Rightarrow> (event_transition_error, 'a) result \<times> event_record"

definition er_lease :: "unit record_op" where
  [op_defs]: "er_lease r =
     (case er_guard r ''lease'' (er_state r = Pending) of
        Inl e \<Rightarrow> (Err e, r)
      | Inr _ \<Rightarrow> (Ok (), r\<lparr>er_state := Leased\<rparr>))"

definition er_start :: "unit record_op" where
  [op_defs]: "er_start r =
     (case er_guard r ''start'' (er_state r = Leased) of
        Inl e \<Rightarrow> (Err e, r)
      | Inr _ \<Rightarrow>
          (case checked_add_u 32 (er_attempt r) 1 of
             None \<Rightarrow> (Err AttemptOverflow, r)
           | Some a \<Rightarrow> (Ok (), r\<lparr>er_attempt := a, er_state := Running\<rparr>)))"

definition er_succeed :: "unit record_op" where
  [op_defs]: "er_succeed r =
     (case er_guard r ''succeed'' (er_state r = Running) of
        Inl e \<Rightarrow> (Err e, r)
      | Inr _ \<Rightarrow> (Ok (), r\<lparr>er_state := Succeeded\<rparr>))"

definition er_fail :: "retry_policy \<Rightarrow> logical_instant \<Rightarrow> failure_outcome record_op" where
  [op_defs]: "er_fail policy now r =
     (case er_guard r ''fail'' (er_state r = Running) of
        Inl e \<Rightarrow> (Err e, r)
      | Inr _ \<Rightarrow>
          (let created = ev_logical_time (er_event r);
               elapsed = (if now < created then 0
                          else case checked_duration_since now created of
                                 Some d \<Rightarrow> d
                               | None \<Rightarrow> i_max 128)
           in if allows_retry_after_elapsed policy (er_attempt r) elapsed then
                (case instant_checked_add now (backoff_for_attempt policy (er_attempt r)) of
                   None \<Rightarrow> (Err RetryInstantOverflow, r)
                 | Some at \<Rightarrow> (Ok (RetryScheduled at), r\<lparr>er_state := RetryWaiting at\<rparr>))
              else (Ok OutcomeDeadLettered, r\<lparr>er_state := DeadLettered (er_attempt r)\<rparr>)))"

definition er_interrupt :: "unit record_op" where
  [op_defs]: "er_interrupt r =
     (case er_guard r ''interrupt'' (er_state r = Running) of
        Inl e \<Rightarrow> (Err e, r)
      | Inr _ \<Rightarrow> (Ok (), r\<lparr>er_attempt := er_attempt r - 1, er_state := Pending\<rparr>))"

definition er_retry_due :: "logical_instant \<Rightarrow> unit record_op" where
  [op_defs]: "er_retry_due now r =
     (case er_guard r ''retry'' (case er_state r of RetryWaiting _ \<Rightarrow> True | _ \<Rightarrow> False) of
        Inl e \<Rightarrow> (Err e, r)
      | Inr _ \<Rightarrow>
          (if (case er_state r of RetryWaiting at \<Rightarrow> now < at | _ \<Rightarrow> False)
           then (Err RetryNotDue, r)
           else (Ok (), r\<lparr>er_state := Pending\<rparr>)))"

definition er_cancel :: "unit record_op" where
  [op_defs]: "er_cancel r =
     (case er_guard r ''cancel'' True of
        Inl e \<Rightarrow> (Err e, r)
      | Inr _ \<Rightarrow> (Ok (), r\<lparr>er_state := Cancelled\<rparr>))"

definition er_discard_stale :: "nat \<Rightarrow> unit record_op" where
  [op_defs]: "er_discard_stale current_epoch r =
     (case er_guard r ''discard'' True of
        Inl e \<Rightarrow> (Err e, r)
      | Inr _ \<Rightarrow>
          (if ev_epoch (er_event r) \<ge> current_epoch then (Err EpochIsCurrent, r)
           else (Ok (), r\<lparr>er_state := DiscardedStaleEpoch\<rparr>)))"

text \<open>The operations as actions of a machine.\<close>

datatype er_action =
    ALease
  | AStart
  | ASucceed
  | AFail retry_policy logical_instant
  | AInterrupt
  | ARetryDue logical_instant
  | ACancel
  | ADiscardStale nat

fun er_apply :: "er_action \<Rightarrow> failure_outcome option record_op" where
  "er_apply ALease r = map_prod (map_sum id (\<lambda>_. None)) id (er_lease r)"
| "er_apply AStart r = map_prod (map_sum id (\<lambda>_. None)) id (er_start r)"
| "er_apply ASucceed r = map_prod (map_sum id (\<lambda>_. None)) id (er_succeed r)"
| "er_apply (AFail p now) r = map_prod (map_sum id Some) id (er_fail p now r)"
| "er_apply AInterrupt r = map_prod (map_sum id (\<lambda>_. None)) id (er_interrupt r)"
| "er_apply (ARetryDue now) r = map_prod (map_sum id (\<lambda>_. None)) id (er_retry_due now r)"
| "er_apply ACancel r = map_prod (map_sum id (\<lambda>_. None)) id (er_cancel r)"
| "er_apply (ADiscardStale e) r = map_prod (map_sum id (\<lambda>_. None)) id (er_discard_stale e r)"

definition er_step :: "event_record \<Rightarrow> er_action \<Rightarrow> event_record" where
  "er_step r a = snd (er_apply a r)"

section \<open>Lemmas on the policy\<close>

text \<open>What the constructors guarantee (the values also fit their Rust types).\<close>

definition rp_wf :: "retry_policy \<Rightarrow> bool" where
  "rp_wf p \<longleftrightarrow> 1 \<le> rp_max_attempts p \<and> 0 \<le> rp_base_backoff p
     \<and> rp_base_backoff p \<le> rp_max_backoff p \<and> rp_max_backoff p \<le> i_max 128"

lemma retry_try_new_wf:
  "retry_try_new n b m = Inr p \<Longrightarrow> m \<le> i_max 128 \<Longrightarrow> rp_wf p"
  by (auto simp: retry_try_new_def rp_wf_def split: if_splits)

lemma retry_try_with_limits_wf:
  "retry_try_with_limits n b m k d = Inr p \<Longrightarrow> m \<le> i_max 128 \<Longrightarrow> rp_wf p"
  by (auto simp: retry_try_with_limits_def and_then_eq_Inr retry_try_new_def rp_wf_def split: if_splits)

text \<open>The backoff the documentation of the function describes, on unbounded integers.\<close>

definition doublings_of :: "retry_policy \<Rightarrow> nat \<Rightarrow> nat" where
  "doublings_of p attempt =
     (case rp_max_doublings p of None \<Rightarrow> attempt - 1 | Some limit \<Rightarrow> min (attempt - 1) limit)"

definition ideal_backoff :: "retry_policy \<Rightarrow> nat \<Rightarrow> int" where
  "ideal_backoff p attempt =
     min (rp_max_backoff p)
         (rp_base_backoff p * 2 ^ doublings_of p attempt
          + 2000000000 * int (attempt - 1 - doublings_of p attempt))"

lemma backoff_unfold:
  "backoff_for_attempt p attempt =
     (case Option.bind
        (if doublings_of p attempt < 120
         then checked_i 128 (rp_base_backoff p * 2 ^ doublings_of p attempt) else None)
        (\<lambda>unit. checked_i 128 (unit + saturating_i 128
           (linear_step_nanos * int (attempt - 1 - doublings_of p attempt))))
      of None \<Rightarrow> rp_max_backoff p | Some v \<Rightarrow> min v (rp_max_backoff p))"
  unfolding backoff_for_attempt_def doublings_of_def Let_def by (rule refl)

lemma linear_part_nonneg: "0 \<le> saturating_i 128 (linear_step_nanos * int k)"
  by (simp add: saturating_i_nonneg linear_step_nanos_def i_max_def)

lemma backoff_bounds:
  assumes "rp_wf p"
  shows "0 \<le> backoff_for_attempt p attempt \<and> backoff_for_attempt p attempt \<le> rp_max_backoff p"
proof -
  have "0 \<le> rp_max_backoff p" "0 \<le> rp_base_backoff p" using assms by (auto simp: rp_wf_def)
  with linear_part_nonneg [of "attempt - 1 - doublings_of p attempt"] show ?thesis
    unfolding backoff_unfold
    by (auto simp del: One_nat_def simp: Option.bind_eq_Some_conv intro!: add_nonneg_nonneg
        split: option.splits if_splits)
qed

lemma capped_checked_sum:
  assumes "0 \<le> u" "0 \<le> lin" "cap < i_max 128"
  shows "(case Option.bind (checked_i 128 u) (\<lambda>unit. checked_i 128 (unit + saturating_i 128 lin))
          of None \<Rightarrow> cap | Some v \<Rightarrow> min v cap) = min cap (u + lin)"
proof -
  define M where "M = i_max 128"
  have sat: "saturating_i 128 lin = min lin M" and cap: "cap < M"
    using assms by (simp_all add: saturating_i_nonneg M_def)
  have c: "checked_i 128 x = (if x \<le> M then Some x else None)" if "0 \<le> x" for x
    using that by (auto simp: checked_i_def i_ok_def i_min_def M_def)
  have "0 \<le> min lin M" using assms by (auto simp: M_def i_max_def)
  then show ?thesis
    using assms(1,2) cap by (cases "u \<le> M"; cases "lin \<le> M") (auto simp: c sat min_def)
qed

lemma backoff_exact:
  assumes wf: "rp_wf p" and pos: "0 < rp_base_backoff p" and cap: "rp_max_backoff p \<le> 2 ^ 120"
  shows "backoff_for_attempt p attempt = ideal_backoff p attempt"
proof -
  define base where "base = rp_base_backoff p"
  define d where "d = doublings_of p attempt"
  define lin where "lin = 2000000000 * int (attempt - 1 - d)"
  have b: "1 \<le> base" using pos by (simp add: base_def)
  have lin: "0 \<le> lin" by (simp add: lin_def)
  have m: "rp_max_backoff p < i_max 128" using cap by (simp add: i_max_def)
  have u: "0 \<le> base * 2 ^ d" using b by simp
  have "backoff_for_attempt p attempt =
      (case Option.bind (if d < 120 then checked_i 128 (base * 2 ^ d) else None)
              (\<lambda>unit. checked_i 128 (unit + saturating_i 128 lin))
       of None \<Rightarrow> rp_max_backoff p | Some v \<Rightarrow> min v (rp_max_backoff p))"
    unfolding backoff_unfold base_def d_def lin_def linear_step_nanos_def by (rule refl)
  also have "\<dots> = min (rp_max_backoff p) (base * 2 ^ d + lin)"
  proof (cases "d < 120")
    case True
    then show ?thesis using capped_checked_sum [OF u lin m] by simp
  next
    case False
    then have "(2::int) ^ 120 \<le> 2 ^ d" by (intro power_increasing) auto
    also have "\<dots> \<le> base * 2 ^ d" using b by simp
    finally have "rp_max_backoff p \<le> base * 2 ^ d" using cap by (rule order_trans [rotated])
    then show ?thesis using False lin by simp
  qed
  finally show ?thesis by (simp only: ideal_backoff_def base_def d_def lin_def)
qed

lemma ideal_backoff_mono:
  assumes "0 \<le> rp_base_backoff p" "i \<le> j"
  shows "ideal_backoff p i \<le> ideal_backoff p j"
proof -
  have d: "doublings_of p i \<le> doublings_of p j"
    and l: "i - 1 - doublings_of p i \<le> j - 1 - doublings_of p j"
    using assms(2) by (auto simp: doublings_of_def split: option.split)
  have "rp_base_backoff p * 2 ^ doublings_of p i \<le> rp_base_backoff p * 2 ^ doublings_of p j"
    using d assms(1) by (intro mult_left_mono power_increasing) auto
  with l show ?thesis unfolding ideal_backoff_def by (intro min.mono) auto
qed

section \<open>Lemmas on the machine\<close>

lemma er_guard_simps:
  "er_terminal r \<Longrightarrow> er_guard r a ok = Inl (Terminal (state_name (er_state r)))"
  "\<not> er_terminal r \<Longrightarrow> er_guard r a ok =
     (if ok then Inr () else Inl (InvalidTransition (state_name (er_state r)) a))"
  by (simp_all add: er_guard_def)

lemma er_apply_terminal:
  "er_terminal r \<Longrightarrow> er_apply a r = (Inl (Terminal (state_name (er_state r))), r)"
  by (cases a) (auto simp: op_defs er_guard_simps)

lemma er_apply_err_unchanged: "fst (er_apply a r) = Inl e \<Longrightarrow> snd (er_apply a r) = r"
  by (cases a) (auto simp: op_defs Let_def split: sum.splits option.splits if_splits)

lemma er_apply_event: "er_event (snd (er_apply a r)) = er_event r"
  by (cases a) (auto simp: op_defs Let_def split: sum.splits option.splits if_splits)

interpretation er_terminal: absorbing_machine er_step er_terminal
  by unfold_locales (simp add: er_step_def er_apply_terminal)

text \<open>The edges of the state diagram, as an operation takes them.\<close>

inductive er_edge :: "event_state \<Rightarrow> er_action \<Rightarrow> event_state \<Rightarrow> bool" where
  edge_lease: "er_edge Pending ALease Leased"
| edge_start: "er_edge Leased AStart Running"
| edge_succeed: "er_edge Running ASucceed Succeeded"
| edge_retry: "er_edge Running (AFail p now) (RetryWaiting at)"
| edge_dead: "er_edge Running (AFail p now) (DeadLettered n)"
| edge_interrupt: "er_edge Running AInterrupt Pending"
| edge_due: "at \<le> now \<Longrightarrow> er_edge (RetryWaiting at) (ARetryDue now) Pending"
| edge_cancel: "\<not> is_terminal s \<Longrightarrow> er_edge s ACancel Cancelled"
| edge_discard: "\<not> is_terminal s \<Longrightarrow> er_edge s (ADiscardStale e) DiscardedStaleEpoch"

lemmas er_edge_intros = er_edge.intros

lemma er_apply_ok_edge:
  "fst (er_apply a r) = Inr x \<Longrightarrow> er_edge (er_state r) a (er_state (snd (er_apply a r)))"
  by (cases a)
     (auto simp: op_defs Let_def er_guard_def intro!: er_edge_intros
       split: sum.splits option.splits if_splits event_state.splits)

section \<open>Attempts\<close>

text \<open>The attempt counter against one policy's limit, in every state.\<close>

definition attempts_ok :: "retry_policy \<Rightarrow> event_record \<Rightarrow> bool" where
  "attempts_ok p r \<longleftrightarrow>
     (case er_state r of
        Pending \<Rightarrow> er_attempt r < rp_max_attempts p
      | Leased \<Rightarrow> er_attempt r < rp_max_attempts p
      | RetryWaiting _ \<Rightarrow> 1 \<le> er_attempt r \<and> er_attempt r < rp_max_attempts p
      | Running \<Rightarrow> 1 \<le> er_attempt r \<and> er_attempt r \<le> rp_max_attempts p
      | DeadLettered n \<Rightarrow> n = rp_max_attempts p \<and> er_attempt r = n
      | _ \<Rightarrow> er_attempt r \<le> rp_max_attempts p)"

definition uses_policy :: "retry_policy \<Rightarrow> er_action \<Rightarrow> bool" where
  "uses_policy p a \<longleftrightarrow> (case a of AFail q _ \<Rightarrow> q = p | _ \<Rightarrow> True)"

definition er_policy_step :: "retry_policy \<Rightarrow> event_record \<Rightarrow> er_action \<Rightarrow> event_record" where
  "er_policy_step p r a = (if uses_policy p a then er_step r a else r)"

lemma attempts_ok_step:
  assumes "rp_max_retry_duration p = None" "attempts_ok p r" "uses_policy p a"
  shows "attempts_ok p (er_step r a)"
  using assms
  by (cases a; cases "er_state r")
     (auto simp: er_step_def op_defs Let_def er_guard_def attempts_ok_def uses_policy_def
       allows_retry_after_elapsed_def allows_retry_after_def is_some_and_def
       split: option.splits if_splits)

interpretation er_attempts: invariant_machine "er_policy_step p"
  "\<lambda>r. rp_max_retry_duration p = None \<longrightarrow> attempts_ok p r" for p
  by unfold_locales (simp add: er_policy_step_def attempts_ok_step)

lemma exec_uses_policy:
  "list_all (uses_policy p) as \<Longrightarrow> exec (er_policy_step p) r as = exec er_step r as"
  by (induction as arbitrary: r) (auto simp: er_policy_step_def)

text \<open>Sample values.\<close>

definition sample_event :: logical_event where
  "sample_event = \<lparr>ev_event_id = 1, ev_session_id = 1, ev_epoch = 0, ev_source = Manual,
     ev_event_type = ''t'', ev_subject = [], ev_logical_time = 0, ev_causation_id = None,
     ev_correlation_id = 1, ev_payload = []\<rparr>"

definition sample_policy :: retry_policy where
  "sample_policy = \<lparr>rp_max_attempts = 2, rp_base_backoff = 1000000000, rp_max_backoff = 60000000000,
     rp_max_doublings = None, rp_max_retry_duration = None\<rparr>"

lemmas er_eval = er_step_def op_defs er_guard_def er_new_def sample_event_def sample_policy_def
  checked_add_u_def u_max_def Let_def allows_retry_after_elapsed_def allows_retry_after_def
  is_some_and_def backoff_for_attempt_def checked_i_def saturating_i_def i_ok_def i_min_def i_max_def
  linear_step_nanos_def instant_checked_add_def checked_duration_since_def

section \<open>Properties\<close>

text \<open>C11: INV-EVENT-001. A terminal delivery never regresses: whatever sequence of
  operations follows, the record is unchanged, and every one of them is refused with an
  error that names the terminal state.\<close>

theorem terminal_never_regresses:
  assumes "er_terminal r"
  shows "exec er_step r as = r
     \<and> fst (er_apply a (exec er_step r as)) = Inl (Terminal (state_name (er_state r)))"
  using assms er_terminal.exec_final [OF assms, of as] by (simp add: er_apply_terminal)

theorem terminal_never_regresses_witness:
  "let r = exec er_step (er_new sample_event) [ALease, AStart, ASucceed]
   in er_state r = Succeeded \<and> exec er_step r [ALease, ACancel, ADiscardStale 5] = r
      \<and> fst (er_apply AStart (exec er_step r [ALease, ACancel, ADiscardStale 5]))
          = Inl (Terminal ''Succeeded'')"
proof -
  define r where "r = exec er_step (er_new sample_event) [ALease, AStart, ASucceed]"
  have s: "er_state r = Succeeded" by (simp add: r_def er_eval)
  show ?thesis
    using terminal_never_regresses [of r "[ALease, ACancel, ADiscardStale 5]" AStart] s
    unfolding Let_def r_def [symmetric] by (auto simp del: exec.simps er_apply.simps)
qed

text \<open>A refused operation changes nothing, and an accepted one follows an edge of the
  state diagram and keeps the event itself.\<close>

theorem record_operation_effect:
  "(case er_apply a r of
      (Inl e, r') \<Rightarrow> r' = r
    | (Inr x, r') \<Rightarrow> er_edge (er_state r) a (er_state r') \<and> er_event r' = er_event r)"
  using er_apply_err_unchanged [of a r] er_apply_ok_edge [of a r] er_apply_event [of a r]
  by (auto split: prod.splits sum.splits)

text \<open>C15: Under a policy without a retry window, whatever happens to a new record, its
  attempts never exceed \<open>max_attempts\<close>, and a dead letter is written after exactly
  \<open>max_attempts\<close> attempts.\<close>

theorem attempts_bounded_by_policy:
  assumes "rp_wf p" "rp_max_retry_duration p = None" "list_all (uses_policy p) as"
  shows "er_attempt (exec er_step (er_new ev) as) \<le> rp_max_attempts p
     \<and> (case er_state (exec er_step (er_new ev) as) of
          DeadLettered n \<Rightarrow> n = rp_max_attempts p | _ \<Rightarrow> True)"
proof -
  have "attempts_ok p (er_new ev)"
    using assms(1) by (simp add: attempts_ok_def er_new_def rp_wf_def)
  then have "attempts_ok p (exec (er_policy_step p) (er_new ev) as)"
    using er_attempts.exec_inv [of p "er_new ev" as] assms(2) by simp
  then have "attempts_ok p (exec er_step (er_new ev) as)"
    using exec_uses_policy [OF assms(3)] by simp
  then show ?thesis by (auto simp: attempts_ok_def split: event_state.splits)
qed

theorem attempts_bounded_by_policy_witness:
  "let as = [ALease, AStart, AFail sample_policy 5, ARetryDue 1000000005, ALease, AStart,
             AFail sample_policy 2000000000]
   in rp_wf sample_policy \<and> er_state (exec er_step (er_new sample_event) as) = DeadLettered 2
      \<and> er_attempt (exec er_step (er_new sample_event) as) \<le> rp_max_attempts sample_policy"
proof -
  define as where "as = [ALease, AStart, AFail sample_policy 5, ARetryDue 1000000005, ALease,
    AStart, AFail sample_policy 2000000000]"
  have wf: "rp_wf sample_policy" by (simp add: rp_wf_def sample_policy_def i_max_def)
  have pol: "rp_max_retry_duration sample_policy = None" by (simp add: sample_policy_def)
  have u: "list_all (uses_policy sample_policy) as" by (simp add: as_def uses_policy_def)
  have st: "er_state (exec er_step (er_new sample_event) as) = DeadLettered 2"
    by (simp add: as_def er_eval)
  show ?thesis
    using attempts_bounded_by_policy [OF wf pol u, of sample_event] wf st
    unfolding as_def Let_def by simp
qed

text \<open>C16: The backoff never overflows and stays between zero and \<open>max_backoff\<close>; for a
  positive base and a cap of at most 2^120 nanoseconds it is exactly the documented
  schedule (doubling, then two seconds more per step, capped) over unbounded integers, so
  it never shrinks from one attempt to the next.\<close>

theorem backoff_schedule:
  assumes "rp_wf p"
  shows "0 \<le> backoff_for_attempt p attempt \<and> backoff_for_attempt p attempt \<le> rp_max_backoff p
     \<and> (0 < rp_base_backoff p \<and> rp_max_backoff p \<le> 2 ^ 120 \<longrightarrow>
          backoff_for_attempt p attempt = ideal_backoff p attempt
          \<and> (attempt \<le> later \<longrightarrow> backoff_for_attempt p attempt \<le> backoff_for_attempt p later))"
  using backoff_bounds [OF assms] backoff_exact [OF assms] ideal_backoff_mono [of p attempt later]
  by auto

theorem backoff_schedule_witness:
  "backoff_for_attempt sample_policy 3 = 4000000000
   \<and> backoff_for_attempt sample_policy 3 \<le> backoff_for_attempt sample_policy 200
   \<and> backoff_for_attempt sample_policy 3 \<le> rp_max_backoff sample_policy"
proof -
  have wf: "rp_wf sample_policy" by (simp add: rp_wf_def sample_policy_def i_max_def)
  have i: "ideal_backoff sample_policy 3 = 4000000000" by code_simp
  show ?thesis
    using backoff_schedule [OF wf, of 3 200] i by (simp add: sample_policy_def)
qed

text \<open>With a zero base the documented schedule is zero forever, but the code jumps to the
  cap once the doubling count reaches 120.\<close>

lemma zero_base_backoff_jumps:
  "let p = \<lparr>rp_max_attempts = 200, rp_base_backoff = 0, rp_max_backoff = 10000000000,
            rp_max_doublings = None, rp_max_retry_duration = None\<rparr>
   in backoff_for_attempt p 120 = 0 \<and> backoff_for_attempt p 121 = 10000000000
      \<and> ideal_backoff p 121 = 0"
  unfolding Let_def
  by (simp add: backoff_for_attempt_def ideal_backoff_def doublings_of_def checked_i_def
      saturating_i_def i_ok_def i_min_def i_max_def)

end
