(* ===== verification/Outbox.thy ===== *)
theory Outbox
  imports BTree Event_Record
begin

text \<open>
  The event outbox of a session (crates/fireemu-core-events/src/outbox.rs): every record by
  id, and five indexes over them, the dispatch order, the same order per queue, the retry
  timers, the active ids and the terminal ids in eviction order. An operation returns
  \<open>None\<close> where the code would panic (the \<open>expect\<close> in \<open>reindex\<close>).
\<close>

section \<open>State and operations\<close>

type_synonym pending_key = "logical_instant \<times> nat"

record outbox =
  ob_records :: "(nat, event_record) bmap"
  ob_pending :: "pending_key bset"
  ob_pending_by_queue :: "(string, pending_key bset) bmap"
  ob_queue_by_id :: "(nat, string) bmap"
  ob_retrying :: "pending_key bset"
  ob_retry_at_by_id :: "(nat, logical_instant) bmap"
  ob_active :: "nat bset"
  ob_terminal :: "nat list"
  ob_terminal_retention :: nat
  ob_evicted :: nat

datatype outbox_error = DuplicateEventId nat | UnknownEventId nat

definition ob_with_terminal_retention :: "nat \<Rightarrow> outbox" where
  "ob_with_terminal_retention retention =
     \<lparr>ob_records = [], ob_pending = [], ob_pending_by_queue = [], ob_queue_by_id = [],
      ob_retrying = [], ob_retry_at_by_id = [], ob_active = [], ob_terminal = [],
      ob_terminal_retention = max retention 1, ob_evicted = 0\<rparr>"

fun evict_loop ::
  "nat \<Rightarrow> nat list \<Rightarrow> (nat, event_record) bmap \<Rightarrow> nat \<Rightarrow> nat list \<times> (nat, event_record) bmap \<times> nat" where
  "evict_loop n [] recs ev = ([], recs, ev)"
| "evict_loop n (oldest # rest) recs ev =
     (if length (oldest # rest) > n
      then evict_loop n rest (bm_remove oldest recs) ((ev + 1) mod 2 ^ 64)
      else (oldest # rest, recs, ev))"

definition evict :: "outbox \<Rightarrow> outbox" where
  "evict ob =
     (case evict_loop (ob_terminal_retention ob) (ob_terminal ob) (ob_records ob) (ob_evicted ob) of
        (t, recs, ev) \<Rightarrow> ob\<lparr>ob_terminal := t, ob_records := recs, ob_evicted := ev\<rparr>)"

text \<open>The two halves of \<open>reindex\<close>: the old entries go, then the entries of the new state
  are made.\<close>

definition clear_queue :: "pending_key \<Rightarrow> string option \<Rightarrow> outbox \<Rightarrow> outbox" where
  "clear_queue key queue ob =
     (case queue of
        None \<Rightarrow> ob
      | Some q \<Rightarrow>
          (case bm_get (ob_pending_by_queue ob) q of
             None \<Rightarrow> ob
           | Some pending \<Rightarrow>
               (let pending = bs_remove key pending
                in if pending = []
                   then ob\<lparr>ob_pending_by_queue := bm_remove q (ob_pending_by_queue ob)\<rparr>
                   else ob\<lparr>ob_pending_by_queue := bm_insert q pending (ob_pending_by_queue ob)\<rparr>)))"

definition clear_retry :: "nat \<Rightarrow> outbox \<Rightarrow> outbox" where
  "clear_retry eid ob =
     (case bm_get (ob_retry_at_by_id ob) eid of
        None \<Rightarrow> ob
      | Some at \<Rightarrow> ob\<lparr>ob_retry_at_by_id := bm_remove eid (ob_retry_at_by_id ob),
                     ob_retrying := bs_remove (at, eid) (ob_retrying ob)\<rparr>)"

definition place :: "pending_key \<Rightarrow> string option \<Rightarrow> event_state \<Rightarrow> outbox \<Rightarrow> outbox option" where
  "place key queue state ob =
     (let eid = snd key
      in case state of
           Pending \<Rightarrow>
             (let ob = ob\<lparr>ob_pending := bs_insert key (ob_pending ob)\<rparr>
              in case queue of
                   None \<Rightarrow> None
                 | Some q \<Rightarrow>
                     (let pending = (case bm_get (ob_pending_by_queue ob) q of Some s \<Rightarrow> s | None \<Rightarrow> [])
                      in Some (ob\<lparr>ob_pending_by_queue :=
                                    bm_insert q (bs_insert key pending) (ob_pending_by_queue ob),
                                  ob_active := bs_insert eid (ob_active ob)\<rparr>)))
         | Leased \<Rightarrow> Some (ob\<lparr>ob_active := bs_insert eid (ob_active ob)\<rparr>)
         | Running \<Rightarrow> Some (ob\<lparr>ob_active := bs_insert eid (ob_active ob)\<rparr>)
         | RetryWaiting at \<Rightarrow>
             Some (ob\<lparr>ob_retrying := bs_insert (at, eid) (ob_retrying ob),
                      ob_retry_at_by_id := bm_insert eid at (ob_retry_at_by_id ob),
                      ob_active := bs_insert eid (ob_active ob)\<rparr>)
         | _ \<Rightarrow>
             (let ob = ob\<lparr>ob_queue_by_id := bm_remove eid (ob_queue_by_id ob)\<rparr>
              in if bs_contains (ob_active ob) eid
                 then Some (evict (ob\<lparr>ob_active := bs_remove eid (ob_active ob),
                                     ob_terminal := ob_terminal ob @ [eid]\<rparr>))
                 else Some ob))"

definition reindex :: "outbox \<Rightarrow> nat \<Rightarrow> outbox option" where
  "reindex ob eid =
     (case bm_get (ob_records ob) eid of
        None \<Rightarrow> Some ob
      | Some record \<Rightarrow>
          (let key = (ev_logical_time (er_event record), eid);
               state = er_state record;
               ob = ob\<lparr>ob_pending := bs_remove key (ob_pending ob)\<rparr>;
               queue = bm_get (ob_queue_by_id ob) eid;
               ob = clear_queue key queue ob;
               ob = clear_retry eid ob
           in place key queue state ob))"

definition enqueue_in_queue ::
  "outbox \<Rightarrow> logical_event \<Rightarrow> string \<Rightarrow> ((outbox_error, unit) result \<times> outbox) option" where
  "enqueue_in_queue ob event queue =
     (let eid = ev_event_id event
      in if bm_contains (ob_records ob) eid then Some (Err (DuplicateEventId eid), ob)
         else (let ob = ob\<lparr>ob_records := bm_insert eid (er_new event) (ob_records ob),
                          ob_queue_by_id := bm_insert eid queue (ob_queue_by_id ob)\<rparr>
               in map_option (\<lambda>ob. (Ok (), ob)) (reindex ob eid)))"

definition enqueue ::
  "outbox \<Rightarrow> logical_event \<Rightarrow> ((outbox_error, unit) result \<times> outbox) option" where
  "enqueue ob event = enqueue_in_queue ob event []"

definition ob_update ::
  "outbox \<Rightarrow> nat \<Rightarrow> (event_record \<Rightarrow> 'r \<times> event_record)
   \<Rightarrow> ((outbox_error, 'r) result \<times> outbox) option" where
  "ob_update ob eid f =
     (case bm_get (ob_records ob) eid of
        None \<Rightarrow> Some (Err (UnknownEventId eid), ob)
      | Some record \<Rightarrow>
          (case f record of
             (out, record') \<Rightarrow>
               map_option (\<lambda>ob. (Ok out, ob))
                 (reindex (ob\<lparr>ob_records := bm_insert eid record' (ob_records ob)\<rparr>) eid)))"

definition dispatchable :: "outbox \<Rightarrow> logical_event list" where
  "dispatchable ob =
     List.map_filter (\<lambda>(_, eid). map_option er_event (bm_get (ob_records ob) eid)) (ob_pending ob)"

definition dispatchable_queue_heads :: "outbox \<Rightarrow> (string \<times> pending_key) list" where
  "dispatchable_queue_heads ob =
     List.map_filter (\<lambda>(queue, pending). map_option (\<lambda>key. (queue, key)) (bs_first pending))
       (ob_pending_by_queue ob)"

definition next_dispatchable_in_queue :: "outbox \<Rightarrow> string \<Rightarrow> pending_key \<Rightarrow> pending_key option" where
  "next_dispatchable_in_queue ob queue after =
     Option.bind (bm_get (ob_pending_by_queue ob) queue) (\<lambda>pending. bs_next_after pending after)"

definition retries_due :: "outbox \<Rightarrow> logical_instant \<Rightarrow> nat list" where
  "retries_due ob now = map snd (bs_upto (ob_retrying ob) (now, u_max 128))"

definition retry_sweep_visits :: "outbox \<Rightarrow> logical_instant \<Rightarrow> nat" where
  "retry_sweep_visits ob now = length (bs_upto (ob_retrying ob) (now, u_max 128))"

definition discard_closure :: "nat \<Rightarrow> event_record \<Rightarrow> bool \<times> event_record" where
  "discard_closure current_epoch r =
     (case er_discard_stale current_epoch r of (res, r') \<Rightarrow> (is_ok res, r'))"

fun discard_loop :: "nat \<Rightarrow> nat list \<Rightarrow> outbox \<Rightarrow> nat \<Rightarrow> (nat \<times> outbox) option" where
  "discard_loop current_epoch [] ob discarded = Some (discarded, ob)"
| "discard_loop current_epoch (eid # ids) ob discarded =
     (case ob_update ob eid (discard_closure current_epoch) of
        None \<Rightarrow> None
      | Some (res, ob') \<Rightarrow>
          discard_loop current_epoch ids ob'
            (if (case res of Inr done \<Rightarrow> done | Inl _ \<Rightarrow> False) then discarded + 1 else discarded))"

definition ob_discard_stale :: "outbox \<Rightarrow> nat \<Rightarrow> (nat \<times> outbox) option" where
  "ob_discard_stale ob current_epoch = discard_loop current_epoch (ob_active ob) ob 0"

definition has_active :: "outbox \<Rightarrow> bool" where
  "has_active ob \<longleftrightarrow> ob_active ob \<noteq> []"

section \<open>The index invariant\<close>

text \<open>Each index against a view of the records, so that the middle of \<open>reindex\<close>, where one
  record is in no index, has the same shape as its ends.\<close>

type_synonym record_view = "nat \<rightharpoonup> event_record"

abbreviation ev_time :: "event_record \<Rightarrow> logical_instant" where
  "ev_time r \<equiv> ev_logical_time (er_event r)"

definition ix_pending :: "record_view \<Rightarrow> outbox \<Rightarrow> bool" where
  "ix_pending v ob \<longleftrightarrow> bs_wf (ob_pending ob) \<and>
     (\<forall>t eid. (t, eid) \<in> set (ob_pending ob) \<longleftrightarrow>
        (\<exists>r. v eid = Some r \<and> er_state r = Pending \<and> t = ev_time r))"

definition queue_keys :: "(string, pending_key bset) bmap \<Rightarrow> string \<Rightarrow> pending_key bset" where
  "queue_keys m q = (case bm_get m q of None \<Rightarrow> [] | Some s \<Rightarrow> s)"

definition ix_queues :: "outbox \<Rightarrow> bool" where
  "ix_queues ob \<longleftrightarrow> bm_wf (ob_pending_by_queue ob) \<and>
     (\<forall>q. bm_get (ob_pending_by_queue ob) q \<noteq> Some []) \<and>
     (\<forall>q. bs_wf (queue_keys (ob_pending_by_queue ob) q)) \<and>
     (\<forall>q. set (queue_keys (ob_pending_by_queue ob) q) =
        {k \<in> set (ob_pending ob). bm_get (ob_queue_by_id ob) (snd k) = Some q})"

definition ix_retry :: "record_view \<Rightarrow> outbox \<Rightarrow> bool" where
  "ix_retry v ob \<longleftrightarrow> bs_wf (ob_retrying ob) \<and> bm_wf (ob_retry_at_by_id ob) \<and>
     (\<forall>t eid. (t, eid) \<in> set (ob_retrying ob) \<longleftrightarrow>
        (\<exists>r. v eid = Some r \<and> er_state r = RetryWaiting t)) \<and>
     (\<forall>t eid. bm_get (ob_retry_at_by_id ob) eid = Some t \<longleftrightarrow>
        (\<exists>r. v eid = Some r \<and> er_state r = RetryWaiting t))"

definition ix_life :: "record_view \<Rightarrow> outbox \<Rightarrow> bool" where
  "ix_life v ob \<longleftrightarrow> bs_wf (ob_active ob) \<and> bm_wf (ob_queue_by_id ob) \<and> distinct (ob_terminal ob) \<and>
     (\<forall>eid. eid \<in> set (ob_active ob) \<longleftrightarrow> (\<exists>r. v eid = Some r \<and> \<not> er_terminal r)) \<and>
     (\<forall>eid. eid \<in> set (ob_terminal ob) \<longleftrightarrow> (\<exists>r. v eid = Some r \<and> er_terminal r))"

definition ob_inv :: "outbox \<Rightarrow> bool" where
  "ob_inv ob \<longleftrightarrow>
     ix_pending (bm_get (ob_records ob)) ob \<and> ix_queues ob \<and> ix_retry (bm_get (ob_records ob)) ob \<and>
     ix_life (bm_get (ob_records ob)) ob \<and>
     dom (bm_get (ob_queue_by_id ob)) = set (ob_active ob) \<and>
     bm_wf (ob_records ob) \<and>
     (\<forall>eid r. bm_get (ob_records ob) eid = Some r \<longrightarrow> ev_event_id (er_event r) = eid) \<and>
     length (ob_terminal ob) \<le> ob_terminal_retention ob \<and> 1 \<le> ob_terminal_retention ob"

lemmas ix_defs = ix_pending_def ix_queues_def ix_retry_def ix_life_def

lemma ob_inv_new: "ob_inv (ob_with_terminal_retention n)"
  by (simp add: ob_inv_def ob_with_terminal_retention_def ix_defs queue_keys_def)

subsection \<open>Frames\<close>

lemma clear_queue_frame [simp]:
  "ob_records (clear_queue k q ob) = ob_records ob"
  "ob_pending (clear_queue k q ob) = ob_pending ob"
  "ob_queue_by_id (clear_queue k q ob) = ob_queue_by_id ob"
  "ob_retrying (clear_queue k q ob) = ob_retrying ob"
  "ob_retry_at_by_id (clear_queue k q ob) = ob_retry_at_by_id ob"
  "ob_active (clear_queue k q ob) = ob_active ob"
  "ob_terminal (clear_queue k q ob) = ob_terminal ob"
  "ob_terminal_retention (clear_queue k q ob) = ob_terminal_retention ob"
  "ob_evicted (clear_queue k q ob) = ob_evicted ob"
  by (simp_all add: clear_queue_def Let_def split: option.split)

lemma clear_retry_frame [simp]:
  "ob_records (clear_retry eid ob) = ob_records ob"
  "ob_pending (clear_retry eid ob) = ob_pending ob"
  "ob_queue_by_id (clear_retry eid ob) = ob_queue_by_id ob"
  "ob_pending_by_queue (clear_retry eid ob) = ob_pending_by_queue ob"
  "ob_active (clear_retry eid ob) = ob_active ob"
  "ob_terminal (clear_retry eid ob) = ob_terminal ob"
  "ob_terminal_retention (clear_retry eid ob) = ob_terminal_retention ob"
  "ob_evicted (clear_retry eid ob) = ob_evicted ob"
  by (simp_all add: clear_retry_def split: option.split)

subsection \<open>Clearing\<close>

lemma ix_pending_clear:
  assumes "ix_pending v ob" "\<And>r. v eid = Some r \<Longrightarrow> ev_time r = t"
  shows "ix_pending (v(eid := None)) (ob\<lparr>ob_pending := bs_remove (t, eid) (ob_pending ob)\<rparr>)"
  using assms by (auto simp: ix_pending_def)

lemma clear_queue_keys:
  "queue_keys (ob_pending_by_queue (clear_queue key (Some q) ob)) =
     (queue_keys (ob_pending_by_queue ob))(q := bs_remove key (queue_keys (ob_pending_by_queue ob) q))"
  by (rule ext) (auto simp: clear_queue_def Let_def queue_keys_def bs_remove_def split: option.split)

lemma clear_queue_wf:
  assumes "bm_wf (ob_pending_by_queue ob)" "\<And>q. bm_get (ob_pending_by_queue ob) q \<noteq> Some []"
  shows "bm_wf (ob_pending_by_queue (clear_queue key queue ob))
     \<and> bm_get (ob_pending_by_queue (clear_queue key queue ob)) q \<noteq> Some []"
  using assms by (auto simp: clear_queue_def Let_def split: option.split)

lemma clear_queue_None [simp]: "clear_queue key None ob = ob"
  by (simp add: clear_queue_def)

lemma ix_queues_clear:
  assumes "ix_queues ob"
  shows "ix_queues (clear_queue key (bm_get (ob_queue_by_id ob) (snd key))
           (ob\<lparr>ob_pending := bs_remove key (ob_pending ob)\<rparr>))"
proof (cases "bm_get (ob_queue_by_id ob) (snd key)")
  case None
  then show ?thesis using assms by (auto simp: ix_queues_def)
next
  case (Some q)
  then show ?thesis
    using assms clear_queue_wf [of "ob\<lparr>ob_pending := bs_remove key (ob_pending ob)\<rparr>" key "Some q"]
    by (auto simp: ix_queues_def clear_queue_keys)
qed

lemma ix_retry_clear:
  assumes "ix_retry v ob"
  shows "ix_retry (v(eid := None)) (clear_retry eid ob)"
proof (cases "bm_get (ob_retry_at_by_id ob) eid")
  case None
  then have "er_state r \<noteq> RetryWaiting t" if "v eid = Some r" for r t
    using assms that by (metis ix_retry_def option.distinct(1))
  with None assms show ?thesis by (auto simp: ix_retry_def clear_retry_def)
next
  case (Some at)
  then have "clear_retry eid ob = ob\<lparr>ob_retry_at_by_id := bm_remove eid (ob_retry_at_by_id ob),
      ob_retrying := bs_remove (at, eid) (ob_retrying ob)\<rparr>"
    by (simp add: clear_retry_def)
  moreover obtain r where "v eid = Some r" "er_state r = RetryWaiting at"
    using assms Some by (auto simp: ix_retry_def)
  ultimately show ?thesis using assms by (auto simp: ix_retry_def)
qed

subsection \<open>Placing\<close>

text \<open>The middle of \<open>reindex\<close>: record \<open>eid\<close> is in no state index, and in the lifecycle
  indexes as the view \<open>v\<close> before the change has it.\<close>

definition cleared :: "nat \<Rightarrow> record_view \<Rightarrow> outbox \<Rightarrow> bool" where
  "cleared eid v ob \<longleftrightarrow>
     ix_pending (v(eid := None)) ob \<and> ix_queues ob \<and> ix_retry (v(eid := None)) ob \<and> ix_life v ob \<and>
     dom (bm_get (ob_queue_by_id ob)) = (if v eid = None then {eid} else {}) \<union> set (ob_active ob) \<and>
     bm_wf (ob_records ob) \<and>
     (\<forall>i r. bm_get (ob_records ob) i = Some r \<longrightarrow> ev_event_id (er_event r) = i) \<and>
     length (ob_terminal ob) \<le> ob_terminal_retention ob \<and> 1 \<le> ob_terminal_retention ob"

lemma ix_pending_place:
  assumes "ix_pending (v(eid := None)) ob"
    "ob_pending ob' = (if er_state r = Pending then bs_insert (ev_time r, eid) (ob_pending ob)
                       else ob_pending ob)"
  shows "ix_pending (v(eid \<mapsto> r)) ob'"
proof -
  have "\<not> (\<exists>t. (t, eid) \<in> set (ob_pending ob))" using assms(1) by (simp add: ix_pending_def)
  with assms show ?thesis by (auto simp: ix_pending_def)
qed

lemma ix_retry_place:
  assumes "ix_retry (v(eid := None)) ob"
    "ob_retrying ob' = (case er_state r of RetryWaiting at \<Rightarrow> bs_insert (at, eid) (ob_retrying ob)
                        | _ \<Rightarrow> ob_retrying ob)"
    "ob_retry_at_by_id ob' = (case er_state r of RetryWaiting at \<Rightarrow> bm_insert eid at (ob_retry_at_by_id ob)
                        | _ \<Rightarrow> ob_retry_at_by_id ob)"
  shows "ix_retry (v(eid \<mapsto> r)) ob'"
proof -
  have "(t, eid) \<notin> set (ob_retrying ob)" "bm_get (ob_retry_at_by_id ob) eid \<noteq> Some t" for t
    using assms(1) by (auto simp: ix_retry_def)
  with assms show ?thesis by (cases "er_state r") (auto simp: ix_retry_def)
qed

lemma queue_keys_insert [simp]: "queue_keys (bm_insert q s m) = (queue_keys m)(q := s)"
  by (rule ext) (simp add: queue_keys_def)

lemma ix_queues_place:
  assumes "ix_queues ob" "ob_pending ob' = bs_insert key (ob_pending ob)"
    "ob_pending_by_queue ob' =
       bm_insert q (bs_insert key (queue_keys (ob_pending_by_queue ob) q)) (ob_pending_by_queue ob)"
    "ob_queue_by_id ob' = ob_queue_by_id ob" "bm_get (ob_queue_by_id ob) (snd key) = Some q"
  shows "ix_queues ob'"
proof -
  have "bs_insert key s \<noteq> []" for s by (simp add: bs_insert_def)
  with assms show ?thesis by (auto simp: ix_queues_def)
qed

lemma ix_queues_same:
  "ix_queues ob \<Longrightarrow> ob_pending ob' = ob_pending ob \<Longrightarrow>
   ob_pending_by_queue ob' = ob_pending_by_queue ob \<Longrightarrow> ob_queue_by_id ob' = ob_queue_by_id ob \<Longrightarrow>
   ix_queues ob'"
  by (simp add: ix_queues_def)

text \<open>What \<open>place\<close> does with a record that is not terminal.\<close>

lemma place_active_eq:
  assumes "\<not> is_terminal state" "queue = Some q"
  shows "place (t, eid) queue state ob = Some
    (ob\<lparr>ob_pending := (if state = Pending then bs_insert (t, eid) (ob_pending ob) else ob_pending ob),
        ob_pending_by_queue :=
          (if state = Pending
           then bm_insert q (bs_insert (t, eid) (queue_keys (ob_pending_by_queue ob) q)) (ob_pending_by_queue ob)
           else ob_pending_by_queue ob),
        ob_retrying := (case state of RetryWaiting at \<Rightarrow> bs_insert (at, eid) (ob_retrying ob)
                        | _ \<Rightarrow> ob_retrying ob),
        ob_retry_at_by_id := (case state of RetryWaiting at \<Rightarrow> bm_insert eid at (ob_retry_at_by_id ob)
                        | _ \<Rightarrow> ob_retry_at_by_id ob),
        ob_active := bs_insert eid (ob_active ob)\<rparr>)"
  using assms by (cases state) (simp_all add: place_def Let_def queue_keys_def)

lemma place_active:
  assumes c: "cleared eid v ob" and recs: "bm_get (ob_records ob) = v(eid \<mapsto> r)"
    and act: "\<not> er_terminal r" "\<And>r0. v eid = Some r0 \<Longrightarrow> \<not> er_terminal r0"
  shows "\<exists>ob'. place (ev_time r, eid) (bm_get (ob_queue_by_id ob) eid) (er_state r) ob = Some ob'
     \<and> ob_inv ob' \<and> ob_records ob' = ob_records ob \<and> ob_queue_by_id ob' = ob_queue_by_id ob
     \<and> ob_terminal ob' = ob_terminal ob \<and> ob_terminal_retention ob' = ob_terminal_retention ob
     \<and> ob_evicted ob' = ob_evicted ob"
proof -
  have e: "eid \<in> dom (bm_get (ob_queue_by_id ob))"
    using c act(2) by (cases "v eid") (auto simp: cleared_def ix_life_def)
  then obtain q where q: "bm_get (ob_queue_by_id ob) eid = Some q" by auto
  obtain ob' where p: "place (ev_time r, eid) (Some q) (er_state r) ob = Some ob'"
    and fields: "ob_pending ob' = (if er_state r = Pending then bs_insert (ev_time r, eid) (ob_pending ob)
        else ob_pending ob)"
      "ob_pending_by_queue ob' = (if er_state r = Pending
        then bm_insert q (bs_insert (ev_time r, eid) (queue_keys (ob_pending_by_queue ob) q))
               (ob_pending_by_queue ob)
        else ob_pending_by_queue ob)"
      "ob_retrying ob' = (case er_state r of RetryWaiting at \<Rightarrow> bs_insert (at, eid) (ob_retrying ob)
        | _ \<Rightarrow> ob_retrying ob)"
      "ob_retry_at_by_id ob' = (case er_state r of RetryWaiting at \<Rightarrow>
          bm_insert eid at (ob_retry_at_by_id ob) | _ \<Rightarrow> ob_retry_at_by_id ob)"
      "ob_active ob' = bs_insert eid (ob_active ob)"
      "ob_records ob' = ob_records ob" "ob_queue_by_id ob' = ob_queue_by_id ob"
      "ob_terminal ob' = ob_terminal ob" "ob_terminal_retention ob' = ob_terminal_retention ob"
      "ob_evicted ob' = ob_evicted ob"
    by (rule that [OF place_active_eq [OF act(1) refl]]) simp_all
  have ixp: "ix_pending (v(eid \<mapsto> r)) ob'" and ixr: "ix_retry (v(eid \<mapsto> r)) ob'"
    using c fields by (auto simp only: cleared_def intro!: ix_pending_place ix_retry_place)
  have ixq: "ix_queues ob'"
  proof (cases "er_state r = Pending")
    case True
    show ?thesis
      by (rule ix_queues_place [of ob _ "(ev_time r, eid)" q]) (use c fields q True in \<open>simp_all add: cleared_def\<close>)
  next
    case False
    show ?thesis
      by (rule ix_queues_same [of ob]) (use c fields False in \<open>simp_all add: cleared_def\<close>)
  qed
  have ixl: "ix_life (v(eid \<mapsto> r)) ob'"
    using c act fields(5-) by (auto simp: cleared_def ix_life_def)
  have dq: "dom (bm_get (ob_queue_by_id ob')) = set (ob_active ob')"
    using c e fields(5-) by (auto simp: cleared_def split: if_splits)
  have "ob_inv ob'"
    unfolding ob_inv_def fields(6) recs using c ixp ixr ixq ixl dq fields(8,9) recs
    by (simp add: cleared_def fields(6))
  with p q fields(6-) show ?thesis by auto
qed

subsection \<open>Eviction\<close>

lemma evict_one:
  assumes "length (ob_terminal ob) \<le> Suc (ob_terminal_retention ob)"
  shows "evict ob =
    (if length (ob_terminal ob) \<le> ob_terminal_retention ob then ob
     else ob\<lparr>ob_terminal := tl (ob_terminal ob),
             ob_records := bm_remove (hd (ob_terminal ob)) (ob_records ob),
             ob_evicted := (ob_evicted ob + 1) mod 2 ^ 64\<rparr>)"
proof (cases "ob_terminal ob")
  case Nil
  then show ?thesis by (simp add: evict_def)
next
  case (Cons h t)
  have "evict_loop n t recs ev = (t, recs, ev)" if "length t \<le> n" for n recs ev
    using that by (cases t) auto
  with Cons assms show ?thesis by (auto simp: evict_def)
qed

lemma inv_drop_terminal:
  assumes "ix_pending v ob" "ix_queues ob" "ix_retry v ob" "ix_life v ob" "ob_terminal ob = h # t"
  shows "ix_pending (v(h := None)) (ob\<lparr>ob_terminal := t, ob_records := m, ob_evicted := e\<rparr>)"
    "ix_queues (ob\<lparr>ob_terminal := t, ob_records := m, ob_evicted := e\<rparr>)"
    "ix_retry (v(h := None)) (ob\<lparr>ob_terminal := t, ob_records := m, ob_evicted := e\<rparr>)"
    "ix_life (v(h := None)) (ob\<lparr>ob_terminal := t, ob_records := m, ob_evicted := e\<rparr>)"
proof -
  obtain r where r: "v h = Some r" "er_terminal r"
    using assms(4,5) unfolding ix_life_def by (metis list.set_intros(1))
  then have s: "er_state r \<noteq> Pending" "\<And>t. er_state r \<noteq> RetryWaiting t" by auto
  show "ix_pending (v(h := None)) (ob\<lparr>ob_terminal := t, ob_records := m, ob_evicted := e\<rparr>)"
    using assms(1) r s by (auto simp: ix_pending_def)
  show "ix_queues (ob\<lparr>ob_terminal := t, ob_records := m, ob_evicted := e\<rparr>)"
    using assms(2) by (simp add: ix_queues_def)
  show "ix_retry (v(h := None)) (ob\<lparr>ob_terminal := t, ob_records := m, ob_evicted := e\<rparr>)"
    using assms(3) r s by (auto simp: ix_retry_def)
  have "h \<notin> set t" using assms(4,5) by (simp add: ix_life_def)
  moreover have "x \<in> set t \<longleftrightarrow> x \<noteq> h \<and> (\<exists>r. v x = Some r \<and> er_terminal r)" for x
    using assms(4,5) \<open>h \<notin> set t\<close> unfolding ix_life_def by (metis list.set_intros(2) set_ConsD)
  ultimately show "ix_life (v(h := None)) (ob\<lparr>ob_terminal := t, ob_records := m, ob_evicted := e\<rparr>)"
    using assms(4,5) r by (auto simp: ix_life_def)
qed

lemma evict_inv:
  assumes ix: "ix_pending (bm_get (ob_records ob)) ob" "ix_queues ob"
      "ix_retry (bm_get (ob_records ob)) ob" "ix_life (bm_get (ob_records ob)) ob"
    and "dom (bm_get (ob_queue_by_id ob)) = set (ob_active ob)" "bm_wf (ob_records ob)"
      "\<And>i r. bm_get (ob_records ob) i = Some r \<Longrightarrow> ev_event_id (er_event r) = i"
      "length (ob_terminal ob) \<le> Suc (ob_terminal_retention ob)" "1 \<le> ob_terminal_retention ob"
  shows "ob_inv (evict ob)"
proof (cases "length (ob_terminal ob) \<le> ob_terminal_retention ob")
  case True
  then show ?thesis using assms by (simp add: evict_one ob_inv_def)
next
  case False
  then obtain h t where t: "ob_terminal ob = h # t" by (cases "ob_terminal ob") auto
  have e: "evict ob = ob\<lparr>ob_terminal := t, ob_records := bm_remove h (ob_records ob),
             ob_evicted := (ob_evicted ob + 1) mod 2 ^ 64\<rparr>"
    using False assms(8) t by (simp add: evict_one)
  show ?thesis
    unfolding e ob_inv_def
    using inv_drop_terminal [OF ix t] assms(5-) t by (auto split: if_splits)
qed

subsection \<open>Retiring\<close>

lemma place_terminal_eq:
  "is_terminal state \<Longrightarrow> place (t, eid) queue state ob = Some
     (if eid \<in> set (ob_active ob)
      then evict (ob\<lparr>ob_queue_by_id := bm_remove eid (ob_queue_by_id ob),
                     ob_active := bs_remove eid (ob_active ob),
                     ob_terminal := ob_terminal ob @ [eid]\<rparr>)
      else ob\<lparr>ob_queue_by_id := bm_remove eid (ob_queue_by_id ob)\<rparr>)"
  by (cases state) (simp_all add: place_def Let_def)

lemma ix_queues_forget:
  assumes "ix_queues ob" "ix_pending (v(eid := None)) ob"
    "ob_pending ob' = ob_pending ob" "ob_pending_by_queue ob' = ob_pending_by_queue ob"
    "ob_queue_by_id ob' = bm_remove eid (ob_queue_by_id ob)"
  shows "ix_queues ob'"
proof -
  have "snd k \<noteq> eid" if "k \<in> set (ob_pending ob)" for k
    using assms(2) that by (cases k) (auto simp: ix_pending_def)
  with assms show ?thesis by (auto simp: ix_queues_def)
qed

text \<open>The outbox after record \<open>eid\<close>, then active, has become terminal.\<close>

definition retired :: "nat \<Rightarrow> outbox \<Rightarrow> outbox" where
  "retired eid ob = evict (ob\<lparr>ob_queue_by_id := bm_remove eid (ob_queue_by_id ob),
     ob_active := bs_remove eid (ob_active ob), ob_terminal := ob_terminal ob @ [eid]\<rparr>)"

lemma place_retire:
  assumes c: "cleared eid v ob" and recs: "bm_get (ob_records ob) = v(eid \<mapsto> r)"
    and fin: "er_terminal r" and old: "v eid = Some r0" "\<not> er_terminal r0"
  shows "place (ev_time r, eid) queue (er_state r) ob = Some (retired eid ob) \<and> ob_inv (retired eid ob)"
proof -
  have e: "eid \<in> set (ob_active ob)" and ne: "eid \<notin> set (ob_terminal ob)"
    using c old by (auto simp: cleared_def ix_life_def)
  define ob2 where "ob2 = ob\<lparr>ob_queue_by_id := bm_remove eid (ob_queue_by_id ob),
     ob_active := bs_remove eid (ob_active ob), ob_terminal := ob_terminal ob @ [eid]\<rparr>"
  have recs2: "bm_get (ob_records ob2) = v(eid \<mapsto> r)" using recs by (auto simp: ob2_def)
  have "ix_pending (v(eid \<mapsto> r)) ob2"
    by (rule ix_pending_place [of v eid ob]) (use c fin in \<open>auto simp: cleared_def ob2_def\<close>)
  moreover have "ix_queues ob2"
    by (rule ix_queues_forget [of ob v eid]) (use c in \<open>auto simp: cleared_def ob2_def\<close>)
  moreover have "ix_retry (v(eid \<mapsto> r)) ob2"
    by (rule ix_retry_place [of v eid ob])
       (use c fin in \<open>auto simp: cleared_def ob2_def split: event_state.split\<close>)
  moreover have "ix_life (v(eid \<mapsto> r)) ob2"
    using c fin ne by (auto simp: cleared_def ix_life_def ob2_def)
  moreover have "dom (bm_get (ob_queue_by_id ob2)) = set (ob_active ob2)"
    using c old by (simp add: cleared_def ob2_def)
  ultimately have "ob_inv (evict ob2)"
    using c old unfolding recs2 [symmetric]
    by (intro evict_inv) (auto simp: cleared_def ob2_def)
  then have "ob_inv (retired eid ob)" by (simp add: retired_def ob2_def)
  with e fin show ?thesis by (simp add: place_terminal_eq retired_def)
qed

lemma place_settled:
  assumes c: "cleared eid v ob" and recs: "bm_get (ob_records ob) = v" and r: "v eid = Some r" "er_terminal r"
  shows "place (ev_time r, eid) queue (er_state r) ob
       = Some (ob\<lparr>ob_queue_by_id := bm_remove eid (ob_queue_by_id ob)\<rparr>)
     \<and> ob_inv (ob\<lparr>ob_queue_by_id := bm_remove eid (ob_queue_by_id ob)\<rparr>)"
proof -
  let ?ob = "ob\<lparr>ob_queue_by_id := bm_remove eid (ob_queue_by_id ob)\<rparr>"
  have v: "v = v(eid \<mapsto> r)" using r by auto
  have e: "eid \<notin> set (ob_active ob)" using c r by (auto simp: cleared_def ix_life_def)
  have "ix_pending (v(eid \<mapsto> r)) ?ob"
    by (rule ix_pending_place [of v eid ob]) (use c r in \<open>auto simp: cleared_def\<close>)
  moreover have "ix_retry (v(eid \<mapsto> r)) ?ob"
    by (rule ix_retry_place [of v eid ob])
       (use c r in \<open>auto simp: cleared_def split: event_state.split\<close>)
  moreover have "ix_queues ?ob"
    by (rule ix_queues_forget [of ob v eid]) (use c in \<open>auto simp: cleared_def\<close>)
  ultimately have "ob_inv ?ob"
    using c r e recs v by (auto simp: ob_inv_def cleared_def ix_life_def)
  with e r show ?thesis by (simp add: place_terminal_eq)
qed

section \<open>Specification without indexes\<close>

record ob_spec =
  sp_records :: record_view
  sp_queue :: "nat \<rightharpoonup> string"
  sp_terminal :: "nat list"
  sp_retention :: nat
  sp_evicted :: nat

definition ob_abs :: "outbox \<Rightarrow> ob_spec" where
  "ob_abs ob = \<lparr>sp_records = bm_get (ob_records ob), sp_queue = bm_get (ob_queue_by_id ob),
     sp_terminal = ob_terminal ob, sp_retention = ob_terminal_retention ob,
     sp_evicted = ob_evicted ob\<rparr>"

text \<open>A record that becomes terminal leaves its queue and joins the retention window,
  which drops its oldest record when it is full.\<close>

definition spec_retire :: "nat \<Rightarrow> ob_spec \<Rightarrow> ob_spec" where
  "spec_retire eid sp =
     (let window = sp_terminal sp @ [eid];
          sp = sp\<lparr>sp_queue := (sp_queue sp)(eid := None), sp_terminal := window\<rparr>
      in if length window \<le> sp_retention sp then sp
         else sp\<lparr>sp_terminal := tl window, sp_records := (sp_records sp)(hd window := None),
                 sp_evicted := (sp_evicted sp + 1) mod 2 ^ 64\<rparr>)"

definition spec_enqueue ::
  "ob_spec \<Rightarrow> logical_event \<Rightarrow> string \<Rightarrow> (outbox_error, unit) result \<times> ob_spec" where
  "spec_enqueue sp event queue =
     (let eid = ev_event_id event
      in if sp_records sp eid \<noteq> None then (Err (DuplicateEventId eid), sp)
         else (Ok (), sp\<lparr>sp_records := (sp_records sp)(eid \<mapsto> er_new event),
                         sp_queue := (sp_queue sp)(eid \<mapsto> queue)\<rparr>))"

definition spec_update ::
  "ob_spec \<Rightarrow> nat \<Rightarrow> (event_record \<Rightarrow> 'r \<times> event_record) \<Rightarrow> (outbox_error, 'r) result \<times> ob_spec" where
  "spec_update sp eid f =
     (case sp_records sp eid of
        None \<Rightarrow> (Err (UnknownEventId eid), sp)
      | Some r \<Rightarrow>
          (case f r of (out, r') \<Rightarrow>
             (let sp = sp\<lparr>sp_records := (sp_records sp)(eid \<mapsto> r')\<rparr>
              in (Ok out, if \<not> er_terminal r \<and> er_terminal r' then spec_retire eid sp else sp))))"

subsection \<open>Reindexing\<close>

definition unindex :: "nat \<Rightarrow> logical_instant \<Rightarrow> outbox \<Rightarrow> outbox" where
  "unindex eid t ob = clear_retry eid (clear_queue (t, eid) (bm_get (ob_queue_by_id ob) eid)
     (ob\<lparr>ob_pending := bs_remove (t, eid) (ob_pending ob)\<rparr>))"

lemma unindex_frame [simp]:
  "ob_records (unindex eid t ob) = ob_records ob"
  "ob_queue_by_id (unindex eid t ob) = ob_queue_by_id ob"
  "ob_active (unindex eid t ob) = ob_active ob"
  "ob_terminal (unindex eid t ob) = ob_terminal ob"
  "ob_terminal_retention (unindex eid t ob) = ob_terminal_retention ob"
  "ob_evicted (unindex eid t ob) = ob_evicted ob"
  by (simp_all add: unindex_def)

lemma reindex_eq:
  "bm_get (ob_records ob) eid = Some r \<Longrightarrow>
   reindex ob eid = place (ev_time r, eid) (bm_get (ob_queue_by_id ob) eid) (er_state r)
     (unindex eid (ev_time r) ob)"
  by (simp add: reindex_def unindex_def Let_def)

lemma cleared_unindex:
  assumes "ix_pending v ob" "ix_queues ob" "ix_retry v ob" "ix_life v ob"
    "dom (bm_get (ob_queue_by_id ob)) = (if v eid = None then {eid} else {}) \<union> set (ob_active ob)"
    "bm_wf (ob_records ob)"
    "\<And>i r. bm_get (ob_records ob) i = Some r \<Longrightarrow> ev_event_id (er_event r) = i"
    "length (ob_terminal ob) \<le> ob_terminal_retention ob" "1 \<le> ob_terminal_retention ob"
    "\<And>r. v eid = Some r \<Longrightarrow> ev_time r = t"
  shows "cleared eid v (unindex eid t ob)"
proof -
  have "ix_pending (v(eid := None)) (unindex eid t ob)"
    using ix_pending_clear [OF assms(1,10)] by (simp add: ix_pending_def unindex_def)
  moreover have "ix_queues (unindex eid t ob)"
    using ix_queues_clear [OF assms(2), of "(t, eid)"] by (simp add: ix_queues_def unindex_def)
  moreover have "ix_retry v (clear_queue (t, eid) (bm_get (ob_queue_by_id ob) eid)
      (ob\<lparr>ob_pending := bs_remove (t, eid) (ob_pending ob)\<rparr>))"
    using assms(3) by (simp add: ix_retry_def)
  then have "ix_retry (v(eid := None)) (unindex eid t ob)"
    unfolding unindex_def by (rule ix_retry_clear)
  moreover have "ix_life v (unindex eid t ob)" using assms(4) by (simp add: ix_life_def)
  ultimately show ?thesis using assms(5-9) by (simp add: cleared_def)
qed

text \<open>The abstract effect of the three ways \<open>reindex\<close> ends.\<close>

lemma ob_abs_retired:
  assumes "length (ob_terminal ob) \<le> ob_terminal_retention ob"
  shows "ob_abs (retired eid ob) = spec_retire eid (ob_abs ob)"
  using assms by (simp add: retired_def evict_one spec_retire_def ob_abs_def Let_def)

lemma ob_abs_frame:
  "ob_records ob' = ob_records ob \<Longrightarrow> bm_get (ob_queue_by_id ob') = bm_get (ob_queue_by_id ob) \<Longrightarrow>
   ob_terminal ob' = ob_terminal ob \<Longrightarrow> ob_terminal_retention ob' = ob_terminal_retention ob \<Longrightarrow>
   ob_evicted ob' = ob_evicted ob \<Longrightarrow> ob_abs ob' = ob_abs ob"
  by (simp add: ob_abs_def)

lemma enqueue_refines:
  assumes inv: "ob_inv ob"
  shows "\<exists>res ob'. enqueue_in_queue ob event queue = Some (res, ob') \<and> ob_inv ob'
     \<and> spec_enqueue (ob_abs ob) event queue = (res, ob_abs ob')"
proof (cases "bm_get (ob_records ob) (ev_event_id event)")
  case (Some r)
  with inv show ?thesis
    by (simp add: enqueue_in_queue_def spec_enqueue_def ob_abs_def bm_contains_def Let_def)
next
  case None
  define eid where "eid = ev_event_id event"
  define v where "v = bm_get (ob_records ob)"
  define ob1 where "ob1 = ob\<lparr>ob_records := bm_insert eid (er_new event) (ob_records ob),
                          ob_queue_by_id := bm_insert eid queue (ob_queue_by_id ob)\<rparr>"
  have fresh: "v eid = None" using None by (simp add: v_def eid_def)
  have nk: "snd k \<noteq> eid" if "k \<in> set (ob_pending ob)" for k
    using that inv fresh by (cases k rule: prod.exhaust) (auto simp: ob_inv_def ix_pending_def v_def)
  have recs: "bm_get (ob_records ob1) = v(eid \<mapsto> er_new event)" by (simp add: ob1_def v_def)
  have "ix_queues ob1" using inv nk by (auto simp: ob_inv_def ix_queues_def ob1_def)
  then have c: "cleared eid v (unindex eid (ev_logical_time event) ob1)"
    using inv fresh
    by (intro cleared_unindex)
       (auto simp: ob_inv_def ix_pending_def ix_retry_def ix_life_def ob1_def v_def eid_def er_new_def
         split: if_splits)
  obtain ob' where p: "reindex ob1 eid = Some ob'" and i: "ob_inv ob'" and a: "ob_abs ob' = ob_abs ob1"
    using place_active [OF c, of "er_new event"] recs fresh
    by (auto simp: reindex_eq er_new_def ob_abs_def)
  have "spec_enqueue (ob_abs ob) event queue = (Ok (), ob_abs ob1)"
    using fresh by (simp add: spec_enqueue_def ob_abs_def Let_def ob1_def v_def eid_def)
  moreover have "enqueue_in_queue ob event queue = Some (Ok (), ob')"
    using p None by (simp add: enqueue_in_queue_def bm_contains_def Let_def ob1_def eid_def)
  ultimately show ?thesis using i a by auto
qed

text \<open>What the outbox needs of the closure \<open>update\<close> applies: it keeps the event and leaves a
  terminal record alone. Every operation of \<open>EventRecord\<close> does.\<close>

locale record_closure =
  fixes f :: "event_record \<Rightarrow> 'r \<times> event_record"
  assumes keeps_event: "er_event (snd (f r)) = er_event r"
    and keeps_terminal: "er_terminal r \<Longrightarrow> snd (f r) = r"
begin

lemma update_refines:
  assumes inv: "ob_inv ob"
  shows "\<exists>res ob'. ob_update ob eid f = Some (res, ob') \<and> ob_inv ob'
     \<and> spec_update (ob_abs ob) eid f = (res, ob_abs ob')"
proof (cases "bm_get (ob_records ob) eid")
  case None
  with inv show ?thesis by (simp add: ob_update_def spec_update_def ob_abs_def)
next
  case (Some r)
  obtain out r' where f: "f r = (out, r')" by (cases "f r")
  have ev: "er_event r' = er_event r" and tr: "er_terminal r \<Longrightarrow> r' = r"
    using keeps_event [of r] keeps_terminal [of r] f by auto
  define v where "v = bm_get (ob_records ob)"
  define ob1 where "ob1 = ob\<lparr>ob_records := bm_insert eid r' (ob_records ob)\<rparr>"
  have recs: "bm_get (ob_records ob1) = v(eid \<mapsto> r')" by (simp add: ob1_def v_def)
  have ids: "ev_event_id (er_event r2) = i" if "bm_get (ob_records ob1) i = Some r2" for i r2
    using that inv Some ev by (auto simp: ob_inv_def ob1_def split: if_splits)
  have c: "cleared eid v (unindex eid (ev_time r') ob1)"
  proof (rule cleared_unindex)
    show "ix_pending v ob1" "ix_queues ob1" "ix_retry v ob1" "ix_life v ob1"
      using inv by (simp_all add: ob_inv_def ix_defs ob1_def v_def)
    show "ev_event_id (er_event r2) = i" if "bm_get (ob_records ob1) i = Some r2" for i r2
      using that by (rule ids)
  qed (use inv Some ev in \<open>auto simp: ob_inv_def ob1_def v_def\<close>)
  have up: "ob_update ob eid f = map_option (\<lambda>ob. (Ok out, ob)) (reindex ob1 eid)"
    using Some f by (simp add: ob_update_def ob1_def)
  have sp: "spec_update (ob_abs ob) eid f =
      (Ok out, if \<not> er_terminal r \<and> er_terminal r' then spec_retire eid (ob_abs ob1) else ob_abs ob1)"
    using Some f by (simp add: spec_update_def ob_abs_def Let_def ob1_def v_def)
  have abs1: "ob_abs (unindex eid (ev_time r') ob1) = ob_abs ob1" by (rule ob_abs_frame) simp_all
  have len: "length (ob_terminal ob1) \<le> ob_terminal_retention ob1"
    using inv by (simp add: ob_inv_def ob1_def)
  have old: "v eid = Some r" using Some by (simp add: v_def)
  consider "\<not> er_terminal r" "\<not> er_terminal r'" | "\<not> er_terminal r" "er_terminal r'" | "er_terminal r" by blast
  then show ?thesis
  proof cases
    case 1
    obtain ob' where "reindex ob1 eid = Some ob'" "ob_inv ob'" "ob_abs ob' = ob_abs ob1"
      using place_active [OF c, of r'] recs old 1
      by (auto simp: reindex_eq ob_abs_def)
    with 1 up sp show ?thesis by auto
  next
    case 2
    have "reindex ob1 eid = Some (retired eid (unindex eid (ev_time r') ob1))"
      "ob_inv (retired eid (unindex eid (ev_time r') ob1))"
      using place_retire [OF c _ 2(2) old 2(1)] recs by (auto simp: reindex_eq)
    moreover have "ob_abs (retired eid (unindex eid (ev_time r') ob1)) = spec_retire eid (ob_abs ob1)"
      using ob_abs_retired [of "unindex eid (ev_time r') ob1" eid] len abs1 by simp
    ultimately show ?thesis using 2 up sp by auto
  next
    case 3
    then have r': "r' = r" by (rule tr)
    have v1: "v(eid \<mapsto> r) = v" using old by auto
    let ?ob = "unindex eid (ev_time r') ob1"
    have "eid \<notin> set (ob_active ob)" using inv old 3 by (auto simp: ob_inv_def ix_life_def v_def)
    then have n: "bm_get (ob_queue_by_id ?ob) eid = None"
      using inv by (metis domIff ob1_def ob_inv_def outbox.select_convs(4) outbox.surjective
          outbox.update_convs(1) unindex_frame(2))
    have "reindex ob1 eid = Some (?ob\<lparr>ob_queue_by_id := bm_remove eid (ob_queue_by_id ?ob)\<rparr>)"
      "ob_inv (?ob\<lparr>ob_queue_by_id := bm_remove eid (ob_queue_by_id ?ob)\<rparr>)"
      using place_settled [OF c _ old 3] recs v1 r' reindex_eq [of ob1 eid r] old by auto
    moreover have "ob_abs (?ob\<lparr>ob_queue_by_id := bm_remove eid (ob_queue_by_id ?ob)\<rparr>) = ob_abs ob1"
      using n by (intro ob_abs_frame) (auto simp: fun_eq_iff)
    ultimately show ?thesis using 3 up sp by auto
  qed
qed

end

interpretation apply_closure: record_closure "er_apply a" for a
  by unfold_locales (simp_all add: er_apply_event er_apply_terminal)

interpretation discard_closure: record_closure "discard_closure e" for e
proof
  fix r
  have "snd (discard_closure e r) = snd (er_apply (ADiscardStale e) r)"
    by (simp add: discard_closure_def split: prod.split)
  then show "er_event (snd (discard_closure e r)) = er_event r"
    and "er_terminal r \<Longrightarrow> snd (discard_closure e r) = r"
    by (metis er_apply_event) (metis er_apply_terminal \<open>snd (discard_closure e r) = _\<close> snd_conv)
qed

section \<open>Live records\<close>

text \<open>The records that are not terminal, as a map.\<close>

definition live_of :: "event_record option \<Rightarrow> event_record option" where
  "live_of x = (case x of None \<Rightarrow> None | Some r \<Rightarrow> if er_terminal r then None else Some r)"

definition live :: "outbox \<Rightarrow> record_view" where
  "live ob i = live_of (bm_get (ob_records ob) i)"

lemma live_Some: "live ob i = Some r \<longleftrightarrow> bm_get (ob_records ob) i = Some r \<and> \<not> er_terminal r"
  by (auto simp: live_def live_of_def split: option.splits)

lemma set_active: "ob_inv ob \<Longrightarrow> set (ob_active ob) = dom (live ob)"
  by (auto simp: ob_inv_def ix_life_def live_Some dom_def)

lemma live_retire:
  assumes inv: "ob_inv ob" and eid: "eid \<notin> set (ob_terminal ob)" and t: "er_terminal r'"
  shows "live_of (sp_records (spec_retire eid ((ob_abs ob)\<lparr>sp_records := (bm_get (ob_records ob))(eid \<mapsto> r')\<rparr>)) i)
     = ((live ob)(eid := None)) i"
proof -
  have "live_of (bm_get (ob_records ob) h) = None" if "h \<in> set (ob_terminal ob)" for h
    using inv that by (auto simp: ob_inv_def ix_life_def live_of_def)
  moreover have "hd (ob_terminal ob @ [eid]) \<in> insert eid (set (ob_terminal ob))"
    by (cases "ob_terminal ob") auto
  ultimately show ?thesis
    using t by (auto simp: spec_retire_def Let_def ob_abs_def live_def live_of_def)
qed

context record_closure
begin

lemma update_live:
  assumes inv: "ob_inv ob" and up: "ob_update ob eid f = Some (res, ob')"
  shows "ob_inv ob'
     \<and> res = (case bm_get (ob_records ob) eid of None \<Rightarrow> Err (UnknownEventId eid) | Some r \<Rightarrow> Ok (fst (f r)))
     \<and> live ob' = (case bm_get (ob_records ob) eid of
          None \<Rightarrow> live ob | Some r \<Rightarrow> (live ob)(eid := live_of (Some (snd (f r)))))"
proof -
  have sim: "ob_inv ob'" "spec_update (ob_abs ob) eid f = (res, ob_abs ob')"
    using update_refines [OF inv, of eid] up by auto
  have recs: "bm_get (ob_records ob') = sp_records (snd (spec_update (ob_abs ob) eid f))"
    using sim(2) by (simp add: ob_abs_def)
  show ?thesis
  proof (cases "bm_get (ob_records ob) eid")
    case None
    then show ?thesis using sim recs by (auto simp: spec_update_def ob_abs_def live_def fun_eq_iff)
  next
    case (Some r)
    obtain out r' where f: "f r = (out, r')" by (cases "f r")
    have nt: "eid \<notin> set (ob_terminal ob)" if "\<not> er_terminal r"
      using inv Some that by (auto simp: ob_inv_def ix_life_def)
    have "live ob' = (live ob)(eid := live_of (Some r'))"
    proof (cases "\<not> er_terminal r \<and> er_terminal r'")
      case True
      then show ?thesis
        using live_retire [OF inv nt, of r'] recs Some f
        by (auto simp: spec_update_def Let_def live_def [of ob'] live_of_def ob_abs_def fun_eq_iff)
    next
      case False
      then show ?thesis
        using recs Some f by (auto simp: spec_update_def Let_def live_def ob_abs_def fun_eq_iff)
    qed
    then show ?thesis using sim Some f by (auto simp: spec_update_def Let_def ob_abs_def)
  qed
qed

end

lemma enqueue_live:
  assumes inv: "ob_inv ob" and up: "enqueue_in_queue ob event queue = Some (res, ob')"
  shows "ob_inv ob' \<and>
    (if bm_get (ob_records ob) (ev_event_id event) = None
     then res = Ok () \<and> live ob' = (live ob)(ev_event_id event \<mapsto> er_new event)
     else res = Err (DuplicateEventId (ev_event_id event)) \<and> live ob' = live ob)"
proof -
  have sim: "ob_inv ob'" "spec_enqueue (ob_abs ob) event queue = (res, ob_abs ob')"
    using enqueue_refines [OF inv, of event queue] up by auto
  then have "bm_get (ob_records ob') = sp_records (snd (spec_enqueue (ob_abs ob) event queue))"
    by (simp add: ob_abs_def)
  with sim show ?thesis
    by (auto simp: spec_enqueue_def Let_def ob_abs_def live_def live_of_def er_new_def fun_eq_iff
        split: if_splits)
qed

section \<open>Discarding stale epochs\<close>

abbreviation stale :: "nat \<Rightarrow> event_record \<Rightarrow> bool" where
  "stale e r \<equiv> ev_epoch (er_event r) < e"

lemma discard_closure_eq:
  "\<not> er_terminal r \<Longrightarrow> discard_closure e r =
     (stale e r, if stale e r then r\<lparr>er_state := DiscardedStaleEpoch\<rparr> else r)"
  by (simp add: discard_closure_def er_discard_stale_def er_guard_def not_less)

lemma discard_loop_live:
  assumes "ob_inv ob" "distinct ids" "set ids \<subseteq> dom (live ob)"
  shows "\<exists>ob'. discard_loop e ids ob d
        = Some (d + length (filter (\<lambda>i. stale e (the (live ob i))) ids), ob') \<and> ob_inv ob'
     \<and> live ob' = (\<lambda>i. if i \<in> set ids \<and> (\<exists>r. live ob i = Some r \<and> stale e r) then None else live ob i)"
  using assms
proof (induction ids arbitrary: ob d)
  case Nil
  then show ?case by simp
next
  case (Cons i ids)
  obtain r where r: "live ob i = Some r" using Cons.prems by auto
  then have rec: "bm_get (ob_records ob) i = Some r" "\<not> er_terminal r" by (auto simp: live_Some)
  obtain res ob1 where up: "ob_update ob i (discard_closure e) = Some (res, ob1)"
    using discard_closure.update_refines [OF Cons.prems(1), of i e] by blast
  have eff: "ob_inv ob1" "res = Ok (stale e r)"
      "live ob1 = (live ob)(i := if stale e r then None else Some r)"
    using discard_closure.update_live [OF Cons.prems(1) up] rec
    by (auto simp: discard_closure_eq live_of_def)
  have other: "live ob1 j = live ob j" if "j \<in> set ids" for j
    using eff(3) that Cons.prems(2) by auto
  have "set ids \<subseteq> dom (live ob1)" using Cons.prems(2,3) other by (auto simp: domIff)
  from Cons.IH [OF eff(1) _ this, of "if stale e r then d + 1 else d"] Cons.prems(2)
  obtain ob' where ob': "discard_loop e ids ob1 (if stale e r then d + 1 else d)
        = Some ((if stale e r then d + 1 else d) + length (filter (\<lambda>i. stale e (the (live ob1 i))) ids), ob')"
      "ob_inv ob'"
      "live ob' = (\<lambda>j. if j \<in> set ids \<and> (\<exists>r. live ob1 j = Some r \<and> stale e r) then None else live ob1 j)"
    by auto
  have "filter (\<lambda>i. stale e (the (live ob1 i))) ids = filter (\<lambda>i. stale e (the (live ob i))) ids"
    using other by (intro filter_cong) auto
  then have "discard_loop e (i # ids) ob d
      = Some (d + length (filter (\<lambda>i. stale e (the (live ob i))) (i # ids)), ob')"
    using up eff(2) r ob'(1) by simp
  moreover have "live ob' j = (if j \<in> set (i # ids) \<and> (\<exists>r. live ob j = Some r \<and> stale e r) then None else live ob j)" for j
    using r Cons.prems(2) by (cases "j = i") (auto simp: ob'(3) eff(3))
  then have "live ob' = (\<lambda>j. if j \<in> set (i # ids) \<and> (\<exists>r. live ob j = Some r \<and> stale e r)
      then None else live ob j)" by (rule ext)
  ultimately show ?case using ob'(2) by blast
qed

lemma ob_discard_stale_live:
  assumes inv: "ob_inv ob"
  shows "\<exists>ob'. ob_discard_stale ob e = Some (card {i. \<exists>r. live ob i = Some r \<and> stale e r}, ob')
     \<and> ob_inv ob' \<and> live ob' = (\<lambda>i. if (\<exists>r. live ob i = Some r \<and> stale e r) then None else live ob i)"
proof -
  have d: "distinct (ob_active ob)" using inv by (auto simp: ob_inv_def ix_life_def bs_wf_distinct)
  have "set (filter (\<lambda>i. stale e (the (live ob i))) (ob_active ob))
      = {i. \<exists>r. live ob i = Some r \<and> stale e r}"
    using set_active [OF inv] by auto
  then have n: "length (filter (\<lambda>i. stale e (the (live ob i))) (ob_active ob))
      = card {i. \<exists>r. live ob i = Some r \<and> stale e r}"
    by (simp only: distinct_card [OF distinct_filter [OF d], symmetric])
  obtain ob' where l: "discard_loop e (ob_active ob) ob 0
        = Some (0 + length (filter (\<lambda>i. stale e (the (live ob i))) (ob_active ob)), ob')"
      "ob_inv ob'" "live ob' = (\<lambda>i. if i \<in> set (ob_active ob) \<and> (\<exists>r. live ob i = Some r \<and> stale e r)
         then None else live ob i)"
    using discard_loop_live [OF inv d equalityD1 [OF set_active [OF inv]], of e 0] by blast
  have "live ob' = (\<lambda>i. if (\<exists>r. live ob i = Some r \<and> stale e r) then None else live ob i)"
    unfolding l(3) set_active [OF inv] by (rule ext) auto
  then show ?thesis using l(1,2) n by (simp add: ob_discard_stale_def)
qed

section \<open>Runs\<close>

datatype ob_action =
    OEnqueue logical_event string
  | OUpdate nat er_action
  | ODiscardStale nat

definition ob_apply :: "outbox \<Rightarrow> ob_action \<Rightarrow> outbox option" where
  "ob_apply ob a = (case a of
      OEnqueue event queue \<Rightarrow> map_option snd (enqueue_in_queue ob event queue)
    | OUpdate eid act \<Rightarrow> map_option snd (ob_update ob eid (er_apply act))
    | ODiscardStale e \<Rightarrow> map_option snd (ob_discard_stale ob e))"

definition ob_step :: "outbox option \<Rightarrow> ob_action \<Rightarrow> outbox option" where
  "ob_step s a = Option.bind s (\<lambda>ob. ob_apply ob a)"

lemma ob_apply_inv:
  assumes "ob_inv ob"
  shows "\<exists>ob'. ob_apply ob a = Some ob' \<and> ob_inv ob'"
proof (cases a)
  case (OEnqueue event queue)
  then show ?thesis using enqueue_refines [OF assms, of event queue] by (auto simp: ob_apply_def)
next
  case (OUpdate eid act)
  then show ?thesis
    using apply_closure.update_refines [OF assms, of eid act] by (auto simp: ob_apply_def)
next
  case (ODiscardStale e)
  then show ?thesis using ob_discard_stale_live [OF assms, of e] by (auto simp: ob_apply_def)
qed

interpretation outbox_run: invariant_machine ob_step "\<lambda>s. \<exists>ob. s = Some ob \<and> ob_inv ob"
  using ob_apply_inv by unfold_locales (auto simp: ob_step_def)

section \<open>Queries\<close>

lemma set_pending:
  "ob_inv ob \<Longrightarrow> set (ob_pending ob) =
     {(ev_time r, i) | i r. bm_get (ob_records ob) i = Some r \<and> er_state r = Pending}"
  by (auto simp: ob_inv_def ix_pending_def)

lemma record_ids: "ob_inv ob \<Longrightarrow> bm_get (ob_records ob) i = Some r \<Longrightarrow> ev_event_id (er_event r) = i"
  by (simp add: ob_inv_def)

lemma dispatchable_eq:
  assumes "ob_inv ob"
  shows "dispatchable ob = map (\<lambda>k. er_event (the (bm_get (ob_records ob) (snd k)))) (ob_pending ob)"
  unfolding dispatchable_def by (rule map_filter_all) (auto simp: set_pending [OF assms])

lemma dispatchable_keys:
  assumes "ob_inv ob"
  shows "map (\<lambda>e. (ev_logical_time e, ev_event_id e)) (dispatchable ob) = ob_pending ob"
  unfolding dispatchable_eq [OF assms] map_map
  by (rule map_idI) (auto simp: set_pending [OF assms] record_ids [OF assms])

lemma set_dispatchable:
  assumes "ob_inv ob"
  shows "set (dispatchable ob) =
     {er_event r | i r. bm_get (ob_records ob) i = Some r \<and> er_state r = Pending}"
  unfolding dispatchable_eq [OF assms] set_map set_pending [OF assms] by force

lemma queue_heads_iff:
  assumes "ob_inv ob"
  shows "(q, k) \<in> set (dispatchable_queue_heads ob) \<longleftrightarrow>
     k \<in> set (ob_pending ob) \<and> bm_get (ob_queue_by_id ob) (snd k) = Some q \<and>
     (\<forall>k'\<in>set (ob_pending ob). bm_get (ob_queue_by_id ob) (snd k') = Some q \<longrightarrow> k \<le> k')"
proof -
  have q: "ix_queues ob" using assms by (simp add: ob_inv_def)
  then have wf: "bm_wf (ob_pending_by_queue ob)" by (simp add: ix_queues_def)
  have "(q, k) \<in> set (dispatchable_queue_heads ob) \<longleftrightarrow>
      (\<exists>s. bm_get (ob_pending_by_queue ob) q = Some s \<and> bs_first s = Some k)"
    unfolding bm_get_eq_Some [OF wf] by (force simp: dispatchable_queue_heads_def in_map_filter)
  also have "\<dots> \<longleftrightarrow> bs_first (queue_keys (ob_pending_by_queue ob) q) = Some k"
    by (auto simp: queue_keys_def bs_first_def split: option.split)
  also have "\<dots> \<longleftrightarrow> k \<in> set (queue_keys (ob_pending_by_queue ob) q)
      \<and> (\<forall>k'\<in>set (queue_keys (ob_pending_by_queue ob) q). k \<le> k')"
    using q by (intro bs_first_Some) (simp add: ix_queues_def)
  finally show ?thesis using q by (auto simp: ix_queues_def)
qed

lemma next_in_queue_iff:
  assumes "ob_inv ob"
  shows "next_dispatchable_in_queue ob q after = Some k \<longleftrightarrow>
     k \<in> set (ob_pending ob) \<and> bm_get (ob_queue_by_id ob) (snd k) = Some q \<and> after < k \<and>
     (\<forall>k'\<in>set (ob_pending ob). bm_get (ob_queue_by_id ob) (snd k') = Some q \<and> after < k' \<longrightarrow> k \<le> k')"
proof -
  have q: "ix_queues ob" using assms by (simp add: ob_inv_def)
  have "next_dispatchable_in_queue ob q after = bs_next_after (queue_keys (ob_pending_by_queue ob) q) after"
    by (simp add: next_dispatchable_in_queue_def queue_keys_def bs_next_after_def bs_first_def split: option.split)
  then show ?thesis using q by (auto simp: bs_next_after_Some ix_queues_def)
qed

lemma set_retrying:
  "ob_inv ob \<Longrightarrow> set (ob_retrying ob) =
     {(t, i) | t i r. bm_get (ob_records ob) i = Some r \<and> er_state r = RetryWaiting t}"
  by (auto simp: ob_inv_def ix_retry_def)

lemma retries_due_eq:
  assumes inv: "ob_inv ob" and ids: "\<And>i r. bm_get (ob_records ob) i = Some r \<Longrightarrow> i < 2 ^ 128"
  shows "retries_due ob now = map snd (filter (\<lambda>k. fst k \<le> now) (ob_retrying ob))"
proof -
  have "k \<le> (now, u_max 128) \<longleftrightarrow> fst k \<le> now" if kr: "k \<in> set (ob_retrying ob)" for k
  proof -
    obtain r where "bm_get (ob_records ob) (snd k) = Some r"
      using kr by (auto simp: set_retrying [OF inv])
    then have "snd k \<le> u_max 128" using ids by (fastforce simp: u_max_def)
    then show ?thesis by (cases k rule: prod.exhaust) auto
  qed
  then show ?thesis
    unfolding retries_due_def bs_upto_def by (simp cong: filter_cong)
qed

text \<open>Two sample events, the later one enqueued first.\<close>

definition sample_outbox :: outbox where
  "sample_outbox = the (exec ob_step (Some (ob_with_terminal_retention 1))
     [OEnqueue (sample_event\<lparr>ev_event_id := 7, ev_logical_time := 20\<rparr>) ''b'',
      OEnqueue (sample_event\<lparr>ev_event_id := 9, ev_logical_time := 10\<rparr>) ''a''])"

lemma sample_outbox_inv: "ob_inv sample_outbox"
  using outbox_run.exec_inv [of "Some (ob_with_terminal_retention 1)"
      "[OEnqueue (sample_event\<lparr>ev_event_id := 7, ev_logical_time := 20\<rparr>) ''b'',
        OEnqueue (sample_event\<lparr>ev_event_id := 9, ev_logical_time := 10\<rparr>) ''a'']"] ob_inv_new
  unfolding sample_outbox_def by fastforce

lemma sample_outbox_eq:
  "sample_outbox =
     \<lparr>ob_records = [(7, er_new (sample_event\<lparr>ev_event_id := 7, ev_logical_time := 20\<rparr>)),
                   (9, er_new (sample_event\<lparr>ev_event_id := 9, ev_logical_time := 10\<rparr>))],
      ob_pending = [(10, 9), (20, 7)],
      ob_pending_by_queue = [(''a'', [(10, 9)]), (''b'', [(20, 7)])],
      ob_queue_by_id = [(7, ''b''), (9, ''a'')],
      ob_retrying = [], ob_retry_at_by_id = [], ob_active = [7, 9], ob_terminal = [],
      ob_terminal_retention = 1, ob_evicted = 0\<rparr>"
  by (simp add: sample_outbox_def ob_step_def ob_apply_def enqueue_in_queue_def reindex_def
      clear_queue_def clear_retry_def place_def Let_def ob_with_terminal_retention_def sample_event_def
      er_new_def bm_contains_def bm_insert_def bs_insert_def bs_remove_def)

text \<open>The first of them after a failed attempt at instant 100.\<close>

definition sample_waiting :: outbox where
  "sample_waiting = the (exec ob_step (Some sample_outbox)
     [OUpdate 7 ALease, OUpdate 7 AStart, OUpdate 7 (AFail sample_policy 100)])"

lemma sample_waiting_inv: "ob_inv sample_waiting"
  using outbox_run.exec_inv [of "Some sample_outbox"
      "[OUpdate 7 ALease, OUpdate 7 AStart, OUpdate 7 (AFail sample_policy 100)]"] sample_outbox_inv
  unfolding sample_waiting_def by fastforce

lemma sample_waiting_eq:
  "map fst (ob_records sample_waiting) = [7, 9] \<and> ob_retrying sample_waiting = [(1000000100, 7)]"
  by (simp add: sample_waiting_def sample_outbox_eq ob_step_def ob_apply_def ob_update_def reindex_def
      clear_queue_def clear_retry_def place_def Let_def bm_contains_def bm_insert_def bm_remove_def
      bs_insert_def bs_remove_def er_eval)

section \<open>Properties\<close>

text \<open>C1: Whatever sequence of operations an outbox sees, no operation panics (a pending
  record always has its dispatch queue) and all five indexes agree with the records after
  each of them.\<close>

theorem outbox_run_safe:
  "\<exists>ob. exec ob_step (Some (ob_with_terminal_retention n)) as = Some ob \<and> ob_inv ob"
  using outbox_run.exec_inv ob_inv_new by blast

text \<open>C2: The indexed outbox implements the outbox that keeps no index: enqueue and update
  return what the specification returns and leave what it leaves, retention and eviction
  included.\<close>

theorem outbox_refines_spec:
  assumes "ob_inv ob"
  shows "(\<exists>res ob'. enqueue_in_queue ob event queue = Some (res, ob') \<and> ob_inv ob'
       \<and> spec_enqueue (ob_abs ob) event queue = (res, ob_abs ob'))
     \<and> (\<exists>res ob'. ob_update ob eid (er_apply a) = Some (res, ob') \<and> ob_inv ob'
       \<and> spec_update (ob_abs ob) eid (er_apply a) = (res, ob_abs ob'))"
  using enqueue_refines [OF assms] apply_closure.update_refines [OF assms] by blast

theorem outbox_refines_spec_witness:
  "ob_inv sample_outbox
   \<and> (\<exists>res ob'. ob_update sample_outbox 7 (er_apply ACancel) = Some (res, ob') \<and> ob_inv ob'
       \<and> spec_update (ob_abs sample_outbox) 7 (er_apply ACancel) = (res, ob_abs ob'))"
  using outbox_refines_spec [OF sample_outbox_inv, of sample_event "''q''" 7 ACancel] sample_outbox_inv
  by blast

text \<open>C12: Dispatch order. The dispatchable events are exactly the pending ones, each once, in
  the order of logical time and then event id; each queue's head is the least pending key of
  that queue, and the next key in a queue is the least one after the given key.\<close>

theorem dispatch_order:
  assumes "ob_inv ob"
  shows "sorted_wrt (<) (map (\<lambda>e. (ev_logical_time e, ev_event_id e)) (dispatchable ob))
     \<and> set (dispatchable ob) = {er_event r | i r. bm_get (ob_records ob) i = Some r \<and> er_state r = Pending}
     \<and> ((q, k) \<in> set (dispatchable_queue_heads ob) \<longleftrightarrow>
          k \<in> set (ob_pending ob) \<and> bm_get (ob_queue_by_id ob) (snd k) = Some q \<and>
          (\<forall>k'\<in>set (ob_pending ob). bm_get (ob_queue_by_id ob) (snd k') = Some q \<longrightarrow> k \<le> k'))
     \<and> (next_dispatchable_in_queue ob q after = Some k \<longleftrightarrow>
          k \<in> set (ob_pending ob) \<and> bm_get (ob_queue_by_id ob) (snd k) = Some q \<and> after < k \<and>
          (\<forall>k'\<in>set (ob_pending ob).
             bm_get (ob_queue_by_id ob) (snd k') = Some q \<and> after < k' \<longrightarrow> k \<le> k'))"
proof -
  have "sorted_wrt (<) (ob_pending ob)" using assms by (simp add: ob_inv_def ix_pending_def bs_wf_def)
  then show ?thesis
    using dispatchable_keys [OF assms] set_dispatchable [OF assms] queue_heads_iff [OF assms]
      next_in_queue_iff [OF assms] by simp
qed

theorem dispatch_order_witness:
  "map ev_event_id (dispatchable sample_outbox) = [9, 7]
   \<and> sorted_wrt (<) (map (\<lambda>e. (ev_logical_time e, ev_event_id e)) (dispatchable sample_outbox))
   \<and> next_dispatchable_in_queue sample_outbox ''b'' (10, 9) = Some (20, 7)"
proof -
  have d: "map ev_event_id (dispatchable sample_outbox) = [9, 7]"
    by (simp add: sample_outbox_eq dispatchable_def map_filter_simps er_new_def)
  show ?thesis
    using dispatch_order [OF sample_outbox_inv, of "''b''" "(20, 7)" "(10, 9)"] d
    by (simp add: sample_outbox_eq)
qed

text \<open>C14: The retry sweep at \<open>now\<close> returns exactly the records whose timer has elapsed, each
  once, ordered by due instant and then id, and visits no other entry.\<close>

theorem retry_sweep_exact:
  assumes "ob_inv ob" "\<forall>i r. bm_get (ob_records ob) i = Some r \<longrightarrow> i < 2 ^ 128"
  shows "set (retries_due ob now) =
       {i. \<exists>r t. bm_get (ob_records ob) i = Some r \<and> er_state r = RetryWaiting t \<and> t \<le> now}
     \<and> distinct (retries_due ob now)
     \<and> sorted_wrt (<) (map (\<lambda>i. (retry_at (er_state (the (bm_get (ob_records ob) i))), i)) (retries_due ob now))
     \<and> retry_sweep_visits ob now = length (retries_due ob now)"
proof -
  have due: "retries_due ob now = map snd (filter (\<lambda>k. fst k \<le> now) (ob_retrying ob))"
    using assms by (intro retries_due_eq) auto
  have k: "(retry_at (er_state (the (bm_get (ob_records ob) (snd x)))), snd x) = x"
    if "x \<in> set (ob_retrying ob)" for x
    using that by (auto simp: set_retrying [OF assms(1)])
  have "sorted_wrt (<) (filter (\<lambda>k. fst k \<le> now) (ob_retrying ob))"
    using assms(1) by (simp add: ob_inv_def ix_retry_def bs_wf_def sorted_wrt_filter)
  moreover have keys: "map (\<lambda>i. (retry_at (er_state (the (bm_get (ob_records ob) i))), i)) (retries_due ob now)
      = filter (\<lambda>k. fst k \<le> now) (ob_retrying ob)"
    unfolding due map_map by (rule map_idI) (use k in auto)
  ultimately have "sorted_wrt (<) (map (\<lambda>i. (retry_at (er_state (the (bm_get (ob_records ob) i))), i)) (retries_due ob now))"
    by simp
  moreover from this have "distinct (retries_due ob now)"
    using sorted_wrt_less_distinct distinct_map by blast
  moreover have "set (retries_due ob now) =
       {i. \<exists>r t. bm_get (ob_records ob) i = Some r \<and> er_state r = RetryWaiting t \<and> t \<le> now}"
    unfolding due by (force simp: set_retrying [OF assms(1)])
  ultimately show ?thesis by (simp add: retry_sweep_visits_def retries_due_def)
qed

theorem retry_sweep_exact_witness:
  "7 \<in> set (retries_due sample_waiting 1000000100) \<and> 7 \<notin> set (retries_due sample_waiting 1000000099)
   \<and> retry_sweep_visits sample_waiting 1000000099 = length (retries_due sample_waiting 1000000099)"
proof -
  have ids: "\<forall>i r. bm_get (ob_records sample_waiting) i = Some r \<longrightarrow> i < 2 ^ 128"
  proof (intro allI impI)
    fix i r
    assume "bm_get (ob_records sample_waiting) i = Some r"
    then have "i \<in> set (map fst (ob_records sample_waiting))" by (force dest: map_of_SomeD)
    then show "i < 2 ^ 128" using sample_waiting_eq by auto
  qed
  have "(1000000100, 7) \<in> set (ob_retrying sample_waiting)" using sample_waiting_eq by simp
  then obtain r where "bm_get (ob_records sample_waiting) 7 = Some r" "er_state r = RetryWaiting 1000000100"
    unfolding set_retrying [OF sample_waiting_inv] by auto
  then show ?thesis
    using retry_sweep_exact [OF sample_waiting_inv ids, of 1000000100]
      retry_sweep_exact [OF sample_waiting_inv ids, of 1000000099] by auto
qed

text \<open>Live records are never lost. An update changes only the record it names (every
  other live record stays as it is), retention never drops a live record, and the outbox reports
  activity exactly while there is one.\<close>

theorem live_records_kept:
  assumes "ob_inv ob" "ob_update ob eid (er_apply a) = Some (res, ob')"
  shows "live ob' = (case bm_get (ob_records ob) eid of
         None \<Rightarrow> live ob | Some r \<Rightarrow> (live ob)(eid := live_of (Some (snd (er_apply a r)))))
     \<and> (has_active ob' \<longleftrightarrow> (\<exists>j. live ob' j \<noteq> None))
     \<and> length (ob_terminal ob') \<le> ob_terminal_retention ob'"
proof -
  have u: "ob_inv ob'" "live ob' = (case bm_get (ob_records ob) eid of
      None \<Rightarrow> live ob | Some r \<Rightarrow> (live ob)(eid := live_of (Some (snd (er_apply a r)))))"
    using apply_closure.update_live [OF assms] by blast+
  have "has_active ob' \<longleftrightarrow> set (ob_active ob') \<noteq> {}" by (simp add: has_active_def)
  also have "\<dots> \<longleftrightarrow> (\<exists>j. live ob' j \<noteq> None)" unfolding set_active [OF u(1)] dom_def by simp
  finally show ?thesis using u by (simp add: ob_inv_def)
qed

theorem live_records_kept_witness:
  "\<exists>res ob'. ob_update sample_outbox 7 (er_apply ACancel) = Some (res, ob')
     \<and> live ob' 7 = None \<and> live ob' 9 = live sample_outbox 9 \<and> has_active ob'"
proof -
  obtain res ob' where u: "ob_update sample_outbox 7 (er_apply ACancel) = Some (res, ob')"
    using apply_closure.update_refines [OF sample_outbox_inv, of 7 ACancel] by blast
  have n: "live sample_outbox 9 \<noteq> None"
    by (simp add: sample_outbox_eq live_def live_of_def er_new_def)
  obtain r where r: "bm_get (ob_records sample_outbox) 7 = Some r" "\<not> er_terminal r"
    by (simp add: sample_outbox_eq er_new_def)
  then have "live_of (Some (snd (er_apply ACancel r))) = None"
    by (simp add: live_of_def op_defs er_guard_def)
  then have l: "live ob' = (live sample_outbox)(7 := None)" "has_active ob' \<longleftrightarrow> (\<exists>j. live ob' j \<noteq> None)"
    using live_records_kept [OF sample_outbox_inv u] r(1) by simp_all
  have "live ob' 9 \<noteq> None" using l(1) n by simp
  then have "has_active ob'" using l(2) by blast
  then show ?thesis using u l(1) by (intro exI conjI) auto
qed

text \<open>C13: Discarding at an epoch retires exactly the live records of older epochs, returns
  their number, and leaves every other live record as it was: after it, no live record is
  stale.\<close>

theorem discard_stale_exact:
  assumes "ob_inv ob"
  shows "\<exists>ob'. ob_discard_stale ob e = Some (card {i. \<exists>r. live ob i = Some r \<and> stale e r}, ob')
     \<and> ob_inv ob'
     \<and> live ob' = (\<lambda>i. if (\<exists>r. live ob i = Some r \<and> stale e r) then None else live ob i)"
  using ob_discard_stale_live [OF assms] .

theorem discard_stale_exact_witness:
  "\<exists>ob'. ob_discard_stale sample_outbox 1
       = Some (card {i. \<exists>r. live sample_outbox i = Some r \<and> stale 1 r}, ob')
     \<and> ob_inv ob' \<and> live ob' 7 = None \<and> live sample_outbox 7 \<noteq> None"
proof -
  have "\<exists>r. live sample_outbox 7 = Some r \<and> stale 1 r"
    by (simp add: sample_outbox_eq live_Some er_new_def sample_event_def)
  then show ?thesis using discard_stale_exact [OF sample_outbox_inv, of 1] by fastforce
qed

end
