(* ===== verification/Ids.thy ===== *)
theory Ids
  imports Prelude
begin

text \<open>
  Identifier syntax (crates/fireemu-core-types/src/ids.rs): project, database, collection,
  document and catalog ids, the successor of a document id used as a range bound, and epochs.
  Identifiers are UTF-8 byte strings, compared bytewise as Rust compares \<open>String\<close>s.
\<close>

section \<open>Validation\<close>

datatype id_syntax_error =
    IdEmpty
  | TooManyBytes nat nat
  | InvalidCharacter nat
  | LeadingOrTrailingHyphen
  | ContainsSlash
  | DotSegment
  | ReservedDunder
  | ControlCharacter nat

definition max_id_utf8_bytes :: nat where
  "max_id_utf8_bytes = 1500"

definition validate_lowercase_hyphenated :: "string \<Rightarrow> nat \<Rightarrow> (id_syntax_error, unit) result" where
  "validate_lowercase_hyphenated s max_bytes =
     (if s = [] then Err IdEmpty
      else if length s > max_bytes then Err (TooManyBytes (length s) max_bytes)
      else case position (\<lambda>b. \<not> (is_ascii_lowercase b \<or> is_ascii_digit b \<or> b = CHR ''-'')) s of
             Some offset \<Rightarrow> Err (InvalidCharacter offset)
           | None \<Rightarrow>
               if hd s = CHR ''-'' \<or> last s = CHR ''-'' then Err LeadingOrTrailingHyphen else Ok ())"

text \<open>\<open>char::is_control\<close> at a byte offset: U+0000 to U+001F and U+007F are one byte,
  U+0080 to U+009F are the byte C2 and one of 80 to 9F. In UTF-8 the byte C2 occurs only
  as a lead byte.\<close>

definition is_c0 :: "char \<Rightarrow> bool" where
  "is_c0 b \<longleftrightarrow> b < CHR 0x20 \<or> b = CHR 0x7F"

fun control_offset :: "nat \<Rightarrow> string \<Rightarrow> nat option" where
  "control_offset i [] = None"
| "control_offset i [b] = (if is_c0 b then Some i else None)"
| "control_offset i (b # c # rest) =
     (if is_c0 b \<or> (b = CHR 0xC2 \<and> CHR 0x80 \<le> c \<and> c \<le> CHR 0x9F) then Some i
      else control_offset (Suc i) (c # rest))"

definition is_reserved_dunder :: "string \<Rightarrow> bool" where
  "is_reserved_dunder s \<longleftrightarrow>
     length s \<ge> 4 \<and> take 2 s = ''__'' \<and> drop (length s - 2) s = ''__''"

definition validate_path_segment :: "string \<Rightarrow> (id_syntax_error, unit) result" where
  "validate_path_segment s =
     (if s = [] then Err IdEmpty
      else if length s > max_id_utf8_bytes then Err (TooManyBytes (length s) max_id_utf8_bytes)
      else if CHR ''/'' \<in> set s then Err ContainsSlash
      else case control_offset 0 s of
             Some offset \<Rightarrow> Err (ControlCharacter offset)
           | None \<Rightarrow>
               if s = ''.'' \<or> s = ''..'' then Err DotSegment
               else if is_reserved_dunder s then Err ReservedDunder
               else Ok ())"

definition project_id_try_new :: "string \<Rightarrow> (id_syntax_error, string) result" where
  "project_id_try_new value = and_then (validate_lowercase_hyphenated value 63) (\<lambda>_. Ok value)"

definition has_demo_prefix :: "string \<Rightarrow> bool" where
  "has_demo_prefix p \<longleftrightarrow> take 5 p = ''demo-''"

definition database_id_try_new :: "string \<Rightarrow> (id_syntax_error, string) result" where
  "database_id_try_new value =
     and_then (if value = ''(default)'' then Ok () else validate_lowercase_hyphenated value 63)
       (\<lambda>_. Ok value)"

definition collection_id_try_new :: "string \<Rightarrow> (id_syntax_error, string) result" where
  "collection_id_try_new value = and_then (validate_path_segment value) (\<lambda>_. Ok value)"

definition document_id_try_new :: "string \<Rightarrow> (id_syntax_error, string) result" where
  "document_id_try_new value = and_then (validate_path_segment value) (\<lambda>_. Ok value)"

definition limit_catalog_id_try_new :: "string \<Rightarrow> (id_syntax_error, string) result" where
  "limit_catalog_id_try_new value = and_then (validate_lowercase_hyphenated value 128) (\<lambda>_. Ok value)"

definition ordered_successor :: "string \<Rightarrow> string" where
  "ordered_successor value = value @ [CHR 0x00]"

definition epoch_next :: "nat \<Rightarrow> nat option" where
  "epoch_next e = checked_add_u 64 e 1"

section \<open>Lemmas\<close>

lemma epoch_next_Some: "epoch_next e = Some e' \<longleftrightarrow> e' = e + 1 \<and> e + 1 \<le> u_max 64"
  by (auto simp: epoch_next_def checked_add_u_Some u_max_def)

lemma control_offset_c0: "b \<in> set s \<Longrightarrow> is_c0 b \<Longrightarrow> control_offset i s \<noteq> None"
  by (induction i s rule: control_offset.induct) auto

lemma document_id_no_nul: "document_id_try_new s = Inr s' \<Longrightarrow> s' = s \<and> CHR 0x00 \<notin> set s"
  using control_offset_c0 [of "CHR 0x00" s 0]
  by (auto simp: document_id_try_new_def and_then_eq_Inr validate_path_segment_def is_c0_def
      less_char_def split: if_splits option.splits)

lemma successor_greater: "s < ordered_successor s"
  by (induction s) (auto simp: ordered_successor_def)

text \<open>Nothing lies strictly between an id and its successor.\<close>

lemma char_zero_least: "CHR 0x00 \<le> c"
  by (simp add: less_eq_char_def)

lemma successor_least: "s < t \<Longrightarrow> ordered_successor s \<le> t"
proof (induction s arbitrary: t)
  case Nil
  then show ?case
    using char_zero_least by (cases t; cases "tl t") (auto simp: ordered_successor_def le_less)
next
  case (Cons c s)
  then show ?case by (cases t) (auto simp: ordered_successor_def)
qed

section \<open>Properties\<close>

text \<open>The successor of a document id is the exclusive end of its subtree: among paths
  whose segments are valid ids, those between the id and its successor are exactly the
  paths that start with the id. The successor itself is never a valid id.\<close>

theorem successor_bounds_subtree:
  "([d] \<le> p \<and> p < [ordered_successor d] \<longleftrightarrow> (\<exists>rest. p = d # rest))
   \<and> (\<forall>s. document_id_try_new s \<noteq> Inr (ordered_successor d))"
proof (intro conjI allI)
  show "[d] \<le> p \<and> p < [ordered_successor d] \<longleftrightarrow> (\<exists>rest. p = d # rest)"
  proof (cases p)
    case (Cons x rest)
    have "x < ordered_successor d \<and> d \<le> x \<longleftrightarrow> x = d"
      using successor_greater [of d] successor_least [of d x] by force
    then show ?thesis using Cons successor_greater [of d] by auto
  qed simp
  show "document_id_try_new s \<noteq> Inr (ordered_successor d)" for s
  proof
    assume "document_id_try_new s = Inr (ordered_successor d)"
    from document_id_no_nul [OF this] show False by (auto simp: ordered_successor_def)
  qed
qed

text \<open>It does not order after every id that extends it.\<close>

lemma successor_not_above_extensions: "ordered_successor ''a'' < ''ab''"
  by (simp add: ordered_successor_def less_char_def)

end
