(* ===== verification/Determinism.thy ===== *)
theory Determinism
  imports Prelude
begin

text \<open>
  The deterministic random generator and id source (crates/fireemu-core-types/src/
  determinism.rs), on machine words. The lemmas show that every step of \<open>SplitMix64\<close>
  is a bijection of the 64-bit words, from which ids never repeat.
\<close>

unbundle bit_operations_syntax

section \<open>SplitMix64\<close>

definition golden_gamma :: "64 word" where
  "golden_gamma = 0x9E3779B97F4A7C15"

text \<open>The output as a function of the advanced state.\<close>

definition splitmix_output :: "64 word \<Rightarrow> 64 word" where
  "splitmix_output z0 =
     (let z1 = (z0 XOR drop_bit 30 z0) * 0xBF58476D1CE4E5B9;
          z2 = (z1 XOR drop_bit 27 z1) * 0x94D049BB133111EB
      in z2 XOR drop_bit 31 z2)"

definition next_u64 :: "64 word \<Rightarrow> 64 word \<times> 64 word" where
  "next_u64 state = (let state = state + golden_gamma in (splitmix_output state, state))"

partial_function (option) next_below_loop ::
  "64 word \<Rightarrow> 64 word \<Rightarrow> 64 word \<Rightarrow> (64 word \<times> 64 word) option" where
  "next_below_loop bound zone state =
     (case next_u64 state of
        (v, state) \<Rightarrow> if v < zone then Some (v mod bound, state) else next_below_loop bound zone state)"

definition next_below :: "64 word \<Rightarrow> 64 word \<Rightarrow> (64 word \<times> 64 word) option" where
  "next_below bound state =
     (if bound \<le> 1 then Some (0, state)
      else let zone = - 1 - ((- 1) mod bound) in next_below_loop bound zone state)"

section \<open>The id source\<close>

datatype id_kind = EventKind | InvocationKind | TransactionKind | CorrelationKind

fun kind_number :: "id_kind \<Rightarrow> nat" where
  "kind_number EventKind = 1"
| "kind_number InvocationKind = 2"
| "kind_number TransactionKind = 3"
| "kind_number CorrelationKind = 4"

record id_source =
  src_session :: "128 word"
  src_seed :: "64 word"
  src_command_counter :: "64 word"
  src_counters :: "64 word list"

definition id_source_new :: "128 word \<Rightarrow> 64 word \<Rightarrow> id_source" where
  "id_source_new session seed =
     \<lparr>src_session = session, src_seed = seed, src_command_counter = 0, src_counters = [0, 0, 0, 0]\<rparr>"

definition session_hash :: "128 word \<Rightarrow> 64 word \<Rightarrow> id_kind \<Rightarrow> 64 word" where
  "session_hash session seed kind =
     (let lo = ucast session; hi = ucast (drop_bit 64 session)
      in fst (next_u64 (lo XOR word_rotl 17 hi XOR seed XOR push_bit 56 (of_nat (kind_number kind)))))"

definition next_mixed :: "id_kind \<Rightarrow> id_source \<Rightarrow> 128 word \<times> id_source" where
  "next_mixed kind src =
     (let slot = kind_number kind - 1;
          counters = (src_counters src)[slot := src_counters src ! slot + 1];
          counter = counters ! slot;
          hash = session_hash (src_session src) (src_seed src) kind;
          counter_hash = fst (next_u64 (hash XOR counter))
      in (push_bit 64 (ucast hash) OR ucast counter_hash, src\<lparr>src_counters := counters\<rparr>))"

definition next_command_id :: "id_source \<Rightarrow> 64 word \<times> id_source" where
  "next_command_id src =
     (let counter = src_command_counter src + 1
      in (counter, src\<lparr>src_command_counter := counter\<rparr>))"

abbreviation next_event_id :: "id_source \<Rightarrow> 128 word \<times> id_source" where
  "next_event_id \<equiv> next_mixed EventKind"

abbreviation next_invocation_id :: "id_source \<Rightarrow> 128 word \<times> id_source" where
  "next_invocation_id \<equiv> next_mixed InvocationKind"

abbreviation next_transaction_id :: "id_source \<Rightarrow> 128 word \<times> id_source" where
  "next_transaction_id \<equiv> next_mixed TransactionKind"

abbreviation next_correlation_id :: "id_source \<Rightarrow> 128 word \<times> id_source" where
  "next_correlation_id \<equiv> next_mixed CorrelationKind"

text \<open>Ids drawn one after another, and the sequence a list of requests gets.\<close>

fun draw_ids :: "id_kind list \<Rightarrow> id_source \<Rightarrow> (128 word) list" where
  "draw_ids [] src = []"
| "draw_ids (k # ks) src = (case next_mixed k src of (i, src') \<Rightarrow> i # draw_ids ks src')"

section \<open>Bijectivity\<close>

lemma drop_bit_fixpoint:
  assumes "drop_bit k (d :: 'a::len word) = d" "0 < k"
  shows "d = 0"
proof -
  have "unat (drop_bit k d) = unat d div 2 ^ k" unfolding unat_drop_bit_eq by (rule drop_bit_eq_div)
  then have "unat d div 2 ^ k = unat d" using assms(1) by simp
  moreover have "unat d div 2 ^ k < unat d" if "unat d \<noteq> 0"
    using that one_less_power [of "2::nat" k] assms(2) by (intro div_less_dividend) auto
  ultimately show ?thesis by (metis less_irrefl unat_eq_zero)
qed

lemma xorshift_inj:
  assumes "(x :: 'a::len word) XOR drop_bit k x = y XOR drop_bit k y" "0 < k"
  shows "x = y"
proof -
  have "drop_bit k (x XOR y) = x XOR y"
    using assms(1) by (metis (no_types, lifting) drop_bit_xor xor.assoc xor.commute xor.left_commute
        xor_self_eq xor.right_neutral)
  then have "x XOR y = 0" using assms(2) by (rule drop_bit_fixpoint)
  then show ?thesis by (metis xor.assoc xor.left_neutral xor.right_neutral xor_self_eq)
qed

lemma mult_unit_inj: "c * c' = (1 :: 'a::len word) \<Longrightarrow> x * c = y * c \<Longrightarrow> x = y"
  by (metis mult.assoc mult.right_neutral)

lemma splitmix_output_inj: "splitmix_output x = splitmix_output y \<Longrightarrow> x = y"
proof -
  assume *: "splitmix_output x = splitmix_output y"
  have u1: "(0xBF58476D1CE4E5B9 :: 64 word) * 0x96DE1B173F119089 = 1" by simp
  have u2: "(0x94D049BB133111EB :: 64 word) * 0x319642B2D24D8EC3 = 1" by simp
  show ?thesis
    using * unfolding splitmix_output_def Let_def
    by (auto dest!: xorshift_inj mult_unit_inj [OF u1] mult_unit_inj [OF u2])
qed

lemma fst_next_u64: "fst (next_u64 s) = splitmix_output (s + golden_gamma)"
  by (simp add: next_u64_def Let_def)

lemma next_u64_inj: "fst (next_u64 s) = fst (next_u64 t) \<Longrightarrow> s = t"
  by (auto simp: fst_next_u64 dest: splitmix_output_inj)

section \<open>The rejection loop ends\<close>

lemma next_below_loop_returns:
  assumes "splitmix_output (state + of_nat (Suc n) * golden_gamma) < zone"
  shows "\<exists>v state'. next_below_loop bound zone state = Some (v mod bound, state') \<and> v < zone"
  using assms
proof (induction n arbitrary: state)
  case 0
  then show ?case by (subst next_below_loop.simps) (auto simp: next_u64_def Let_def)
next
  case (Suc n)
  have "splitmix_output ((state + golden_gamma) + of_nat (Suc n) * golden_gamma) < zone"
    using Suc.prems by (simp add: algebra_simps)
  then have "\<exists>v state'. next_below_loop bound zone (state + golden_gamma) = Some (v mod bound, state') \<and> v < zone"
    by (rule Suc.IH)
  then show ?case
    by (cases "splitmix_output (state + golden_gamma) < zone")
       (subst next_below_loop.simps; auto simp: next_u64_def Let_def)+
qed

lemma state_reaches_zero: "\<exists>n. state + of_nat (Suc n) * golden_gamma = 0"
proof
  let ?m = "- state * 0xF1DE83E19937733D - 1"
  have u: "(0xF1DE83E19937733D :: 64 word) * golden_gamma = 1" by (simp add: golden_gamma_def)
  have "of_nat (Suc (unat ?m)) = - state * 0xF1DE83E19937733D" by simp
  then have "of_nat (Suc (unat ?m)) * golden_gamma = - state * (0xF1DE83E19937733D * golden_gamma)"
    by (simp only: mult.assoc)
  then show "state + of_nat (Suc (unat ?m)) * golden_gamma = 0" by (simp only: u) simp
qed

lemma next_below_zone_pos: "1 < bound \<Longrightarrow> (0 :: 64 word) < - 1 - ((- 1) mod bound)"
proof -
  assume "1 < bound"
  then have "(- 1 :: 64 word) mod bound < bound" by (intro word_mod_less_divisor) (auto intro: less_trans [rotated])
  then have "(- 1 :: 64 word) mod bound \<noteq> - 1"
    by (metis leD word_order.extremum)
  then show ?thesis by (simp add: word_neq_0_conv [symmetric])
qed

lemma next_below_total:
  "\<exists>v state'. next_below bound state = Some (v, state') \<and> (if bound \<le> 1 then v = 0 else v < bound)"
proof (cases "bound \<le> 1")
  case True
  then show ?thesis by (simp add: next_below_def)
next
  case False
  then have b: "1 < bound" by simp
  define zone where "zone = - 1 - ((- 1) mod bound)"
  obtain n where "state + of_nat (Suc n) * golden_gamma = 0" using state_reaches_zero by blast
  moreover have "splitmix_output 0 < zone"
    using next_below_zone_pos [OF b] by (simp add: splitmix_output_def zone_def)
  ultimately obtain v state' where "next_below_loop bound zone state = Some (v mod bound, state')"
    using next_below_loop_returns [of state n zone bound] by auto
  moreover have "v mod bound < bound" by (rule word_mod_less_divisor) (use b in \<open>auto intro: less_trans [rotated]\<close>)
  ultimately show ?thesis using False by (auto simp: next_below_def Let_def zone_def)
qed

section \<open>Ids never repeat\<close>

definition mixed_value :: "128 word \<Rightarrow> 64 word \<Rightarrow> id_kind \<Rightarrow> 64 word \<Rightarrow> 128 word" where
  "mixed_value session seed kind counter =
     push_bit 64 (ucast (session_hash session seed kind))
     OR ucast (fst (next_u64 (session_hash session seed kind XOR counter)))"

lemma halves_inj:
  fixes a b c d :: "64 word"
  assumes "push_bit 64 (ucast a) OR ucast b = (push_bit 64 (ucast c) OR ucast d :: 128 word)"
  shows "a = c \<and> b = d"
proof
  have "bit a n = bit c n" if "n < 64" for n
    using that arg_cong [OF assms, of "\<lambda>w. bit w (n + 64)"]
    by (auto simp: bit_simps dest: bit_imp_le_length)
  then show "a = c" by (intro bit_word_eqI) simp
  have "bit b n = bit d n" if "n < 64" for n
    using that arg_cong [OF assms, of "\<lambda>w. bit w n"] by (simp add: bit_simps)
  then show "b = d" by (intro bit_word_eqI) simp
qed

lemma xor_cancel: "x XOR y = x XOR z \<Longrightarrow> y = (z :: 'a::len word)"
  by (metis xor.assoc xor.left_neutral xor_self_eq)

lemma mixed_value_inj:
  assumes "mixed_value session seed kind counter = mixed_value session' seed' kind' counter'"
  shows "session_hash session seed kind = session_hash session' seed' kind' \<and> counter = counter'"
  using halves_inj [OF assms [unfolded mixed_value_def]] next_u64_inj xor_cancel by metis

lemma kind_bits_inj:
  "push_bit 56 (of_nat (kind_number k) :: 64 word) = push_bit 56 (of_nat (kind_number k')) \<Longrightarrow> k = k'"
  by (cases k; cases k') (simp_all add: push_bit_eq_mult)

lemma session_hash_kind_inj: "session_hash session seed k = session_hash session seed k' \<Longrightarrow> k = k'"
  unfolding session_hash_def Let_def
  by (drule next_u64_inj) (auto simp: xor.assoc dest!: xor_cancel kind_bits_inj)

subsection \<open>Draws of one source\<close>

definition src_wf :: "id_source \<Rightarrow> bool" where
  "src_wf src \<longleftrightarrow> length (src_counters src) = 4"

definition slot :: "id_kind \<Rightarrow> nat" where
  "slot k = kind_number k - 1"

abbreviation kind_counter :: "id_source \<Rightarrow> id_kind \<Rightarrow> 64 word" where
  "kind_counter src k \<equiv> src_counters src ! slot k"

lemma src_wf_new [simp]: "src_wf (id_source_new session seed)"
  by (simp add: src_wf_def id_source_new_def)

lemma next_mixed_eq:
  assumes "src_wf src"
  shows "next_mixed k src =
    (mixed_value (src_session src) (src_seed src) k (kind_counter src k + 1),
     src\<lparr>src_counters := (src_counters src)[slot k := kind_counter src k + 1]\<rparr>)"
  using assms by (cases k) (simp_all add: next_mixed_def mixed_value_def Let_def src_wf_def slot_def)

lemma kind_counter_update:
  assumes "src_wf src"
  shows "(src_counters src)[slot k := c] ! slot k'
    = (if k' = k then c else kind_counter src k')"
  using assms by (cases k; cases k') (simp_all add: src_wf_def slot_def)

lemma draw_ids_values:
  assumes "src_wf src" "x \<in> set (draw_ids ks src)"
  shows "\<exists>k j. 1 \<le> j \<and> j \<le> length ks \<and>
    x = mixed_value (src_session src) (src_seed src) k (kind_counter src k + of_nat j)"
  using assms
proof (induction ks arbitrary: src)
  case (Cons k ks)
  let ?c = "kind_counter src k + 1"
  let ?src = "src\<lparr>src_counters := (src_counters src)[slot k := ?c]\<rparr>"
  have wf: "src_wf ?src" using Cons.prems by (simp add: src_wf_def)
  consider "x = mixed_value (src_session src) (src_seed src) k ?c" | "x \<in> set (draw_ids ks ?src)"
    using Cons.prems by (auto simp: next_mixed_eq)
  then show ?case
  proof cases
    case 1
    then show ?thesis by (intro exI [of _ k] exI [of _ 1]) simp
  next
    case 2
    then obtain k' j where j: "1 \<le> j" "j \<le> length ks"
      "x = mixed_value (src_session src) (src_seed src) k'
         ((src_counters src)[slot k := ?c] ! slot k' + of_nat j)"
      using Cons.IH [OF wf 2] by auto
    show ?thesis
    proof (cases "k' = k")
      case True
      with j show ?thesis
        by (intro exI [of _ k] exI [of _ "Suc j"])
           (simp add: kind_counter_update [OF Cons.prems(1)] add.assoc)
    next
      case False
      with j show ?thesis
        by (intro exI [of _ k'] exI [of _ j])
           (simp add: kind_counter_update [OF Cons.prems(1)])
    qed
  qed
qed simp

lemma of_nat_word_nonzero: "0 < j \<Longrightarrow> j < 2 ^ LENGTH('a) \<Longrightarrow> (of_nat j :: 'a::len word) \<noteq> 0"
  by (auto simp: word_of_nat_eq_0_iff dest: nat_dvd_not_less)

lemma draw_ids_distinct:
  assumes "src_wf src" "length ks < 2 ^ 64"
  shows "distinct (draw_ids ks src)"
  using assms
proof (induction ks arbitrary: src)
  case (Cons k ks)
  let ?c = "kind_counter src k + 1"
  let ?src = "src\<lparr>src_counters := (src_counters src)[slot k := ?c]\<rparr>"
  have wf: "src_wf ?src" using Cons.prems by (simp add: src_wf_def)
  have "mixed_value (src_session src) (src_seed src) k ?c \<notin> set (draw_ids ks ?src)"
  proof
    assume a: "mixed_value (src_session src) (src_seed src) k ?c \<in> set (draw_ids ks ?src)"
    obtain k' j where j: "1 \<le> j" "j \<le> length ks"
      and eq: "mixed_value (src_session src) (src_seed src) k ?c = mixed_value (src_session src) (src_seed src) k'
         ((src_counters src)[slot k := ?c] ! slot k' + of_nat j)"
      using draw_ids_values [OF wf a] by auto
    have "k' = k" using mixed_value_inj [OF eq] session_hash_kind_inj by metis
    then have "of_nat j = (0 :: 64 word)"
      using mixed_value_inj [OF eq] kind_counter_update [OF Cons.prems(1)] by simp
    moreover have "j < 2 ^ 64" using j Cons.prems(2) by simp
    ultimately show False using of_nat_word_nonzero [of j, where 'a = 64] j by simp
  qed
  moreover have "distinct (draw_ids ks ?src)" using Cons.IH [OF wf] Cons.prems(2) by simp
  ultimately show ?case using Cons.prems(1) by (simp add: next_mixed_eq)
qed simp

section \<open>Properties\<close>

text \<open>C24: An id source never gives the same 128-bit id twice: the ids of any sequence of fewer
  than 2^64 requests, of whatever kinds, are pairwise distinct, so event, invocation,
  transaction and correlation ids never collide.\<close>

theorem ids_never_repeat:
  assumes "length ks < 2 ^ 64"
  shows "distinct (draw_ids ks (id_source_new session seed))"
  using draw_ids_distinct [OF src_wf_new assms] .

theorem ids_never_repeat_witness:
  "length [EventKind, InvocationKind, EventKind] < 2 ^ 64
   \<and> distinct (draw_ids [EventKind, InvocationKind, EventKind] (id_source_new 1 42))"
  using ids_never_repeat [of "[EventKind, InvocationKind, EventKind]" 1 42] by simp

text \<open>The unbiased draw always ends, whatever the state and the bound, because the
  generator visits every 64-bit state, and it gives a value below the bound.\<close>

theorem next_below_terminates:
  "\<exists>v state'. next_below bound state = Some (v, state') \<and> (if bound \<le> 1 then v = 0 else v < bound)"
  by (rule next_below_total)

end
