(* ===== verification/Virtual_Clock.thy ===== *)
theory Virtual_Clock
  imports Logical_Time
begin

text \<open>
  The virtual clock of a session (crates/fireemu-core-session/src/clock.rs). The real-time
  source of a following clock is outside the core: every operation takes what the source
  returns when it reads it, \<open>r\<close> for its own sample and \<open>r'\<close> for the snapshot it publishes
  (a frozen clock ignores them). Observers are weak references: they are numbers here, and
  \<open>alive\<close> says which still upgrade. A move returns what each observer was sent.
\<close>

section \<open>State\<close>

record follow =
  fo_at :: int
  fo_peak :: int

record clock_sample =
  sm_instant :: logical_instant
  sm_drift :: int
  sm_counted :: int

record clock_snapshot =
  sn_instant :: logical_instant
  sn_elapsed_nanos :: nat
  sn_revision :: nat

datatype clock_error =
    NegativeDuration
  | Overflow
  | OutOfRange
  | WouldMoveBackwards logical_instant logical_instant

record virtual_clock =
  vc_now :: logical_instant
  vc_follow :: "follow option"
  vc_backwards_sets :: nat
  vc_elapsed_nanos :: nat
  vc_revision :: nat
  vc_observers :: "nat list"
  vc_range :: "(logical_instant \<times> logical_instant) option"

type_synonym deliveries = "(nat \<times> clock_snapshot) list"

definition clock_new :: "logical_instant \<Rightarrow> virtual_clock" where
  "clock_new start =
     \<lparr>vc_now = start, vc_follow = None, vc_backwards_sets = 0, vc_elapsed_nanos = 0,
      vc_revision = 0, vc_observers = [], vc_range = None\<rparr>"

definition following_with :: "logical_instant \<Rightarrow> int \<Rightarrow> virtual_clock" where
  "following_with start reading =
     (clock_new start)\<lparr>vc_follow := Some \<lparr>fo_at = reading, fo_peak = 0\<rparr>\<rparr>"

text \<open>A clone has no observers.\<close>

definition clock_clone :: "virtual_clock \<Rightarrow> virtual_clock" where
  "clock_clone c = c\<lparr>vc_observers := []\<rparr>"

section \<open>Reading\<close>

definition drift_nanos :: "virtual_clock \<Rightarrow> int \<Rightarrow> int \<times> virtual_clock" where
  "drift_nanos c r =
     (case vc_follow c of
        None \<Rightarrow> (0, c)
      | Some f \<Rightarrow>
          (let drift = max (wrap_i 128 (r - fo_at f)) (fo_peak f)
           in (drift, c\<lparr>vc_follow := Some (f\<lparr>fo_peak := drift\<rparr>)\<rparr>)))"

definition sample :: "virtual_clock \<Rightarrow> int \<Rightarrow> clock_sample \<times> virtual_clock" where
  "sample c r =
     (case drift_nanos c r of
        (drift, c) \<Rightarrow>
          (let running = (if drift = 0 then vc_now c
                          else case instant_checked_add (vc_now c) drift of
                                 Some i \<Rightarrow> i
                               | None \<Rightarrow> vc_now c);
               instant = (case vc_range c of
                            Some (_, maximum) \<Rightarrow> min running maximum
                          | None \<Rightarrow> running)
           in (\<lparr>sm_instant = instant, sm_drift = drift,
                sm_counted = max (saturating_i 128 (instant - vc_now c)) 0\<rparr>, c)))"

definition live_now :: "virtual_clock \<Rightarrow> int \<Rightarrow> logical_instant \<times> virtual_clock" where
  "live_now c r = (case sample c r of (s, c) \<Rightarrow> (sm_instant s, c))"

definition snapshot :: "virtual_clock \<Rightarrow> int \<Rightarrow> clock_snapshot \<times> virtual_clock" where
  "snapshot c r =
     (case sample c r of
        (s, c) \<Rightarrow> (\<lparr>sn_instant = sm_instant s,
                   sn_elapsed_nanos = saturating_add_u 128 (vc_elapsed_nanos c) (nat \<bar>sm_counted s\<bar>),
                   sn_revision = vc_revision c\<rparr>, c))"

definition clock_check :: "virtual_clock \<Rightarrow> logical_instant \<Rightarrow> clock_sample \<Rightarrow> (clock_error, unit) result" where
  "clock_check c instant s =
     (if vc_revision c = u_max 64
         \<or> (instant > sm_instant s
            \<and> checked_add_u 128
                (saturating_add_u 128 (vc_elapsed_nanos c) (nat \<bar>sm_counted s\<bar>))
                (nat \<bar>instant - sm_instant s\<bar>) = None)
      then Err Overflow
      else if is_some_and (\<lambda>(minimum, maximum). instant < minimum \<or> instant > maximum) (vc_range c)
      then Err OutOfRange
      else Ok ())"

section \<open>Moving\<close>

definition publish ::
  "(nat \<Rightarrow> bool) \<Rightarrow> virtual_clock \<Rightarrow> logical_instant \<Rightarrow> clock_sample \<Rightarrow> int \<Rightarrow> deliveries \<times> virtual_clock" where
  "publish alive c instant s r' =
     (let elapsed = saturating_add_u 128 (vc_elapsed_nanos c) (nat \<bar>sm_counted s\<bar>);
          elapsed = (if instant > sm_instant s
                     then saturating_add_u 128 elapsed (nat \<bar>instant - sm_instant s\<bar>) else elapsed);
          c = c\<lparr>vc_elapsed_nanos := elapsed, vc_now := instant,
                vc_follow := map_option (\<lambda>f. \<lparr>fo_at = wrap_i 128 (fo_at f + sm_drift s), fo_peak = 0\<rparr>) (vc_follow c),
                vc_revision := saturating_add_u 64 (vc_revision c) 1\<rparr>
      in case snapshot c r' of
           (snap, c) \<Rightarrow>
             (let live = filter alive (vc_observers c)
              in (map (\<lambda>ob. (ob, snap)) live, c\<lparr>vc_observers := live\<rparr>)))"

type_synonym 'a clock_op = "virtual_clock \<Rightarrow> int \<Rightarrow> int \<Rightarrow> (clock_error, 'a) result \<times> virtual_clock \<times> deliveries"

definition clock_sync :: "(nat \<Rightarrow> bool) \<Rightarrow> bool clock_op" where
  "clock_sync alive c r r' =
     (if vc_follow c = None then (Ok False, c, [])
      else case sample c r of
             (s, c) \<Rightarrow>
               (if sm_instant s \<le> vc_now c \<or> \<not> is_ok (clock_check c (sm_instant s) s)
                then (Ok False, c, [])
                else case publish alive c (sm_instant s) s r' of (sent, c) \<Rightarrow> (Ok True, c, sent)))"

definition advance :: "(nat \<Rightarrow> bool) \<Rightarrow> logical_duration \<Rightarrow> logical_instant clock_op" where
  "advance alive duration c r r' =
     (if duration < 0 then (Err NegativeDuration, c, [])
      else case sample c r of
             (s, c) \<Rightarrow>
               (case instant_checked_add (sm_instant s) duration of
                  None \<Rightarrow> (Err Overflow, c, [])
                | Some next \<Rightarrow>
                    (case clock_check c next s of
                       Inl e \<Rightarrow> (Err e, c, [])
                     | Inr _ \<Rightarrow> (case publish alive c next s r' of (sent, c) \<Rightarrow> (Ok next, c, sent)))))"

definition advance_to :: "(nat \<Rightarrow> bool) \<Rightarrow> logical_instant \<Rightarrow> logical_instant clock_op" where
  "advance_to alive instant c r r' =
     (case sample c r of
        (s, c) \<Rightarrow>
          (if instant < sm_instant s then (Err (WouldMoveBackwards (sm_instant s) instant), c, [])
           else case clock_check c instant s of
                  Inl e \<Rightarrow> (Err e, c, [])
                | Inr _ \<Rightarrow> (case publish alive c instant s r' of (sent, c) \<Rightarrow> (Ok instant, c, sent))))"

definition clock_set :: "(nat \<Rightarrow> bool) \<Rightarrow> logical_instant \<Rightarrow> logical_instant clock_op" where
  "clock_set alive instant = advance_to alive instant"

definition try_set_allow_backwards :: "(nat \<Rightarrow> bool) \<Rightarrow> logical_instant \<Rightarrow> unit clock_op" where
  "try_set_allow_backwards alive instant c r r' =
     (case sample c r of
        (s, c) \<Rightarrow>
          (case clock_check c instant s of
             Inl e \<Rightarrow> (Err e, c, [])
           | Inr _ \<Rightarrow>
               (let c = (if instant < sm_instant s
                         then c\<lparr>vc_backwards_sets := saturating_add_u 32 (vc_backwards_sets c) 1\<rparr> else c)
                in case publish alive c instant s r' of (sent, c) \<Rightarrow> (Ok (), c, sent))))"

definition restrict_range ::
  "logical_instant \<Rightarrow> logical_instant \<Rightarrow> virtual_clock \<Rightarrow> int \<Rightarrow> (clock_error, unit) result \<times> virtual_clock" where
  "restrict_range minimum maximum c r =
     (case (case vc_range c of
              None \<Rightarrow> (minimum, maximum)
            | Some (low, high) \<Rightarrow> (max low minimum, min high maximum)) of
        (minimum, maximum) \<Rightarrow>
          (case live_now c r of
             (now, c) \<Rightarrow>
               (if minimum > maximum \<or> now < minimum \<or> now > maximum then (Err OutOfRange, c)
                else (Ok (), c\<lparr>vc_range := Some (minimum, maximum)\<rparr>))))"

definition validate_target :: "logical_instant \<Rightarrow> virtual_clock \<Rightarrow> int \<Rightarrow> (clock_error, unit) result \<times> virtual_clock" where
  "validate_target instant c r = (case sample c r of (s, c) \<Rightarrow> (clock_check c instant s, c))"

definition observe :: "nat \<Rightarrow> virtual_clock \<Rightarrow> int \<Rightarrow> deliveries \<times> virtual_clock" where
  "observe observer c r =
     (case snapshot (c\<lparr>vc_observers := vc_observers c @ [observer]\<rparr>) r of
        (snap, c) \<Rightarrow> ([(observer, snap)], c))"

definition tick :: "(nat \<Rightarrow> bool) \<Rightarrow> logical_instant clock_op" where
  "tick alive = advance alive (duration_from_nanos 1)"

section \<open>Invariant\<close>

text \<open>
  A following clock is held to a runtime range; readings of its source and the range stay
  within \<open>time_bound\<close> (2^120 nanoseconds, some 10^19 years) of zero, so the \<open>i128\<close>
  arithmetic on the drift neither wraps nor saturates. A frozen clock has no such bound.
\<close>

definition time_bound :: int where
  "time_bound = 2 ^ 120"

definition peak_of :: "virtual_clock \<Rightarrow> int" where
  "peak_of c = (case vc_follow c of None \<Rightarrow> 0 | Some f \<Rightarrow> fo_peak f)"

text \<open>The latest instant the clock has reported.\<close>

definition level :: "virtual_clock \<Rightarrow> logical_instant" where
  "level c = (case vc_range c of
      None \<Rightarrow> vc_now c + peak_of c
    | Some (_, high) \<Rightarrow> min (vc_now c + peak_of c) high)"

definition vc_inv :: "virtual_clock \<Rightarrow> bool" where
  "vc_inv c \<longleftrightarrow>
     i_ok 128 (vc_now c) \<and> vc_revision c \<le> u_max 64 \<and> vc_elapsed_nanos c \<le> u_max 128 \<and>
     (case vc_range c of None \<Rightarrow> True | Some (low, high) \<Rightarrow> low \<le> level c \<and> vc_now c \<le> high) \<and>
     (case vc_follow c of
        None \<Rightarrow> True
      | Some f \<Rightarrow> 0 \<le> fo_peak f \<and> \<bar>fo_at f\<bar> \<le> time_bound \<and> fo_at f + fo_peak f \<le> time_bound \<and>
          - time_bound \<le> vc_now c \<and>
          (case vc_range c of
             None \<Rightarrow> False
           | Some (low, high) \<Rightarrow> - time_bound \<le> low \<and> high \<le> time_bound))"

lemma i_ok_near: "\<bar>x\<bar> \<le> 3 * time_bound \<Longrightarrow> i_ok 128 x"
  by (auto simp: i_ok_bounds time_bound_def)

text \<open>What one reading gives and changes.\<close>

definition sample_of :: "virtual_clock \<Rightarrow> clock_sample \<Rightarrow> virtual_clock \<Rightarrow> bool" where
  "sample_of c s c1 \<longleftrightarrow>
     vc_inv c1 \<and> level c \<le> level c1 \<and> vc_now c1 \<le> level c1 \<and> sm_instant s = level c1 \<and>
     sm_counted s = level c1 - vc_now c1 \<and> sm_drift s = peak_of c1 \<and>
     c1 = c\<lparr>vc_follow := vc_follow c1\<rparr> \<and>
     (vc_follow c1 = None \<longleftrightarrow> vc_follow c = None)"

lemma sample_ofD:
  assumes "sample_of c s c1"
  shows "vc_inv c1" "level c \<le> level c1" "vc_now c1 \<le> level c1" "sm_instant s = level c1"
    "sm_counted s = level c1 - vc_now c1" "sm_drift s = peak_of c1"
  using assms unfolding sample_of_def by blast+

lemma sample_frozen:
  assumes "vc_inv c" "vc_follow c = None"
  shows "\<exists>s. sample c r = (s, c) \<and> sample_of c s c"
  using assms
  by (auto simp: sample_def drift_nanos_def Let_def sample_of_def level_def vc_inv_def peak_of_def
      saturating_i_def i_min_def i_max_def split: option.splits)

lemma sample_following:
  assumes inv: "vc_inv c" and f: "vc_follow c = Some f" and r: "\<bar>r\<bar> \<le> time_bound"
  shows "\<exists>s c1. sample c r = (s, c1) \<and> sample_of c s c1"
proof -
  define p where "p = max (r - fo_at f) (fo_peak f)"
  define c1 where "c1 = c\<lparr>vc_follow := Some (f\<lparr>fo_peak := p\<rparr>)\<rparr>"
  obtain low high where rg: "vc_range c = Some (low, high)"
    using inv f by (auto simp: vc_inv_def split: option.splits)
  have b: "0 \<le> fo_peak f" "\<bar>fo_at f\<bar> \<le> time_bound" "fo_at f + fo_peak f \<le> time_bound"
      "- time_bound \<le> vc_now c" "- time_bound \<le> low" "high \<le> time_bound" "vc_now c \<le> high"
      "low \<le> level c"
    using inv f rg by (auto simp: vc_inv_def)
  have w: "wrap_i 128 (r - fo_at f) = r - fo_at f"
    using b r by (intro wrap_i_id i_ok_near) auto
  have p: "0 \<le> p" "fo_peak f \<le> p" "fo_at f + p \<le> time_bound" using b r by (auto simp: p_def)
  have ok: "i_ok 128 (vc_now c + p)" using p b by (intro i_ok_near) auto
  have add: "(if p = 0 then vc_now c else case instant_checked_add (vc_now c) p of Some i \<Rightarrow> i | None \<Rightarrow> vc_now c)
      = vc_now c + p"
    using ok by (simp add: instant_checked_add_def checked_i_def)
  have lv: "level c1 = min (vc_now c + p) high" by (simp add: level_def c1_def rg peak_of_def)
  have now1: "vc_now c1 = vc_now c" and rg1: "vc_range c1 = Some (low, high)" by (simp_all add: c1_def rg)
  have dr: "drift_nanos c r = (p, c1)" by (simp add: drift_nanos_def f w p_def c1_def Let_def)
  have cnt: "max (saturating_i 128 (level c1 - vc_now c)) 0 = level c1 - vc_now c"
    using p b by (simp add: saturating_i_nonneg lv i_max_def time_bound_def)
  have s: "sample c r = (\<lparr>sm_instant = level c1, sm_drift = p, sm_counted = level c1 - vc_now c\<rparr>, c1)"
    by (simp only: sample_def dr now1 rg1 prod.case Let_def option.case add lv [symmetric] cnt)
  have l: "level c \<le> level c1" using p by (simp add: lv) (simp add: level_def rg peak_of_def f)
  then have "vc_inv c1"
    using inv b p by (auto simp: vc_inv_def c1_def [symmetric] rg) (simp_all add: c1_def vc_inv_def rg f)
  then show ?thesis
    using s l p b f by (auto simp: sample_of_def lv) (simp_all add: c1_def peak_of_def)
qed

lemma sample_spec:
  assumes "vc_inv c" "\<bar>r\<bar> \<le> time_bound"
  shows "\<exists>s c1. sample c r = (s, c1) \<and> sample_of c s c1"
  using sample_frozen [OF assms(1)] sample_following [OF assms(1) _ assms(2)]
  by (cases "vc_follow c") blast+

lemma peak_of_observers [simp]: "peak_of (c\<lparr>vc_observers := obs\<rparr>) = peak_of c"
  by (simp add: peak_of_def)

lemma level_observers [simp]: "level (c\<lparr>vc_observers := obs\<rparr>) = level c"
  by (cases "vc_range c") (auto simp: level_def)

lemma vc_inv_observers [simp]: "vc_inv (c\<lparr>vc_observers := obs\<rparr>) = vc_inv c"
  by (simp add: vc_inv_def cong: option.case_cong)

lemma peak_of_backwards [simp]: "peak_of (c\<lparr>vc_backwards_sets := n\<rparr>) = peak_of c"
  by (simp add: peak_of_def)

lemma level_backwards [simp]: "level (c\<lparr>vc_backwards_sets := n\<rparr>) = level c"
  by (cases "vc_range c") (auto simp: level_def)

lemma vc_inv_backwards [simp]: "vc_inv (c\<lparr>vc_backwards_sets := n\<rparr>) = vc_inv c"
  by (simp add: vc_inv_def cong: option.case_cong)

text \<open>The elapsed axis as a reading reports it.\<close>

definition elapsed_level :: "virtual_clock \<Rightarrow> nat" where
  "elapsed_level c = saturating_add_u 128 (vc_elapsed_nanos c) (nat (level c - vc_now c))"

lemma sample_of_frame:
  assumes "sample_of c s c1"
  shows "vc_now c1 = vc_now c" "vc_revision c1 = vc_revision c" "vc_elapsed_nanos c1 = vc_elapsed_nanos c"
    "vc_range c1 = vc_range c" "vc_observers c1 = vc_observers c" "vc_backwards_sets c1 = vc_backwards_sets c"
proof -
  have e: "c1 = c\<lparr>vc_follow := vc_follow c1\<rparr>" using assms by (simp add: sample_of_def)
  show "vc_now c1 = vc_now c" using arg_cong [OF e, of vc_now] by simp
  show "vc_revision c1 = vc_revision c" using arg_cong [OF e, of vc_revision] by simp
  show "vc_elapsed_nanos c1 = vc_elapsed_nanos c" using arg_cong [OF e, of vc_elapsed_nanos] by simp
  show "vc_range c1 = vc_range c" using arg_cong [OF e, of vc_range] by simp
  show "vc_observers c1 = vc_observers c" using arg_cong [OF e, of vc_observers] by simp
  show "vc_backwards_sets c1 = vc_backwards_sets c" using arg_cong [OF e, of vc_backwards_sets] by simp
qed

lemma snapshot_spec:
  assumes "vc_inv c" "\<bar>r\<bar> \<le> time_bound"
  shows "\<exists>sn c1 s. snapshot c r = (sn, c1) \<and> sample_of c s c1 \<and>
     sn = \<lparr>sn_instant = level c1, sn_elapsed_nanos = elapsed_level c1, sn_revision = vc_revision c\<rparr>"
proof -
  obtain s c1 where s: "sample c r = (s, c1)" "sample_of c s c1" using sample_spec [OF assms] by blast
  then have "vc_revision c1 = vc_revision c" by (intro sample_of_frame)
  with s sample_ofD [OF s(2)] show ?thesis by (auto simp: snapshot_def elapsed_level_def)
qed

definition moved :: "virtual_clock \<Rightarrow> logical_instant \<Rightarrow> nat \<Rightarrow> virtual_clock" where
  "moved c instant elapsed =
     c\<lparr>vc_elapsed_nanos := elapsed, vc_now := instant,
       vc_follow := map_option (\<lambda>f. \<lparr>fo_at = wrap_i 128 (fo_at f + peak_of c), fo_peak = 0\<rparr>) (vc_follow c),
       vc_revision := saturating_add_u 64 (vc_revision c) 1\<rparr>"

lemma moved_inv:
  assumes inv: "vc_inv c" and i: "i_ok 128 instant" "elapsed \<le> u_max 128"
    and rg: "\<And>low high. vc_range c = Some (low, high) \<Longrightarrow> low \<le> instant \<and> instant \<le> high"
  shows "vc_inv (moved c instant elapsed) \<and> level (moved c instant elapsed) = instant"
proof -
  have pk: "peak_of (moved c instant elapsed) = 0"
    by (simp add: moved_def peak_of_def split: option.split)
  have l: "level (moved c instant elapsed) = instant"
    using rg unfolding level_def pk by (auto simp: moved_def split: option.split)
  have at: "\<bar>wrap_i 128 (fo_at f + peak_of c)\<bar> \<le> time_bound" if "vc_follow c = Some f" for f
  proof -
    have b: "\<bar>fo_at f\<bar> \<le> time_bound" "0 \<le> fo_peak f" "fo_at f + fo_peak f \<le> time_bound"
      using inv that by (auto simp: vc_inv_def)
    then have "wrap_i 128 (fo_at f + fo_peak f) = fo_at f + fo_peak f"
      by (intro wrap_i_id i_ok_near) auto
    with b that show ?thesis by (simp add: peak_of_def)
  qed
  have "vc_inv (moved c instant elapsed)"
    unfolding vc_inv_def l
    using inv i rg at
    by (auto simp: vc_inv_def moved_def saturating_add_u_le split: option.splits)
  with l show ?thesis by simp
qed

lemma publish_eq:
  assumes "sm_drift s = peak_of c" "sm_counted s = level c - vc_now c" "vc_now c \<le> level c"
    "sm_instant s = level c"
  shows "publish alive c instant s r' =
    (case snapshot (moved c instant
        (if instant > level c then saturating_add_u 128 (elapsed_level c) (nat (instant - level c))
         else elapsed_level c)) r' of
      (snap, c') \<Rightarrow> (map (\<lambda>ob. (ob, snap)) (filter alive (vc_observers c')),
                    c'\<lparr>vc_observers := filter alive (vc_observers c')\<rparr>))"
  using assms by (simp add: publish_def Let_def moved_def elapsed_level_def)

lemma elapsed_level_sample: "sample_of c s c1 \<Longrightarrow> elapsed_level c \<le> elapsed_level c1"
  using sample_of_frame [of c s c1] sample_ofD [of c s c1]
  by (auto simp: elapsed_level_def saturating_add_u_def intro!: min.mono nat_mono)

text \<open>What a move leaves.\<close>

definition move_of :: "virtual_clock \<Rightarrow> logical_instant \<Rightarrow> virtual_clock \<Rightarrow> deliveries \<Rightarrow> bool" where
  "move_of c instant c2 sent \<longleftrightarrow>
     vc_inv c2 \<and> vc_now c2 = instant \<and> instant \<le> level c2 \<and> vc_range c2 = vc_range c \<and>
     vc_revision c2 = vc_revision c + 1 \<and>
     vc_elapsed_nanos c2 = elapsed_level c + nat (instant - level c) \<and>
     vc_backwards_sets c2 = vc_backwards_sets c \<and>
     (\<forall>(ob, sn)\<in>set sent. sn_revision sn = vc_revision c2 \<and> instant \<le> sn_instant sn)"

lemma publish_spec:
  assumes inv: "vc_inv c" and lv: "sm_instant s = level c" and cnt: "sm_counted s = level c - vc_now c"
    and dr: "sm_drift s = peak_of c" and ge: "vc_now c \<le> level c" and ok: "clock_check c instant s = Inr ()"
    and i: "i_ok 128 instant" and r': "\<bar>r'\<bar> \<le> time_bound"
  shows "\<exists>sent c2. publish alive c instant s r' = (sent, c2) \<and> move_of c instant c2 sent"
proof -
  have rev: "vc_revision c \<noteq> u_max 64"
    and rg: "\<And>low high. vc_range c = Some (low, high) \<Longrightarrow> low \<le> instant \<and> instant \<le> high"
    and el: "level c < instant \<Longrightarrow> elapsed_level c + nat (instant - level c) < 2 ^ 128"
    using ok ge by (auto simp: clock_check_def lv cnt elapsed_level_def split: if_splits)
  define e where "e = (if instant > level c then saturating_add_u 128 (elapsed_level c) (nat (instant - level c))
         else elapsed_level c)"
  have e: "e = elapsed_level c + nat (instant - level c)"
    using el by (auto simp: e_def saturating_add_u_def u_max_def)
  have "e \<le> u_max 128" by (auto simp: e_def elapsed_level_def saturating_add_u_le)
  then have m: "vc_inv (moved c instant e)" "level (moved c instant e) = instant"
    using moved_inv [OF inv i _ rg] by blast+
  obtain sn c2 s2 where sn: "snapshot (moved c instant e) r' = (sn, c2)" "sample_of (moved c instant e) s2 c2"
      "sn = \<lparr>sn_instant = level c2, sn_elapsed_nanos = elapsed_level c2, sn_revision = vc_revision (moved c instant e)\<rparr>"
    using snapshot_spec [OF m(1) r'] by blast
  define c3 where "c3 = c2\<lparr>vc_observers := filter alive (vc_observers c2)\<rparr>"
  have p: "publish alive c instant s r' = (map (\<lambda>ob. (ob, sn)) (filter alive (vc_observers c2)), c3)"
    using publish_eq [OF dr cnt ge lv, of alive instant r'] sn(1) by (simp add: e_def c3_def)
  have l3: "level c3 = level c2" by (simp add: c3_def)
  have "vc_inv c3" using sample_ofD [OF sn(2)] by (simp add: c3_def)
  moreover have "instant \<le> level c2" using sample_ofD [OF sn(2)] m(2) by simp
  moreover have "vc_revision c + 1 \<le> u_max 64" using inv rev by (auto simp: vc_inv_def)
  ultimately have "move_of c instant c3 (map (\<lambda>ob. (ob, sn)) (filter alive (vc_observers c2)))"
    using sample_of_frame [OF sn(2)] sn(3) e
    by (auto simp: move_of_def l3) (simp_all add: c3_def moved_def saturating_add_u_eq)
  with p show ?thesis by blast
qed

section \<open>Steps\<close>

text \<open>What an operation that read the clock, and perhaps moved it, may have done.\<close>

definition read_step :: "virtual_clock \<Rightarrow> virtual_clock \<Rightarrow> bool" where
  "read_step c c' \<longleftrightarrow> c' = c \<or> (\<exists>s. sample_of c s c')"

definition move_step :: "virtual_clock \<Rightarrow> logical_instant \<Rightarrow> virtual_clock \<Rightarrow> deliveries \<Rightarrow> bool" where
  "move_step c instant c' sent \<longleftrightarrow>
     (\<exists>s c1 c2. sample_of c s c1 \<and> (\<exists>n. c2 = c1\<lparr>vc_backwards_sets := n\<rparr>) \<and> move_of c2 instant c' sent)"

definition forward_step :: "virtual_clock \<Rightarrow> virtual_clock \<Rightarrow> bool" where
  "forward_step c c' \<longleftrightarrow> vc_inv c' \<and> elapsed_level c \<le> elapsed_level c' \<and> vc_revision c \<le> vc_revision c'"

lemma clock_check_backwards [simp]:
  "clock_check (c\<lparr>vc_backwards_sets := n\<rparr>) instant s = clock_check c instant s"
  by (auto simp: clock_check_def)

lemma elapsed_level_backwards [simp]: "elapsed_level (c\<lparr>vc_backwards_sets := n\<rparr>) = elapsed_level c"
  by (simp add: elapsed_level_def)

lemma read_step_forward:
  assumes "vc_inv c" "read_step c c'"
  shows "forward_step c c' \<and> level c \<le> level c' \<and> vc_now c' = vc_now c \<and> vc_revision c' = vc_revision c
    \<and> vc_elapsed_nanos c' = vc_elapsed_nanos c \<and> vc_range c' = vc_range c
    \<and> vc_backwards_sets c' = vc_backwards_sets c"
  using assms sample_ofD sample_of_frame elapsed_level_sample
  by (auto simp: read_step_def forward_step_def)

lemma move_step_forward:
  assumes "move_step c instant c' sent"
  shows "forward_step c c' \<and> instant \<le> level c' \<and> vc_revision c' = vc_revision c + 1
    \<and> (\<forall>(ob, sn)\<in>set sent. sn_revision sn = vc_revision c + 1)"
proof -
  obtain s c1 c2 n where m: "sample_of c s c1" "c2 = c1\<lparr>vc_backwards_sets := n\<rparr>" "move_of c2 instant c' sent"
    using assms by (auto simp: move_step_def)
  have "elapsed_level c \<le> vc_elapsed_nanos c'"
    using elapsed_level_sample [OF m(1)] m(2,3) by (simp add: move_of_def)
  also have "\<dots> \<le> elapsed_level c'"
    using m(3) by (auto simp: move_of_def vc_inv_def elapsed_level_def intro: saturating_add_u_ge)
  finally show ?thesis
    using sample_of_frame [OF m(1)] m(2,3) by (auto simp: forward_step_def move_of_def)
qed

lemma publish_step:
  assumes "sample_of c s c1" "clock_check c1 instant s = Inr ()" "i_ok 128 instant" "\<bar>r'\<bar> \<le> time_bound"
  shows "\<exists>sent c2. publish alive (c1\<lparr>vc_backwards_sets := n\<rparr>) instant s r' = (sent, c2)
    \<and> move_step c instant c2 sent"
proof -
  have "clock_check (c1\<lparr>vc_backwards_sets := n\<rparr>) instant s = Inr ()" using assms(2) by simp
  then obtain sent c2 where "publish alive (c1\<lparr>vc_backwards_sets := n\<rparr>) instant s r' = (sent, c2)"
      "move_of (c1\<lparr>vc_backwards_sets := n\<rparr>) instant c2 sent"
    using publish_spec [of "c1\<lparr>vc_backwards_sets := n\<rparr>" s instant r' alive] sample_ofD [OF assms(1)]
      assms(3,4) by auto
  with assms(1) show ?thesis unfolding move_step_def by blast
qed

lemma publish_step':
  assumes "sample_of c s c1" "clock_check c1 instant s = Inr ()" "i_ok 128 instant" "\<bar>r'\<bar> \<le> time_bound"
  shows "\<exists>sent c2. publish alive c1 instant s r' = (sent, c2) \<and> move_step c instant c2 sent"
  using publish_step [OF assms, of alive "vc_backwards_sets c1"] by simp

subsection \<open>The operations\<close>

lemma advance_effect:
  assumes inv: "vc_inv c" and r: "\<bar>r\<bar> \<le> time_bound" "\<bar>r'\<bar> \<le> time_bound"
  shows "case advance alive d c r r' of
      (Inl e, c', sent) \<Rightarrow> read_step c c' \<and> sent = []
    | (Inr i, c', sent) \<Rightarrow> level c \<le> i \<and> level c + d \<le> i \<and> move_step c i c' sent"
proof -
  obtain s c1 where s: "sample c r = (s, c1)" "sample_of c s c1" using sample_spec [OF inv r(1)] by blast
  note D = sample_ofD [OF s(2)]
  show ?thesis
  proof (cases "d < 0 \<or> \<not> i_ok 128 (sm_instant s + d) \<or> clock_check c1 (sm_instant s + d) s \<noteq> Inr ()")
    case True
    then show ?thesis
      using s by (auto simp: advance_def instant_checked_add_def checked_i_def read_step_def split: sum.split)
  next
    case False
    then obtain sent c2 where "publish alive c1 (sm_instant s + d) s r' = (sent, c2)"
        "move_step c (sm_instant s + d) c2 sent"
      using publish_step' [OF s(2) _ _ r(2)] by blast
    with False s D show ?thesis by (simp add: advance_def instant_checked_add_def checked_i_def)
  qed
qed

lemma advance_to_effect:
  assumes inv: "vc_inv c" and r: "\<bar>r\<bar> \<le> time_bound" "\<bar>r'\<bar> \<le> time_bound" and i: "i_ok 128 instant"
  shows "case advance_to alive instant c r r' of
      (Inl e, c', sent) \<Rightarrow> read_step c c' \<and> sent = []
    | (Inr x, c', sent) \<Rightarrow> x = instant \<and> level c \<le> instant \<and> move_step c instant c' sent"
proof -
  obtain s c1 where s: "sample c r = (s, c1)" "sample_of c s c1" using sample_spec [OF inv r(1)] by blast
  note D = sample_ofD [OF s(2)]
  show ?thesis
  proof (cases "instant < sm_instant s \<or> clock_check c1 instant s \<noteq> Inr ()")
    case True
    then show ?thesis using s by (auto simp: advance_to_def read_step_def split: sum.split)
  next
    case False
    then obtain sent c2 where "publish alive c1 instant s r' = (sent, c2)" "move_step c instant c2 sent"
      using publish_step' [OF s(2) _ i r(2)] by blast
    with False s D show ?thesis by (simp add: advance_to_def)
  qed
qed

lemma sync_effect:
  assumes inv: "vc_inv c" and r: "\<bar>r\<bar> \<le> time_bound" "\<bar>r'\<bar> \<le> time_bound"
  shows "case clock_sync alive c r r' of (res, c', sent) \<Rightarrow>
     (res = Inr False \<and> read_step c c' \<and> sent = []) \<or>
     (res = Inr True \<and> (\<exists>i. level c \<le> i \<and> move_step c i c' sent))"
proof -
  obtain s c1 where s: "sample c r = (s, c1)" "sample_of c s c1" using sample_spec [OF inv r(1)] by blast
  note D = sample_ofD [OF s(2)]
  show ?thesis
  proof (cases "vc_follow c = None \<or> sm_instant s \<le> vc_now c1 \<or> clock_check c1 (sm_instant s) s \<noteq> Inr ()")
    case True
    then show ?thesis
      using s by (cases "clock_check c1 (sm_instant s) s") (auto simp: clock_sync_def read_step_def)
  next
    case False
    have "i_ok 128 (level c1)"
    proof (rule i_ok_near)
      obtain f where "vc_follow c1 = Some f"
        using s(2) False unfolding sample_of_def by (cases "vc_follow c1") blast+
      then show "\<bar>level c1\<bar> \<le> 3 * time_bound"
        using D(1,3) by (auto simp: vc_inv_def level_def split: option.splits)
    qed
    then obtain sent c2 where "publish alive c1 (sm_instant s) s r' = (sent, c2)"
        "move_step c (sm_instant s) c2 sent"
      using publish_step' [OF s(2) _ _ r(2), of "sm_instant s" alive] False D(4) by auto
    with False s D show ?thesis by (auto simp: clock_sync_def)
  qed
qed

lemma set_backwards_effect:
  assumes inv: "vc_inv c" and r: "\<bar>r\<bar> \<le> time_bound" "\<bar>r'\<bar> \<le> time_bound" and i: "i_ok 128 instant"
  shows "case try_set_allow_backwards alive instant c r r' of
      (Inl e, c', sent) \<Rightarrow> read_step c c' \<and> sent = []
    | (Inr _, c', sent) \<Rightarrow> move_step c instant c' sent"
proof -
  obtain s c1 where s: "sample c r = (s, c1)" "sample_of c s c1" using sample_spec [OF inv r(1)] by blast
  define c2 where "c2 = (if instant < sm_instant s
      then c1\<lparr>vc_backwards_sets := saturating_add_u 32 (vc_backwards_sets c1) 1\<rparr> else c1)"
  have e: "c2 = c1\<lparr>vc_backwards_sets := vc_backwards_sets c2\<rparr>" by (simp add: c2_def)
  show ?thesis
  proof (cases "clock_check c1 instant s")
    case (Inl err)
    then show ?thesis using s by (auto simp: try_set_allow_backwards_def read_step_def)
  next
    case (Inr u)
    then obtain sent c3 where "publish alive c2 instant s r' = (sent, c3)" "move_step c instant c3 sent"
      using publish_step [OF s(2) _ i r(2), of alive "vc_backwards_sets c2"] e by auto
    with s Inr show ?thesis by (simp add: try_set_allow_backwards_def Let_def c2_def)
  qed
qed

lemma restrict_range_effect:
  assumes inv: "vc_inv c" and r: "\<bar>r\<bar> \<le> time_bound"
  shows "case restrict_range lo hi c r of (res, c') \<Rightarrow>
     forward_step c c' \<and> level c \<le> level c' \<and> vc_now c' = vc_now c \<and> vc_revision c' = vc_revision c
     \<and> (res \<noteq> Inr () \<longrightarrow> vc_range c' = vc_range c)"
proof -
  obtain s c1 where s: "sample c r = (s, c1)" "sample_of c s c1" using sample_spec [OF inv r] by blast
  note D = sample_ofD [OF s(2)] and F = sample_of_frame [OF s(2)]
  have rd: "forward_step c c1 \<and> level c \<le> level c1"
    using read_step_forward [OF inv, of c1] s(2) by (auto simp: read_step_def)
  obtain lo' hi' where rg: "(case vc_range c of None \<Rightarrow> (lo, hi) | Some (low, high) \<Rightarrow> (max low lo, min high hi)) = (lo', hi')"
    by (cases "case vc_range c of None \<Rightarrow> (lo, hi) | Some (low, high) \<Rightarrow> (max low lo, min high hi)") auto
  show ?thesis
  proof (cases "lo' > hi' \<or> level c1 < lo' \<or> level c1 > hi'")
    case True
    then show ?thesis using s(1) rg D F rd by (simp add: restrict_range_def live_now_def)
  next
    case False
    let ?c = "c1\<lparr>vc_range := Some (lo', hi')\<rparr>"
    have pk: "peak_of ?c = peak_of c1" by (simp add: peak_of_def)
    have l: "level ?c = level c1"
      using False rg F by (auto simp: level_def pk split: option.splits)
    have "vc_inv ?c"
      unfolding vc_inv_def l using D(1,3) False rg F
      by (auto simp: vc_inv_def split: option.splits)
    moreover have "elapsed_level ?c = elapsed_level c1" by (simp add: elapsed_level_def l)
    ultimately show ?thesis
      using s(1) rg D F rd False l by (simp add: restrict_range_def live_now_def forward_step_def)
  qed
qed

lemma observe_effect:
  assumes inv: "vc_inv c" and r: "\<bar>r\<bar> \<le> time_bound"
  shows "case observe ob c r of (sent, c') \<Rightarrow>
     forward_step c c' \<and> level c \<le> level c' \<and> (\<exists>sn. sent = [(ob, sn)] \<and> sn_revision sn = vc_revision c')"
proof -
  have i: "vc_inv (c\<lparr>vc_observers := vc_observers c @ [ob]\<rparr>)" using inv by simp
  obtain sn c1 s where s: "snapshot (c\<lparr>vc_observers := vc_observers c @ [ob]\<rparr>) r = (sn, c1)"
      "sample_of (c\<lparr>vc_observers := vc_observers c @ [ob]\<rparr>) s c1"
      "sn = \<lparr>sn_instant = level c1, sn_elapsed_nanos = elapsed_level c1,
         sn_revision = vc_revision (c\<lparr>vc_observers := vc_observers c @ [ob]\<rparr>)\<rparr>"
    using snapshot_spec [OF i r] by blast
  have "elapsed_level (c\<lparr>vc_observers := vc_observers c @ [ob]\<rparr>) = elapsed_level c"
    by (simp add: elapsed_level_def)
  then show ?thesis
    using s(1,3) sample_ofD [OF s(2)] sample_of_frame [OF s(2)] elapsed_level_sample [OF s(2)]
    by (simp add: observe_def forward_step_def)
qed

section \<open>Runs\<close>

datatype clock_action =
    ClSync int int
  | ClAdvance logical_duration int int
  | ClAdvanceTo logical_instant int int
  | ClSet logical_instant int int
  | ClSetBackwards logical_instant int int
  | ClRestrict logical_instant logical_instant int
  | ClValidate logical_instant int
  | ClSnapshot int
  | ClObserve nat int
  | ClTick int int

fun clock_step :: "(nat \<Rightarrow> bool) \<Rightarrow> virtual_clock \<Rightarrow> clock_action \<Rightarrow> virtual_clock" where
  "clock_step alive c (ClSync r r') = fst (snd (clock_sync alive c r r'))"
| "clock_step alive c (ClAdvance d r r') = fst (snd (advance alive d c r r'))"
| "clock_step alive c (ClAdvanceTo i r r') = fst (snd (advance_to alive i c r r'))"
| "clock_step alive c (ClSet i r r') = fst (snd (clock_set alive i c r r'))"
| "clock_step alive c (ClSetBackwards i r r') = fst (snd (try_set_allow_backwards alive i c r r'))"
| "clock_step alive c (ClRestrict lo hi r) = snd (restrict_range lo hi c r)"
| "clock_step alive c (ClValidate i r) = snd (validate_target i c r)"
| "clock_step alive c (ClSnapshot r) = snd (snapshot c r)"
| "clock_step alive c (ClObserve ob r) = snd (observe ob c r)"
| "clock_step alive c (ClTick r r') = fst (snd (tick alive c r r'))"

text \<open>Source readings within the bound, requested instants within \<open>i128\<close>.\<close>

fun action_fits :: "clock_action \<Rightarrow> bool" where
  "action_fits (ClSync r r') = (\<bar>r\<bar> \<le> time_bound \<and> \<bar>r'\<bar> \<le> time_bound)"
| "action_fits (ClAdvance d r r') = (\<bar>r\<bar> \<le> time_bound \<and> \<bar>r'\<bar> \<le> time_bound)"
| "action_fits (ClAdvanceTo i r r') = (\<bar>r\<bar> \<le> time_bound \<and> \<bar>r'\<bar> \<le> time_bound \<and> i_ok 128 i)"
| "action_fits (ClSet i r r') = (\<bar>r\<bar> \<le> time_bound \<and> \<bar>r'\<bar> \<le> time_bound \<and> i_ok 128 i)"
| "action_fits (ClSetBackwards i r r') = (\<bar>r\<bar> \<le> time_bound \<and> \<bar>r'\<bar> \<le> time_bound \<and> i_ok 128 i)"
| "action_fits (ClRestrict lo hi r) = (\<bar>r\<bar> \<le> time_bound)"
| "action_fits (ClValidate i r) = (\<bar>r\<bar> \<le> time_bound)"
| "action_fits (ClSnapshot r) = (\<bar>r\<bar> \<le> time_bound)"
| "action_fits (ClObserve ob r) = (\<bar>r\<bar> \<le> time_bound)"
| "action_fits (ClTick r r') = (\<bar>r\<bar> \<le> time_bound \<and> \<bar>r'\<bar> \<le> time_bound)"

definition rewinds :: "clock_action \<Rightarrow> bool" where
  "rewinds a \<longleftrightarrow> (case a of ClSetBackwards _ _ _ \<Rightarrow> True | _ \<Rightarrow> False)"

lemma moving_step:
  assumes "vc_inv c" "read_step c c' \<or> (\<exists>i sent. level c \<le> i \<and> move_step c i c' sent)"
  shows "forward_step c c' \<and> level c \<le> level c'"
  using read_step_forward [OF assms(1), of c'] move_step_forward [of c _ c'] assms(2)
  by (meson order_trans)

lemma clock_step_effect:
  assumes inv: "vc_inv c" and fit: "action_fits a"
  shows "forward_step c (clock_step alive c a) \<and> (rewinds a \<or> level c \<le> level (clock_step alive c a))"
proof (cases a)
  case (ClSync r r')
  have "read_step c (clock_step alive c a) \<or> (\<exists>i sent. level c \<le> i \<and> move_step c i (clock_step alive c a) sent)"
    using sync_effect [OF inv, of r r' alive] fit ClSync by (auto split: prod.splits)
  then show ?thesis using moving_step [OF inv] by blast
next
  case (ClAdvance d r r')
  have "read_step c (clock_step alive c a) \<or> (\<exists>i sent. level c \<le> i \<and> move_step c i (clock_step alive c a) sent)"
    using advance_effect [OF inv, of r r' d alive] fit ClAdvance by (auto split: prod.splits sum.splits)
  then show ?thesis using moving_step [OF inv] by blast
next
  case (ClAdvanceTo i r r')
  have "read_step c (clock_step alive c a) \<or> (\<exists>i sent. level c \<le> i \<and> move_step c i (clock_step alive c a) sent)"
    using advance_to_effect [OF inv, of r r' i alive] fit ClAdvanceTo by (auto split: prod.splits sum.splits)
  then show ?thesis using moving_step [OF inv] by blast
next
  case (ClSet i r r')
  have "read_step c (clock_step alive c a) \<or> (\<exists>i sent. level c \<le> i \<and> move_step c i (clock_step alive c a) sent)"
    using advance_to_effect [OF inv, of r r' i alive] fit ClSet
    by (auto simp: clock_set_def split: prod.splits sum.splits)
  then show ?thesis using moving_step [OF inv] by blast
next
  case (ClSetBackwards i r r')
  have "read_step c (clock_step alive c a) \<or> (\<exists>i sent. move_step c i (clock_step alive c a) sent)"
    using set_backwards_effect [OF inv, of r r' i alive] fit ClSetBackwards
    by (auto split: prod.splits sum.splits)
  then show ?thesis
    using read_step_forward [OF inv] move_step_forward ClSetBackwards by (auto simp: rewinds_def)
next
  case (ClRestrict lo hi r)
  then show ?thesis using restrict_range_effect [OF inv, of r lo hi] fit by (auto split: prod.splits)
next
  case (ClValidate i r)
  have "read_step c (clock_step alive c a)"
    using sample_spec [OF inv, of r] fit ClValidate by (auto simp: validate_target_def read_step_def)
  then show ?thesis using moving_step [OF inv] by blast
next
  case (ClSnapshot r)
  have "read_step c (clock_step alive c a)"
    using snapshot_spec [OF inv, of r] fit ClSnapshot by (auto simp: read_step_def)
  then show ?thesis using moving_step [OF inv] by blast
next
  case (ClObserve ob r)
  then show ?thesis using observe_effect [OF inv, of r ob] fit by (auto split: prod.splits)
next
  case (ClTick r r')
  have "read_step c (clock_step alive c a) \<or> (\<exists>i sent. level c \<le> i \<and> move_step c i (clock_step alive c a) sent)"
    using advance_effect [OF inv, of r r' 1 alive] fit ClTick
    by (auto simp: tick_def duration_from_nanos_def split: prod.splits sum.splits)
  then show ?thesis using moving_step [OF inv] by blast
qed

text \<open>Steps whose action does not fit, or rewinds, are left out of a run.\<close>

definition fitting_step :: "(nat \<Rightarrow> bool) \<Rightarrow> virtual_clock \<Rightarrow> clock_action \<Rightarrow> virtual_clock" where
  "fitting_step alive c a = (if action_fits a then clock_step alive c a else c)"

definition onward_step :: "(nat \<Rightarrow> bool) \<Rightarrow> virtual_clock \<Rightarrow> clock_action \<Rightarrow> virtual_clock" where
  "onward_step alive c a = (if action_fits a \<and> \<not> rewinds a then clock_step alive c a else c)"

interpretation clock_onward: monotone_machine "onward_step alive" vc_inv level for alive
  using clock_step_effect by unfold_locales (auto simp: onward_step_def forward_step_def)

interpretation clock_revision: monotone_machine "fitting_step alive" vc_inv vc_revision for alive
  using clock_step_effect by unfold_locales (auto simp: fitting_step_def forward_step_def)

interpretation clock_elapsed: monotone_machine "fitting_step alive" vc_inv elapsed_level for alive
  using clock_step_effect by unfold_locales (auto simp: fitting_step_def forward_step_def)

lemma exec_fitting: "list_all action_fits as \<Longrightarrow> exec (fitting_step alive) c as = exec (clock_step alive) c as"
  by (induction as arbitrary: c) (auto simp: fitting_step_def)

lemma exec_onward:
  "list_all (\<lambda>a. action_fits a \<and> \<not> rewinds a) as \<Longrightarrow> exec (onward_step alive) c as = exec (clock_step alive) c as"
  by (induction as arbitrary: c) (auto simp: onward_step_def)

lemma clock_new_inv: "i_ok 128 start \<Longrightarrow> vc_inv (clock_new start)"
  by (simp add: vc_inv_def clock_new_def u_max_def)

text \<open>A sample clock: it follows a source that read 50 at instant 100 and 60 since.\<close>

definition sample_clock :: virtual_clock where
  "sample_clock = snd (restrict_range (- 1000) 1000000 (following_with 100 50) 60)"

lemma sample_clock_inv: "vc_inv sample_clock"
  by (simp add: sample_clock_def restrict_range_def following_with_def clock_new_def live_now_def
      sample_def drift_nanos_def wrap_i_def instant_checked_add_def checked_i_def i_ok_def i_min_def
      i_max_def Let_def vc_inv_def level_def peak_of_def u_max_def time_bound_def)

section \<open>Properties\<close>



text \<open>The elapsed axis and the publication revision never go back, whatever the operations,
  backwards sets included: elapsed time counts forward movement only.\<close>

theorem clock_axes_monotone:
  assumes "vc_inv c" "list_all action_fits as"
  shows "elapsed_level c \<le> elapsed_level (exec (clock_step alive) c as)
     \<and> vc_revision c \<le> vc_revision (exec (clock_step alive) c as)
     \<and> vc_inv (exec (clock_step alive) c as)"
  using clock_elapsed.exec_mono [OF assms(1), of alive as] clock_revision.exec_mono [OF assms(1), of alive as]
    clock_revision.exec_inv [OF assms(1), of alive as]
  by (simp add: exec_fitting [OF assms(2)])

theorem clock_axes_monotone_witness:
  "elapsed_level sample_clock
     \<le> elapsed_level (exec (clock_step (\<lambda>_. True)) sample_clock [ClAdvance 5 70 70, ClSetBackwards 3 80 80])"
  using clock_axes_monotone [OF sample_clock_inv, of "[ClAdvance 5 70 70, ClSetBackwards 3 80 80]" "\<lambda>_. True"]
  by (simp add: time_bound_def i_ok_bounds)

text \<open>A refused move publishes nothing and leaves the clock's instant, elapsed time,
  revision, range and rewind count as they were; an accepted one lands at or after the
  requested instant and publishes exactly one new revision to every observer.\<close>

theorem clock_move_effect:
  assumes "vc_inv c" "\<bar>r\<bar> \<le> time_bound" "\<bar>r'\<bar> \<le> time_bound" "i_ok 128 instant"
  shows "(case try_set_allow_backwards alive instant c r r' of
      (Inl e, c', sent) \<Rightarrow> sent = [] \<and> vc_now c' = vc_now c \<and> vc_elapsed_nanos c' = vc_elapsed_nanos c
         \<and> vc_revision c' = vc_revision c \<and> vc_range c' = vc_range c
         \<and> vc_backwards_sets c' = vc_backwards_sets c
    | (Inr _, c', sent) \<Rightarrow> instant \<le> level c' \<and> vc_revision c' = vc_revision c + 1
         \<and> (\<forall>(ob, sn)\<in>set sent. sn_revision sn = vc_revision c + 1))
   \<and> (case advance alive d c r r' of
      (Inl e, c', sent) \<Rightarrow> sent = [] \<and> vc_now c' = vc_now c \<and> vc_elapsed_nanos c' = vc_elapsed_nanos c
         \<and> vc_revision c' = vc_revision c \<and> vc_range c' = vc_range c
         \<and> vc_backwards_sets c' = vc_backwards_sets c
    | (Inr i, c', sent) \<Rightarrow> level c + d \<le> i \<and> i \<le> level c' \<and> vc_revision c' = vc_revision c + 1
         \<and> (\<forall>(ob, sn)\<in>set sent. sn_revision sn = vc_revision c + 1))"
proof (rule conjI)
  obtain res c' sent where t: "try_set_allow_backwards alive instant c r r' = (res, c', sent)"
    by (cases "try_set_allow_backwards alive instant c r r'")
  show "case try_set_allow_backwards alive instant c r r' of
      (Inl e, c', sent) \<Rightarrow> sent = [] \<and> vc_now c' = vc_now c \<and> vc_elapsed_nanos c' = vc_elapsed_nanos c
         \<and> vc_revision c' = vc_revision c \<and> vc_range c' = vc_range c
         \<and> vc_backwards_sets c' = vc_backwards_sets c
    | (Inr _, c', sent) \<Rightarrow> instant \<le> level c' \<and> vc_revision c' = vc_revision c + 1
         \<and> (\<forall>(ob, sn)\<in>set sent. sn_revision sn = vc_revision c + 1)"
    using set_backwards_effect [OF assms, of alive] read_step_forward [OF assms(1), of c']
      move_step_forward [of c instant c' sent]
    by (cases res) (simp_all add: t)
next
  obtain res c' sent where t: "advance alive d c r r' = (res, c', sent)" by (cases "advance alive d c r r'")
  show "case advance alive d c r r' of
      (Inl e, c', sent) \<Rightarrow> sent = [] \<and> vc_now c' = vc_now c \<and> vc_elapsed_nanos c' = vc_elapsed_nanos c
         \<and> vc_revision c' = vc_revision c \<and> vc_range c' = vc_range c
         \<and> vc_backwards_sets c' = vc_backwards_sets c
    | (Inr i, c', sent) \<Rightarrow> level c + d \<le> i \<and> i \<le> level c' \<and> vc_revision c' = vc_revision c + 1
         \<and> (\<forall>(ob, sn)\<in>set sent. sn_revision sn = vc_revision c + 1)"
    using advance_effect [OF assms(1-3), of d alive] read_step_forward [OF assms(1), of c']
      move_step_forward [of c "projr res" c' sent]
    by (cases res) (simp_all add: t)
qed

theorem clock_move_effect_witness:
  "\<exists>c' sent. advance (\<lambda>_. True) (- 1) sample_clock 70 70 = (Inl NegativeDuration, c', sent)
     \<and> sent = [] \<and> vc_now c' = vc_now sample_clock"
proof -
  have "advance (\<lambda>_. True) (- 1) sample_clock 70 70 = (Inl NegativeDuration, sample_clock, [])"
    by (simp add: advance_def)
  then show ?thesis
    using clock_move_effect [OF sample_clock_inv, of 70 70 3 "\<lambda>_. True" "- 1"]
    by (auto simp: time_bound_def i_ok_bounds)
qed

end
