(* ===== verification/Session_Life.thy ===== *)
theory Session_Life
  imports Ids Determinism Virtual_Clock
begin

text \<open>
  Session lifecycle and epoch isolation (crates/fireemu-core-session/src/session.rs). A reset
  moves the session to a new epoch with a fresh id stream; work carries the epoch it was
  created in, and \<open>check_work_epoch\<close> is the guard it must pass. Every operation returns its
  result and the session it leaves.
\<close>

unbundle bit_operations_syntax

section \<open>State and operations\<close>

datatype session_state = Creating | Active | Resetting | Closing | Closed

datatype session_action = Activate | BeginReset | CompleteReset | BeginClose | CompleteClose

datatype session_transition_error = TransitionError session_state session_action

datatype work_result = Proceed | DiscardStaleEpoch | SessionNotActive session_state

record session =
  ss_id :: "128 word"
  ss_seed :: "64 word"
  ss_state :: session_state
  ss_epoch :: nat
  ss_clock :: virtual_clock
  ss_ids :: id_source

definition id_source_for :: "128 word \<Rightarrow> 64 word \<Rightarrow> nat \<Rightarrow> id_source" where
  "id_source_for i seed epoch = id_source_new i (seed XOR word_rotl 32 (of_nat epoch))"

definition session_create :: "128 word \<Rightarrow> 64 word \<Rightarrow> logical_instant \<Rightarrow> session" where
  "session_create i seed clock_start =
     \<lparr>ss_id = i, ss_seed = seed, ss_state = Creating, ss_epoch = 0,
      ss_clock = clock_new clock_start, ss_ids = id_source_for i seed 0\<rparr>"

type_synonym 'a session_op = "session \<Rightarrow> (session_transition_error, 'a) result \<times> session"

definition transition :: "session_action \<Rightarrow> session_state list \<Rightarrow> session_state \<Rightarrow> unit session_op" where
  "transition action allowed_from to s =
     (if ss_state s \<in> set allowed_from then (Ok (), s\<lparr>ss_state := to\<rparr>)
      else (Err (TransitionError (ss_state s) action), s))"

definition activate :: "unit session_op" where
  [op_defs]: "activate = transition Activate [Creating] Active"

definition begin_reset :: "nat session_op" where
  [op_defs]: "begin_reset s =
     (if ss_state s \<noteq> Active then (Err (TransitionError (ss_state s) BeginReset), s)
      else case epoch_next (ss_epoch s) of
             None \<Rightarrow> (Err (TransitionError (ss_state s) BeginReset), s)
           | Some next \<Rightarrow>
               (Ok next, s\<lparr>ss_state := Resetting, ss_epoch := next,
                          ss_ids := id_source_for (ss_id s) (ss_seed s) next\<rparr>))"

definition complete_reset :: "unit session_op" where
  [op_defs]: "complete_reset = transition CompleteReset [Resetting] Active"

definition begin_close :: "unit session_op" where
  [op_defs]: "begin_close = transition BeginClose [Creating, Active, Resetting] Closing"

definition complete_close :: "unit session_op" where
  [op_defs]: "complete_close = transition CompleteClose [Closing] Closed"

definition check_work_epoch :: "session \<Rightarrow> nat \<Rightarrow> work_result" where
  "check_work_epoch s work_epoch =
     (if work_epoch \<noteq> ss_epoch s then DiscardStaleEpoch
      else case ss_state s of Active \<Rightarrow> Proceed | other \<Rightarrow> SessionNotActive other)"

text \<open>The lifecycle as a machine; \<open>DrawId\<close> is a draw from \<open>ids()\<close> between transitions.\<close>

datatype session_step = Life session_action | DrawId id_kind

fun session_apply :: "session_action \<Rightarrow> nat option session_op" where
  "session_apply Activate s = map_prod (map_sum id (\<lambda>_. None)) id (activate s)"
| "session_apply BeginReset s = map_prod (map_sum id Some) id (begin_reset s)"
| "session_apply CompleteReset s = map_prod (map_sum id (\<lambda>_. None)) id (complete_reset s)"
| "session_apply BeginClose s = map_prod (map_sum id (\<lambda>_. None)) id (begin_close s)"
| "session_apply CompleteClose s = map_prod (map_sum id (\<lambda>_. None)) id (complete_close s)"

fun session_next :: "session \<Rightarrow> session_step \<Rightarrow> session" where
  "session_next s (Life a) = snd (session_apply a s)"
| "session_next s (DrawId k) = s\<lparr>ss_ids := snd (next_mixed k (ss_ids s))\<rparr>"

section \<open>Lifecycle lemmas\<close>

inductive life_edge :: "session_state \<Rightarrow> session_action \<Rightarrow> session_state \<Rightarrow> bool" where
  "life_edge Creating Activate Active"
| "life_edge Active BeginReset Resetting"
| "life_edge Resetting CompleteReset Active"
| "s \<in> {Creating, Active, Resetting} \<Longrightarrow> life_edge s BeginClose Closing"
| "life_edge Closing CompleteClose Closed"

lemmas life_edge_intros = life_edge.intros

lemma session_apply_result:
  "case session_apply a s of
     (Inl e, s') \<Rightarrow> s' = s \<and> e = TransitionError (ss_state s) a
   | (Inr x, s') \<Rightarrow> life_edge (ss_state s) a (ss_state s')
       \<and> ss_epoch s' = (if a = BeginReset then ss_epoch s + 1 else ss_epoch s)
       \<and> x = (if a = BeginReset then Some (ss_epoch s') else None)"
  by (cases a)
     (auto simp: op_defs transition_def epoch_next_Some intro!: life_edge_intros split: option.split)

lemma session_next_epoch: "ss_epoch s \<le> ss_epoch (session_next s a)"
proof (cases a)
  case (Life b)
  then show ?thesis
    using session_apply_result [of s b] by (auto split: prod.splits sum.splits if_splits)
qed simp

interpretation session_epoch: monotone_machine session_next "\<lambda>_. True" ss_epoch
  by unfold_locales (simp_all add: session_next_epoch)

section \<open>Id streams of different epochs\<close>

lemma epoch_bit: "n < 64 \<Longrightarrow> bit (word_rotl 32 (w :: 64 word)) n = bit w ((n + 32) mod 64)"
  by (simp add: bit_word_rotl_iff)

lemma kind_bit:
  "bit (push_bit 56 (of_nat (kind_number k) :: 64 word)) n = (56 \<le> n \<and> n < 64 \<and> bit (kind_number k) (n - 56))"
  by (auto simp: bit_simps)

lemma stream_key_bits:
  assumes "word_rotl 32 (a :: 64 word) XOR push_bit 56 (of_nat (kind_number k))
         = word_rotl 32 b XOR push_bit 56 (of_nat (kind_number k'))" "n < 64"
  shows "(bit a ((n + 32) mod 64) \<noteq> (56 \<le> n \<and> bit (kind_number k) (n - 56)))
       = (bit b ((n + 32) mod 64) \<noteq> (56 \<le> n \<and> bit (kind_number k') (n - 56)))"
  using arg_cong [OF assms(1), of "\<lambda>w. bit w n"] assms(2)
  by (simp add: bit_xor_iff epoch_bit kind_bit)

text \<open>Epochs below 2^24 rotate to bits 32 to 55, clear of the kind bits 56 to 58; any epoch
  keeps its lowest bit at bit 32.\<close>

lemma stream_key_inj:
  assumes key: "word_rotl 32 (of_nat e :: 64 word) XOR push_bit 56 (of_nat (kind_number k))
         = word_rotl 32 (of_nat e') XOR push_bit 56 (of_nat (kind_number k'))"
    and small: "e < 2 ^ 24" "e' < 2 ^ 24"
  shows "e = e' \<and> k = k'"
proof -
  have high: "\<not> bit (of_nat d :: 64 word) i" if "d < 2 ^ 24" "24 \<le> i" for d i
  proof -
    have "(2::nat) ^ 24 \<le> 2 ^ i" using that(2) by (intro power_increasing) auto
    then have "\<not> bit d i" using that(1) by (simp add: bit_iff_odd)
    then show ?thesis by (simp add: bit_simps)
  qed
  have "bit (kind_number k) j = bit (kind_number k') j" if j: "j < 8" for j
  proof -
    have "(88 + j) mod 64 = 24 + j" using j by (simp add: mod_if)
    then show ?thesis
      using stream_key_bits [OF key, of "56 + j"] high [OF small(1), of "24 + j"] high [OF small(2), of "24 + j"] j
      by simp
  qed
  then have k: "k = k'"
    by (cases k; cases k') (force simp: bit_iff_odd dest: spec [of _ 0] spec [of _ 1] spec [of _ 2])+
  have "bit (of_nat e :: 64 word) i = bit (of_nat e' :: 64 word) i" if "i < 64" for i
    using stream_key_bits [OF key, of "(i + 32) mod 64"] that k by (auto simp: mod_add_left_eq)
  then have "(of_nat e :: 64 word) = of_nat e'" by (intro bit_word_eqI) simp
  moreover have "e < 2 ^ LENGTH(64)" "e' < 2 ^ LENGTH(64)" using small by simp_all
  ultimately have "e = e'" by (simp add: word_of_nat_eq_iff take_bit_nat_eq_self)
  with k show ?thesis by simp
qed

lemma stream_key_parity:
  assumes key: "word_rotl 32 (of_nat e :: 64 word) XOR push_bit 56 (of_nat (kind_number k))
         = word_rotl 32 (of_nat e') XOR push_bit 56 (of_nat (kind_number k'))"
  shows "even e = even e'"
  using stream_key_bits [OF key, of 32] by (simp add: bit_of_nat_iff bit_0)

lemma session_hash_key:
  assumes "session_hash i (seed XOR a) k = session_hash i (seed XOR b) k'"
  shows "a XOR push_bit 56 (of_nat (kind_number k)) = b XOR push_bit 56 (of_nat (kind_number k'))"
proof -
  have "(ucast i :: 64 word) XOR word_rotl 17 (ucast (drop_bit 64 i)) XOR (seed XOR a) XOR push_bit 56 (of_nat (kind_number k))
      = ucast i XOR word_rotl 17 (ucast (drop_bit 64 i)) XOR (seed XOR b) XOR push_bit 56 (of_nat (kind_number k'))"
    using assms unfolding session_hash_def Let_def by (rule next_u64_inj)
  then show ?thesis by (simp only: xor.assoc) (metis xor_cancel)
qed

lemma draws_of_epochs_disjoint:
  assumes "(e < 2 ^ 24 \<and> e' < 2 ^ 24 \<and> e \<noteq> e') \<or> even e \<noteq> even e'"
  shows "set (draw_ids ks (id_source_for i seed e)) \<inter> set (draw_ids ks' (id_source_for i seed e')) = {}"
proof -
  have False if x: "x \<in> set (draw_ids ks (id_source_for i seed e))" "x \<in> set (draw_ids ks' (id_source_for i seed e'))" for x
  proof -
    obtain k c where 1: "x = mixed_value i (seed XOR word_rotl 32 (of_nat e)) k c"
      using draw_ids_values [OF _ x(1)] by (auto simp: id_source_for_def) (auto simp: id_source_new_def)
    obtain k' c' where 2: "x = mixed_value i (seed XOR word_rotl 32 (of_nat e')) k' c'"
      using draw_ids_values [OF _ x(2)] by (auto simp: id_source_for_def) (auto simp: id_source_new_def)
    have "word_rotl 32 (of_nat e :: 64 word) XOR push_bit 56 (of_nat (kind_number k))
         = word_rotl 32 (of_nat e') XOR push_bit 56 (of_nat (kind_number k'))"
      using mixed_value_inj [of i _ k c i _ k' c'] 1 2 by (intro session_hash_key [of i seed]) metis
    then show False using assms stream_key_inj [of e k e' k'] stream_key_parity [of e k e' k'] by blast
  qed
  then show ?thesis by blast
qed

section \<open>Properties\<close>

text \<open>C18: INV-EPOCH-001. From the moment a reset begins, work of the old epoch never proceeds
  again: whatever the session does afterwards, the guard discards it as stale.\<close>

theorem stale_work_never_proceeds:
  assumes "begin_reset s = (Inr e', s')"
  shows "check_work_epoch (exec session_next s' as) (ss_epoch s) = DiscardStaleEpoch"
proof -
  have "ss_epoch s < ss_epoch s'"
    using assms by (auto simp: begin_reset_def epoch_next_Some split: if_splits option.splits)
  also have "\<dots> \<le> ss_epoch (exec session_next s' as)" by (rule session_epoch.exec_mono) simp
  finally show ?thesis by (simp add: check_work_epoch_def)
qed

theorem stale_work_never_proceeds_witness:
  "let s = exec session_next (session_create 7 1 0) [Life Activate]
   in \<exists>s'. begin_reset s = (Inr 1, s') \<and> check_work_epoch s 0 = Proceed
     \<and> check_work_epoch (exec session_next s' [Life CompleteReset, DrawId EventKind]) 0 = DiscardStaleEpoch"
proof -
  define s where "s = exec session_next (session_create 7 1 0) [Life Activate]"
  have s: "ss_state s = Active" "ss_epoch s = 0"
    by (simp_all add: s_def activate_def transition_def session_create_def)
  obtain s' where r: "begin_reset s = (Inr 1, s')"
    using s by (simp add: begin_reset_def epoch_next_def checked_add_u_def)
  show ?thesis
    using stale_work_never_proceeds [OF r, of "[Life CompleteReset, DrawId EventKind]"] r s
    unfolding Let_def s_def [symmetric] by (auto simp del: exec.simps simp: check_work_epoch_def)
qed

text \<open>The lifecycle operations follow the documented state diagram, a refused one changes
  nothing and names the state and the action, only a reset changes the epoch (by one), and
  work proceeds exactly when it carries the current epoch of an active session.\<close>

theorem session_lifecycle:
  "(case session_apply a s of
      (Inl e, s') \<Rightarrow> s' = s \<and> e = TransitionError (ss_state s) a
    | (Inr x, s') \<Rightarrow> life_edge (ss_state s) a (ss_state s')
        \<and> ss_epoch s' = (if a = BeginReset then ss_epoch s + 1 else ss_epoch s))
   \<and> (check_work_epoch s e = Proceed \<longleftrightarrow> ss_state s = Active \<and> ss_epoch s = e)"
  using session_apply_result [of s a]
  by (auto simp: check_work_epoch_def split: prod.splits sum.splits session_state.splits)



end
