(* ===== verification/Idle_Ledger.thy ===== *)
theory Idle_Ledger
  imports BTree Logical_Time
begin

text \<open>
  The idle fence (crates/fireemu-core-session/src/idle.rs): a ledger of active work by token,
  per epoch, and the verdict \<open>await-idle\<close> gives. Tokens and epochs are \<open>u64\<close>, the counts
  of a verdict \<open>u32\<close>.
\<close>

section \<open>Work kinds\<close>

datatype work_kind =
    FirestoreCommit
  | EventDispatch
  | EventRetryWait
  | FunctionInvocation
  | DueSchedule
  | UploadFinalize
  | TextIndexBuild
  | SnapshotRestoreOrRulesetActivation
  | ChildEnqueueReservation
  | ScheduledFutureWork

text \<open>The derived order: by position of the variant.\<close>

fun kind_rank :: "work_kind \<Rightarrow> nat" where
  "kind_rank FirestoreCommit = 0"
| "kind_rank EventDispatch = 1"
| "kind_rank EventRetryWait = 2"
| "kind_rank FunctionInvocation = 3"
| "kind_rank DueSchedule = 4"
| "kind_rank UploadFinalize = 5"
| "kind_rank TextIndexBuild = 6"
| "kind_rank SnapshotRestoreOrRulesetActivation = 7"
| "kind_rank ChildEnqueueReservation = 8"
| "kind_rank ScheduledFutureWork = 9"

lemma kind_rank_inj: "kind_rank a = kind_rank b \<Longrightarrow> a = b"
  by (cases a; cases b) simp_all

instantiation work_kind :: linorder
begin

definition less_eq_work_kind :: "work_kind \<Rightarrow> work_kind \<Rightarrow> bool" where
  "less_eq_work_kind a b \<longleftrightarrow> kind_rank a \<le> kind_rank b"

definition less_work_kind :: "work_kind \<Rightarrow> work_kind \<Rightarrow> bool" where
  "less_work_kind a b \<longleftrightarrow> kind_rank a < kind_rank b"

instance
  by standard (auto simp: less_eq_work_kind_def less_work_kind_def intro: kind_rank_inj)

end

datatype idle_wait_policy = Wait | Ignore

record await_idle_options =
  include_scheduled_future_work :: bool
  text_index_builds :: idle_wait_policy
  idle_timeout :: logical_duration

definition default_idle_options :: await_idle_options where
  "default_idle_options =
     \<lparr>include_scheduled_future_work = False, text_index_builds = Wait,
      idle_timeout = duration_from_seconds 30\<rparr>"

definition is_fenced :: "await_idle_options \<Rightarrow> work_kind \<Rightarrow> bool" where
  "is_fenced options kind =
     (case kind of
        TextIndexBuild \<Rightarrow> text_index_builds options = Wait
      | ScheduledFutureWork \<Rightarrow> include_scheduled_future_work options
      | _ \<Rightarrow> True)"

section \<open>The ledger\<close>

datatype idle_ledger_error =
    UnknownToken nat
  | StaleEpoch nat nat
  | TokenExhausted
  | NotAReservation nat
  | EpochNotNewer nat nat

datatype idle_verdict = Idle | Busy "(work_kind \<times> nat) list"

record work_ledger =
  lg_epoch :: nat
  lg_next_token :: nat
  lg_active :: "(nat, work_kind) bmap"

type_synonym 'a ledger_op = "work_ledger \<Rightarrow> (idle_ledger_error, 'a) result \<times> work_ledger"

definition ledger_new :: "nat \<Rightarrow> work_ledger" where
  "ledger_new epoch = \<lparr>lg_epoch = epoch, lg_next_token = 1, lg_active = []\<rparr>"

definition ledger_begin :: "work_kind \<Rightarrow> nat \<Rightarrow> nat ledger_op" where
  [op_defs]: "ledger_begin kind epoch l =
     (if epoch \<noteq> lg_epoch l then (Err (StaleEpoch (lg_epoch l) epoch), l)
      else let token = lg_next_token l
           in case checked_add_u 64 (lg_next_token l) 1 of
                None \<Rightarrow> (Err TokenExhausted, l)
              | Some n \<Rightarrow> (Ok token, l\<lparr>lg_next_token := n, lg_active := bm_insert token kind (lg_active l)\<rparr>))"

definition ledger_end :: "nat \<Rightarrow> work_kind ledger_op" where
  [op_defs]: "ledger_end token l =
     (case bm_get (lg_active l) token of
        None \<Rightarrow> (Err (UnknownToken token), l)
      | Some kind \<Rightarrow> (Ok kind, l\<lparr>lg_active := bm_remove token (lg_active l)\<rparr>))"

definition ledger_handoff :: "nat \<Rightarrow> work_kind \<Rightarrow> nat ledger_op" where
  [op_defs]: "ledger_handoff reservation child l =
     (case bm_get (lg_active l) reservation of
        None \<Rightarrow> (Err (UnknownToken reservation), l)
      | Some ChildEnqueueReservation \<Rightarrow>
          (case ledger_begin child (lg_epoch l) l of
             (Inl e, l) \<Rightarrow> (Err e, l)
           | (Inr token, l) \<Rightarrow> (Ok token, l\<lparr>lg_active := bm_remove reservation (lg_active l)\<rparr>))
      | Some _ \<Rightarrow> (Err (NotAReservation reservation), l))"

definition ledger_reset :: "nat \<Rightarrow> unit ledger_op" where
  [op_defs]: "ledger_reset new_epoch l =
     (if new_epoch \<le> lg_epoch l then (Err (EpochNotNewer (lg_epoch l) new_epoch), l)
      else (Ok (), l\<lparr>lg_epoch := new_epoch, lg_active := []\<rparr>))"

definition active_total :: "work_ledger \<Rightarrow> nat" where
  "active_total l = length (lg_active l)"

definition bump :: "work_kind \<Rightarrow> (work_kind, nat) bmap \<Rightarrow> (work_kind, nat) bmap" where
  "bump kind counts =
     bm_insert kind (((case bm_get counts kind of None \<Rightarrow> 0 | Some n \<Rightarrow> n) + 1) mod 2 ^ 32) counts"

definition verdict :: "await_idle_options \<Rightarrow> work_ledger \<Rightarrow> idle_verdict" where
  "verdict options l =
     (let counts = foldl (\<lambda>counts kind. bump kind counts) []
                     (filter (is_fenced options) (bm_values (lg_active l)))
      in if counts = [] then Idle else Busy counts)"

section \<open>Lemmas\<close>

text \<open>Tokens in use are below the next token.\<close>

definition lg_inv :: "work_ledger \<Rightarrow> bool" where
  "lg_inv l \<longleftrightarrow> bm_wf (lg_active l) \<and> (\<forall>t k. bm_get (lg_active l) t = Some k \<longrightarrow> t < lg_next_token l)"

lemma lg_inv_new: "lg_inv (ledger_new e)"
  by (simp add: lg_inv_def ledger_new_def)

lemma bump_wf: "bm_wf counts \<Longrightarrow> bm_wf (bump kind counts)"
  by (simp add: bump_def bm_wf_insert)

lemma bump_get:
  "bm_get (bump kind counts) k =
     (if k = kind then Some (((case bm_get counts kind of None \<Rightarrow> 0 | Some n \<Rightarrow> n) + 1) mod 2 ^ 32)
      else bm_get counts k)"
  by (simp add: bump_def)

lemma counts_fold:
  assumes "bm_wf counts" "\<And>k. bm_get counts k = (if k \<in> set done then Some (count_list done k mod 2 ^ 32) else None)"
  shows "bm_wf (foldl (\<lambda>counts kind. bump kind counts) counts ks) \<and>
    bm_get (foldl (\<lambda>counts kind. bump kind counts) counts ks) k =
      (if k \<in> set (done @ ks) then Some (count_list (done @ ks) k mod 2 ^ 32) else None)"
  using assms
proof (induction ks arbitrary: counts "done")
  case Nil
  then show ?case by simp
next
  case (Cons x ks)
  have "bm_get (bump x counts) j = (if j \<in> set (done @ [x]) then Some (count_list (done @ [x]) j mod 2 ^ 32) else None)" for j
    by (auto simp: bump_get Cons.prems(2) count_list_append mod_Suc_eq count_notin)
  from Cons.IH [OF bump_wf [OF Cons.prems(1)] this] show ?case by simp
qed

definition fenced_kinds :: "await_idle_options \<Rightarrow> work_ledger \<Rightarrow> work_kind list" where
  "fenced_kinds options l = filter (is_fenced options) (bm_values (lg_active l))"

lemma verdict_counts:
  "verdict options l = Idle \<and> fenced_kinds options l = [] \<or>
   (\<exists>counts. verdict options l = Busy counts \<and> bm_wf counts \<and> fenced_kinds options l \<noteq> [] \<and>
      (\<forall>k. bm_get counts k = (if k \<in> set (fenced_kinds options l)
         then Some (count_list (fenced_kinds options l) k mod 2 ^ 32) else None)))"
proof -
  define counts where "counts = foldl (\<lambda>counts kind. bump kind counts) [] (fenced_kinds options l)"
  have wf: "bm_wf counts"
    and get: "bm_get counts k = (if k \<in> set (fenced_kinds options l)
         then Some (count_list (fenced_kinds options l) k mod 2 ^ 32) else None)" for k
    using counts_fold [of "[]" "[]" "fenced_kinds options l" k] by (auto simp: counts_def)
  have v: "verdict options l = (if counts = [] then Idle else Busy counts)"
    by (simp add: verdict_def counts_def fenced_kinds_def Let_def)
  show ?thesis
  proof (cases "fenced_kinds options l")
    case Nil
    then show ?thesis using v by (simp add: counts_def)
  next
    case (Cons k ks)
    then have "bm_get counts k \<noteq> None" using get [of k] by simp
    then have "counts \<noteq> []" by auto
    then show ?thesis using v wf get Cons by auto
  qed
qed

lemma idle_iff:
  assumes "lg_inv l"
  shows "verdict options l = Idle \<longleftrightarrow>
    (\<forall>t k. bm_get (lg_active l) t = Some k \<longrightarrow> \<not> is_fenced options k)"
proof -
  have "verdict options l = Idle \<longleftrightarrow> fenced_kinds options l = []"
    using verdict_counts [of options l] by auto
  also have "\<dots> \<longleftrightarrow> (\<forall>k\<in>set (bm_values (lg_active l)). \<not> is_fenced options k)"
    by (simp add: fenced_kinds_def filter_empty_conv)
  also have "\<dots> \<longleftrightarrow> (\<forall>t k. bm_get (lg_active l) t = Some k \<longrightarrow> \<not> is_fenced options k)"
    using assms by (force simp: lg_inv_def bm_get_eq_Some bm_values_def)
  finally show ?thesis .
qed

section \<open>Runs\<close>

datatype ledger_action = LBegin work_kind nat | LEnd nat | LHandoff nat work_kind | LReset nat

fun ledger_step :: "work_ledger \<Rightarrow> ledger_action \<Rightarrow> work_ledger" where
  "ledger_step l (LBegin k e) = snd (ledger_begin k e l)"
| "ledger_step l (LEnd t) = snd (ledger_end t l)"
| "ledger_step l (LHandoff t k) = snd (ledger_handoff t k l)"
| "ledger_step l (LReset e) = snd (ledger_reset e l)"

lemma begin_cases:
  "ledger_begin k e l = (Inr t, l') \<longleftrightarrow>
     e = lg_epoch l \<and> t = lg_next_token l \<and> lg_next_token l + 1 < 2 ^ 64 \<and>
     l' = l\<lparr>lg_next_token := lg_next_token l + 1, lg_active := bm_insert t k (lg_active l)\<rparr>"
  "fst (ledger_begin k e l) = Inl err \<Longrightarrow> snd (ledger_begin k e l) = l"
  by (auto simp: ledger_begin_def Let_def split: if_splits option.splits)

lemma handoff_cases:
  assumes "lg_inv l"
  shows "ledger_handoff r k l = (Inr t, l') \<longleftrightarrow>
     bm_get (lg_active l) r = Some ChildEnqueueReservation \<and> t = lg_next_token l \<and>
     lg_next_token l + 1 < 2 ^ 64 \<and>
     l' = l\<lparr>lg_next_token := lg_next_token l + 1,
            lg_active := bm_remove r (bm_insert t k (lg_active l))\<rparr>"
  by (auto simp: ledger_handoff_def ledger_begin_def Let_def split: option.splits work_kind.splits)

lemma ledger_err_unchanged:
  "fst (ledger_begin k e l) = Inl err \<Longrightarrow> snd (ledger_begin k e l) = l"
  "fst (ledger_end t l) = Inl err \<Longrightarrow> snd (ledger_end t l) = l"
  "fst (ledger_handoff t k l) = Inl err \<Longrightarrow> snd (ledger_handoff t k l) = l"
  "fst (ledger_reset e l) = Inl err \<Longrightarrow> snd (ledger_reset e l) = l"
  by (auto simp: op_defs Let_def split: option.splits if_splits work_kind.splits sum.splits prod.splits)

lemma ledger_step_active:
  assumes "lg_inv l"
  shows "bm_get (lg_active (ledger_step l a)) t =
    (case a of
       LBegin k e \<Rightarrow> if fst (ledger_begin k e l) = Inr t then Some k else bm_get (lg_active l) t
     | LEnd t' \<Rightarrow> if t = t' then None else bm_get (lg_active l) t
     | LHandoff r k \<Rightarrow>
         if is_ok (fst (ledger_handoff r k l)) \<and> t = r then None
         else if fst (ledger_handoff r k l) = Inr t then Some k else bm_get (lg_active l) t
     | LReset e \<Rightarrow> if lg_epoch l < e then None else bm_get (lg_active l) t)"
  by (cases a) (auto simp: op_defs Let_def split: option.splits if_splits work_kind.splits)

lemma ledger_step_inv: "lg_inv l \<Longrightarrow> lg_inv (ledger_step l a) \<and> lg_next_token l \<le> lg_next_token (ledger_step l a)"
  by (cases a)
     (auto simp: lg_inv_def op_defs Let_def less_SucI split: option.splits if_splits work_kind.splits)

interpretation ledger_tokens: monotone_machine ledger_step lg_inv lg_next_token
  using ledger_step_inv by unfold_locales auto

text \<open>A token below the next one that is not in use is never in use again.\<close>

lemma dead_token_stays_dead:
  assumes "lg_inv l" "t < lg_next_token l" "bm_get (lg_active l) t = None"
  shows "bm_get (lg_active (exec ledger_step l as)) t = None"
  using assms
proof (induction as arbitrary: l)
  case (Cons a as)
  have "bm_get (lg_active (ledger_step l a)) t = None"
    using Cons.prems by (cases a)
      (auto simp: ledger_step_active op_defs Let_def split: option.splits if_splits work_kind.splits)
  moreover have "lg_inv (ledger_step l a)" "t < lg_next_token (ledger_step l a)"
    using ledger_step_inv [OF Cons.prems(1), of a] Cons.prems(2) by auto
  ultimately show ?case using Cons.IH by simp
qed simp

text \<open>An action that releases token \<open>t\<close>, or drops all work.\<close>

definition releases :: "nat \<Rightarrow> ledger_action \<Rightarrow> bool" where
  "releases t a \<longleftrightarrow> (case a of LEnd t' \<Rightarrow> t' = t | LHandoff r _ \<Rightarrow> r = t | LReset _ \<Rightarrow> True | _ \<Rightarrow> False)"

lemma held_token_stays:
  assumes "lg_inv l" "bm_get (lg_active l) t = Some k" "list_all (\<lambda>a. \<not> releases t a) as"
  shows "lg_inv (exec ledger_step l as) \<and> bm_get (lg_active (exec ledger_step l as)) t = Some k"
  using assms
proof (induction as arbitrary: l)
  case (Cons a as)
  have lt: "t < lg_next_token l" using Cons.prems by (auto simp: lg_inv_def)
  then have "bm_get (lg_active (ledger_step l a)) t = Some k"
    using Cons.prems by (cases a)
      (auto simp: ledger_step_active releases_def op_defs Let_def split: option.splits if_splits work_kind.splits)
  then show ?case using Cons.IH [of "ledger_step l a"] ledger_step_inv [OF Cons.prems(1), of a] Cons.prems(3) by simp
qed simp

section \<open>Properties\<close>

text \<open>C20: INV-IDLE-001. Registered work fences the session: from its registration until its
  token is ended or handed off, or the epoch is reset, no sequence of other operations makes
  an idle check that counts its kind answer idle.\<close>

theorem registered_work_fences:
  assumes "lg_inv l" "ledger_begin k e l = (Inr t, l')" "list_all (\<lambda>a. \<not> releases t a) as" "is_fenced options k"
  shows "verdict options (exec ledger_step l' as) \<noteq> Idle"
proof -
  have "lg_inv l'" using ledger_step_inv [OF assms(1), of "LBegin k e"] assms(2) by simp
  moreover have "bm_get (lg_active l') t = Some k" using assms(2) by (simp add: begin_cases)
  ultimately have "lg_inv (exec ledger_step l' as) \<and> bm_get (lg_active (exec ledger_step l' as)) t = Some k"
    using assms(3) by (rule held_token_stays)
  then show ?thesis using assms(4) idle_iff by blast
qed

theorem registered_work_fences_witness:
  "\<exists>l'. ledger_begin FirestoreCommit 3 (ledger_new 3) = (Inr 1, l')
     \<and> verdict default_idle_options (exec ledger_step l' [LBegin EventDispatch 3, LEnd 2]) \<noteq> Idle"
proof -
  obtain l' where b: "ledger_begin FirestoreCommit 3 (ledger_new 3) = (Inr 1, l')"
    by (simp add: ledger_begin_def ledger_new_def checked_add_u_def Let_def)
  show ?thesis
    using registered_work_fences [OF lg_inv_new b, of "[LBegin EventDispatch 3, LEnd 2]" default_idle_options] b
    by (auto simp: releases_def is_fenced_def)
qed

text \<open>C21: The verdict is exact: idle exactly when no active work is of a counted kind, and
  otherwise the counts per kind in the canonical order, each kind once.\<close>

theorem idle_verdict_exact:
  assumes "lg_inv l"
  shows "(verdict options l = Idle \<longleftrightarrow> (\<forall>t k. bm_get (lg_active l) t = Some k \<longrightarrow> \<not> is_fenced options k))
     \<and> (\<forall>counts. verdict options l = Busy counts \<longrightarrow>
          sorted_wrt (<) (map fst counts) \<and>
          (\<forall>k. map_of counts k = (if k \<in> set (fenced_kinds options l)
             then Some (count_list (fenced_kinds options l) k mod 2 ^ 32) else None)))"
  using idle_iff [OF assms, of options] verdict_counts [of options l] by (auto simp: bm_wf_def)

theorem idle_verdict_exact_witness:
  "verdict default_idle_options (exec ledger_step (ledger_new 0) [LBegin ScheduledFutureWork 0]) = Idle"
proof -
  have i: "lg_inv (exec ledger_step (ledger_new 0) [LBegin ScheduledFutureWork 0])"
    by (rule ledger_tokens.exec_inv) (rule lg_inv_new)
  show ?thesis
    using idle_verdict_exact [OF i, of default_idle_options]
    by (auto simp: ledger_begin_def ledger_new_def checked_add_u_def Let_def is_fenced_def default_idle_options_def)
qed

text \<open>M-IDLE-002. A hand-off replaces the parent's reservation by the child in one step:
  the child is registered, the reservation is gone, all other work is untouched, and neither
  the state between the two halves nor the one after them is idle for options that count the
  child. A refused hand-off changes nothing.\<close>

theorem handoff_atomic:
  assumes "lg_inv l" "ledger_handoff r k l = (res, l')"
  shows "case res of
      Inl e \<Rightarrow> l' = l
    | Inr t \<Rightarrow> bm_get (lg_active l') = (bm_get (lg_active l))(t \<mapsto> k, r := None) \<and> t \<noteq> r
        \<and> bm_get (lg_active l) t = None
        \<and> (is_fenced options k \<longrightarrow> verdict options (snd (ledger_begin k (lg_epoch l) l)) \<noteq> Idle
             \<and> verdict options l' \<noteq> Idle)"
proof (cases res)
  case (Inl e)
  then show ?thesis using ledger_err_unchanged(3) [of r k l e] assms(2) by simp
next
  case (Inr t)
  have h: "bm_get (lg_active l) r = Some ChildEnqueueReservation" "t = lg_next_token l"
      "lg_next_token l + 1 < 2 ^ 64"
      "l' = l\<lparr>lg_next_token := lg_next_token l + 1, lg_active := bm_remove r (bm_insert t k (lg_active l))\<rparr>"
    using assms(2) unfolding Inr handoff_cases [OF assms(1)] by auto
  have r: "r < t" and t: "bm_get (lg_active l) t = None"
    using assms(1) h(1,2) by (auto simp: lg_inv_def dest: spec [of _ t] intro: ccontr)
  have b: "snd (ledger_begin k (lg_epoch l) l)
      = l\<lparr>lg_next_token := lg_next_token l + 1, lg_active := bm_insert t k (lg_active l)\<rparr>"
    using h(2,3) by (simp add: ledger_begin_def checked_add_u_def Let_def)
  have i: "lg_inv (snd (ledger_begin k (lg_epoch l) l))" "lg_inv l'"
    using ledger_step_inv [OF assms(1), of "LBegin k (lg_epoch l)"]
      ledger_step_inv [OF assms(1), of "LHandoff r k"] assms(2) by simp_all
  have "bm_get (lg_active (snd (ledger_begin k (lg_epoch l) l))) t = Some k" "bm_get (lg_active l') t = Some k"
    using r by (simp_all add: b h(4))
  then show ?thesis using Inr r t h(4) i idle_iff by auto
qed

theorem handoff_atomic_witness:
  "\<exists>l'. ledger_handoff 1 EventDispatch (exec ledger_step (ledger_new 0) [LBegin ChildEnqueueReservation 0]) = (Inr 2, l')
     \<and> bm_get (lg_active l') 1 = None \<and> verdict default_idle_options l' \<noteq> Idle"
proof -
  define l where "l = exec ledger_step (ledger_new 0) [LBegin ChildEnqueueReservation 0]"
  have i: "lg_inv l" unfolding l_def by (rule ledger_tokens.exec_inv) (rule lg_inv_new)
  obtain l' where h: "ledger_handoff 1 EventDispatch l = (Inr 2, l')"
    by (simp add: l_def ledger_handoff_def ledger_begin_def ledger_new_def checked_add_u_def Let_def)
  show ?thesis
    using handoff_atomic [OF i h, of default_idle_options] h
    unfolding l_def [symmetric] by (auto simp: is_fenced_def)
qed

text \<open>Tokens are never reused: once a token is released, or its epoch is reset, ending it
  is an error whatever happened in between, so work of an old epoch can never release work
  of a new one.\<close>

theorem released_tokens_stay_unknown:
  assumes "lg_inv l" "ledger_end t l = (Inr k, l') \<or> (bm_get (lg_active l) t = Some k \<and> ledger_reset e l = (Inr (), l'))"
  shows "fst (ledger_end t (exec ledger_step l' as)) = Inl (UnknownToken t)"
proof -
  have "t < lg_next_token l" using assms by (auto simp: lg_inv_def ledger_end_def split: option.splits)
  moreover have "lg_inv l'" "lg_next_token l \<le> lg_next_token l'"
    using ledger_step_inv [OF assms(1), of "LEnd t"] ledger_step_inv [OF assms(1), of "LReset e"] assms(2) by auto
  moreover have "bm_get (lg_active l') t = None"
    using assms(2) by (auto simp: ledger_end_def ledger_reset_def split: option.splits if_splits)
  ultimately have "bm_get (lg_active (exec ledger_step l' as)) t = None"
    by (intro dead_token_stays_dead) auto
  then show ?thesis by (simp add: ledger_end_def)
qed

theorem released_tokens_stay_unknown_witness:
  "\<exists>l'. ledger_reset 1 (exec ledger_step (ledger_new 0) [LBegin FunctionInvocation 0]) = (Inr (), l')
     \<and> fst (ledger_end 1 (exec ledger_step l' [LBegin EventDispatch 1])) = Inl (UnknownToken 1)"
proof -
  define l where "l = exec ledger_step (ledger_new 0) [LBegin FunctionInvocation 0]"
  have i: "lg_inv l" unfolding l_def by (rule ledger_tokens.exec_inv) (rule lg_inv_new)
  have a: "bm_get (lg_active l) 1 = Some FunctionInvocation"
    by (simp add: l_def ledger_begin_def ledger_new_def checked_add_u_def Let_def)
  obtain l' where r: "ledger_reset 1 l = (Inr (), l')"
    by (simp add: l_def ledger_reset_def ledger_begin_def ledger_new_def checked_add_u_def Let_def)
  show ?thesis
    using released_tokens_stay_unknown [OF i, of 1 FunctionInvocation l' 1 "[LBegin EventDispatch 1]"] a r
    unfolding l_def [symmetric] by auto
qed

end
