(* ===== verification/Admission_Barrier.thy ===== *)
theory Admission_Barrier
  imports Prelude
begin

text \<open>
  The session-wide admission barrier (crates/fireemu-core-session/src/barrier.rs) under
  interleaving. Each thread runs one of the barrier's methods step by step; a step is one
  acquisition or release of the \<open>RwLock\<close>, one load of the atomic epoch or one increment of
  it. The lock is the standard library's: a read guard is granted while no write guard is
  held, a write guard while no guard is held.
\<close>

section \<open>Threads and steps\<close>

datatype request_mode = Since nat | Plain

datatype thread_state =
    Outside
  | Captured nat                  \<comment> \<open>has read \<open>epoch()\<close> before its work\<close>
  | ReadLocked request_mode       \<comment> \<open>in \<open>admit\<close>, between the guard and the load\<close>
  | AdmittedAt nat                \<comment> \<open>holds \<open>Admitted\<close> with this epoch\<close>
  | Refused                       \<comment> \<open>got \<open>ResetSince\<close>; the guard is dropped\<close>
  | WriteLocked                   \<comment> \<open>in \<open>exclusive\<close>, between the guard and the increment\<close>
  | ExclusiveHeld                 \<comment> \<open>holds \<open>Exclusive\<close>\<close>

record barrier =
  ba_epoch :: nat
  ba_threads :: "thread_state list"

definition barrier_new :: "nat \<Rightarrow> barrier" where
  "barrier_new threads = \<lparr>ba_epoch = 0, ba_threads = replicate threads Outside\<rparr>"

fun holds_read :: "thread_state \<Rightarrow> bool" where
  "holds_read (ReadLocked _) = True"
| "holds_read (AdmittedAt _) = True"
| "holds_read _ = False"

fun holds_write :: "thread_state \<Rightarrow> bool" where
  "holds_write WriteLocked = True"
| "holds_write ExclusiveHeld = True"
| "holds_write _ = False"

definition can_read :: "barrier \<Rightarrow> bool" where
  "can_read b \<longleftrightarrow> list_all (\<lambda>t. \<not> holds_write t) (ba_threads b)"

definition can_write :: "barrier \<Rightarrow> bool" where
  "can_write b \<longleftrightarrow> list_all (\<lambda>t. \<not> holds_write t \<and> \<not> holds_read t) (ba_threads b)"

definition set_thread :: "nat \<Rightarrow> thread_state \<Rightarrow> barrier \<Rightarrow> barrier" where
  "set_thread i t b = b\<lparr>ba_threads := (ba_threads b)[i := t]\<rparr>"

datatype barrier_event =
    EpochLoad nat | AcquireRead nat | AdmitLoad nat | DropRead nat
  | AcquireWrite nat | EpochBump nat | AcquirePause nat | DropWrite nat | Forget nat

inductive bstep :: "barrier \<Rightarrow> barrier_event \<Rightarrow> barrier \<Rightarrow> bool" where
  epoch_load: "i < length (ba_threads b) \<Longrightarrow> ba_threads b ! i = Outside
    \<Longrightarrow> bstep b (EpochLoad i) (set_thread i (Captured (ba_epoch b)) b)"
| admit_lock: "i < length (ba_threads b) \<Longrightarrow> ba_threads b ! i = Outside \<Longrightarrow> can_read b
    \<Longrightarrow> bstep b (AcquireRead i) (set_thread i (ReadLocked Plain) b)"
| admit_since_lock: "i < length (ba_threads b) \<Longrightarrow> ba_threads b ! i = Captured seen \<Longrightarrow> can_read b
    \<Longrightarrow> bstep b (AcquireRead i) (set_thread i (ReadLocked (Since seen)) b)"
| admit_load: "i < length (ba_threads b) \<Longrightarrow> ba_threads b ! i = ReadLocked m
    \<Longrightarrow> bstep b (AdmitLoad i)
          (set_thread i (case m of
              Since seen \<Rightarrow> if ba_epoch b = seen then AdmittedAt (ba_epoch b) else Refused
            | Plain \<Rightarrow> AdmittedAt (ba_epoch b)) b)"
| admitted_drop: "i < length (ba_threads b) \<Longrightarrow> ba_threads b ! i = AdmittedAt e
    \<Longrightarrow> bstep b (DropRead i) (set_thread i Outside b)"
| exclusive_lock: "i < length (ba_threads b) \<Longrightarrow> ba_threads b ! i = Outside \<Longrightarrow> can_write b
    \<Longrightarrow> bstep b (AcquireWrite i) (set_thread i WriteLocked b)"
| exclusive_bump: "i < length (ba_threads b) \<Longrightarrow> ba_threads b ! i = WriteLocked
    \<Longrightarrow> bstep b (EpochBump i)
          (set_thread i ExclusiveHeld (b\<lparr>ba_epoch := (ba_epoch b + 1) mod 2 ^ 64\<rparr>))"
| pause_lock: "i < length (ba_threads b) \<Longrightarrow> ba_threads b ! i = Outside \<Longrightarrow> can_write b
    \<Longrightarrow> bstep b (AcquirePause i) (set_thread i ExclusiveHeld b)"
| exclusive_drop: "i < length (ba_threads b) \<Longrightarrow> ba_threads b ! i = ExclusiveHeld
    \<Longrightarrow> bstep b (DropWrite i) (set_thread i Outside b)"
| refused_return: "i < length (ba_threads b) \<Longrightarrow> ba_threads b ! i = Refused
    \<Longrightarrow> bstep b (Forget i) (set_thread i Outside b)"

text \<open>Runs with their events.\<close>

inductive bruns :: "barrier \<Rightarrow> barrier_event list \<Rightarrow> barrier \<Rightarrow> bool" where
  bruns_refl: "bruns b [] b"
| bruns_step: "bruns b evs b' \<Longrightarrow> bstep b' ev b'' \<Longrightarrow> bruns b (evs @ [ev]) b''"

inductive_cases bruns_snocE: "bruns b (evs @ [ev]) b''"

definition bumps :: "barrier_event list \<Rightarrow> nat" where
  "bumps evs = length (filter (\<lambda>ev. case ev of EpochBump _ \<Rightarrow> True | _ \<Rightarrow> False) evs)"

section \<open>Invariant\<close>

definition ba_inv :: "barrier \<Rightarrow> bool" where
  "ba_inv b \<longleftrightarrow>
     (\<forall>i < length (ba_threads b). \<forall>j < length (ba_threads b).
        holds_write (ba_threads b ! i) \<and> j \<noteq> i \<longrightarrow>
        \<not> holds_write (ba_threads b ! j) \<and> \<not> holds_read (ba_threads b ! j)) \<and>
     (\<forall>i < length (ba_threads b). \<forall>e. ba_threads b ! i = AdmittedAt e \<longrightarrow> ba_epoch b = e) \<and>
     ba_epoch b < 2 ^ 64"

lemma ba_inv_new: "ba_inv (barrier_new n)"
  by (simp add: ba_inv_def barrier_new_def)

lemma can_read_iff: "can_read b \<longleftrightarrow> (\<forall>j < length (ba_threads b). \<not> holds_write (ba_threads b ! j))"
  by (simp add: can_read_def list_all_length)

lemma can_write_iff:
  "can_write b \<longleftrightarrow> (\<forall>j < length (ba_threads b). \<not> holds_write (ba_threads b ! j) \<and> \<not> holds_read (ba_threads b ! j))"
  by (simp add: can_write_def list_all_length)

text \<open>A thread may take any state that holds no guard, keep its own guard, or take a new one
  the lock grants.\<close>

lemma set_thread_inv:
  assumes "ba_inv b" "i < length (ba_threads b)"
    "holds_write t \<Longrightarrow> holds_write (ba_threads b ! i) \<or> can_write b"
    "holds_read t \<Longrightarrow> holds_read (ba_threads b ! i) \<or> can_read b"
    "\<And>e. t = AdmittedAt e \<Longrightarrow> ba_epoch b = e"
  shows "ba_inv (set_thread i t b)"
proof -
  let ?b = "set_thread i t b"
  have len: "length (ba_threads ?b) = length (ba_threads b)" by (simp add: set_thread_def)
  have th: "ba_threads ?b ! j = (if j = i then t else ba_threads b ! j)" if "j < length (ba_threads b)" for j
    using that by (simp add: set_thread_def nth_list_update)
  have excl: "\<not> holds_write (ba_threads b ! k) \<and> \<not> holds_read (ba_threads b ! k)"
    if "holds_write (ba_threads b ! j)" "k \<noteq> j" "j < length (ba_threads b)" "k < length (ba_threads b)" for j k
    using assms(1) that unfolding ba_inv_def by blast
  have "\<not> holds_write (ba_threads ?b ! k) \<and> \<not> holds_read (ba_threads ?b ! k)"
    if "holds_write (ba_threads ?b ! j)" "k \<noteq> j" and lt: "j < length (ba_threads b)" "k < length (ba_threads b)" for j k
  proof (cases "j = i")
    case True
    then show ?thesis
      using that assms(3) th [OF lt(1)] th [OF lt(2)] excl [of i k] by (auto simp: can_write_iff)
  next
    case False
    then have w: "holds_write (ba_threads b ! j)" using that(1) th [OF lt(1)] by simp
    show ?thesis
    proof (cases "k = i")
      case True
      then show ?thesis
        using w lt False assms(3,4) th [OF lt(2)] excl [OF w] by (auto simp: can_write_iff can_read_iff)
    qed (use w that lt th [OF lt(2)] excl [OF w] in auto)
  qed
  moreover have "ba_epoch ?b = e" if "ba_threads ?b ! j = AdmittedAt e" "j < length (ba_threads b)" for j e
    using that th [of j] assms(1,5) by (cases "j = i") (auto simp: ba_inv_def set_thread_def)
  moreover have "ba_epoch ?b < 2 ^ 64" using assms(1) by (simp add: ba_inv_def set_thread_def)
  ultimately show ?thesis unfolding ba_inv_def len by blast
qed

lemma bstep_inv:
  assumes "bstep b ev b'" "ba_inv b"
  shows "ba_inv b'"
  using assms
proof (induction rule: bstep.induct)
  case (exclusive_bump i b)
  have no: "ba_threads b ! j \<noteq> AdmittedAt e" if "j < length (ba_threads b)" for j e
  proof
    assume j: "ba_threads b ! j = AdmittedAt e"
    then have "j \<noteq> i" using exclusive_bump.hyps(2) by auto
    moreover have "holds_write (ba_threads b ! i)" using exclusive_bump.hyps(2) by simp
    ultimately have "\<not> holds_read (ba_threads b ! j)"
      using exclusive_bump.prems exclusive_bump.hyps(1) that unfolding ba_inv_def by blast
    then show False using j by simp
  qed
  let ?b = "b\<lparr>ba_epoch := (ba_epoch b + 1) mod 2 ^ 64\<rparr>"
  have f: "ba_threads ?b = ba_threads b" "ba_epoch ?b < 2 ^ 64" by simp_all
  have "ba_inv ?b"
    using exclusive_bump.prems no f(2) unfolding ba_inv_def f(1) by blast
  then show ?case by (rule set_thread_inv) (use exclusive_bump.hyps in auto)
next
  case (admit_load i b m)
  then show ?case by (intro set_thread_inv) (auto split: request_mode.splits if_splits)
qed (auto intro!: set_thread_inv)

lemma bruns_inv: "bruns b evs b' \<Longrightarrow> ba_inv b \<Longrightarrow> ba_inv b'"
  by (induction rule: bruns.induct) (auto intro: bstep_inv)

text \<open>The epoch counts the increments.\<close>

lemma bstep_epoch: "bstep b ev b' \<Longrightarrow> ba_epoch b' =
    (case ev of EpochBump _ \<Rightarrow> (ba_epoch b + 1) mod 2 ^ 64 | _ \<Rightarrow> ba_epoch b)"
  by (induction rule: bstep.induct) (auto simp: set_thread_def)

lemma bruns_epoch: "bruns b evs b' \<Longrightarrow> ba_epoch b < 2 ^ 64 \<Longrightarrow> ba_epoch b' = (ba_epoch b + bumps evs) mod 2 ^ 64"
proof (induction rule: bruns.induct)
  case (bruns_step b evs b' ev b'')
  then show ?case
    by (cases ev) (auto simp: bstep_epoch bumps_def mod_Suc_eq)
qed (simp add: bumps_def)

text \<open>While a thread is admitted, nobody increments the epoch.\<close>

lemma admitted_blocks_bump:
  assumes "bstep b ev b'" "ba_inv b" "i < length (ba_threads b)" "holds_read (ba_threads b ! i)"
  shows "ba_epoch b' = ba_epoch b"
  using assms
proof (induction rule: bstep.induct)
  case (exclusive_bump j b)
  then have "i \<noteq> j" "holds_write (ba_threads b ! j)" by auto
  then have "\<not> holds_read (ba_threads b ! i)"
    using exclusive_bump.prems(1,2) exclusive_bump.hyps(1) unfolding ba_inv_def by blast
  with exclusive_bump.prems(3) show ?case by simp
qed (auto simp: set_thread_def)

text \<open>A sample run of two threads: the first reads the epoch and is admitted since then.\<close>

definition sample_events :: "barrier_event list" where
  "sample_events = [EpochLoad 0, AcquireRead 0, AdmitLoad 0]"

lemma sample_run: "bruns (barrier_new 2) sample_events \<lparr>ba_epoch = 0, ba_threads = [AdmittedAt 0, Outside]\<rparr>"
proof -
  have n: "barrier_new 2 = \<lparr>ba_epoch = 0, ba_threads = [Outside, Outside]\<rparr>"
    by (simp add: barrier_new_def numeral_2_eq_2)
  have 1: "bstep (barrier_new 2) (EpochLoad 0) \<lparr>ba_epoch = 0, ba_threads = [Captured 0, Outside]\<rparr>"
    using epoch_load [of 0 "barrier_new 2"] by (simp add: n set_thread_def)
  have 2: "bstep \<lparr>ba_epoch = 0, ba_threads = [Captured 0, Outside]\<rparr> (AcquireRead 0)
      \<lparr>ba_epoch = 0, ba_threads = [ReadLocked (Since 0), Outside]\<rparr>"
    using admit_since_lock [of 0 "\<lparr>ba_epoch = 0, ba_threads = [Captured 0, Outside]\<rparr>" 0]
    by (simp add: can_read_def set_thread_def)
  have 3: "bstep \<lparr>ba_epoch = 0, ba_threads = [ReadLocked (Since 0), Outside]\<rparr> (AdmitLoad 0)
      \<lparr>ba_epoch = 0, ba_threads = [AdmittedAt 0, Outside]\<rparr>"
    using admit_load [of 0 "\<lparr>ba_epoch = 0, ba_threads = [ReadLocked (Since 0), Outside]\<rparr>" "Since 0"]
    by (simp add: set_thread_def)
  show ?thesis
    using bruns_step [OF bruns_step [OF bruns_step [OF bruns_refl 1] 2] 3] by (simp add: sample_events_def)
qed

section \<open>Properties\<close>

text \<open>C22: In every interleaving of requests, resets and pauses, a reset and an admitted request
  never overlap: a thread that holds the barrier exclusively is alone, the epoch an admitted
  request was given is the current one for as long as it is admitted, and no step increments
  the epoch meanwhile.\<close>

theorem no_request_straddles_reset:
  assumes "bruns (barrier_new n) evs b" "i < length (ba_threads b)"
  shows "(holds_write (ba_threads b ! i) \<longrightarrow>
        (\<forall>j < length (ba_threads b). j \<noteq> i \<longrightarrow> \<not> holds_write (ba_threads b ! j) \<and> \<not> holds_read (ba_threads b ! j)))
     \<and> (ba_threads b ! i = AdmittedAt e \<longrightarrow> ba_epoch b = e \<and> (bstep b ev b' \<longrightarrow> ba_epoch b' = e))"
proof -
  have inv: "ba_inv b" using bruns_inv [OF assms(1) ba_inv_new] .
  have "ba_epoch b = e" if "ba_threads b ! i = AdmittedAt e"
    using inv that assms(2) unfolding ba_inv_def by blast
  moreover have "ba_epoch b' = ba_epoch b" if "ba_threads b ! i = AdmittedAt e" "bstep b ev b'"
    using admitted_blocks_bump [OF that(2) inv assms(2)] that(1) by simp
  ultimately show ?thesis using inv assms(2) unfolding ba_inv_def by blast
qed

theorem no_request_straddles_reset_witness:
  "\<exists>b. bruns (barrier_new 2) sample_events b \<and> ba_threads b ! 0 = AdmittedAt 0 \<and> ba_epoch b = 0"
  using no_request_straddles_reset [OF sample_run, of 0 0] sample_run by auto

text \<open>\<open>admit_since\<close> admits only requests whose session was not reset since they started:
  if a thread read the epoch in some state and is later admitted with that epoch, then no
  reset took place in between (short of a multiple of 2^64 of them).\<close>

theorem admit_since_no_reset:
  assumes "bruns (barrier_new n) evs b" "bruns b evs' b'" "i < length (ba_threads b')"
    "ba_threads b' ! i = AdmittedAt (ba_epoch b)" "bumps evs' < 2 ^ 64"
  shows "bumps evs' = 0"
proof -
  have inv: "ba_inv b" using bruns_inv [OF assms(1) ba_inv_new] .
  have "ba_epoch b' = ba_epoch b"
    using bruns_inv [OF assms(2) inv] assms(3,4) unfolding ba_inv_def by blast
  moreover have e: "ba_epoch b < 2 ^ 64" using inv by (simp add: ba_inv_def)
  moreover have "ba_epoch b' = (ba_epoch b + bumps evs') mod 2 ^ 64" using bruns_epoch [OF assms(2) e] .
  ultimately have "(ba_epoch b + bumps evs') mod 2 ^ 64 = ba_epoch b" by simp
  then show ?thesis using e assms(5) by (auto simp: mod_if split: if_splits)
qed

theorem admit_since_no_reset_witness: "bumps sample_events = 0"
proof -
  have "bumps sample_events < 2 ^ 64" by (simp add: sample_events_def bumps_def)
  then show ?thesis
    using admit_since_no_reset [OF bruns_refl sample_run, of 0] by (simp add: barrier_new_def)
qed

end
