(* ===== verification/Fault_Plan.thy ===== *)
theory Fault_Plan
  imports BTree
begin

text \<open>
  Fault injection plans (crates/fireemu-core-session/src/fault.rs): the rules of a plan, the
  occurrence counters, the bounded history of fired faults, and the registry that gives each
  session project its own state. A shared state (\<open>Arc<Mutex<FaultState>>\<close>) is an address
  in a store; a poisoned mutex is a flag beside the value it guards.
\<close>

section \<open>Plans\<close>

datatype fault_action =
    ReturnError string
  | Delay int
  | Duplicate nat
  | CrashRunner
  | Timeout
  | DeadLetter
  | TransactionConflict
  | DropConnection

record fault_match =
  fm_operation :: string
  fm_nth :: "nat option"
  fm_function :: "string option"
  fm_event_type :: "string option"

record fault_rule =
  fu_matches :: fault_match
  fu_action :: fault_action

record fault_plan =
  fp_seed :: nat
  fp_rules :: "fault_rule list"

record fault_record =
  fr_operation :: string
  fr_occurrence :: nat
  fr_function_occurrence :: "nat option"
  fr_function :: "string option"
  fr_action :: fault_action

definition max_fired_records :: nat where
  "max_fired_records = 1000"

record fault_state =
  fs_plan :: "fault_plan option"
  fs_counters :: "(string, nat) bmap"
  fs_fired :: "fault_record list"
  fs_dropped :: nat

definition fault_default :: fault_state where
  "fault_default = \<lparr>fs_plan = None, fs_counters = [], fs_fired = [], fs_dropped = 0\<rparr>"

definition fault_install :: "fault_plan \<Rightarrow> fault_state \<Rightarrow> fault_state" where
  "fault_install plan st = \<lparr>fs_plan = Some plan, fs_counters = [], fs_fired = [], fs_dropped = 0\<rparr>"

definition fault_clear :: "fault_state \<Rightarrow> fault_state" where
  "fault_clear st = \<lparr>fs_plan = None, fs_counters = [], fs_fired = [], fs_dropped = 0\<rparr>"

text \<open>\<open>*counters.entry(key).or_insert(0) += 1\<close>, a \<open>u64\<close>.\<close>

definition count_up :: "string \<Rightarrow> (string, nat) bmap \<Rightarrow> nat \<times> (string, nat) bmap" where
  "count_up key counters =
     (let n = ((case bm_get counters key of None \<Rightarrow> 0 | Some n \<Rightarrow> n) + 1) mod 2 ^ 64
      in (n, bm_insert key n counters))"

definition rule_fires ::
  "string \<Rightarrow> string option \<Rightarrow> string option \<Rightarrow> nat \<Rightarrow> nat option \<Rightarrow> fault_rule \<Rightarrow> bool" where
  "rule_fires operation function event_type occurrence per_function rule =
     (let m = fu_matches rule
      in if fm_operation m \<noteq> operation
            \<or> is_some_and (\<lambda>f. Some f \<noteq> function) (fm_function m)
            \<or> is_some_and (\<lambda>t. Some t \<noteq> event_type) (fm_event_type m)
         then False
         else let counted = (if fm_function m \<noteq> None
                             then (case per_function of Some n \<Rightarrow> n | None \<Rightarrow> occurrence)
                             else occurrence)
              in \<not> is_some_and (\<lambda>n. n \<noteq> counted) (fm_nth m))"

text \<open>One record into the ring.\<close>

definition push_fired :: "fault_record \<Rightarrow> fault_state \<Rightarrow> fault_state" where
  "push_fired rec st =
     (let st = (if length (fs_fired st) \<ge> max_fired_records
                then st\<lparr>fs_fired := tl (fs_fired st), fs_dropped := saturating_add_u 64 (fs_dropped st) 1\<rparr>
                else st)
      in st\<lparr>fs_fired := fs_fired st @ [rec]\<rparr>)"

fun decide_rules ::
  "string \<Rightarrow> string option \<Rightarrow> string option \<Rightarrow> nat \<Rightarrow> nat option \<Rightarrow> fault_rule list
   \<Rightarrow> fault_state \<Rightarrow> fault_action list \<times> fault_state" where
  "decide_rules operation function event_type occurrence per_function [] st = ([], st)"
| "decide_rules operation function event_type occurrence per_function (rule # rules) st =
     (if rule_fires operation function event_type occurrence per_function rule
      then let st = push_fired \<lparr>fr_operation = operation, fr_occurrence = occurrence,
                                fr_function_occurrence = per_function, fr_function = function,
                                fr_action = fu_action rule\<rparr> st
           in case decide_rules operation function event_type occurrence per_function rules st of
                (actions, st) \<Rightarrow> (fu_action rule # actions, st)
      else decide_rules operation function event_type occurrence per_function rules st)"

definition decide ::
  "string \<Rightarrow> string option \<Rightarrow> string option \<Rightarrow> fault_state \<Rightarrow> fault_action list \<times> fault_state" where
  "decide operation function event_type st =
     (case fs_plan st of
        None \<Rightarrow> ([], st)
      | Some plan \<Rightarrow>
          (case count_up operation (fs_counters st) of
             (occurrence, counters) \<Rightarrow>
               (case (case function of
                        None \<Rightarrow> (None, counters)
                      | Some f \<Rightarrow>
                          (case count_up (operation @ ''|'' @ f) counters of
                             (n, counters) \<Rightarrow> (Some n, counters))) of
                  (per_function, counters) \<Rightarrow>
                    decide_rules operation function event_type occurrence per_function
                      (fp_rules plan) (st\<lparr>fs_counters := counters\<rparr>))))"

section \<open>The registry\<close>

record shared_faults =
  sf_state :: fault_state
  sf_poisoned :: bool

definition shared_default :: shared_faults where
  "shared_default = \<lparr>sf_state = fault_default, sf_poisoned = False\<rparr>"

text \<open>Address 0 is the default session's state.\<close>

record fault_registry =
  rg_store :: "shared_faults list"
  rg_others :: "(string, nat) bmap"
  rg_poisoned :: bool

definition registry_new :: fault_registry where
  "registry_new = \<lparr>rg_store = [shared_default], rg_others = [], rg_poisoned = False\<rparr>"

definition registry_register :: "string \<Rightarrow> fault_registry \<Rightarrow> nat \<times> fault_registry" where
  "registry_register project g =
     (if rg_poisoned g then (0, g)
      else case bm_get (rg_others g) project of
             Some a \<Rightarrow> (a, g)
           | None \<Rightarrow>
               (let a = length (rg_store g)
                in (a, g\<lparr>rg_store := rg_store g @ [shared_default],
                        rg_others := bm_insert project a (rg_others g)\<rparr>)))"

definition registry_remove :: "string \<Rightarrow> fault_registry \<Rightarrow> fault_registry" where
  "registry_remove project g =
     (if rg_poisoned g then g else g\<lparr>rg_others := bm_remove project (rg_others g)\<rparr>)"

definition for_project :: "string \<Rightarrow> fault_registry \<Rightarrow> nat" where
  "for_project project g =
     (if rg_poisoned g then 0
      else case bm_get (rg_others g) project of Some a \<Rightarrow> a | None \<Rightarrow> 0)"

definition decide_shared ::
  "nat option \<Rightarrow> string \<Rightarrow> string option \<Rightarrow> string option \<Rightarrow> fault_registry
   \<Rightarrow> fault_action list \<times> fault_registry" where
  "decide_shared faults operation function event_type g =
     (case faults of
        None \<Rightarrow> ([], g)
      | Some a \<Rightarrow>
          (if sf_poisoned (rg_store g ! a) then ([], g)
           else case decide operation function event_type (sf_state (rg_store g ! a)) of
                  (actions, st) \<Rightarrow>
                    (actions, g\<lparr>rg_store := (rg_store g)[a := (rg_store g ! a)\<lparr>sf_state := st\<rparr>]\<rparr>)))"

definition decide_for ::
  "bool \<Rightarrow> string \<Rightarrow> string \<Rightarrow> string option \<Rightarrow> string option \<Rightarrow> fault_registry
   \<Rightarrow> fault_action list \<times> fault_registry" where
  "decide_for present project operation function event_type g =
     decide_shared (if present then Some (for_project project g) else None) operation function event_type g"

section \<open>Deciding\<close>

lemma decide_rules_eq:
  "decide_rules operation function event_type occ pf rules st =
    (let fired = filter (rule_fires operation function event_type occ pf) rules
     in (map fu_action fired,
         foldl (\<lambda>st r. push_fired \<lparr>fr_operation = operation, fr_occurrence = occ,
           fr_function_occurrence = pf, fr_function = function, fr_action = fu_action r\<rparr> st) st fired))"
  by (induction rules arbitrary: st) (auto simp: Let_def split: prod.split)

text \<open>The ring holds the newest records of the whole history and counts the others.\<close>

definition ring_of :: "fault_record list \<Rightarrow> fault_state \<Rightarrow> bool" where
  "ring_of history st \<longleftrightarrow>
     fs_fired st = drop (length history - max_fired_records) history \<and>
     fs_dropped st = min (length history - max_fired_records) (u_max 64)"

lemma tl_drop_snoc: "n < length xs \<Longrightarrow> tl (drop n xs) @ [x] = drop (Suc n) (xs @ [x])"
  by (simp add: tl_drop drop_Suc)

lemma ring_of_push:
  assumes "ring_of history st"
  shows "ring_of (history @ [rec]) (push_fired rec st)"
proof (cases "length history < max_fired_records")
  case True
  then show ?thesis using assms by (simp add: ring_of_def push_fired_def Let_def)
next
  case False
  let ?n = "length history - max_fired_records"
  have "?n < length history" "length (drop ?n history) = max_fired_records"
    using False by (auto simp: max_fired_records_def)
  then have "tl (drop ?n history) @ [rec] = drop (length (history @ [rec]) - max_fired_records) (history @ [rec])"
    using False tl_drop_snoc [of ?n history rec] by (simp add: Suc_diff_le not_less)
  moreover have "saturating_add_u 64 (min ?n (u_max 64)) 1 = min (length (history @ [rec]) - max_fired_records) (u_max 64)"
    using False by (simp add: saturating_add_u_def Suc_diff_le not_less)
  ultimately show ?thesis
    using assms \<open>length (drop ?n history) = max_fired_records\<close> by (simp add: ring_of_def push_fired_def Let_def)
qed

lemma push_fired_frame [simp]:
  "fs_plan (push_fired rec st) = fs_plan st" "fs_counters (push_fired rec st) = fs_counters st"
  by (simp_all add: push_fired_def Let_def)

lemma push_all_frame:
  "fs_plan (foldl (\<lambda>st r. push_fired (f r) st) st rs) = fs_plan st"
  "fs_counters (foldl (\<lambda>st r. push_fired (f r) st) st rs) = fs_counters st"
  by (induction rs arbitrary: st) auto

lemma ring_of_push_all:
  "ring_of history st \<Longrightarrow> ring_of (history @ map f rs) (foldl (\<lambda>st r. push_fired (f r) st) st rs)"
proof (induction rs arbitrary: st history)
  case (Cons r rs)
  from Cons.IH [OF ring_of_push [OF Cons.prems, of "f r"]] show ?case by simp
qed simp

lemma ring_of_counters [simp]: "ring_of history (st\<lparr>fs_counters := c\<rparr>) = ring_of history st"
  by (simp add: ring_of_def)

section \<open>Runs since a plan was installed\<close>

type_synonym fault_call = "string \<times> string option \<times> string option"

fun fault_run :: "fault_call list \<Rightarrow> fault_state \<Rightarrow> fault_state" where
  "fault_run [] st = st"
| "fault_run ((op, f, t) # calls) st = fault_run calls (snd (decide op f t st))"

lemma fault_run_append: "fault_run (as @ bs) st = fault_run bs (fault_run as st)"
  by (induction as arbitrary: st) auto

text \<open>How often the calls count under a key.\<close>

fun counts_key :: "string \<Rightarrow> fault_call \<Rightarrow> bool" where
  "counts_key key (op, f, t) \<longleftrightarrow> op = key \<or> (\<exists>g. f = Some g \<and> op @ ''|'' @ g = key)"

definition key_count :: "string \<Rightarrow> fault_call list \<Rightarrow> nat" where
  "key_count key calls = length (filter (counts_key key) calls)"

definition counters_ok :: "fault_call list \<Rightarrow> (string, nat) bmap \<Rightarrow> bool" where
  "counters_ok calls m \<longleftrightarrow> (\<forall>key. (case bm_get m key of None \<Rightarrow> 0 | Some n \<Rightarrow> n) = key_count key calls mod 2 ^ 64)"

abbreviation counter_at :: "(string, nat) bmap \<Rightarrow> string \<Rightarrow> nat" where
  "counter_at m key \<equiv> (case bm_get m key of None \<Rightarrow> 0 | Some n \<Rightarrow> n)"

lemma count_up_at: "count_up key m = (n, m') \<Longrightarrow>
    n = (counter_at m key + 1) mod 2 ^ 64 \<and> (\<forall>k. counter_at m' k = (if k = key then n else counter_at m k))"
  by (auto simp: count_up_def Let_def)

text \<open>The two numbers a call gets, and the counters it leaves.\<close>

lemma decide_eq:
  assumes "fs_plan st = Some plan"
  shows "\<exists>m. decide op f t st = decide_rules op f t
       ((counter_at (fs_counters st) op + 1) mod 2 ^ 64)
       (map_option (\<lambda>g. (counter_at (fs_counters st) (op @ ''|'' @ g) + 1) mod 2 ^ 64) f)
       (fp_rules plan) (st\<lparr>fs_counters := m\<rparr>)
     \<and> (\<forall>k. counter_at m k = (if counts_key k (op, f, t) then (counter_at (fs_counters st) k + 1) mod 2 ^ 64
         else counter_at (fs_counters st) k))"
proof -
  obtain n m where c: "count_up op (fs_counters st) = (n, m)" by (cases "count_up op (fs_counters st)")
  note C = count_up_at [OF c]
  show ?thesis
  proof (cases f)
    case None
    then show ?thesis using assms c C by (auto simp: decide_def)
  next
    case (Some g)
    obtain n' m' where c': "count_up (op @ ''|'' @ g) m = (n', m')" by (cases "count_up (op @ ''|'' @ g) m")
    note C' = count_up_at [OF c']
    have "op @ ''|'' @ g \<noteq> op" by simp
    then show ?thesis
      using assms c c' C C' Some by (intro exI [of _ m']) (auto simp: decide_def)
  qed
qed

text \<open>Every action the calls returned, in order.\<close>

fun fault_outputs :: "fault_call list \<Rightarrow> fault_state \<Rightarrow> fault_action list" where
  "fault_outputs [] st = []"
| "fault_outputs ((op, f, t) # calls) st = fst (decide op f t st) @ fault_outputs calls (snd (decide op f t st))"

lemma fault_outputs_snoc:
  "fault_outputs (calls @ [(op, f, t)]) st = fault_outputs calls st @ fst (decide op f t (fault_run calls st))"
  by (induction calls arbitrary: st) auto

lemma key_count_snoc: "key_count k (calls @ [c]) = key_count k calls + (if counts_key k c then 1 else 0)"
  by (simp add: key_count_def)

lemma fault_run_inv:
  "let st = fault_run calls (fault_install plan st0)
   in fs_plan st = Some plan \<and> counters_ok calls (fs_counters st)
      \<and> (\<exists>h. ring_of h st \<and> map fr_action h = fault_outputs calls (fault_install plan st0))"
proof (induction calls rule: rev_induct)
  case Nil
  show ?case by (simp add: fault_install_def counters_ok_def key_count_def ring_of_def)
next
  case (snoc c calls)
  obtain op f t where c: "c = (op, f, t)" by (cases c)
  define st where "st = fault_run calls (fault_install plan st0)"
  have IH: "fs_plan st = Some plan" "counters_ok calls (fs_counters st)"
    using snoc by (simp_all add: st_def Let_def)
  obtain h where h: "ring_of h st" "map fr_action h = fault_outputs calls (fault_install plan st0)"
    using snoc by (auto simp: st_def Let_def)
  obtain m occ pf where d: "decide op f t st = decide_rules op f t occ pf (fp_rules plan) (st\<lparr>fs_counters := m\<rparr>)"
      "\<And>k. counter_at m k = (if counts_key k (op, f, t) then (counter_at (fs_counters st) k + 1) mod 2 ^ 64
         else counter_at (fs_counters st) k)"
    using decide_eq [OF IH(1), of op f t] by blast
  define rs where "rs = filter (rule_fires op f t occ pf) (fp_rules plan)"
  define rec :: "fault_rule \<Rightarrow> fault_record" where "rec = (\<lambda>r. \<lparr>fr_operation = op, fr_occurrence = occ, fr_function_occurrence = pf,
      fr_function = f, fr_action = fu_action r\<rparr>)"
  have d': "decide op f t st = (map fu_action rs, foldl (\<lambda>st r. push_fired (rec r) st) (st\<lparr>fs_counters := m\<rparr>) rs)"
    by (simp add: d(1) decide_rules_eq rs_def rec_def Let_def)
  have "counters_ok (calls @ [c]) m"
    using IH(2) unfolding counters_ok_def c key_count_snoc d(2) by (simp add: mod_Suc_eq del: counts_key.simps)
  moreover have "ring_of (h @ map rec rs) (foldl (\<lambda>st r. push_fired (rec r) st) (st\<lparr>fs_counters := m\<rparr>) rs)"
    using h(1) by (intro ring_of_push_all) simp
  moreover have "map fr_action (h @ map rec rs) = fault_outputs (calls @ [c]) (fault_install plan st0)"
    using h(2) d' by (simp add: c fault_outputs_snoc st_def [symmetric] rec_def comp_def)
  moreover have "fault_run (calls @ [c]) (fault_install plan st0)
      = foldl (\<lambda>st r. push_fired (rec r) st) (st\<lparr>fs_counters := m\<rparr>) rs"
    using d' by (simp add: fault_run_append c st_def [symmetric])
  ultimately show ?case using IH(1) unfolding Let_def by (auto simp: push_all_frame)
qed

text \<open>Keys are unambiguous when operation names have no bar in them.\<close>

lemma bar_split:
  "CHR ''|'' \<notin> set a \<Longrightarrow> CHR ''|'' \<notin> set b \<Longrightarrow> a @ ''|'' @ x = b @ ''|'' @ y \<longleftrightarrow> a = b \<and> x = y"
  by (induction a arbitrary: b) (case_tac b; auto)+

definition op_count :: "string \<Rightarrow> fault_call list \<Rightarrow> nat" where
  "op_count op calls = length (filter (\<lambda>(o', _, _). o' = op) calls)"

definition fn_count :: "string \<Rightarrow> string \<Rightarrow> fault_call list \<Rightarrow> nat" where
  "fn_count op f calls = length (filter (\<lambda>(o', g, _). o' = op \<and> g = Some f) calls)"

lemma key_counts:
  assumes "CHR ''|'' \<notin> set op" "\<forall>(o', _, _)\<in>set calls. CHR ''|'' \<notin> set o'"
  shows "key_count op calls = op_count op calls" "key_count (op @ ''|'' @ f) calls = fn_count op f calls"
proof -
  have "filter (counts_key op) calls = filter (\<lambda>(o', _, _). o' = op) calls"
    using assms(1) by (intro filter_cong refl) auto
  then show "key_count op calls = op_count op calls" by (simp add: key_count_def op_count_def)
  have "filter (counts_key (op @ ''|'' @ f)) calls = filter (\<lambda>(o', g, _). o' = op \<and> g = Some f) calls"
  proof (intro filter_cong refl)
    fix c assume "c \<in> set calls"
    then obtain o' g t where c: "c = (o', g, t)" "CHR ''|'' \<notin> set o'" using assms(2) by (cases c) auto
    have "o' \<noteq> op @ ''|'' @ f" using c(2) by auto
    then show "counts_key (op @ ''|'' @ f) c = (case c of (o', g, _) \<Rightarrow> o' = op \<and> g = Some f)"
      using bar_split [OF c(2) assms(1)] c(1) by auto
  qed
  then show "key_count (op @ ''|'' @ f) calls = fn_count op f calls"
    by (simp add: key_count_def fn_count_def)
qed

text \<open>The specification of a match: operation, function and event type agree, and the rule
  asks for this occurrence or for all.\<close>

definition spec_fires :: "fault_call list \<Rightarrow> fault_call \<Rightarrow> fault_rule \<Rightarrow> bool" where
  "spec_fires before c rule =
     (case c of (op, f, t) \<Rightarrow>
       fm_operation (fu_matches rule) = op
       \<and> fm_function (fu_matches rule) \<in> {None, f} \<and> fm_event_type (fu_matches rule) \<in> {None, t}
       \<and> fm_nth (fu_matches rule) \<in> {None, Some (1 + (case fm_function (fu_matches rule) of
            None \<Rightarrow> op_count op before | Some g \<Rightarrow> fn_count op g before))})"

lemma filter_le_mod: "length xs < 2 ^ 64 - 1 \<Longrightarrow> (length (filter P xs) mod 2 ^ 64 + 1) mod 2 ^ 64 = 1 + length (filter P xs)"
proof -
  assume "length xs < 2 ^ 64 - 1"
  then have "length (filter P xs) < 2 ^ 64 - 1" using length_filter_le [of P xs] by linarith
  then show ?thesis by simp
qed

section \<open>Properties\<close>

text \<open>C23: Deciding is exact. Since a plan was installed, each call returns the actions of
  exactly the rules that name its operation, function and event type, in rule order, where a
  rule with \<open>nth\<close> fires only on that occurrence, counted per operation, or per operation and
  function when the rule names a function.\<close>

theorem decide_exact:
  assumes "\<forall>(o', _, _)\<in>set ((op, f, t) # before). CHR ''|'' \<notin> set o'" "length before < 2 ^ 64 - 1"
  shows "fst (decide op f t (fault_run before (fault_install plan st))) =
    map fu_action (filter (spec_fires before (op, f, t)) (fp_rules plan))"
proof -
  define s where "s = fault_run before (fault_install plan st)"
  have inv: "fs_plan s = Some plan" "counters_ok before (fs_counters s)"
    using fault_run_inv [of before plan st] by (simp_all add: s_def Let_def)
  have op: "CHR ''|'' \<notin> set op" "\<forall>(o', _, _)\<in>set before. CHR ''|'' \<notin> set o'" using assms(1) by auto
  have c: "counter_at (fs_counters s) op = op_count op before mod 2 ^ 64"
    "counter_at (fs_counters s) (op @ ''|'' @ g) = fn_count op g before mod 2 ^ 64" for g
    using inv(2) unfolding counters_ok_def key_counts [OF op, symmetric] by blast+
  have occ: "(counter_at (fs_counters s) op + 1) mod 2 ^ 64 = 1 + op_count op before"
    unfolding c op_count_def by (rule filter_le_mod [OF assms(2)])
  have fn: "(counter_at (fs_counters s) (op @ ''|'' @ g) + 1) mod 2 ^ 64 = 1 + fn_count op g before" for g
    unfolding c fn_count_def by (rule filter_le_mod [OF assms(2)])
  obtain m where d: "decide op f t s = decide_rules op f t (1 + op_count op before)
      (map_option (\<lambda>g. 1 + fn_count op g before) f) (fp_rules plan) (s\<lparr>fs_counters := m\<rparr>)"
    using decide_eq [OF inv(1), of op f t] unfolding occ fn by blast
  have "rule_fires op f t (1 + op_count op before) (map_option (\<lambda>g. 1 + fn_count op g before) f) r
      = spec_fires before (op, f, t) r" for r
    by (cases "fm_function (fu_matches r)"; cases "fm_nth (fu_matches r)"; cases "fm_event_type (fu_matches r)")
       (auto simp: rule_fires_def spec_fires_def Let_def)
  then have "rule_fires op f t (1 + op_count op before) (map_option (\<lambda>g. 1 + fn_count op g before) f)
      = spec_fires before (op, f, t)" by (rule ext)
  then show ?thesis unfolding s_def [symmetric] d decide_rules_eq Let_def by simp
qed

text \<open>The history is a ring of at most 1000 records: it holds the newest of all the faults
  that fired since the plan was installed, oldest first, and counts the ones it dropped.\<close>

theorem fired_ring:
  "\<exists>history. map fr_action history = fault_outputs calls (fault_install plan st0)
     \<and> fs_fired (fault_run calls (fault_install plan st0)) = drop (length history - 1000) history
     \<and> fs_dropped (fault_run calls (fault_install plan st0)) = min (length history - 1000) (2 ^ 64 - 1)
     \<and> length (fs_fired (fault_run calls (fault_install plan st0))) \<le> 1000"
proof -
  obtain h where "ring_of h (fault_run calls (fault_install plan st0))"
      "map fr_action h = fault_outputs calls (fault_install plan st0)"
    using fault_run_inv [of calls plan st0] by (auto simp: Let_def)
  then show ?thesis by (intro exI [of _ h]) (auto simp: ring_of_def max_fired_records_def u_max_def)
qed

theorem decide_exact_witness:
  "let rule = \<lparr>fu_matches = \<lparr>fm_operation = ''firestore.commit'', fm_nth = Some 2, fm_function = None,
                fm_event_type = None\<rparr>, fu_action = TransactionConflict\<rparr>;
       plan = \<lparr>fp_seed = 1, fp_rules = [rule]\<rparr>;
       once = [(''firestore.commit'', None, None)]
   in fst (decide ''firestore.commit'' None None (fault_run once (fault_install plan fault_default)))
        = [TransactionConflict]"
  unfolding Let_def
  by (subst decide_exact) (simp_all add: spec_fires_def op_count_def)

section \<open>Registry\<close>

definition registry_wf :: "fault_registry \<Rightarrow> bool" where
  "registry_wf g \<longleftrightarrow> bm_wf (rg_others g) \<and> rg_store g \<noteq> []
     \<and> (\<forall>p a. bm_get (rg_others g) p = Some a \<longrightarrow> 0 < a \<and> a < length (rg_store g))
     \<and> (\<forall>p q a. bm_get (rg_others g) p = Some a \<and> bm_get (rg_others g) q = Some a \<longrightarrow> p = q)"

lemma registry_new_wf: "registry_wf registry_new"
  by (simp add: registry_wf_def registry_new_def)

lemma registry_register_wf:
  assumes "registry_wf g"
  shows "registry_wf (snd (registry_register p g))"
proof (cases "rg_poisoned g \<or> bm_get (rg_others g) p \<noteq> None")
  case True
  then show ?thesis using assms by (auto simp: registry_register_def)
next
  case False
  have "a < length (rg_store g)" if "bm_get (rg_others g) q = Some a" for q a
    using assms that unfolding registry_wf_def by blast
  with assms False show ?thesis
    unfolding registry_wf_def registry_register_def Let_def
    by (auto simp: less_SucI split: if_splits)
qed

lemma registry_remove_wf: "registry_wf g \<Longrightarrow> registry_wf (registry_remove p g)"
  by (auto simp: registry_wf_def registry_remove_def split: if_splits)

text \<open>Sessions do not disturb each other's faults: deciding for one project leaves the
  state of every project with a different state as it was, a registered project has a state of
  its own, and an unregistered or removed one shares the default session's.\<close>

theorem fault_states_isolated:
  assumes "registry_wf g"
  shows "(for_project q g \<noteq> for_project p g \<longrightarrow>
        rg_store (snd (decide_for present p op f t g)) ! for_project q g = rg_store g ! for_project q g)
     \<and> for_project q (snd (decide_for present p op f t g)) = for_project q g
     \<and> (\<not> rg_poisoned g \<longrightarrow>
          for_project p (snd (registry_register p g)) = fst (registry_register p g)
          \<and> (for_project q (snd (registry_register p g)) = for_project p (snd (registry_register p g)) \<longleftrightarrow> q = p)
          \<and> for_project p (registry_remove p g) = 0)"
proof -
  have 1: "rg_others (snd (decide_for present p op f t g)) = rg_others g"
    "rg_poisoned (snd (decide_for present p op f t g)) = rg_poisoned g"
    by (auto simp: decide_for_def decide_shared_def split: option.split prod.split)
  have 2: "rg_store (snd (decide_for present p op f t g)) ! a = rg_store g ! a" if "a \<noteq> for_project p g" for a
    using that by (auto simp: decide_for_def decide_shared_def split: option.split prod.split)
  have 3: "for_project p (snd (registry_register p g)) = fst (registry_register p g)" if "\<not> rg_poisoned g"
    using that by (auto simp: for_project_def registry_register_def Let_def split: option.split)
  have wf: "registry_wf (snd (registry_register p g))" using registry_register_wf [OF assms] .
  have po: "rg_poisoned (snd (registry_register p g)) = rg_poisoned g"
    by (auto simp: registry_register_def Let_def split: option.split)
  have 4: "for_project q (snd (registry_register p g)) = for_project p (snd (registry_register p g)) \<longleftrightarrow> q = p"
    if "\<not> rg_poisoned g"
  proof -
    have "bm_get (rg_others (snd (registry_register p g))) p \<noteq> None"
      using that by (auto simp: registry_register_def Let_def split: option.split)
    then show ?thesis
      using wf that po unfolding registry_wf_def for_project_def by (auto split: option.splits)
  qed
  show ?thesis using 1 2 3 4 by (auto simp: for_project_def registry_remove_def split: option.split)
qed

theorem fault_states_isolated_witness:
  "let g = snd (registry_register ''a'' registry_new)
   in for_project ''a'' g = 1 \<and> for_project ''b'' g = 0
      \<and> rg_store (snd (decide_for True ''a'' ''op'' None None g)) ! for_project ''b'' g = rg_store g ! for_project ''b'' g"
proof -
  have f: "for_project ''a'' (snd (registry_register ''a'' registry_new)) = 1"
    "for_project ''b'' (snd (registry_register ''a'' registry_new)) = 0"
    by (simp_all add: for_project_def registry_register_def registry_new_def Let_def)
  show ?thesis
    using fault_states_isolated [OF registry_register_wf [OF registry_new_wf], of "''b''" "''a''" "''a''" True "''op''" None None] f
    by (simp add: Let_def)
qed

end
