(* ===== verification/Tenancy.thy ===== *)
theory Tenancy
  imports BTree "HOL-Library.Sublist"
begin

text \<open>
  Which session owns which project, bucket and API key
  (crates/fireemu-core-session/src/tenancy.rs). The registry is a machine over register,
  unregister and key declarations; its properties hold after every run from a new one.
\<close>

section \<open>The registry\<close>

record tenancy =
  tn_default_project :: string
  tn_buckets :: "(string, string bset) bmap"
  tn_api_keys :: "(string, string) bmap"
  tn_default_api_keys :: "string bset"

datatype scope = ScopeProject string | AllExcept "string bset"

fun owns_project :: "scope \<Rightarrow> string \<Rightarrow> bool" where
  "owns_project (ScopeProject p) project \<longleftrightarrow> p = project"
| "owns_project (AllExcept registered) project \<longleftrightarrow> \<not> bs_contains registered project"

fun scope_is_default :: "scope \<Rightarrow> bool" where
  "scope_is_default (AllExcept _) = True"
| "scope_is_default (ScopeProject _) = False"

fun scope_project :: "scope \<Rightarrow> string option" where
  "scope_project (ScopeProject p) = Some p"
| "scope_project (AllExcept _) = None"

text \<open>\<open>str::strip_suffix\<close>\<close>

definition strip_suffix :: "string \<Rightarrow> string \<Rightarrow> string option" where
  "strip_suffix suf s = (if suffix suf s then Some (take (length s - length suf) s) else None)"

definition conventional_bucket_project :: "string \<Rightarrow> string option" where
  "conventional_bucket_project bucket =
     (case (case strip_suffix ''.appspot.com'' bucket of
              Some p \<Rightarrow> Some p
            | None \<Rightarrow> strip_suffix ''.firebasestorage.app'' bucket) of
        None \<Rightarrow> None
      | Some p \<Rightarrow> if p \<noteq> [] then Some p else None)"

definition tenancy_new :: "string \<Rightarrow> tenancy" where
  "tenancy_new default_project =
     \<lparr>tn_default_project = default_project, tn_buckets = [], tn_api_keys = [],
      tn_default_api_keys = []\<rparr>"

definition declare_default_api_keys :: "string list \<Rightarrow> tenancy \<Rightarrow> tenancy" where
  "declare_default_api_keys keys t =
     t\<lparr>tn_default_api_keys := foldl (\<lambda>s k. bs_insert k s) (tn_default_api_keys t) keys\<rparr>"

definition is_default_api_key :: "tenancy \<Rightarrow> string \<Rightarrow> bool" where
  "is_default_api_key t key \<longleftrightarrow> bs_contains (tn_default_api_keys t) key"

definition refuses_api_key :: "tenancy \<Rightarrow> string \<Rightarrow> bool" where
  "refuses_api_key t key \<longleftrightarrow>
     tn_default_api_keys t \<noteq> [] \<and> \<not> bs_contains (tn_default_api_keys t) key
     \<and> \<not> bm_contains (tn_api_keys t) key"

definition is_registered :: "tenancy \<Rightarrow> string \<Rightarrow> bool" where
  "is_registered t project \<longleftrightarrow> bm_contains (tn_buckets t) project"

definition registered :: "tenancy \<Rightarrow> string bset" where
  "registered t = bs_of_list (bm_keys (tn_buckets t))"

definition declared_buckets :: "tenancy \<Rightarrow> string \<Rightarrow> string list" where
  "declared_buckets t project = (case bm_get (tn_buckets t) project of None \<Rightarrow> [] | Some b \<Rightarrow> b)"

definition declaring_project :: "tenancy \<Rightarrow> string \<Rightarrow> string" where
  "declaring_project t bucket =
     (case find (\<lambda>(_, b). bs_contains b bucket) (tn_buckets t) of
        None \<Rightarrow> tn_default_project t
      | Some (p, _) \<Rightarrow> p)"

definition project_of_bucket :: "tenancy \<Rightarrow> string \<Rightarrow> string" where
  "project_of_bucket t bucket =
     (case conventional_bucket_project bucket of
        Some p \<Rightarrow>
          if p = tn_default_project t then tn_default_project t
          else if bm_contains (tn_buckets t) p then p
          else declaring_project t bucket
      | None \<Rightarrow> declaring_project t bucket)"

definition project_of_api_key :: "tenancy \<Rightarrow> string \<Rightarrow> string option" where
  "project_of_api_key t key = bm_get (tn_api_keys t) key"

definition default_scope :: "tenancy \<Rightarrow> scope" where
  "default_scope t = AllExcept (registered t)"

definition scope_of :: "tenancy \<Rightarrow> string \<Rightarrow> scope" where
  "scope_of t project = (if is_registered t project then ScopeProject project else default_scope t)"

text \<open>The conflict a refused registration names (the source formats it as a message).\<close>

datatype tenancy_conflict =
    DefaultProjectRegistered
  | ProjectRegistered string
  | BucketBelongsTo string string
  | BucketOfAnother string
  | KeyBelongsTo string string

fun check_buckets :: "tenancy \<Rightarrow> string \<Rightarrow> string list \<Rightarrow> (tenancy_conflict, unit) result" where
  "check_buckets t project [] = Ok ()"
| "check_buckets t project (b # bs) =
     (let owner = project_of_bucket t b
      in if owner \<noteq> tn_default_project t \<and> owner \<noteq> project then Err (BucketBelongsTo b owner)
         else if is_some_and (\<lambda>p. p \<noteq> project) (conventional_bucket_project b)
         then Err (BucketOfAnother b)
         else check_buckets t project bs)"

fun check_api_keys :: "tenancy \<Rightarrow> string list \<Rightarrow> (tenancy_conflict, unit) result" where
  "check_api_keys t [] = Ok ()"
| "check_api_keys t (k # ks) =
     (case bm_get (tn_api_keys t) k of
        Some owner \<Rightarrow> Err (KeyBelongsTo k owner)
      | None \<Rightarrow> check_api_keys t ks)"

definition tenancy_register ::
  "string \<Rightarrow> string list \<Rightarrow> string list \<Rightarrow> tenancy \<Rightarrow> (tenancy_conflict, unit) result \<times> tenancy" where
  "tenancy_register project buckets api_keys t =
     (if project = tn_default_project t then (Err DefaultProjectRegistered, t)
      else if bm_contains (tn_buckets t) project then (Err (ProjectRegistered project), t)
      else case check_buckets t project buckets of
        Inl e \<Rightarrow> (Err e, t)
      | Inr _ \<Rightarrow>
          (case check_api_keys t api_keys of
             Inl e \<Rightarrow> (Err e, t)
           | Inr _ \<Rightarrow>
               (Ok (), t\<lparr>tn_buckets := bm_insert project (bs_of_list buckets) (tn_buckets t),
                         tn_api_keys := foldl (\<lambda>m k. bm_insert k project m) (tn_api_keys t) api_keys\<rparr>)))"

definition api_key_for :: "tenancy \<Rightarrow> string \<Rightarrow> string option" where
  "api_key_for t project =
     (if project = tn_default_project t then bs_first (tn_default_api_keys t)
      else map_option fst (find (\<lambda>(_, owner). owner = project) (tn_api_keys t)))"

definition tenancy_unregister :: "string \<Rightarrow> tenancy \<Rightarrow> bool \<times> tenancy" where
  "tenancy_unregister project t =
     (bm_contains (tn_buckets t) project,
      t\<lparr>tn_api_keys := filter (\<lambda>(_, p). p \<noteq> project) (tn_api_keys t),
        tn_buckets := bm_remove project (tn_buckets t)\<rparr>)"

section \<open>Well-formedness\<close>

definition tn_inv :: "tenancy \<Rightarrow> bool" where
  "tn_inv t \<longleftrightarrow>
     bm_wf (tn_buckets t) \<and> bm_wf (tn_api_keys t) \<and> bs_wf (tn_default_api_keys t) \<and>
     \<not> is_registered t (tn_default_project t) \<and>
     (\<forall>k p. bm_get (tn_api_keys t) k = Some p \<longrightarrow> is_registered t p) \<and>
     (\<forall>p q b. b \<in> set (declared_buckets t p) \<and> b \<in> set (declared_buckets t q) \<longrightarrow> p = q) \<and>
     (\<forall>p q b. b \<in> set (declared_buckets t p) \<and> conventional_bucket_project b = Some q \<longrightarrow> p = q)"

datatype tenancy_action =
    DoRegister string "string list" "string list"
  | DoUnregister string
  | DoDeclare "string list"

fun tenancy_step :: "tenancy \<Rightarrow> tenancy_action \<Rightarrow> tenancy" where
  "tenancy_step t (DoRegister p bs ks) = snd (tenancy_register p bs ks t)"
| "tenancy_step t (DoUnregister p) = snd (tenancy_unregister p t)"
| "tenancy_step t (DoDeclare ks) = declare_default_api_keys ks t"

lemma tn_inv_new: "tn_inv (tenancy_new d)"
  by (simp add: tn_inv_def tenancy_new_def is_registered_def declared_buckets_def bm_contains_def)

lemma set_registered: "p \<in> set (registered t) \<longleftrightarrow> is_registered t p"
  by (simp add: registered_def is_registered_def bm_contains_iff bm_keys_def)

lemma declared_registered: "b \<in> set (declared_buckets t p) \<Longrightarrow> is_registered t p"
  by (cases "bm_get (tn_buckets t) p")
    (simp_all add: declared_buckets_def is_registered_def bm_contains_def)

lemma declaring_project_cases:
  assumes "tn_inv t"
  shows "(\<exists>p. b \<in> set (declared_buckets t p) \<and> declaring_project t b = p) \<or>
         ((\<forall>p. b \<notin> set (declared_buckets t p)) \<and> declaring_project t b = tn_default_project t)"
proof (cases "find (\<lambda>(_, s). bs_contains s b) (tn_buckets t)")
  case None
  have "b \<notin> set (declared_buckets t p)" for p
  proof (cases "bm_get (tn_buckets t) p")
    case (Some s)
    then show ?thesis using None map_of_SomeD [OF Some]
      by (auto simp: find_None_iff declared_buckets_def)
  qed (simp add: declared_buckets_def)
  then show ?thesis using None by (simp add: declaring_project_def)
next
  case (Some e)
  then have e: "e \<in> set (tn_buckets t)" "b \<in> set (snd e)"
    by (auto simp: find_Some_iff case_prod_beta)
  then have "bm_get (tn_buckets t) (fst e) = Some (snd e)"
    using assms by (simp add: tn_inv_def bm_get_eq_Some)
  then have "b \<in> set (declared_buckets t (fst e))" using e by (simp add: declared_buckets_def)
  moreover have "declaring_project t b = fst e"
    using Some by (simp add: declaring_project_def split: prod.split)
  ultimately show ?thesis by blast
qed

lemma declaring_project_iff:
  assumes "tn_inv t" "is_registered t p"
  shows "declaring_project t b = p \<longleftrightarrow> b \<in> set (declared_buckets t p)"
proof -
  have "p \<noteq> tn_default_project t" using assms unfolding tn_inv_def by blast
  moreover have "p = q" if "b \<in> set (declared_buckets t p)" "b \<in> set (declared_buckets t q)" for q
    using assms(1) that unfolding tn_inv_def by blast
  ultimately show ?thesis using declaring_project_cases [OF assms(1), of b] by metis
qed

lemma project_of_declared:
  assumes "tn_inv t" "b \<in> set (declared_buckets t p)"
  shows "project_of_bucket t b = p"
proof -
  have reg: "is_registered t p" using assms(2) by (rule declared_registered)
  then have "p \<noteq> tn_default_project t" using assms(1) unfolding tn_inv_def by blast
  moreover have "q = p" if "conventional_bucket_project b = Some q" for q
    using assms that unfolding tn_inv_def by blast
  ultimately show ?thesis
    using reg declaring_project_iff [OF assms(1) reg, of b] assms(2)
    by (auto simp: project_of_bucket_def is_registered_def split: option.split)
qed

lemma project_of_bucket_iff:
  assumes "tn_inv t" "is_registered t p"
  shows "project_of_bucket t b = p \<longleftrightarrow>
           b \<in> set (declared_buckets t p) \<or> conventional_bucket_project b = Some p"
proof
  assume own: "project_of_bucket t b = p"
  have "p \<noteq> tn_default_project t" using assms unfolding tn_inv_def by blast
  then show "b \<in> set (declared_buckets t p) \<or> conventional_bucket_project b = Some p"
    using own declaring_project_iff [OF assms, of b]
    by (auto simp: project_of_bucket_def split: option.splits if_splits)
next
  assume "b \<in> set (declared_buckets t p) \<or> conventional_bucket_project b = Some p"
  then show "project_of_bucket t b = p"
  proof
    assume "conventional_bucket_project b = Some p"
    then show ?thesis using assms(2)
      by (simp add: project_of_bucket_def is_registered_def)
  qed (rule project_of_declared [OF assms(1)])
qed

lemma project_of_bucket_range:
  assumes "tn_inv t"
  shows "project_of_bucket t b = tn_default_project t \<or> is_registered t (project_of_bucket t b)"
proof -
  have "declaring_project t b = tn_default_project t \<or> is_registered t (declaring_project t b)"
    using declaring_project_cases [OF assms, of b] declared_registered by blast
  then show ?thesis
    by (auto simp: project_of_bucket_def is_registered_def split: option.split)
qed

section \<open>Operations\<close>

lemma check_buckets_iff:
  "check_buckets t project bs = Inr u \<longleftrightarrow>
     list_all (\<lambda>b. project_of_bucket t b \<in> {tn_default_project t, project}
       \<and> conventional_bucket_project b \<in> {None, Some project}) bs"
  by (induction bs) (auto simp: Let_def is_some_and_def split: option.split)

lemma check_buckets_Ok:
  "check_buckets t project bs = Inr u \<Longrightarrow> b \<in> set bs \<Longrightarrow>
     project_of_bucket t b \<in> {tn_default_project t, project} \<and>
     conventional_bucket_project b \<in> {None, Some project}"
  unfolding check_buckets_iff by (simp add: list_all_iff)

lemma check_api_keys_Ok:
  "check_api_keys t ks = Inr u \<Longrightarrow> k \<in> set ks \<Longrightarrow> bm_get (tn_api_keys t) k = None"
  by (induction t ks rule: check_api_keys.induct) (auto split: option.splits)

lemma foldl_bm_insert_get:
  "bm_get (foldl (\<lambda>m k. bm_insert k v m) m ks) j = (if j \<in> set ks then Some v else bm_get m j)"
  by (induction ks arbitrary: m) auto

lemma foldl_bm_insert_wf: "bm_wf m \<Longrightarrow> bm_wf (foldl (\<lambda>m k. bm_insert k v m) m ks)"
  by (induction ks arbitrary: m) auto

lemma register_effect:
  assumes "fst (tenancy_register p bs ks t) = Ok u"
  defines "t' \<equiv> snd (tenancy_register p bs ks t)"
  shows "p \<noteq> tn_default_project t" "\<not> is_registered t p"
    "check_buckets t p bs = Inr ()" "check_api_keys t ks = Inr ()"
    "t' = t\<lparr>tn_buckets := bm_insert p (bs_of_list bs) (tn_buckets t),
            tn_api_keys := foldl (\<lambda>m k. bm_insert k p m) (tn_api_keys t) ks\<rparr>"
  using assms
  by (auto simp: tenancy_register_def is_registered_def t'_def split: if_splits sum.splits)

lemma register_refused:
  "\<not> is_ok (fst (tenancy_register p bs ks t)) \<Longrightarrow> snd (tenancy_register p bs ks t) = t"
  by (auto simp: tenancy_register_def split: if_splits sum.splits)

lemma declared_register:
  assumes "fst (tenancy_register p bs ks t) = Ok u"
  shows "set (declared_buckets (snd (tenancy_register p bs ks t)) q) =
           (if q = p then set bs else set (declared_buckets t q))"
  by (simp add: register_effect(5) [OF assms] declared_buckets_def)

lemma registered_register:
  assumes "fst (tenancy_register p bs ks t) = Ok u"
  shows "is_registered (snd (tenancy_register p bs ks t)) q \<longleftrightarrow> q = p \<or> is_registered t q"
  by (simp add: register_effect(5) [OF assms] is_registered_def bm_contains_def)

lemma tn_inv_register:
  assumes inv: "tn_inv t" and ok: "fst (tenancy_register p bs ks t) = Ok u"
  shows "tn_inv (snd (tenancy_register p bs ks t))"
proof -
  let ?t = "snd (tenancy_register p bs ks t)"
  note eff = register_effect [OF ok]
  have fresh: "b \<notin> set (declared_buckets t q)" if "b \<in> set bs" "q \<noteq> p" for b q
  proof
    assume b: "b \<in> set (declared_buckets t q)"
    have "project_of_bucket t b = q" by (rule project_of_declared [OF inv b])
    moreover have "q \<noteq> tn_default_project t"
      using declared_registered [OF b] inv unfolding tn_inv_def by blast
    ultimately show False using check_buckets_Ok [OF eff(3) that(1)] that(2) by blast
  qed
  have conv: "q = p" if "b \<in> set bs" "conventional_bucket_project b = Some q" for b q
    using check_buckets_Ok [OF eff(3) that(1)] that(2) by simp
  have dis: "x = y" if "b \<in> set (declared_buckets ?t x)" "b \<in> set (declared_buckets ?t y)" for x y b
    using that fresh inv unfolding declared_register [OF ok] tn_inv_def
    by (metis (no_types, lifting))
  have con: "x = y" if "b \<in> set (declared_buckets ?t x)" "conventional_bucket_project b = Some y" for x y b
    using that conv inv unfolding declared_register [OF ok] tn_inv_def
    by (metis (no_types, lifting))
  have "is_registered ?t q" if "bm_get (tn_api_keys ?t) k = Some q" for k q
    using that inv unfolding registered_register [OF ok] tn_inv_def
    by (auto simp: eff(5) foldl_bm_insert_get split: if_splits)
  moreover have "\<not> is_registered ?t (tn_default_project ?t)"
    using inv eff(1) unfolding registered_register [OF ok] tn_inv_def by (auto simp: eff(5))
  moreover have "bm_wf (tn_buckets ?t)" "bm_wf (tn_api_keys ?t)" "bs_wf (tn_default_api_keys ?t)"
    using inv by (auto simp: eff(5) tn_inv_def intro: foldl_bm_insert_wf)
  ultimately show ?thesis using dis con unfolding tn_inv_def by blast
qed

lemma unregister_parts:
  "tn_default_project (snd (tenancy_unregister p t)) = tn_default_project t"
  "tn_default_api_keys (snd (tenancy_unregister p t)) = tn_default_api_keys t"
  "is_registered (snd (tenancy_unregister p t)) q \<longleftrightarrow> q \<noteq> p \<and> is_registered t q"
  "declared_buckets (snd (tenancy_unregister p t)) q = (if q = p then [] else declared_buckets t q)"
  by (auto simp: tenancy_unregister_def is_registered_def bm_contains_def declared_buckets_def)

lemma map_of_filter_value:
  "distinct (map fst m) \<Longrightarrow>
     map_of (filter (\<lambda>(_, v). P v) m) k = (case map_of m k of Some v \<Rightarrow> if P v then Some v else None | None \<Rightarrow> None)"
  by (induction m) (auto simp: map_of_eq_None_iff rev_image_eqI split: option.split)

lemma unregister_keys:
  "tn_inv t \<Longrightarrow> bm_get (tn_api_keys (snd (tenancy_unregister p t))) k =
     (if bm_get (tn_api_keys t) k = Some p then None else bm_get (tn_api_keys t) k)"
  by (auto simp: tenancy_unregister_def tn_inv_def map_of_filter_value bm_wf_distinct
      split: option.split)

lemma tn_inv_unregister:
  assumes "tn_inv t"
  shows "tn_inv (snd (tenancy_unregister p t))"
proof -
  let ?t = "snd (tenancy_unregister p t)"
  have "bm_wf (tn_buckets ?t)" "bm_wf (tn_api_keys ?t)"
    using assms by (auto simp: tenancy_unregister_def tn_inv_def)
  moreover have "is_registered ?t q" if "bm_get (tn_api_keys ?t) k = Some q" for k q
    using that assms unfolding unregister_keys [OF assms] unregister_parts
    by (auto simp: tn_inv_def split: if_splits)
  ultimately show ?thesis
    using assms unfolding tn_inv_def unregister_parts by (auto split: if_splits)
qed

lemma tn_inv_declare: "tn_inv t \<Longrightarrow> tn_inv (declare_default_api_keys ks t)"
  by (simp add: tn_inv_def declare_default_api_keys_def is_registered_def declared_buckets_def
      bs_wf_of_list_aux)

lemma tn_inv_step: "tn_inv t \<Longrightarrow> tn_inv (tenancy_step t a)"
proof (induction t a rule: tenancy_step.induct)
  case (1 t p bs ks)
  show ?case
  proof (cases "is_ok (fst (tenancy_register p bs ks t))")
    case True
    then show ?thesis using 1 by (auto simp: is_ok_iff intro: tn_inv_register)
  next
    case False
    then show ?thesis using 1 by (simp add: register_refused)
  qed
qed (simp_all add: tn_inv_unregister tn_inv_declare)

interpretation tenancy_run: invariant_machine tenancy_step tn_inv
  by unfold_locales (rule tn_inv_step)

lemma tenancy_step_default: "tn_default_project (tenancy_step t a) = tn_default_project t"
  by (cases a) (auto simp: tenancy_register_def tenancy_unregister_def declare_default_api_keys_def
      split: sum.split)

lemma tenancy_run_default: "tn_default_project (exec tenancy_step t as) = tn_default_project t"
  by (induction as arbitrary: t) (simp_all add: tenancy_step_default)

section \<open>Ownership\<close>

text \<open>C27: After any sequence of registrations, removals and key declarations, every bucket
  belongs to exactly one project, the default one or a registered one: a registered project
  owns exactly the buckets it declared and its conventional ones. Every project belongs to
  exactly one session's scope, and every routed API key names a registered project.\<close>

theorem tenancy_ownership:
  assumes "t = exec tenancy_step (tenancy_new d) as"
  shows "(project_of_bucket t b = d \<or> is_registered t (project_of_bucket t b))
    \<and> (is_registered t p \<longrightarrow>
         (project_of_bucket t b = p \<longleftrightarrow>
            b \<in> set (declared_buckets t p) \<or> conventional_bucket_project b = Some p))
    \<and> (owns_project (scope_of t p) q \<longleftrightarrow> scope_of t q = scope_of t p)
    \<and> \<not> is_registered t d \<and> owns_project (default_scope t) d
    \<and> (project_of_api_key t k = Some p \<longrightarrow> is_registered t p)"
proof -
  have inv: "tn_inv t" unfolding assms by (rule tenancy_run.exec_inv) (rule tn_inv_new)
  have d: "tn_default_project t = d"
    unfolding assms tenancy_run_default by (simp add: tenancy_new_def)
  have "project_of_bucket t b = d \<or> is_registered t (project_of_bucket t b)"
    using project_of_bucket_range [OF inv, of b] by (simp add: d)
  moreover have "owns_project (scope_of t p) q \<longleftrightarrow> scope_of t q = scope_of t p"
    by (auto simp: scope_of_def default_scope_def set_registered)
  moreover have "\<not> is_registered t d \<and> owns_project (default_scope t) d"
    using inv by (simp add: tn_inv_def d default_scope_def set_registered)
  moreover have "is_registered t p" if "project_of_api_key t k = Some p"
    using inv that by (auto simp: tn_inv_def project_of_api_key_def)
  ultimately show ?thesis using project_of_bucket_iff [OF inv, of p b] by blast
qed

definition sample_run :: "tenancy_action list" where
  "sample_run = [DoDeclare [''k0''], DoRegister ''b'' [''x''] [''k'']]"

theorem tenancy_ownership_witness:
  "let t = exec tenancy_step (tenancy_new ''a'') sample_run
   in is_registered t ''b'' \<and> project_of_bucket t ''x'' = ''b'' \<and> project_of_bucket t ''y'' = ''a''"
proof -
  let ?t = "exec tenancy_step (tenancy_new ''a'') sample_run"
  have "project_of_api_key ?t ''k'' = Some ''b''" "''x'' \<in> set (declared_buckets ?t ''b'')"
    "project_of_bucket ?t ''y'' = ''a''"
    by code_simp+
  then show ?thesis
    using tenancy_ownership [of ?t "''a''" sample_run "''x''" "''b''" "''b''" "''k''"] by (simp add: Let_def)
qed

text \<open>
  A registration keeps what every other project owns, and removing a project again gives its
  buckets and keys back to the default one.
\<close>

lemma register_keeps_others:
  assumes "tn_inv t" "fst (tenancy_register p bs ks t) = Ok u" "q \<noteq> p" "is_registered t q"
  shows "project_of_bucket (snd (tenancy_register p bs ks t)) b = q \<longleftrightarrow> project_of_bucket t b = q"
  using project_of_bucket_iff [OF assms(1,4)] declared_register [OF assms(2), of q] assms(3)
    project_of_bucket_iff [OF tn_inv_register [OF assms(1,2)], of q b]
  by (simp add: registered_register [OF assms(2)] assms(4))

lemma unregister_releases:
  assumes "tn_inv t" "is_registered t p" "project_of_bucket t b = p"
  shows "project_of_bucket (snd (tenancy_unregister p t)) b = tn_default_project t"
proof -
  let ?t = "snd (tenancy_unregister p t)"
  have inv: "tn_inv ?t" by (rule tn_inv_unregister [OF assms(1)])
  have "project_of_bucket ?t b \<noteq> q" if "is_registered ?t q" for q
  proof
    assume "project_of_bucket ?t b = q"
    then have "b \<in> set (declared_buckets t q) \<or> conventional_bucket_project b = Some q" "q \<noteq> p" "is_registered t q"
      using project_of_bucket_iff [OF inv that, of b] that by (auto simp: unregister_parts split: if_splits)
    then show False using project_of_bucket_iff [OF assms(1), of q b] assms(3) by blast
  qed
  then show ?thesis using project_of_bucket_range [OF inv, of b] by (auto simp: unregister_parts)
qed

text \<open>
  The keys the default project declared are not consulted: a session may register one of them,
  and the key then selects that session although it is still a declared key of the default
  project. The documentation of \<open>register\<close> says a key owned elsewhere is refused.
\<close>

lemma register_takes_default_key:
  "let t = declare_default_api_keys [''k''] (tenancy_new ''a'');
       (r, t') = tenancy_register ''b'' [] [''k''] t
   in is_default_api_key t ''k'' \<and> r = Ok () \<and> is_default_api_key t' ''k''
      \<and> project_of_api_key t' ''k'' = Some ''b''"
  by code_simp

end
