(* ===== verification/Push_Id.thy ===== *)
theory Push_Id
  imports Determinism
begin

text \<open>
  Push ids (crates/fireemu-core-database/src/push_id.rs): 8 characters of time and 12 of
  randomness in an alphabet in ascii order. The randomness is the generator of
  \<^theory_text>\<open>Determinism\<close>. The property is that ids increase strictly whatever the clock does.
\<close>

section \<open>The generator\<close>

definition push_chars :: string where
  "push_chars = ''-0123456789ABCDEFGHIJKLMNOPQRSTUVWXYZ_abcdefghijklmnopqrstuvwxyz''"

record push_gen =
  pg_last_time :: nat
  pg_last_random :: "nat list"
  pg_rng :: "64 word"

definition push_from_state :: "nat \<Rightarrow> nat list \<Rightarrow> 64 word \<Rightarrow> push_gen" where
  "push_from_state last_time last_random rng =
     \<lparr>pg_last_time = last_time, pg_last_random = last_random, pg_rng = rng\<rparr>"

definition push_new :: "64 word \<Rightarrow> push_gen" where
  "push_new seed = push_from_state 0 (replicate 12 0) seed"

text \<open>The last \<open>n\<close> base 64 digits of the time, most significant first.\<close>

fun stamp_digits :: "nat \<Rightarrow> nat \<Rightarrow> nat list" where
  "stamp_digits 0 time = []"
| "stamp_digits (Suc n) time = stamp_digits n (time div 64) @ [time mod 64]"

text \<open>A random byte outside the alphabet would panic.\<close>

definition push_current :: "push_gen \<Rightarrow> string option" where
  "push_current g =
     (if list_all (\<lambda>r. r < length push_chars) (pg_last_random g)
      then Some (map ((!) push_chars) (stamp_digits 8 (pg_last_time g))
                 @ map ((!) push_chars) (pg_last_random g))
      else None)"

text \<open>The top six bits of a SplitMix64 output, as a \<open>u8\<close>.\<close>

fun fresh_chars :: "nat \<Rightarrow> 64 word \<Rightarrow> nat list \<times> 64 word" where
  "fresh_chars 0 rng = ([], rng)"
| "fresh_chars (Suc n) rng =
     (case next_u64 rng of
        (v, rng) \<Rightarrow>
          (case fresh_chars n rng of
             (rs, rng) \<Rightarrow> (unat (drop_bit 58 v) mod 256 # rs, rng)))"

definition fresh_random :: "push_gen \<Rightarrow> push_gen" where
  "fresh_random g =
     (case fresh_chars (length (pg_last_random g)) (pg_rng g) of
        (rs, rng) \<Rightarrow> g\<lparr>pg_last_random := rs, pg_rng := rng\<rparr>)"

text \<open>The slots from the last to the first.\<close>

fun increment_slots :: "nat list \<Rightarrow> bool \<times> nat list" where
  "increment_slots [] = (False, [])"
| "increment_slots (x # xs) =
     (if x = 63 then (case increment_slots xs of (done_, ys) \<Rightarrow> (done_, 0 # ys))
      else (True, (x + 1) mod 256 # xs))"

definition increment_random :: "push_gen \<Rightarrow> bool \<times> push_gen" where
  "increment_random g =
     (case increment_slots (rev (pg_last_random g)) of
        (done_, xs) \<Rightarrow> (done_, g\<lparr>pg_last_random := rev xs\<rparr>))"

definition push_advance :: "nat \<Rightarrow> push_gen \<Rightarrow> push_gen" where
  "push_advance now_millis g =
     (if now_millis > pg_last_time g then fresh_random (g\<lparr>pg_last_time := now_millis\<rparr>)
      else case increment_random g of
        (True, g) \<Rightarrow> g
      | (False, g) \<Rightarrow> fresh_random (g\<lparr>pg_last_time := (pg_last_time g + 1) mod 2 ^ 64\<rparr>))"

definition push_next :: "nat \<Rightarrow> push_gen \<Rightarrow> string option \<times> push_gen" where
  "push_next now_millis g = (let g = push_advance now_millis g in (push_current g, g))"

text \<open>The ids of a sequence of calls.\<close>

fun push_ids :: "push_gen \<Rightarrow> nat list \<Rightarrow> string option list" where
  "push_ids g [] = []"
| "push_ids g (t # ts) = (case push_next t g of (r, g) \<Rightarrow> r # push_ids g ts)"

section \<open>Digits\<close>

definition value64 :: "nat list \<Rightarrow> nat" where
  "value64 ds = foldl (\<lambda>n d. n * 64 + d) 0 ds"

lemma foldl64: "foldl (\<lambda>n d. n * 64 + d) a ds = a * 64 ^ length ds + value64 ds"
  unfolding value64_def
proof (induction ds arbitrary: a)
  case (Cons d ds)
  show ?case using Cons [of "a * 64 + d"] Cons [of d] by (simp add: algebra_simps)
qed simp

lemma value64_simps [simp]:
  "value64 [] = 0"
  "value64 (d # ds) = d * 64 ^ length ds + value64 ds"
  "value64 (ds @ es) = value64 ds * 64 ^ length es + value64 es"
  using foldl64 [of d ds] foldl64 [of "value64 ds" es] by (simp_all add: value64_def)

lemma value64_bound: "list_all (\<lambda>d. d < 64) ds \<Longrightarrow> value64 ds < 64 ^ length ds"
proof (induction ds)
  case (Cons d ds)
  have "value64 (d # ds) < Suc d * 64 ^ length ds" using Cons by simp
  also have "\<dots> \<le> 64 * 64 ^ length ds" using Cons.prems by (intro mult_right_mono) auto
  finally show ?case by simp
qed simp

lemma length_stamp_digits [simp]: "length (stamp_digits n t) = n"
  by (induction n t rule: stamp_digits.induct) auto

lemma stamp_digits_bound: "list_all (\<lambda>d. d < 64) (stamp_digits n t)"
  by (induction n t rule: stamp_digits.induct) auto

lemma value64_stamp: "t < 64 ^ n \<Longrightarrow> value64 (stamp_digits n t) = t"
  by (induction n t rule: stamp_digits.induct) (auto simp: less_mult_imp_div_less)

lemma length_push_chars [simp]: "length push_chars = 64"
  by (simp add: push_chars_def)

lemma push_chars_ascending: "i < j \<Longrightarrow> j < 64 \<Longrightarrow> push_chars ! i < push_chars ! j"
proof -
  have "sorted_wrt (<) push_chars" by code_simp
  then show "i < j \<Longrightarrow> j < 64 \<Longrightarrow> push_chars ! i < push_chars ! j"
    by (rule sorted_wrt_nth_less) simp_all
qed

text \<open>On digit lists of one length the string order is the order of the numbers.\<close>

lemma push_string_order:
  assumes "length xs = length ys" "list_all (\<lambda>d. d < 64) xs" "list_all (\<lambda>d. d < 64) ys"
    "value64 xs < value64 ys"
  shows "map ((!) push_chars) xs < map ((!) push_chars) ys"
  using assms
proof (induction xs ys rule: list_induct2)
  case (Cons x xs y ys)
  have b: "value64 xs < 64 ^ length xs" "value64 ys < 64 ^ length xs"
    using Cons value64_bound [of xs] value64_bound [of ys] by auto
  have "\<not> y < x"
  proof
    assume "y < x"
    have "value64 (y # ys) < Suc y * 64 ^ length xs" using b Cons.hyps by simp
    also have "\<dots> \<le> x * 64 ^ length xs" using \<open>y < x\<close> by (intro mult_right_mono) auto
    also have "\<dots> \<le> value64 (x # xs)" by simp
    finally show False using Cons.prems(3) by simp
  qed
  then consider "x < y" | "x = y" by linarith
  then show ?case
  proof cases
    case 1
    then show ?thesis using Cons.prems(2) push_chars_ascending by simp
  next
    case 2
    then show ?thesis using Cons by simp
  qed
qed simp

section \<open>Ids increase\<close>

definition push_inv :: "push_gen \<Rightarrow> bool" where
  "push_inv g \<longleftrightarrow> length (pg_last_random g) = 12 \<and> list_all (\<lambda>r. r < 64) (pg_last_random g)"

definition push_level :: "push_gen \<Rightarrow> nat" where
  "push_level g = pg_last_time g * 64 ^ 12 + value64 (pg_last_random g)"

lemma push_inv_new: "push_inv (push_new seed)"
  by (simp add: push_inv_def push_new_def push_from_state_def list_all_length)

lemma drop_bit_58: "unat (drop_bit 58 (v :: 64 word)) < 64"
proof -
  have "unat v < 2 ^ 64" using unsigned_less [of v] by simp
  then have "drop_bit 58 (unat v) < 64" by (simp add: drop_bit_eq_div div_less_iff_less_mult)
  then show ?thesis by (simp only: unat_drop_bit_eq)
qed

lemma fresh_chars_ok:
  "length (fst (fresh_chars n rng)) = n \<and> list_all (\<lambda>r. r < 64) (fst (fresh_chars n rng))"
proof (induction n arbitrary: rng)
  case (Suc n)
  have "unat (drop_bit 58 v) mod 256 < 64" for v :: "64 word"
    using drop_bit_58 [of v] by simp
  then show ?case using Suc by (auto split: prod.split) (metis fst_conv)+
qed simp

lemma fresh_random_ok:
  "push_inv g \<Longrightarrow> push_inv (fresh_random g)"
  "pg_last_time (fresh_random g) = pg_last_time g"
  using fresh_chars_ok [of "length (pg_last_random g)" "pg_rng g"]
  by (auto simp: push_inv_def fresh_random_def split: prod.split)

lemma increment_slots_ok:
  "list_all (\<lambda>r. r < 64) xs \<Longrightarrow> increment_slots xs = (b, ys) \<Longrightarrow>
     length ys = length xs \<and> list_all (\<lambda>r. r < 64) ys \<and> (b \<longrightarrow> value64 (rev ys) = value64 (rev xs) + 1)"
  by (induction xs arbitrary: b ys) (auto split: if_splits prod.splits)

lemma increment_random_ok:
  assumes "push_inv g" "increment_random g = (b, g')"
  shows "push_inv g'" "pg_last_time g' = pg_last_time g" "b \<Longrightarrow> push_level g' = push_level g + 1"
proof -
  obtain ys where ys: "increment_slots (rev (pg_last_random g)) = (b, ys)" "g' = g\<lparr>pg_last_random := rev ys\<rparr>"
    using assms(2) by (auto simp: increment_random_def split: prod.splits)
  have "list_all (\<lambda>r. r < 64) (rev (pg_last_random g))" using assms(1) by (simp add: push_inv_def)
  from increment_slots_ok [OF this ys(1)] show "push_inv g'" "pg_last_time g' = pg_last_time g"
      "b \<Longrightarrow> push_level g' = push_level g + 1"
    using assms(1) by (auto simp: ys(2) push_inv_def push_level_def)
qed

lemma push_level_time:
  assumes "push_inv g" "pg_last_time g < pg_last_time h"
  shows "push_level g < push_level h"
proof -
  have "value64 (pg_last_random g) < 64 ^ 12"
    using assms(1) value64_bound [of "pg_last_random g"] by (simp add: push_inv_def)
  then have "push_level g < Suc (pg_last_time g) * 64 ^ 12" by (simp add: push_level_def)
  also have "\<dots> \<le> pg_last_time h * 64 ^ 12" using assms(2) by (intro mult_right_mono) auto
  also have "\<dots> \<le> push_level h" by (simp add: push_level_def)
  finally show ?thesis .
qed

lemma push_advance_ok:
  fixes now :: nat
  assumes inv: "push_inv g" and t: "pg_last_time g + 1 < 2 ^ 64"
  defines "h \<equiv> push_advance now g"
  shows "push_inv h \<and> push_level g < push_level h \<and> pg_last_time h \<le> max now (pg_last_time g + 1)"
proof (cases "now > pg_last_time g")
  case True
  let ?g = "g\<lparr>pg_last_time := now\<rparr>"
  have h: "h = fresh_random ?g" using True by (simp add: h_def push_advance_def)
  have "push_inv ?g" using inv by (simp add: push_inv_def)
  then show ?thesis using fresh_random_ok [of ?g] push_level_time [OF inv, of h] True h by simp
next
  case False
  obtain b g1 where g1: "increment_random g = (b, g1)" by (cases "increment_random g")
  note i = increment_random_ok [OF inv g1]
  show ?thesis
  proof (cases b)
    case True
    then have "h = g1" using False g1 by (simp add: h_def push_advance_def)
    then show ?thesis using i True by simp
  next
    case b: False
    let ?g = "g1\<lparr>pg_last_time := pg_last_time g + 1\<rparr>"
    have h: "h = fresh_random ?g" using False b g1 i(2) t by (simp add: h_def push_advance_def)
    have "push_inv ?g" using i(1) by (simp add: push_inv_def)
    then show ?thesis using fresh_random_ok [of ?g] push_level_time [OF inv, of h] h by simp
  qed
qed

lemma push_current_order:
  assumes "push_inv g" "push_inv h" "pg_last_time g < 64 ^ 8" "pg_last_time h < 64 ^ 8"
    "push_level g < push_level h"
  obtains a b where "push_current g = Some a" "push_current h = Some b" "a < b"
proof -
  let ?d = "\<lambda>g. stamp_digits 8 (pg_last_time g) @ pg_last_random g"
  have "value64 (?d x) = push_level x" if "push_inv x" "pg_last_time x < 64 ^ 8" for x
    using that by (simp add: push_level_def push_inv_def value64_stamp)
  then have "map ((!) push_chars) (?d g) < map ((!) push_chars) (?d h)"
    using assms stamp_digits_bound by (intro push_string_order) (auto simp: push_inv_def)
  then show thesis using assms(1,2) by (intro that) (auto simp: push_current_def push_inv_def)
qed

lemma push_current_length: "push_inv g \<Longrightarrow> \<exists>a. push_current g = Some a \<and> length a = 20"
  by (simp add: push_current_def push_inv_def)

text \<open>Every id of a run is above the id the generator stands at.\<close>

lemma push_ids_above:
  assumes "push_inv g" "pg_last_time g + length ts < 64 ^ 8" "\<forall>t\<in>set ts. t + length ts < 64 ^ 8"
    "push_current g = Some a"
  shows "\<exists>ids. push_ids g ts = map Some ids \<and> sorted_wrt (<) (a # ids) \<and> list_all (\<lambda>i. length i = 20) ids"
  using assms
proof (induction ts arbitrary: g a)
  case (Cons t ts)
  let ?h = "push_advance t g"
  have adv: "push_inv ?h" "push_level g < push_level ?h" "pg_last_time ?h \<le> max t (pg_last_time g + 1)"
    using push_advance_ok [OF Cons.prems(1), of t] Cons.prems(2) by auto
  then have time: "pg_last_time ?h + length ts < 64 ^ 8" using Cons.prems(2,3) by auto
  obtain b where b: "push_current ?h = Some b" "a < b"
    using push_current_order [OF Cons.prems(1) adv(1) _ _ adv(2)] Cons.prems(2,4) time by auto
  have "\<forall>u\<in>set ts. u + length ts < 64 ^ 8" using Cons.prems(3) by auto
  then obtain ids where ids: "push_ids ?h ts = map Some ids" "sorted_wrt (<) (b # ids)" "list_all (\<lambda>i. length i = 20) ids"
    using Cons.IH [OF adv(1) time _ b(1)] by blast
  have "length b = 20" using push_current_length [OF adv(1)] b(1) by simp
  then show ?case using ids b
    by (intro exI [of _ "b # ids"]) (auto simp: push_next_def Let_def)
qed simp

text \<open>C28: The push ids of any sequence of calls increase strictly in string order and have 20
  characters, also when the clock stands still or goes back and when a millisecond's random
  part is exhausted; no call panics. The times may be anything below \<open>64\<^sup>8\<close> milliseconds minus
  the number of calls (the year 10889), the range the 8 time characters can spell.\<close>

theorem push_ids_increase:
  assumes "\<forall>t\<in>set ts. t + length ts < 64 ^ 8" "length ts < 64 ^ 8"
  shows "\<exists>ids. push_ids (push_new seed) ts = map Some ids \<and> sorted_wrt (<) ids
           \<and> list_all (\<lambda>i. length i = 20) ids"
proof -
  have "pg_last_time (push_new seed) + length ts < 64 ^ 8"
    using assms(2) by (simp add: push_new_def push_from_state_def)
  then show ?thesis
    using push_ids_above [OF push_inv_new _ assms(1)] push_current_length [OF push_inv_new, of seed]
    by fastforce
qed

theorem push_ids_increase_witness:
  "\<exists>ids. push_ids (push_new 0) [5, 3, 5] = map Some ids \<and> sorted_wrt (<) ids \<and> length ids = 3"
proof -
  obtain ids where "push_ids (push_new 0) [5, 3, 5] = map Some ids" "sorted_wrt (<) ids"
    using push_ids_increase [of "[5, 3, 5]" 0] by auto
  moreover have "length (push_ids g [5, 3, 5]) = 3" for g by (simp split: prod.split)
  ultimately show ?thesis by (metis length_map)
qed

end
