(* ===== verification/Compare.thy ===== *)
theory Compare
  imports Prelude "HOL-Library.Multiset"
begin

text \<open>
  Comparison functions as the sources write them: \<open>std::cmp::Ordering\<close>, \<open>then_with\<close>,
  \<open>reverse\<close>, the stable \<open>sort_by\<close>, and the contract every comparison handed to \<open>sort_by\<close>
  has to meet (a total preorder).
\<close>

section \<open>Orderings\<close>

datatype ordering = Less | Equal | Greater

definition cmp :: "'a::linorder \<Rightarrow> 'a \<Rightarrow> ordering" where
  "cmp x y = (if x < y then Less else if x = y then Equal else Greater)"

fun then_with :: "ordering \<Rightarrow> ordering \<Rightarrow> ordering" where
  "then_with Equal o2 = o2"
| "then_with o1 _ = o1"

fun reverse_ordering :: "ordering \<Rightarrow> ordering" where
  "reverse_ordering Less = Greater"
| "reverse_ordering Equal = Equal"
| "reverse_ordering Greater = Less"

lemma cmp_simps [simp]:
  "cmp x y = Less \<longleftrightarrow> x < y"
  "cmp x y = Equal \<longleftrightarrow> x = y"
  "cmp x y = Greater \<longleftrightarrow> y < x"
  by (auto simp: cmp_def)

lemma cmp_flip: "cmp y x = reverse_ordering (cmp x y)"
  by (auto simp: cmp_def)

lemma then_with_iff [simp]:
  "then_with a b = Equal \<longleftrightarrow> a = Equal \<and> b = Equal"
  "then_with a b = Less \<longleftrightarrow> a = Less \<or> a = Equal \<and> b = Less"
  "then_with a b = Greater \<longleftrightarrow> a = Greater \<or> a = Equal \<and> b = Greater"
  by (cases a; simp)+

lemma reverse_ordering_iff [simp]:
  "reverse_ordering a = Equal \<longleftrightarrow> a = Equal"
  "reverse_ordering a = Less \<longleftrightarrow> a = Greater"
  "reverse_ordering a = Greater \<longleftrightarrow> a = Less"
  "reverse_ordering (reverse_ordering a) = a"
  by (cases a; simp)+

lemma reverse_then_with:
  "reverse_ordering (then_with a b) = then_with (reverse_ordering a) (reverse_ordering b)"
  by (cases a) auto

section \<open>Sorting\<close>

text \<open>\<open>slice::sort_by\<close> is stable: an element never moves before an equal one.\<close>

fun insert_by :: "('a \<Rightarrow> 'a \<Rightarrow> ordering) \<Rightarrow> 'a \<Rightarrow> 'a list \<Rightarrow> 'a list" where
  "insert_by c x [] = [x]"
| "insert_by c x (y # ys) = (if c x y = Greater then y # insert_by c x ys else x # y # ys)"

definition sort_by :: "('a \<Rightarrow> 'a \<Rightarrow> ordering) \<Rightarrow> 'a list \<Rightarrow> 'a list" where
  "sort_by c xs = foldr (insert_by c) xs []"

lemma mset_insert_by [simp]: "mset (insert_by c x xs) = add_mset x (mset xs)"
  by (induction xs) auto

lemma mset_sort_by [simp]: "mset (sort_by c xs) = mset xs"
  by (induction xs) (simp_all add: sort_by_def)

lemma set_sort_by [simp]: "set (sort_by c xs) = set xs"
  by (metis mset_sort_by set_mset_mset)

lemma length_sort_by [simp]: "length (sort_by c xs) = length xs"
  by (metis mset_sort_by size_mset)

lemma set_insert_by [simp]: "set (insert_by c x xs) = insert x (set xs)"
  by (induction xs) auto

section \<open>The contract of a comparison\<close>

locale comparison =
  fixes c :: "'a \<Rightarrow> 'a \<Rightarrow> ordering"
  assumes flip: "c y x = reverse_ordering (c x y)"
    and trans_le: "c x y \<noteq> Greater \<Longrightarrow> c y z \<noteq> Greater \<Longrightarrow> c x z \<noteq> Greater"
begin

lemma self: "c x x = Equal"
  using flip [of x x] by (cases "c x x") auto

lemma total: "c x y \<noteq> Greater \<or> c y x \<noteq> Greater"
  using flip [of x y] by (cases "c x y") auto

lemma Greater_iff: "c x y = Greater \<longleftrightarrow> c y x = Less"
  using flip [of x y] by simp

lemma Equal_sym: "c x y = Equal \<longleftrightarrow> c y x = Equal"
  using flip [of x y] by simp

lemma trans_less: "c x y = Less \<Longrightarrow> c y z \<noteq> Greater \<Longrightarrow> c x z = Less"
  using trans_le [of y z x] by (auto simp: Greater_iff)

lemma trans_less': "c x y \<noteq> Greater \<Longrightarrow> c y z = Less \<Longrightarrow> c x z = Less"
  using trans_le [of z x y] by (auto simp: Greater_iff)

lemma Equal_iff: "c x y = Equal \<longleftrightarrow> c x y \<noteq> Greater \<and> c y x \<noteq> Greater"
  using flip [of x y] by (cases "c x y"; cases "c y x") simp_all

lemma Equal_trans: "c x y = Equal \<Longrightarrow> c y z = Equal \<Longrightarrow> c x z = Equal"
  unfolding Equal_iff using trans_le by blast

lemma sorted_insert_by:
  "sorted_wrt (\<lambda>a b. c a b \<noteq> Greater) xs \<Longrightarrow> sorted_wrt (\<lambda>a b. c a b \<noteq> Greater) (insert_by c x xs)"
proof (induction xs)
  case (Cons y ys)
  have "c x z \<noteq> Greater" if "c x y \<noteq> Greater" "z \<in> set ys" for z
    using Cons.prems that trans_le by auto
  moreover have "c y x \<noteq> Greater" if "c x y = Greater" using that Greater_iff [of x y] by simp
  ultimately show ?case using Cons by auto
qed simp

lemma sorted_sort_by: "sorted_wrt (\<lambda>a b. c a b \<noteq> Greater) (sort_by c xs)"
  by (induction xs) (simp_all add: sort_by_def sorted_insert_by)

lemma strictly_sorted_sort_by:
  assumes "distinct xs" "\<And>a b. a \<in> set xs \<Longrightarrow> b \<in> set xs \<Longrightarrow> c a b = Equal \<Longrightarrow> a = b"
  shows "sorted_wrt (\<lambda>a b. c a b = Less) (sort_by c xs)"
proof -
  have d: "distinct (sort_by c xs)" using assms(1) by (metis mset_sort_by mset_eq_imp_distinct_iff)
  have "c (sort_by c xs ! i) (sort_by c xs ! j) = Less" if "i < j" "j < length (sort_by c xs)" for i j
  proof -
    have "c (sort_by c xs ! i) (sort_by c xs ! j) \<noteq> Greater"
      using sorted_wrt_nth_less [OF sorted_sort_by that] .
    moreover have "c (sort_by c xs ! i) (sort_by c xs ! j) \<noteq> Equal"
      using that d assms(2) [of "sort_by c xs ! i" "sort_by c xs ! j"] nth_mem [of _ "sort_by c xs"]
      by (auto simp: nth_eq_iff_index_eq)
    ultimately show ?thesis by (cases "c (sort_by c xs ! i) (sort_by c xs ! j)") auto
  qed
  then show ?thesis by (simp add: sorted_wrt_iff_nth_less)
qed

end

lemma comparison_cmp: "comparison cmp"
  by unfold_locales (rule cmp_flip, auto)

lemma comparison_on: "comparison c \<Longrightarrow> comparison (\<lambda>x y. c (f x) (f y))"
  unfolding comparison_def by blast

lemma comparison_then:
  assumes c: "comparison c" and d: "comparison d"
  shows "comparison (\<lambda>x y. then_with (c x y) (d x y))"
proof unfold_locales
  fix x y
  show "then_with (c y x) (d y x) = reverse_ordering (then_with (c x y) (d x y))"
    using comparison.flip [OF c, where x = x and y = y] comparison.flip [OF d, where x = x and y = y]
    by (simp add: reverse_then_with)
next
  fix x y z
  assume xy: "then_with (c x y) (d x y) \<noteq> Greater" and yz: "then_with (c y z) (d y z) \<noteq> Greater"
  consider "c x y = Less" "c y z \<noteq> Greater" | "c x y \<noteq> Greater" "c y z = Less"
    | "c x y = Equal" "c y z = Equal" "d x y \<noteq> Greater" "d y z \<noteq> Greater"
    using xy yz by (cases "c x y"; cases "c y z") auto
  then show "then_with (c x z) (d x z) \<noteq> Greater"
  proof cases
    case 1 then show ?thesis using comparison.trans_less [OF c] by simp
  next
    case 2 then show ?thesis using comparison.trans_less' [OF c] by simp
  next
    case 3 then show ?thesis
      using comparison.Equal_trans [OF c, of x y z] comparison.trans_le [OF d, of x y z] by simp
  qed
qed

text \<open>\<open>Iterator::cmp\<close> on sequences, lexicographic, is \<^const>\<open>cmp\<close> on lists.\<close>

interpretation ord_cmp: comparison "cmp :: 'a::linorder \<Rightarrow> 'a \<Rightarrow> ordering"
  by (rule comparison_cmp)

end
