(* ===== verification/Utf.thy ===== *)
theory Utf
  imports Compare
begin

text \<open>
  The two encodings of a Rust \<open>str\<close> the sources look through: \<open>chars\<close> decodes the UTF-8
  bytes into Unicode scalar values, and \<open>encode_utf16\<close> gives the code units that JavaScript
  and Java strings compare by. A \<open>str\<close> always holds well-formed UTF-8; \<open>utf8_ok\<close> says so.
\<close>

section \<open>UTF-8\<close>

definition is_scalar :: "nat \<Rightarrow> bool" where
  "is_scalar c \<longleftrightarrow> c < 55296 \<or> 57344 \<le> c \<and> c < 1114112"

definition byte :: "nat \<Rightarrow> char" where
  "byte n = char_of n"

definition utf8_char :: "nat \<Rightarrow> string" where
  "utf8_char c =
     (if c < 128 then [byte c]
      else if c < 2048 then [byte (192 + c div 64), byte (128 + c mod 64)]
      else if c < 65536 then
        [byte (224 + c div 4096), byte (128 + c div 64 mod 64), byte (128 + c mod 64)]
      else
        [byte (240 + c div 262144), byte (128 + c div 4096 mod 64),
         byte (128 + c div 64 mod 64), byte (128 + c mod 64)])"

definition utf8_encode :: "nat list \<Rightarrow> string" where
  "utf8_encode cs = concat (map utf8_char cs)"

definition cont :: "char \<Rightarrow> nat" where
  "cont b = of_char b mod 64"

fun str_chars :: "string \<Rightarrow> nat list" where
  "str_chars [] = []"
| "str_chars (a # bs) =
     (let n = of_char a
      in if n < 128 then n # str_chars bs
         else if n < 224 then
           (case bs of
              b # r \<Rightarrow> (n mod 32 * 64 + cont b) # str_chars r
            | _ \<Rightarrow> [])
         else if n < 240 then
           (case bs of
              b # c # r \<Rightarrow> (n mod 16 * 4096 + cont b * 64 + cont c) # str_chars r
            | _ \<Rightarrow> [])
         else
           (case bs of
              b # c # d # r \<Rightarrow>
                (n mod 8 * 262144 + cont b * 4096 + cont c * 64 + cont d) # str_chars r
            | _ \<Rightarrow> []))"

declare str_chars.simps(2) [simp del]

text \<open>A \<open>str\<close>: the bytes are the encoding of the scalar values they decode to.\<close>

definition utf8_ok :: "string \<Rightarrow> bool" where
  "utf8_ok s \<longleftrightarrow> list_all is_scalar (str_chars s) \<and> utf8_encode (str_chars s) = s"

lemma of_char_byte: "n < 256 \<Longrightarrow> of_char (byte n) = n"
  by (simp add: byte_def)

lemma of_char_bound: "(of_char b :: nat) < 256"
  by simp

lemma is_scalar_bound: "is_scalar c \<Longrightarrow> c < 1114112"
  by (auto simp: is_scalar_def)

lemma utf8_encode_simps [simp]:
  "utf8_encode [] = []"
  "utf8_encode (c # cs) = utf8_char c @ utf8_encode cs"
  "utf8_encode (cs @ ds) = utf8_encode cs @ utf8_encode ds"
  by (simp_all add: utf8_encode_def)

lemma cont_byte: "m < 64 \<Longrightarrow> cont (byte (128 + m)) = m"
proof -
  assume m: "m < 64"
  then have "of_char (byte (128 + m)) = 128 + m" by (intro of_char_byte) simp
  then show "cont (byte (128 + m)) = m" using m by (simp add: cont_def mod_add_eq [symmetric])
qed

lemma digits64:
  fixes c :: nat
  shows "c div 64 * 64 + c mod 64 = c"
    and "c div 4096 * 64 + c div 64 mod 64 = c div 64"
    and "c div 262144 * 64 + c div 4096 mod 64 = c div 4096"
  using div_mult_mod_eq [of "c div 64" 64] div_mult_mod_eq [of "c div 4096" 64]
  by (simp_all add: div_mult2_eq [symmetric])

lemma str_chars_utf8_char:
  assumes "is_scalar c"
  shows "str_chars (utf8_char c @ s) = c # str_chars s"
proof -
  have c: "c < 1114112" using assms by (rule is_scalar_bound)
  consider "c < 128" | "128 \<le> c" "c < 2048" | "2048 \<le> c" "c < 65536" | "65536 \<le> c" by linarith
  then show ?thesis
  proof cases
    case 1
    then show ?thesis by (simp add: utf8_char_def str_chars.simps(2) of_char_byte)
  next
    case 2
    then have q: "c div 64 < 32" by (simp add: div_less_iff_less_mult)
    then have "of_char (byte (192 + c div 64)) = 192 + c div 64" by (intro of_char_byte) simp
    then show ?thesis using 2 q
      by (simp add: utf8_char_def str_chars.simps(2) cont_byte Let_def mod_add_eq [symmetric])
  next
    case 3
    then have q: "c div 4096 < 16" by (simp add: div_less_iff_less_mult)
    then have "of_char (byte (224 + c div 4096)) = 224 + c div 4096" by (intro of_char_byte) simp
    moreover have "c div 4096 * 4096 + c div 64 mod 64 * 64 + c mod 64 = c"
      using digits64 [of c] by linarith
    ultimately show ?thesis using 3 q
      by (simp add: utf8_char_def str_chars.simps(2) cont_byte Let_def mod_add_eq [symmetric])
  next
    case 4
    then have q: "c div 262144 < 8" using c by (simp add: div_less_iff_less_mult)
    then have "of_char (byte (240 + c div 262144)) = 240 + c div 262144" by (intro of_char_byte) simp
    moreover have "c div 262144 * 262144 + c div 4096 mod 64 * 4096 + c div 64 mod 64 * 64 + c mod 64 = c"
      using digits64 [of c] by linarith
    ultimately show ?thesis using 4 q
      by (simp add: utf8_char_def str_chars.simps(2) cont_byte Let_def mod_add_eq [symmetric])
  qed
qed

lemma str_chars_encode: "list_all is_scalar cs \<Longrightarrow> str_chars (utf8_encode cs) = cs"
  by (induction cs) (simp_all add: str_chars_utf8_char)

lemma utf8_ok_encode: "list_all is_scalar cs \<Longrightarrow> utf8_ok (utf8_encode cs)"
  by (simp add: utf8_ok_def str_chars_encode)

lemma utf8_ok_inj: "utf8_ok s \<Longrightarrow> utf8_ok t \<Longrightarrow> str_chars s = str_chars t \<Longrightarrow> s = t"
  by (metis utf8_ok_def)

text \<open>Ascii text is its own decoding.\<close>

definition ascii :: "string \<Rightarrow> bool" where
  "ascii s \<longleftrightarrow> list_all (\<lambda>b. of_char b < (128::nat)) s"

lemma str_chars_ascii: "ascii s \<Longrightarrow> str_chars s = map of_char s"
  by (induction s) (simp_all add: ascii_def str_chars.simps(2))

lemma utf8_ok_ascii: "ascii s \<Longrightarrow> utf8_ok s"
  by (induction s)
    (auto simp: utf8_ok_def ascii_def str_chars.simps(2) is_scalar_def utf8_char_def byte_def)

section \<open>UTF-16\<close>

definition utf16_char :: "nat \<Rightarrow> nat list" where
  "utf16_char c =
     (if c < 65536 then [c]
      else [55296 + (c - 65536) div 1024, 56320 + (c - 65536) mod 1024])"

definition encode_utf16 :: "string \<Rightarrow> nat list" where
  "encode_utf16 s = concat (map utf16_char (str_chars s))"

fun utf16_decode :: "nat list \<Rightarrow> nat list" where
  "utf16_decode [] = []"
| "utf16_decode [u] = [u]"
| "utf16_decode (u # v # us) =
     (if 55296 \<le> u \<and> u < 56320 then (65536 + (u - 55296) * 1024 + (v - 56320)) # utf16_decode us
      else u # utf16_decode (v # us))"

lemma utf16_decode_char:
  assumes "is_scalar c"
  shows "utf16_decode (utf16_char c @ us) = c # utf16_decode us"
proof (cases "c < 65536")
  case True
  then have "\<not> (55296 \<le> c \<and> c < 56320)" using assms by (auto simp: is_scalar_def)
  then show ?thesis using True by (cases us) (auto simp: utf16_char_def)
next
  case False
  then have "(c - 65536) div 1024 < 1024"
    using is_scalar_bound [OF assms] by (simp add: div_less_iff_less_mult)
  moreover have "65536 + (c - 65536) div 1024 * 1024 + (c - 65536) mod 1024 = c"
    using False div_mult_mod_eq [of "c - 65536" 1024] by linarith
  ultimately show ?thesis using False by (simp add: utf16_char_def)
qed

lemma utf16_decode_encode:
  "list_all is_scalar cs \<Longrightarrow> utf16_decode (concat (map utf16_char cs)) = cs"
  by (induction cs) (simp_all add: utf16_decode_char)

lemma encode_utf16_inj:
  "utf8_ok s \<Longrightarrow> utf8_ok t \<Longrightarrow> encode_utf16 s = encode_utf16 t \<Longrightarrow> s = t"
  by (metis utf8_ok_inj encode_utf16_def utf16_decode_encode utf8_ok_def)

end
