(* ===== verification/Db_Key.thy ===== *)
theory Db_Key
  imports Utf BTree
begin

text \<open>
  Keys and paths of the Realtime Database (crates/fireemu-core-database/src/key.rs, path.rs,
  error.rs, limits.rs): validation, the order of keys, and parsing and printing of paths. An
  error is its stable kind; the source's message beside it is provisional text.
\<close>

section \<open>Errors and limits\<close>

datatype error_kind =
    InvalidKey | InvalidPath | PathTooLong | PathTooDeep | StringTooLong | InvalidData
  | InvalidPriority | InvalidServerValue | OverlappingUpdate | PriorityOnAbsentNode
  | ReadOnlyPath | InvalidQuery

record db_limits =
  max_depth :: nat
  max_path_bytes :: nat
  max_string_bytes :: nat

definition limits_production :: db_limits where
  "limits_production = \<lparr>max_depth = 32, max_path_bytes = 768, max_string_bytes = 10 * 1024 * 1024\<rparr>"

section \<open>Keys\<close>

definition is_forbidden :: "nat \<Rightarrow> bool" where
  "is_forbidden c \<longleftrightarrow> c \<in> {46, 36, 35, 91, 93, 47} \<or> c \<le> 31 \<or> c = 127"

definition validate_key :: "string \<Rightarrow> (error_kind, unit) result" where
  "validate_key key =
     (if key = [] then Err InvalidKey
      else case find is_forbidden (str_chars key) of
        Some bad \<Rightarrow> Err InvalidKey
      | None \<Rightarrow> Ok ())"

definition is_digit :: "char \<Rightarrow> bool" where
  "is_digit b \<longleftrightarrow> 48 \<le> (of_char b :: nat) \<and> (of_char b :: nat) \<le> 57"

definition dec_value :: "string \<Rightarrow> nat" where
  "dec_value s = foldl (\<lambda>n b. n * 10 + (of_char b - 48)) 0 s"

text \<open>\<open>to_string\<close> and \<open>parse\<close> of a \<open>usize\<close>.\<close>

fun dec_string :: "nat \<Rightarrow> string" where
  "dec_string n =
     (if n < 10 then [char_of (48 + n)] else dec_string (n div 10) @ [char_of (48 + n mod 10)])"

declare dec_string.simps [simp del]

definition parse_usize :: "string \<Rightarrow> nat option" where
  "parse_usize s =
     (let digits = (if s \<noteq> [] \<and> hd s = CHR ''+'' then tl s else s)
      in if digits \<noteq> [] \<and> list_all is_digit digits \<and> dec_value digits < 2 ^ 64
         then Some (dec_value digits) else None)"

definition key_as_int :: "string \<Rightarrow> int option" where
  "key_as_int key =
     (let negative = (key \<noteq> [] \<and> hd key = CHR ''-'');
          digits = (if negative then tl key else key)
      in if digits = [] \<or> \<not> list_all is_digit digits then None
         else let significant = dropWhile (\<lambda>b. b = CHR ''0'') digits
              in if length significant > 10 then None
                 else case checked_i 64 (if negative then - int (dec_value digits) else int (dec_value digits)) of
                        None \<Rightarrow> None
                      | Some v \<Rightarrow> checked_i 32 v)"

definition utf16_cmp :: "string \<Rightarrow> string \<Rightarrow> ordering" where
  "utf16_cmp a b = cmp (encode_utf16 a) (encode_utf16 b)"

definition name_compare :: "string \<Rightarrow> string \<Rightarrow> ordering" where
  "name_compare a b =
     (if a = b then Equal
      else case (key_as_int a, key_as_int b) of
        (Some x, Some y) \<Rightarrow>
          then_with (then_with (cmp x y) (cmp (length a) (length b))) (utf16_cmp a b)
      | (Some _, None) \<Rightarrow> Less
      | (None, Some _) \<Rightarrow> Greater
      | (None, None) \<Rightarrow> utf16_cmp a b)"

section \<open>The key order is total\<close>

text \<open>Integer keys first, by number and length.\<close>

definition key_rank :: "string \<Rightarrow> nat \<times> int \<times> nat" where
  "key_rank k = (case key_as_int k of Some x \<Rightarrow> (0, x, length k) | None \<Rightarrow> (1, 0, 0))"

lemma name_compare_rank:
  "name_compare a b = then_with (cmp (key_rank a) (key_rank b)) (utf16_cmp a b)"
  by (auto simp: name_compare_def key_rank_def utf16_cmp_def cmp_def less_prod_def' split: option.split)

lemma comparison_utf16: "comparison utf16_cmp"
  unfolding utf16_cmp_def by (rule comparison_on [OF comparison_cmp])

lemma comparison_name: "comparison name_compare"
proof -
  have "comparison (\<lambda>a b. then_with (cmp (key_rank a) (key_rank b)) (utf16_cmp a b))"
    by (intro comparison_then comparison_utf16 comparison_on [OF comparison_cmp])
  then show ?thesis unfolding name_compare_rank [abs_def, symmetric] by (simp add: name_compare_rank [abs_def])
qed

interpretation names: comparison name_compare
  by (rule comparison_name)

lemma utf16_cmp_Equal: "utf8_ok a \<Longrightarrow> utf8_ok b \<Longrightarrow> utf16_cmp a b = Equal \<longleftrightarrow> a = b"
  by (auto simp: utf16_cmp_def intro: encode_utf16_inj)

lemma name_compare_Equal: "utf8_ok a \<Longrightarrow> utf8_ok b \<Longrightarrow> name_compare a b = Equal \<longleftrightarrow> a = b"
  using utf16_cmp_Equal [of a b] by (auto simp: name_compare_rank)

section \<open>Paths\<close>

type_synonym path = "string list"

definition priority_key :: string where
  "priority_key = ''.priority''"

definition info_key :: string where
  "info_key = ''.info''"

definition is_root :: "path \<Rightarrow> bool" where
  "is_root p \<longleftrightarrow> p = []"

definition path_last :: "path \<Rightarrow> string option" where
  "path_last p = (if p = [] then None else Some (last p))"

definition path_parent :: "path \<Rightarrow> path option" where
  "path_parent p = (if p = [] then None else Some (butlast p))"

definition path_child :: "path \<Rightarrow> string \<Rightarrow> path" where
  "path_child p key = p @ [key]"

definition path_join :: "path \<Rightarrow> path \<Rightarrow> path" where
  "path_join p relative = p @ relative"

definition path_contains :: "path \<Rightarrow> path \<Rightarrow> bool" where
  "path_contains p other \<longleftrightarrow> take (length p) other = p"

definition is_priority :: "path \<Rightarrow> bool" where
  "is_priority p \<longleftrightarrow> path_last p = Some priority_key"

definition is_info :: "path \<Rightarrow> bool" where
  "is_info p \<longleftrightarrow> p \<noteq> [] \<and> hd p = info_key"

definition path_byte_len :: "path \<Rightarrow> nat" where
  "path_byte_len p = sum_list (map length p) + (length p - 1)"

definition path_display :: "path \<Rightarrow> string" where
  "path_display p = (if p = [] then ''/'' else concat (map (\<lambda>key. CHR ''/'' # key) p))"

definition check_path_bytes :: "nat \<Rightarrow> db_limits \<Rightarrow> (error_kind, unit) result" where
  "check_path_bytes bytes limits = (if bytes > max_path_bytes limits then Err PathTooLong else Ok ())"

text \<open>\<open>str::split\<close> at one byte.\<close>

fun split_at :: "char \<Rightarrow> string \<Rightarrow> string list" where
  "split_at c [] = [[]]"
| "split_at c (b # bs) =
     (if b = c then [] # split_at c bs
      else case split_at c bs of [] \<Rightarrow> [[b]] | s # ss \<Rightarrow> (b # s) # ss)"

fun check_segments :: "nat \<Rightarrow> nat \<Rightarrow> string list \<Rightarrow> (error_kind, unit) result" where
  "check_segments index last_index [] = Ok ()"
| "check_segments index last_index (key # keys) =
     (if (index = 0 \<and> key = info_key) \<or> (index = last_index \<and> key = priority_key)
      then check_segments (index + 1) last_index keys
      else if key = info_key \<or> key = priority_key then Err InvalidPath
      else and_then (validate_key key) (\<lambda>_. check_segments (index + 1) last_index keys))"

definition path_parse :: "string \<Rightarrow> db_limits \<Rightarrow> (error_kind, path) result" where
  "path_parse s limits =
     (let keys = filter (\<lambda>segment. segment \<noteq> []) (split_at (CHR ''/'') s)
      in and_then (check_segments 0 (length keys - 1) keys)
           (\<lambda>_. and_then (check_path_bytes (path_byte_len keys) limits) (\<lambda>_. Ok keys)))"

section \<open>Parsing and printing\<close>

lemma split_at_not_Nil [simp]: "split_at c s \<noteq> []"
  by (induction s) (auto split: list.split)

lemma split_at_no_sep: "c \<notin> set s \<Longrightarrow> split_at c s = [s]"
  by (induction s) auto

lemma split_at_append: "c \<notin> set s \<Longrightarrow> split_at c (s @ c # t) = s # split_at c t"
  by (induction s) auto

lemma split_at_segments: "x \<in> set (split_at c s) \<Longrightarrow> c \<notin> set x"
proof (induction s arbitrary: x)
  case (Cons b s)
  then show ?case by (cases "split_at c s") (auto split: if_splits)
qed simp

lemma split_at_concat:
  "\<forall>k\<in>set p. c \<notin> set k \<Longrightarrow> split_at c (concat (map (\<lambda>key. c # key) p)) = [] # p"
proof (induction p)
  case (Cons k p)
  show ?case
  proof (cases p)
    case Nil
    then show ?thesis using Cons.prems by (simp add: split_at_no_sep)
  next
    case (Cons j q)
    have "split_at c (k @ c # (j @ concat (map (\<lambda>key. c # key) q))) = k # split_at c (j @ concat (map (\<lambda>key. c # key) q))"
      using Cons.prems by (intro split_at_append) simp
    then show ?thesis using Cons.IH Cons.prems Cons by simp
  qed
qed simp

lemma filter_split_display:
  assumes "\<forall>k\<in>set p. k \<noteq> [] \<and> CHR ''/'' \<notin> set k"
  shows "filter (\<lambda>segment. segment \<noteq> []) (split_at (CHR ''/'') (path_display p)) = p"
proof (cases "p = []")
  case False
  have "filter (\<lambda>segment. segment \<noteq> []) p = p" using assms by (simp add: filter_id_conv)
  then show ?thesis using False assms split_at_concat [of p "CHR ''/''"]
    by (simp add: path_display_def)
qed (simp add: path_display_def)

text \<open>Parsing normalises: printing the parsed path and parsing it again gives the path.\<close>

lemma path_parse_segments:
  assumes "path_parse s limits = Ok p"
  shows "k \<in> set p \<Longrightarrow> k \<noteq> [] \<and> CHR ''/'' \<notin> set k"
    and "check_segments 0 (length p - 1) p = Ok ()" and "path_byte_len p \<le> max_path_bytes limits"
  using assms split_at_segments [of k "CHR ''/''" s]
  by (auto simp: path_parse_def Let_def and_then_eq_Inr check_path_bytes_def split: if_splits)

lemma path_parse_display:
  assumes "path_parse s limits = Ok p"
  shows "path_parse (path_display p) limits = Ok p"
proof -
  have "filter (\<lambda>segment. segment \<noteq> []) (split_at (CHR ''/'') (path_display p)) = p"
    using path_parse_segments(1) [OF assms] by (intro filter_split_display) blast
  then show ?thesis
    using path_parse_segments(2,3) [OF assms] by (simp add: path_parse_def check_path_bytes_def)
qed

lemma path_contains_iff: "path_contains p q \<longleftrightarrow> (\<exists>r. q = p @ r)"
  by (auto simp: path_contains_def) (metis append_take_drop_id)

text \<open>The keys an accepted path is made of.\<close>

lemma check_segments_key:
  "check_segments i n ks = Ok u \<Longrightarrow> k \<in> set ks \<Longrightarrow>
     validate_key k = Ok () \<or> k = info_key \<or> k = priority_key"
  by (induction i n ks rule: check_segments.induct) (auto simp: and_then_eq_Inr split: if_splits)

lemma validate_key_iff:
  "validate_key k = Ok u \<longleftrightarrow> k \<noteq> [] \<and> list_all (\<lambda>c. \<not> is_forbidden c) (str_chars k)"
  by (auto simp: validate_key_def find_None_iff list_all_iff split: option.split)
    (metis find_None_iff option.distinct(1))

section \<open>Index keys\<close>

lemma dec_value_append [simp]: "dec_value (s @ [b]) = dec_value s * 10 + (of_char b - 48)"
  by (simp add: dec_value_def)

lemma dec_value_Nil [simp]: "dec_value [] = 0"
  by (simp add: dec_value_def)

lemma dec_digit_char: "n < 10 \<Longrightarrow> of_char (char_of (48 + n) :: char) = 48 + (n::nat)"
  by simp

lemma dec_value_dec_string [simp]: "dec_value (dec_string n) = n"
proof (induction n rule: dec_string.induct)
  case (1 n)
  then show ?case
    using dec_digit_char [of n] dec_digit_char [of "n mod 10"] dec_value_append [of "[]"]
    by (subst dec_string.simps) (simp del: dec_value_append add: dec_value_append [of "dec_string (n div 10)"])
qed

lemma dec_string_digits: "list_all is_digit (dec_string n)"
proof (induction n rule: dec_string.induct)
  case (1 n)
  have "is_digit (char_of (48 + m))" if "m < 10" for m :: nat
    using that by (simp add: is_digit_def)
  then show ?case using 1 by (subst dec_string.simps) simp
qed

lemma dec_string_not_Nil [simp]: "dec_string n \<noteq> []"
  by (subst dec_string.simps) simp

lemma dec_string_hd: "0 < n \<Longrightarrow> hd (dec_string n) \<noteq> CHR ''0''"
proof (induction n rule: dec_string.induct)
  case (1 n)
  show ?case
  proof (cases "n < 10")
    case True
    then have "of_char (char_of (48 + n) :: char) \<noteq> (of_char CHR ''0'' :: nat)"
      using 1 dec_digit_char [OF True] by simp
    then have "char_of (48 + n) \<noteq> CHR ''0''" by metis
    then show ?thesis using True by (subst dec_string.simps) simp
  next
    case False
    then show ?thesis using 1 by (subst dec_string.simps) simp
  qed
qed

lemma dec_string_length_mono: "i \<le> j \<Longrightarrow> length (dec_string i) \<le> length (dec_string j)"
proof (induction j arbitrary: i rule: dec_string.induct)
  case (1 j)
  then show ?case
    using div_le_mono [of i j 10]
    by (subst dec_string.simps [of i], subst dec_string.simps [of j]) (auto simp: Suc_le_eq less_Suc_eq_le)
qed

lemma of_char_digit: "is_digit b \<Longrightarrow> b = char_of (48 + (of_char b - 48 :: nat))"
  by (simp add: is_digit_def)

lemma dec_string_dec_value:
  assumes "list_all is_digit k" "k \<noteq> []" "hd k \<noteq> CHR ''0'' \<or> length k = 1"
  shows "dec_string (dec_value k) = k"
  using assms
proof (induction k rule: rev_induct)
  case (snoc b k)
  let ?d = "of_char b - 48 :: nat"
  have b: "?d < 10" "b = char_of (48 + ?d)"
    using snoc.prems(1) by (auto simp: is_digit_def)
  show ?case
  proof (cases "k = []")
    case True
    then show ?thesis using b by (simp add: dec_value_def dec_string.simps)
  next
    case False
    have k: "dec_string (dec_value k) = k"
      using snoc False by (intro snoc.IH) auto
    have "dec_value k \<noteq> 0"
    proof
      assume "dec_value k = 0"
      moreover have "char_of (48::nat) = CHR ''0''" by code_simp
      ultimately have "k = ''0''" using k by (simp add: dec_string.simps)
      then show False using snoc.prems(3) by simp
    qed
    then have "\<not> dec_value k * 10 + ?d < 10" by simp
    then show ?thesis using k b
      by (simp add: dec_string.simps [of "dec_value k * 10 + ?d"])
  qed
qed simp

lemma digits_ascii: "list_all is_digit k \<Longrightarrow> ascii k"
  by (auto simp: ascii_def is_digit_def list_all_iff)

lemma validate_digits: "list_all is_digit k \<Longrightarrow> k \<noteq> [] \<Longrightarrow> validate_key k = Ok ()"
  unfolding validate_key_iff str_chars_ascii [OF digits_ascii]
  by (auto simp: is_forbidden_def is_digit_def list_all_iff)

lemma special_keys_invalid:
  "validate_key priority_key = Err InvalidKey" "validate_key ''.value'' = Err InvalidKey"
  "validate_key ''.sv'' = Err InvalidKey" "validate_key info_key = Err InvalidKey"
  by code_simp+

end
