(* ===== verification/Float64.thy ===== *)
theory Float64
  imports Compare
begin

text \<open>
  The IEEE 754 binary64 operations the Realtime Database core uses on \<open>f64\<close>: conversion from
  \<open>i64\<close>, addition, truncation, comparison, the cast back to \<open>i64\<close>. A finite double is its
  sign, significand and exponent; every finite double is a whole number of units \<open>2\<^sup>-\<^sup>1\<^sup>0\<^sup>7\<^sup>4\<close>,
  and \<open>f64_units\<close> counts them, so comparisons are comparisons of integers.
\<close>

section \<open>Doubles\<close>

datatype f64 = Fin bool nat int | Infinite bool | NaN

text \<open>The representations that occur: normal numbers, subnormal numbers and zeros.\<close>

fun f64_ok :: "f64 \<Rightarrow> bool" where
  "f64_ok (Fin s m e) \<longleftrightarrow> m < 2 ^ 53 \<and> -1074 \<le> e \<and> e \<le> 971 \<and> (2 ^ 52 \<le> m \<or> e = -1074)"
| "f64_ok (Infinite s) \<longleftrightarrow> True"
| "f64_ok NaN \<longleftrightarrow> True"

fun f64_is_finite :: "f64 \<Rightarrow> bool" where
  "f64_is_finite (Fin _ _ _) = True"
| "f64_is_finite _ = False"

definition with_sign :: "bool \<Rightarrow> nat \<Rightarrow> int" where
  "with_sign s m = (if s then - int m else int m)"

fun f64_units :: "f64 \<Rightarrow> int" where
  "f64_units (Fin s m e) = with_sign s m * 2 ^ nat (e + 1074)"
| "f64_units _ = 0"

fun f64_sign :: "f64 \<Rightarrow> bool" where
  "f64_sign (Fin s _ _) = s"
| "f64_sign (Infinite s) = s"
| "f64_sign NaN = False"

text \<open>The 63 magnitude bits and \<open>to_bits\<close>.\<close>

fun f64_magnitude :: "f64 \<Rightarrow> nat" where
  "f64_magnitude (Fin _ m e) = (if m < 2 ^ 52 then m else nat (e + 1075) * 2 ^ 52 + (m - 2 ^ 52))"
| "f64_magnitude (Infinite _) = 2047 * 2 ^ 52"
| "f64_magnitude NaN = 2047 * 2 ^ 52 + 2 ^ 51"

definition f64_to_bits :: "f64 \<Rightarrow> nat" where
  "f64_to_bits x = (if f64_sign x then 2 ^ 63 else 0) + f64_magnitude x"

definition f64_zero :: f64 where
  "f64_zero = Fin False 0 (-1074)"

definition f64_max :: f64 where
  "f64_max = Fin False (2 ^ 53 - 1) 971"

section \<open>Rounding\<close>

fun bitlen :: "nat \<Rightarrow> nat" where
  "bitlen n = (if n = 0 then 0 else Suc (bitlen (n div 2)))"

declare bitlen.simps [simp del]

text \<open>The number of low bits of \<open>m\<close> that do not fit when \<open>m * 2^e\<close> becomes a double; negative when
  the significand moves up instead.\<close>

definition excess :: "nat \<Rightarrow> int \<Rightarrow> int" where
  "excess m e = max (int (bitlen m) - 53) (- 1074 - e)"

definition round_half_even :: "nat \<Rightarrow> nat \<Rightarrow> nat" where
  "round_half_even m k =
     (let q = m div 2 ^ k; r = m mod 2 ^ k
      in if 2 * r > 2 ^ k \<or> 2 * r = 2 ^ k \<and> odd q then q + 1 else q)"

text \<open>The double nearest to \<open>m * 2^e\<close>, ties to the even significand.\<close>

definition f64_round :: "bool \<Rightarrow> nat \<Rightarrow> int \<Rightarrow> f64" where
  "f64_round s m e =
     (if m = 0 then Fin s 0 (-1074)
      else let k = excess m e;
               q = (if k \<le> 0 then m * 2 ^ nat (- k) else round_half_even m (nat k));
               (q, e') = (if q = 2 ^ 53 then (2 ^ 52, e + k + 1) else (q, e + k))
           in if e' > 971 then Infinite s else Fin s q e')"

definition f64_of_int :: "int \<Rightarrow> f64" where
  "f64_of_int i = f64_round (i < 0) (nat \<bar>i\<bar>) 0"

fun f64_neg :: "f64 \<Rightarrow> f64" where
  "f64_neg (Fin s m e) = Fin (\<not> s) m e"
| "f64_neg (Infinite s) = Infinite (\<not> s)"
| "f64_neg NaN = NaN"

fun f64_add :: "f64 \<Rightarrow> f64 \<Rightarrow> f64" where
  "f64_add (Fin s m e) (Fin t n f) =
     (let g = min e f;
          sum = with_sign s m * 2 ^ nat (e - g) + with_sign t n * 2 ^ nat (f - g)
      in if sum = 0 then Fin (s \<and> t) 0 (-1074) else f64_round (sum < 0) (nat \<bar>sum\<bar>) g)"
| "f64_add (Infinite s) (Infinite t) = (if s = t then Infinite s else NaN)"
| "f64_add (Infinite s) (Fin _ _ _) = Infinite s"
| "f64_add (Fin _ _ _) (Infinite t) = Infinite t"
| "f64_add _ _ = NaN"

definition f64_sub :: "f64 \<Rightarrow> f64 \<Rightarrow> f64" where
  "f64_sub x y = f64_add x (f64_neg y)"

fun f64_copysign :: "f64 \<Rightarrow> bool \<Rightarrow> f64" where
  "f64_copysign (Fin _ m e) s = Fin s m e"
| "f64_copysign (Infinite _) s = Infinite s"
| "f64_copysign NaN s = NaN"

fun f64_trunc :: "f64 \<Rightarrow> f64" where
  "f64_trunc (Fin s m e) = (if 0 \<le> e then Fin s m e else f64_round s (m div 2 ^ nat (- e)) 0)"
| "f64_trunc x = x"

text \<open>\<open>as i64\<close> truncates and saturates; not a number becomes 0.\<close>

fun f64_as_i64 :: "f64 \<Rightarrow> int" where
  "f64_as_i64 (Fin s m e) =
     saturating_i 64 (with_sign s (if 0 \<le> e then m * 2 ^ nat e else m div 2 ^ nat (- e)))"
| "f64_as_i64 (Infinite s) = (if s then i_min 64 else i_max 64)"
| "f64_as_i64 NaN = 0"

text \<open>\<open>partial_cmp\<close>, and the total order on bit patterns of \<open>f64::total_cmp\<close>.\<close>

fun f64_partial_cmp :: "f64 \<Rightarrow> f64 \<Rightarrow> ordering option" where
  "f64_partial_cmp NaN _ = None"
| "f64_partial_cmp _ NaN = None"
| "f64_partial_cmp (Infinite s) (Infinite t) = Some (cmp (if s then -1 else 1 :: int) (if t then -1 else 1))"
| "f64_partial_cmp (Infinite s) (Fin _ _ _) = Some (if s then Less else Greater)"
| "f64_partial_cmp (Fin _ _ _) (Infinite t) = Some (if t then Greater else Less)"
| "f64_partial_cmp (Fin s m e) (Fin t n f) = Some (cmp (f64_units (Fin s m e)) (f64_units (Fin t n f)))"

definition f64_total_key :: "f64 \<Rightarrow> int" where
  "f64_total_key x = (if f64_sign x then - 1 - int (f64_magnitude x) else int (f64_magnitude x))"

definition f64_total_cmp :: "f64 \<Rightarrow> f64 \<Rightarrow> ordering" where
  "f64_total_cmp x y = cmp (f64_total_key x) (f64_total_key y)"

definition f64_lt :: "f64 \<Rightarrow> f64 \<Rightarrow> bool" where
  "f64_lt x y \<longleftrightarrow> f64_partial_cmp x y = Some Less"

definition f64_ge :: "f64 \<Rightarrow> f64 \<Rightarrow> bool" where
  "f64_ge x y \<longleftrightarrow> f64_partial_cmp x y = Some Greater \<or> f64_partial_cmp x y = Some Equal"

section \<open>Facts\<close>

lemma bitlen_0 [simp]: "bitlen 0 = 0"
  by (simp add: bitlen.simps)

lemma bitlen_bounds: "0 < n \<Longrightarrow> 2 ^ (bitlen n - 1) \<le> n \<and> n < 2 ^ bitlen n \<and> 0 < bitlen n"
proof (induction n rule: bitlen.induct)
  case (1 n)
  show ?case
  proof (cases "n div 2 = 0")
    case True
    then have "n = 1" using 1 by simp
    then show ?thesis by (simp add: bitlen.simps)
  next
    case False
    then have "2 ^ (bitlen (n div 2) - 1) \<le> n div 2" "n div 2 < 2 ^ bitlen (n div 2)" "0 < bitlen (n div 2)"
      using 1 by auto
    moreover have "bitlen n = Suc (bitlen (n div 2))" using 1 by (simp add: bitlen.simps [of n])
    moreover have "(2::nat) ^ bitlen (n div 2) = 2 * 2 ^ (bitlen (n div 2) - 1)"
      using calculation(3) by (cases "bitlen (n div 2)") auto
    ultimately show ?thesis by (simp, linarith)
  qed
qed

lemma bitlen_le: "n < 2 ^ k \<Longrightarrow> bitlen n \<le> k"
proof (rule ccontr)
  assume n: "n < 2 ^ k" and "\<not> bitlen n \<le> k"
  then have "k \<le> bitlen n - 1" "0 < n" by (auto intro: gr0I)
  then have "2 ^ k \<le> (2::nat) ^ (bitlen n - 1)" by simp
  then show False using bitlen_bounds [OF \<open>0 < n\<close>] n by linarith
qed

lemma f64_trunc_ok: "0 \<le> e \<Longrightarrow> f64_trunc (Fin s m e) = Fin s m e"
  by simp

text \<open>A significand of at most 53 bits is not rounded.\<close>

lemma f64_round_exact:
  assumes "m < 2 ^ 53" "- 1074 \<le> e" "e \<le> 971"
  shows "\<exists>j. f64_round s m e = Fin s (m * 2 ^ j) (if m = 0 then -1074 else e - int j)
          \<and> (m \<noteq> 0 \<longrightarrow> int j \<le> e + 1074 \<and> m * 2 ^ j < 2 ^ 53)"
proof (cases "m = 0")
  case False
  let ?k = "excess m e"
  have k: "?k \<le> 0" using bitlen_le [OF assms(1)] assms(2) by (simp add: excess_def)
  have up: "int (bitlen m) + - ?k \<le> 53" "- ?k \<le> e + 1074" by (auto simp: excess_def)
  have "m * 2 ^ nat (- ?k) < 2 ^ bitlen m * 2 ^ nat (- ?k)"
    using bitlen_bounds [of m] False by simp
  also have "\<dots> = 2 ^ (bitlen m + nat (- ?k))" by (simp add: power_add)
  also have "\<dots> \<le> 2 ^ 53" using up(1) k by (intro power_increasing) auto
  finally have lt: "m * 2 ^ nat (- ?k) < 2 ^ 53" .
  then have "f64_round s m e = Fin s (m * 2 ^ nat (- ?k)) (e + ?k)"
    using False k assms(3) by (simp add: f64_round_def Let_def)
  then show ?thesis using False k lt up(2) by (intro exI [of _ "nat (- ?k)"]) simp
qed (simp add: f64_round_def)

lemma f64_units_round_exact:
  assumes "m < 2 ^ 53" "- 1074 \<le> e" "e \<le> 971"
  shows "f64_units (f64_round s m e) = with_sign s m * 2 ^ nat (e + 1074)"
proof (cases "m = 0")
  case False
  obtain j where j: "f64_round s m e = Fin s (m * 2 ^ j) (e - int j)" "int j \<le> e + 1074"
    using f64_round_exact [OF assms, of s] False by auto
  have "(2::int) ^ nat (e + 1074) = 2 ^ j * 2 ^ nat (e - int j + 1074)"
    using j(2) by (simp add: power_add [symmetric] nat_add_distrib [symmetric] flip: nat_int_add)
  then show ?thesis by (simp add: j with_sign_def)
qed (simp add: f64_round_def with_sign_def)

text \<open>Integers of at most 53 bits convert exactly.\<close>

lemma f64_of_int_exact: "\<bar>i\<bar> < 2 ^ 53 \<Longrightarrow> f64_units (f64_of_int i) = i * 2 ^ 1074"
proof -
  assume i: "\<bar>i\<bar> < 2 ^ 53"
  then have "nat \<bar>i\<bar> < 2 ^ 53" by (simp add: nat_less_iff)
  then show "f64_units (f64_of_int i) = i * 2 ^ 1074"
    using f64_units_round_exact [of "nat \<bar>i\<bar>" 0 "i < 0"] by (simp add: f64_of_int_def with_sign_def)
qed

text \<open>The sign of a sum is the sign of the exact sum; rounding never makes it zero.\<close>

lemma f64_round_sign:
  assumes "0 < m" "- 1074 \<le> e"
  shows "0 < f64_magnitude (f64_round s m e) \<and> f64_sign (f64_round s m e) = s"
proof -
  let ?k = "excess m e"
  let ?q = "if ?k \<le> 0 then m * 2 ^ nat (- ?k) else round_half_even m (nat ?k)"
  have "0 < ?q"
  proof (cases "?k \<le> 0")
    case False
    then have k: "nat ?k \<le> bitlen m - 1" using assms(2) by (auto simp: excess_def)
    have "(2::nat) ^ nat ?k \<le> 2 ^ (bitlen m - 1)" using k by simp
    also have "\<dots> \<le> m" using bitlen_bounds [OF assms(1)] by simp
    finally have "0 < m div 2 ^ nat ?k" by (simp add: div_greater_zero_iff)
    then show ?thesis using False by (simp add: round_half_even_def Let_def)
  qed (use assms(1) in simp)
  moreover have "- 1074 \<le> e + ?k" by (simp add: excess_def)
  moreover have "0 < f64_magnitude (Fin s x f) \<and> f64_sign (Fin s x f) = s"
    if "0 < x" "- 1074 \<le> f" for x f
    using that by auto
  ultimately show ?thesis
    using assms(1) unfolding f64_round_def by (auto simp: Let_def)
qed

lemma f64_total_cmp_zero:
  "0 < f64_magnitude x \<Longrightarrow> f64_total_cmp f64_zero x = (if f64_sign x then Greater else Less)"
  by (simp add: f64_total_cmp_def f64_total_key_def f64_zero_def)

lemma f64_add_units:
  assumes "- 1074 \<le> e" "- 1074 \<le> f"
  shows "(with_sign s m * 2 ^ nat (e - min e f) + with_sign t n * 2 ^ nat (f - min e f)) * 2 ^ nat (min e f + 1074)
       = f64_units (Fin s m e) + f64_units (Fin t n f)"
proof -
  have "(2::int) ^ nat (h - min e f) * 2 ^ nat (min e f + 1074) = 2 ^ nat (h + 1074)"
    if "h = e \<or> h = f" for h
    using that assms by (subst power_add [symmetric], subst nat_add_distrib [symmetric]) auto
  then show ?thesis by (simp add: algebra_simps)
qed

lemma f64_add_total_cmp:
  assumes "- 1074 \<le> e" "- 1074 \<le> f"
  shows "f64_total_cmp f64_zero (f64_add (Fin s m e) (Fin (\<not> s) n f)) =
           cmp 0 (f64_units (Fin s m e) + f64_units (Fin (\<not> s) n f))"
proof -
  let ?g = "min e f"
  define sum where "sum = with_sign s m * 2 ^ nat (e - ?g) + with_sign (\<not> s) n * 2 ^ nat (f - ?g)"
  have u: "f64_units (Fin s m e) + f64_units (Fin (\<not> s) n f) = sum * 2 ^ nat (?g + 1074)"
    unfolding sum_def by (rule f64_add_units [OF assms, symmetric])
  have c: "cmp 0 (sum * 2 ^ nat (?g + 1074)) = (if sum = 0 then Equal else if sum < 0 then Greater else Less)"
    by (auto simp: cmp_def zero_less_mult_iff)
  have add: "f64_add (Fin s m e) (Fin (\<not> s) n f) =
      (if sum = 0 then f64_zero else f64_round (sum < 0) (nat \<bar>sum\<bar>) ?g)"
    by (simp add: sum_def Let_def f64_zero_def)
  show ?thesis
  proof (cases "sum = 0")
    case False
    then have "0 < f64_magnitude (f64_round (sum < 0) (nat \<bar>sum\<bar>) ?g) \<and>
        f64_sign (f64_round (sum < 0) (nat \<bar>sum\<bar>) ?g) = (sum < 0)"
      using assms by (intro f64_round_sign) auto
    then show ?thesis using False unfolding add u c by (simp add: f64_total_cmp_zero)
  next
    case True
    then show ?thesis unfolding add u c by (simp add: f64_total_cmp_def)
  qed
qed

text \<open>Rounding gives a canonical double or an infinity.\<close>

lemma round_half_even_bounds:
  "m div 2 ^ k \<le> round_half_even m k \<and> round_half_even m k \<le> m div 2 ^ k + 1"
  by (simp add: round_half_even_def Let_def)

lemma bitlen_div_bounds:
  assumes "0 < m" "j + Suc n = bitlen m"
  shows "2 ^ n \<le> m div 2 ^ j \<and> m div 2 ^ j < 2 ^ Suc n"
proof -
  have b: "2 ^ (j + n) \<le> m" "m < 2 ^ (j + Suc n)"
    using bitlen_bounds [OF assms(1)] assms(2) by (auto simp flip: assms(2))
  have "2 ^ n * 2 ^ j \<le> m" "m < 2 ^ Suc n * 2 ^ j"
    using b by (simp_all add: power_add mult.commute)
  then show ?thesis by (simp add: less_eq_div_iff_mult_less_eq div_less_iff_less_mult)
qed

lemma f64_round_ok:
  assumes "- 1074 \<le> e"
  shows "f64_ok (f64_round s m e)"
proof (cases "m = 0")
  case False
  let ?k = "excess m e"
  let ?q = "if ?k \<le> 0 then m * 2 ^ nat (- ?k) else round_half_even m (nat ?k)"
  have low: "- 1074 \<le> e + ?k" by (simp add: excess_def)
  have "?q \<le> 2 ^ 53 \<and> (2 ^ 52 \<le> ?q \<or> e + ?k = - 1074)"
  proof (cases "?k \<le> 0")
    case True
    have "int (bitlen m) - ?k \<le> 53" by (simp add: excess_def)
    then have "bitlen m + nat (- ?k) \<le> 53" using True by linarith
    then have "(2::nat) ^ (bitlen m + nat (- ?k)) \<le> 2 ^ 53" by (intro power_increasing) auto
    moreover have "m * 2 ^ nat (- ?k) < 2 ^ (bitlen m + nat (- ?k))"
      using bitlen_bounds [of m] False by (simp add: power_add)
    moreover have "2 ^ 52 \<le> m * 2 ^ nat (- ?k) \<or> e + ?k = - 1074"
    proof (cases "?k = - 1074 - e")
      case False
      then have "bitlen m - 1 + nat (- ?k) = 52"
        using True bitlen_bounds [of m] \<open>m \<noteq> 0\<close> by (simp add: excess_def max_def split: if_splits)
      then have "(2::nat) ^ 52 = 2 ^ (bitlen m - 1) * 2 ^ nat (- ?k)" by (metis power_add)
      also have "\<dots> \<le> m * 2 ^ nat (- ?k)" using bitlen_bounds [of m] \<open>m \<noteq> 0\<close> by simp
      finally show ?thesis ..
    qed simp
    ultimately show ?thesis using True by auto
  next
    case pos: False
    then have "nat ?k + Suc 52 = bitlen m" using assms by (auto simp: excess_def)
    then have "2 ^ 52 \<le> m div 2 ^ nat ?k" "m div 2 ^ nat ?k < 2 ^ 53"
      using bitlen_div_bounds [of m "nat ?k" 52] False by auto
    then show ?thesis using round_half_even_bounds [of m "nat ?k"] pos by auto
  qed
  then show ?thesis using False low unfolding f64_round_def by (auto simp: Let_def)
qed (simp add: f64_round_def)

lemma f64_of_int_ok: "f64_ok (f64_of_int i)"
  by (simp add: f64_of_int_def f64_round_ok)

lemma f64_add_ok:
  assumes "f64_ok x" "f64_ok y"
  shows "f64_ok (f64_add x y)"
  using assms by (cases x; cases y) (auto simp: Let_def intro: f64_round_ok)

end
