(* ===== verification/Db_Number.thy ===== *)
theory Db_Number
  imports Float64
begin

text \<open>
  Numbers of the Realtime Database (crates/fireemu-core-database/src/number.rs): integers and
  finite doubles, their increment, and the exact numeric order across both kinds.
\<close>

section \<open>Numbers\<close>

datatype number = IntN int | DoubleN f64

fun number_same_form :: "number \<Rightarrow> number \<Rightarrow> bool" where
  "number_same_form (IntN a) (IntN b) \<longleftrightarrow> a = b"
| "number_same_form (DoubleN a) (DoubleN b) \<longleftrightarrow> f64_to_bits a = f64_to_bits b"
| "number_same_form _ _ \<longleftrightarrow> False"

definition from_f64 :: "f64 \<Rightarrow> number option" where
  "from_f64 v = (if f64_is_finite v then Some (DoubleN v) else None)"

fun as_f64 :: "number \<Rightarrow> f64" where
  "as_f64 (IntN i) = f64_of_int i"
| "as_f64 (DoubleN d) = d"

definition double_sum :: "number \<Rightarrow> number \<Rightarrow> number" where
  "double_sum a b =
     (let sum = f64_add (as_f64 a) (as_f64 b)
      in DoubleN (if f64_is_finite sum then sum else f64_copysign f64_max (f64_sign sum)))"

fun increment :: "number \<Rightarrow> number \<Rightarrow> number" where
  "increment (IntN a) (IntN b) =
     (case checked_i 64 (a + b) of
        Some n \<Rightarrow> IntN n
      | None \<Rightarrow> double_sum (IntN a) (IntN b))"
| "increment a b = double_sum a b"

definition two_pow_63 :: f64 where
  "two_pow_63 = Fin False (2 ^ 52) 11"

definition cmp_int_double :: "int \<Rightarrow> f64 \<Rightarrow> ordering" where
  "cmp_int_double i d =
     (if f64_ge d two_pow_63 then Less
      else if f64_lt d (f64_neg two_pow_63) then Greater
      else let whole = f64_trunc d
           in case cmp i (f64_as_i64 whole) of
                Equal \<Rightarrow> f64_total_cmp f64_zero (f64_sub d whole)
              | unequal \<Rightarrow> unequal)"

fun number_cmp :: "number \<Rightarrow> number \<Rightarrow> ordering" where
  "number_cmp (IntN a) (IntN b) = cmp a b"
| "number_cmp (DoubleN a) (DoubleN b) =
     (case f64_partial_cmp a b of Some o1 \<Rightarrow> o1 | None \<Rightarrow> Equal)"
| "number_cmp (IntN a) (DoubleN b) = cmp_int_double a b"
| "number_cmp (DoubleN a) (IntN b) = reverse_ordering (cmp_int_double b a)"

definition number_eq :: "number \<Rightarrow> number \<Rightarrow> bool" where
  "number_eq a b \<longleftrightarrow> number_cmp a b = Equal"

text \<open>The values a \<open>Number\<close> holds: an \<open>i64\<close> or a finite double.\<close>

fun number_ok :: "number \<Rightarrow> bool" where
  "number_ok (IntN i) \<longleftrightarrow> i_ok 64 i"
| "number_ok (DoubleN d) \<longleftrightarrow> f64_is_finite d \<and> f64_ok d"

section \<open>The order is the exact numeric order\<close>

text \<open>The exact value in units of \<open>2\<^sup>-\<^sup>1\<^sup>0\<^sup>7\<^sup>4\<close>.\<close>

fun number_units :: "number \<Rightarrow> int" where
  "number_units (IntN i) = i * 2 ^ 1074"
| "number_units (DoubleN d) = f64_units d"

lemma cmp_mult_pos: "0 < (c::int) \<Longrightarrow> cmp (a * c) (b * c) = cmp a b"
  by (auto simp: cmp_def)

lemma scale_bounds:
  "0 < c \<Longrightarrow> - a \<le> i \<Longrightarrow> - (a * c) \<le> i * (c::int)"
  "0 < c \<Longrightarrow> i < a \<Longrightarrow> i * c < a * (c::int)"
  using mult_right_mono [of "- a" i c] by simp_all

lemma f64_units_neg: "f64_units (f64_neg x) = - f64_units x"
  by (cases x) (simp_all add: with_sign_def)

lemma in_range_iff:
  "f64_is_finite d \<Longrightarrow> f64_ge d two_pow_63 \<longleftrightarrow> 2 ^ 63 * 2 ^ 1074 \<le> f64_units d"
  "f64_is_finite d \<Longrightarrow> f64_lt d (f64_neg two_pow_63) \<longleftrightarrow> f64_units d < - (2 ^ 63 * 2 ^ 1074)"
  by (cases d; force simp: f64_ge_def f64_lt_def two_pow_63_def with_sign_def)+

lemma saturating_i64_id: "- (2 ^ 63) \<le> x \<Longrightarrow> x < 2 ^ 63 \<Longrightarrow> saturating_i 64 x = (x::int)"
  by (simp add: saturating_i_def i_min_def i_max_def)

lemma cmp_int_whole:
  fixes i :: int
  assumes e: "0 \<le> e" and r: "f64_units (Fin s m e) < 2 ^ 63 * 2 ^ 1074" "- (2 ^ 63 * 2 ^ 1074) \<le> f64_units (Fin s m e)"
  shows "(case cmp i (f64_as_i64 (Fin s m e)) of
            Equal \<Rightarrow> f64_total_cmp f64_zero (f64_sub (Fin s m e) (Fin s m e))
          | unequal \<Rightarrow> unequal) = cmp (i * 2 ^ 1074) (f64_units (Fin s m e))"
proof -
  let ?v = "with_sign s (m * 2 ^ nat e)"
  have u: "f64_units (Fin s m e) = ?v * 2 ^ 1074"
    using e by (simp add: with_sign_def nat_add_distrib power_add)
  have "- (2 ^ 63) \<le> ?v" "?v < 2 ^ 63"
    using r unfolding u by simp_all
  then have a: "f64_as_i64 (Fin s m e) = ?v" using e by (simp add: saturating_i64_id)
  have z: "f64_total_cmp f64_zero (f64_sub (Fin s m e) (Fin s m e)) = Equal"
    using f64_add_total_cmp [of e e s m m] e f64_units_neg [of "Fin s m e"] by (simp add: f64_sub_def)
  show ?thesis unfolding u a z by (auto simp: cmp_def)
qed

lemma cmp_int_part:
  fixes i :: int
  assumes "q = m div 2 ^ p"
  shows "i < with_sign s q \<Longrightarrow> i * 2 ^ p < with_sign s m"
    and "with_sign s q < i \<Longrightarrow> with_sign s m < i * 2 ^ p"
proof -
  have b: "int q * 2 ^ p \<le> int m" "int m < (int q + 1) * 2 ^ p"
  proof -
    have "q * 2 ^ p \<le> m" unfolding assms by (simp add: div_times_less_eq_dividend)
    then show "int q * 2 ^ p \<le> int m" by (metis of_nat_le_iff of_nat_mult of_nat_numeral of_nat_power)
    have "m < (q + 1) * 2 ^ p" unfolding assms by (simp add: dividend_less_div_times)
    then have "int m < int ((q + 1) * 2 ^ p)" by linarith
    then show "int m < (int q + 1) * 2 ^ p" by (simp add: algebra_simps)
  qed
  have le: "a * 2 ^ p \<le> b * (2::int) ^ p" if "a \<le> b" for a b using that by simp
  show "i * 2 ^ p < with_sign s m" if "i < with_sign s q"
  proof (cases s)
    case True
    then have "i * 2 ^ p \<le> - (int q + 1) * 2 ^ p" using that by (intro le) (simp add: with_sign_def)
    moreover have "with_sign s m = - int m" using True by (simp add: with_sign_def)
    ultimately show ?thesis using b by linarith
  next
    case False
    then have "i * 2 ^ p \<le> (int q - 1) * 2 ^ p" using that by (intro le) (simp add: with_sign_def)
    moreover have "(int q - 1) * 2 ^ p < int q * 2 ^ p" by simp
    moreover have "with_sign s m = int m" using False by (simp add: with_sign_def)
    ultimately show ?thesis using b by linarith
  qed
  show "with_sign s m < i * 2 ^ p" if "with_sign s q < i"
  proof (cases s)
    case True
    then have "(1 - int q) * 2 ^ p \<le> i * 2 ^ p" using that by (intro le) (simp add: with_sign_def)
    moreover have "- int q * 2 ^ p < (1 - int q) * 2 ^ p" by (simp add: algebra_simps)
    moreover have "with_sign s m = - int m" using True by (simp add: with_sign_def)
    ultimately show ?thesis using b by linarith
  next
    case False
    then have "(int q + 1) * 2 ^ p \<le> i * 2 ^ p" using that by (intro le) (simp add: with_sign_def)
    moreover have "with_sign s m = int m" using False by (simp add: with_sign_def)
    ultimately show ?thesis using b by linarith
  qed
qed

lemma trunc_part:
  assumes "e < 0" "m < 2 ^ 53"
  defines "q \<equiv> m div 2 ^ nat (- e)"
  obtains n f where "f64_trunc (Fin s m e) = Fin s n f" "- 1074 \<le> f"
    "f64_as_i64 (Fin s n f) = with_sign s q" "f64_units (Fin s n f) = with_sign s q * 2 ^ 1074"
proof -
  have q: "q < 2 ^ 53" using assms(2) unfolding q_def by (meson div_le_dividend le_less_trans)
  have t: "f64_trunc (Fin s m e) = f64_round s q 0" using assms(1) by (simp add: q_def)
  have "- 1074 \<le> (0::int)" "(0::int) \<le> 971" by simp_all
  then obtain j where j: "f64_round s q 0 = Fin s (q * 2 ^ j) (if q = 0 then - 1074 else 0 - int j)"
      "q \<noteq> 0 \<longrightarrow> int j \<le> 0 + 1074"
    using f64_round_exact [OF q, of 0 s] by blast
  have "- (2 ^ 63) \<le> with_sign s q" "with_sign s q < 2 ^ 63"
    using q by (auto simp: with_sign_def)
  then have "saturating_i 64 (with_sign s q) = with_sign s q" by (rule saturating_i64_id)
  then have "f64_as_i64 (f64_round s q 0) = with_sign s q"
    unfolding j(1) by (cases "q = 0"; cases "j = 0") (auto simp: with_sign_def saturating_i64_id)
  moreover have "f64_units (f64_round s q 0) = with_sign s q * 2 ^ 1074"
    using f64_units_round_exact [OF q, of 0 s] by simp
  moreover have "- 1074 \<le> (if q = 0 then - 1074 else 0 - int j)" using j(2) by simp
  ultimately show thesis using that t j(1) by metis
qed

lemma cmp_int_fraction:
  fixes i :: int
  assumes e: "e < 0" "- 1074 \<le> e" and m: "m < 2 ^ 53"
  shows "(case cmp i (f64_as_i64 (f64_trunc (Fin s m e))) of
            Equal \<Rightarrow> f64_total_cmp f64_zero (f64_sub (Fin s m e) (f64_trunc (Fin s m e)))
          | unequal \<Rightarrow> unequal) = cmp (i * 2 ^ 1074) (f64_units (Fin s m e))"
proof -
  define p q where "p = nat (- e)" and "q = m div 2 ^ p"
  obtain n f where t: "f64_trunc (Fin s m e) = Fin s n f" "- 1074 \<le> f"
      "f64_as_i64 (Fin s n f) = with_sign s q" "f64_units (Fin s n f) = with_sign s q * 2 ^ 1074"
    using trunc_part [OF e(1) m, of s] unfolding p_def q_def by blast
  let ?U = "2 ^ nat (e + 1074) :: int"
  have one: "(2::int) ^ 1074 = 2 ^ p * ?U"
    using e unfolding p_def by (subst power_add [symmetric], subst nat_add_distrib [symmetric]) auto
  have d: "f64_units (Fin s m e) = with_sign s m * ?U" by simp
  have "f64_total_cmp f64_zero (f64_sub (Fin s m e) (Fin s n f)) =
      cmp 0 (f64_units (Fin s m e) - f64_units (Fin s n f))"
    using f64_add_total_cmp [OF e(2) t(2), of s m n] f64_units_neg [of "Fin s n f"]
    unfolding f64_sub_def f64_neg.simps by simp
  also have "\<dots> = cmp (0 * ?U) ((with_sign s m - with_sign s q * 2 ^ p) * ?U)"
    unfolding d t(4) one by (simp add: algebra_simps)
  also have "\<dots> = cmp 0 (with_sign s m - with_sign s q * 2 ^ p)" by (rule cmp_mult_pos) simp
  finally have z: "f64_total_cmp f64_zero (f64_sub (Fin s m e) (Fin s n f)) =
      cmp 0 (with_sign s m - with_sign s q * 2 ^ p)" .
  have "cmp (i * 2 ^ 1074) (f64_units (Fin s m e)) = cmp (i * 2 ^ p * ?U) (with_sign s m * ?U)"
    unfolding d one by (simp add: mult.assoc)
  also have "\<dots> = cmp (i * 2 ^ p) (with_sign s m)" by (rule cmp_mult_pos) simp
  finally have r: "cmp (i * 2 ^ 1074) (f64_units (Fin s m e)) = cmp (i * 2 ^ p) (with_sign s m)" .
  show ?thesis
    unfolding t(1,3) z r using cmp_int_part [OF q_def, where i = i and s = s] by (auto simp: cmp_def)
qed

lemma cmp_int_double_exact:
  assumes "i_ok 64 i" "f64_is_finite d" "f64_ok d"
  shows "cmp_int_double i d = cmp (i * 2 ^ 1074) (f64_units d)"
proof -
  obtain s m e where d: "d = Fin s m e" using assms(2) by (cases d) auto
  have m: "m < 2 ^ 53" "- 1074 \<le> e" using assms(3) by (simp_all add: d)
  have "- (2 ^ 63) \<le> i" "i < 2 ^ 63" using assms(1) by (simp_all add: i_ok_bounds)
  then have i: "- (2 ^ 63 * 2 ^ 1074) \<le> i * 2 ^ 1074" "i * 2 ^ 1074 < 2 ^ 63 * 2 ^ 1074"
    by (intro scale_bounds; simp)+
  consider "2 ^ 63 * 2 ^ 1074 \<le> f64_units d" | "f64_units d < - (2 ^ 63 * 2 ^ 1074)"
    | "f64_units d < 2 ^ 63 * 2 ^ 1074" "- (2 ^ 63 * 2 ^ 1074) \<le> f64_units d" by linarith
  then show ?thesis
  proof cases
    case 1
    then have "i * 2 ^ 1074 < f64_units d" using i by linarith
    then show ?thesis using 1 in_range_iff [OF assms(2)] by (simp add: cmp_int_double_def cmp_def)
  next
    case 2
    then have "f64_units d < i * 2 ^ 1074" using i by linarith
    then show ?thesis using 2 in_range_iff [OF assms(2)] by (simp add: cmp_int_double_def cmp_def)
  next
    case 3
    then have eq: "cmp_int_double i d = (case cmp i (f64_as_i64 (f64_trunc d)) of
        Equal \<Rightarrow> f64_total_cmp f64_zero (f64_sub d (f64_trunc d)) | unequal \<Rightarrow> unequal)"
      using in_range_iff [OF assms(2)] unfolding cmp_int_double_def Let_def
      by (meson linorder_not_le)
    show ?thesis
    proof (cases "0 \<le> e")
      case True
      have "f64_trunc d = d" unfolding d by (rule f64_trunc_ok [OF True])
      then show ?thesis
        using eq cmp_int_whole [OF True 3 [unfolded d], where i = i] unfolding d by (simp only:)
    next
      case False
      then have "e < 0" by simp
      then show ?thesis
        using eq cmp_int_fraction [OF _ m(2,1), where s = s and i = i] unfolding d by (simp only:)
    qed
  qed
qed

lemma number_cmp_exact:
  assumes "number_ok a" "number_ok b"
  shows "number_cmp a b = cmp (number_units a) (number_units b)"
proof (cases a; cases b)
  fix x y assume "a = IntN x" "b = IntN y"
  then show ?thesis by (simp add: cmp_mult_pos)
next
  fix x y assume "a = DoubleN x" "b = DoubleN y"
  then show ?thesis using assms by (cases x; cases y) simp_all
next
  fix x y assume "a = IntN x" "b = DoubleN y"
  then show ?thesis using assms cmp_int_double_exact by simp
next
  fix x y assume "a = DoubleN x" "b = IntN y"
  then show ?thesis using assms cmp_int_double_exact cmp_flip [of "f64_units x" "y * 2 ^ 1074"] by simp
qed

section \<open>Increments\<close>

lemma as_f64_ok: "number_ok a \<Longrightarrow> f64_ok (as_f64 a)"
  by (cases a) (simp_all add: f64_of_int_ok)

lemma double_sum_ok: "number_ok a \<Longrightarrow> number_ok b \<Longrightarrow> number_ok (double_sum a b)"
  using f64_add_ok [OF as_f64_ok as_f64_ok, of a b]
  by (simp add: double_sum_def Let_def f64_max_def)

text \<open>An increment stays a number, and is exact while it fits an \<open>i64\<close>.\<close>

lemma increment_ok:
  assumes "number_ok a" "number_ok b"
  shows "number_ok (increment a b)"
  using double_sum_ok [OF assms] assms by (cases a; cases b) (auto split: option.split)

lemma increment_exact: "i_ok 64 (a + b) \<Longrightarrow> increment (IntN a) (IntN b) = IntN (a + b)"
  by (simp add: checked_i_def)

end
