(* ===== verification/Db_Node.thy ===== *)
theory Db_Node
  imports Db_Key Db_Number
begin

text \<open>
  Nodes of the Realtime Database and their JSON forms (crates/fireemu-core-database/src/
  json.rs, node.rs). A stored node never holds an empty map; \<open>build\<close> makes nodes from JSON
  under the limits, \<open>to_json\<close> renders them, plain or for export.
\<close>

section \<open>Values\<close>

datatype json =
    JNull
  | JBool bool
  | JNumber number
  | JString string
  | JArray "json list"
  | JObject "(string \<times> json) list"

datatype leaf = LBool bool | LNumber number | LString string

datatype priority = PNumber number | PString string

datatype node = Node content "priority option"
  and content = Leaf leaf | Children "(string \<times> node) list"

datatype format = Plain | Export

definition value_key :: string where
  "value_key = ''.value''"

definition server_value_key :: string where
  "server_value_key = ''.sv''"

fun content_of :: "node \<Rightarrow> content" where
  "content_of (Node c _) = c"

fun priority_of :: "node \<Rightarrow> priority option" where
  "priority_of (Node _ p) = p"

fun type_rank :: "leaf \<Rightarrow> nat" where
  "type_rank (LBool _) = 0"
| "type_rank (LNumber _) = 1"
| "type_rank (LString _) = 2"

fun value_cmp :: "leaf \<Rightarrow> leaf \<Rightarrow> ordering" where
  "value_cmp (LBool a) (LBool b) = cmp a b"
| "value_cmp (LNumber a) (LNumber b) = number_cmp a b"
| "value_cmp (LString a) (LString b) = utf16_cmp a b"
| "value_cmp a b = cmp (type_rank a) (type_rank b)"

fun leaf_to_json :: "leaf \<Rightarrow> json" where
  "leaf_to_json (LBool b) = JBool b"
| "leaf_to_json (LNumber n) = JNumber n"
| "leaf_to_json (LString s) = JString s"

fun as_leaf :: "priority \<Rightarrow> leaf" where
  "as_leaf (PNumber n) = LNumber n"
| "as_leaf (PString s) = LString s"

fun priority_to_json :: "priority \<Rightarrow> json" where
  "priority_to_json (PNumber n) = JNumber n"
| "priority_to_json (PString s) = JString s"

fun priority_from_json :: "json \<Rightarrow> (error_kind, priority option) result" where
  "priority_from_json JNull = Ok None"
| "priority_from_json (JNumber n) = Ok (Some (PNumber n))"
| "priority_from_json (JString s) = Ok (Some (PString s))"
| "priority_from_json _ = Err InvalidPriority"

fun compare_contents :: "content option \<Rightarrow> content option \<Rightarrow> ordering" where
  "compare_contents None None = Equal"
| "compare_contents (Some (Children _)) (Some (Children _)) = Equal"
| "compare_contents None (Some _) = Less"
| "compare_contents (Some (Leaf _)) (Some (Children _)) = Less"
| "compare_contents (Some _) None = Greater"
| "compare_contents (Some (Children _)) (Some (Leaf _)) = Greater"
| "compare_contents (Some (Leaf x)) (Some (Leaf y)) = value_cmp x y"

definition compare_values :: "node option \<Rightarrow> node option \<Rightarrow> ordering" where
  "compare_values a b = compare_contents (map_option content_of a) (map_option content_of b)"

definition node_leaf :: "leaf \<Rightarrow> node" where
  "node_leaf l = Node (Leaf l) None"

fun with_priority :: "priority option \<Rightarrow> node \<Rightarrow> node" where
  "with_priority p (Node c _) = Node c p"

text \<open>\<open>PartialEq\<close> of the node types, which compares numbers by value.\<close>

fun leaf_eq :: "leaf \<Rightarrow> leaf \<Rightarrow> bool" where
  "leaf_eq (LBool a) (LBool b) \<longleftrightarrow> a = b"
| "leaf_eq (LNumber a) (LNumber b) \<longleftrightarrow> number_eq a b"
| "leaf_eq (LString a) (LString b) \<longleftrightarrow> a = b"
| "leaf_eq _ _ \<longleftrightarrow> False"

fun priority_eq :: "priority \<Rightarrow> priority \<Rightarrow> bool" where
  "priority_eq (PNumber a) (PNumber b) \<longleftrightarrow> number_eq a b"
| "priority_eq (PString a) (PString b) \<longleftrightarrow> a = b"
| "priority_eq _ _ \<longleftrightarrow> False"

fun option_eq :: "('a \<Rightarrow> 'a \<Rightarrow> bool) \<Rightarrow> 'a option \<Rightarrow> 'a option \<Rightarrow> bool" where
  "option_eq eq None None \<longleftrightarrow> True"
| "option_eq eq (Some a) (Some b) \<longleftrightarrow> eq a b"
| "option_eq eq _ _ \<longleftrightarrow> False"

fun node_eq :: "node \<Rightarrow> node \<Rightarrow> bool"
  and content_eq :: "content \<Rightarrow> content \<Rightarrow> bool"
  and children_eq :: "(string \<times> node) list \<Rightarrow> (string \<times> node) list \<Rightarrow> bool" where
  "node_eq (Node c p) (Node d q) \<longleftrightarrow> content_eq c d \<and> option_eq priority_eq p q"
| "content_eq (Leaf a) (Leaf b) \<longleftrightarrow> leaf_eq a b"
| "content_eq (Children a) (Children b) \<longleftrightarrow> children_eq a b"
| "content_eq _ _ \<longleftrightarrow> False"
| "children_eq [] [] \<longleftrightarrow> True"
| "children_eq ((k, a) # as) ((l, b) # bs) \<longleftrightarrow> k = l \<and> node_eq a b \<and> children_eq as bs"
| "children_eq _ _ \<longleftrightarrow> False"

section \<open>From JSON\<close>

fun is_container :: "json \<Rightarrow> bool" where
  "is_container (JArray _) = True"
| "is_container (JObject _) = True"
| "is_container _ = False"

fun double_priority :: "priority \<Rightarrow> priority" where
  "double_priority (PNumber n) = PNumber (DoubleN (as_f64 n))"
| "double_priority (PString s) = PString s"

definition enumerate_keys :: "json list \<Rightarrow> (string \<times> json) list" where
  "enumerate_keys items = zip (map dec_string [0..<length items]) items"

primrec json_weight :: "json \<Rightarrow> nat" where
  "json_weight JNull = 1"
| "json_weight (JBool _) = 1"
| "json_weight (JNumber _) = 1"
| "json_weight (JString _) = 1"
| "json_weight (JArray items) = Suc (sum_list (map json_weight items))"
| "json_weight (JObject m) = Suc (sum_list (map snd (map (map_prod id json_weight) m)))"

definition entries_weight :: "(string \<times> json) list \<Rightarrow> nat" where
  "entries_weight es = sum_list (map (json_weight \<circ> snd) es)"

lemma json_weight_pos [simp]: "0 < json_weight j"
  by (cases j) auto

lemma json_weight_object: "json_weight (JObject m) = Suc (entries_weight m)"
  by (simp add: entries_weight_def o_def)

lemma entries_weight_simps [simp]:
  "entries_weight [] = 0"
  "entries_weight ((k, v) # es) = json_weight v + entries_weight es"
  by (simp_all add: entries_weight_def)

lemma entries_weight_filter: "entries_weight (filter P es) \<le> entries_weight es"
  by (induction es) auto

lemma entries_weight_remove: "entries_weight (bm_remove k es) \<le> entries_weight es"
  by (simp add: bm_remove_def entries_weight_filter)

lemma entries_weight_member: "(k, v) \<in> set es \<Longrightarrow> json_weight v \<le> entries_weight es"
  by (induction es) auto

lemma entries_weight_get: "bm_get es k = Some v \<Longrightarrow> json_weight v \<le> entries_weight es"
  by (auto dest!: map_of_SomeD intro: entries_weight_member)

lemma entries_weight_enumerate: "entries_weight (enumerate_keys items) = sum_list (map json_weight items)"
proof -
  have "entries_weight (zip ks xs) = sum_list (map json_weight xs)" if "length ks = length xs" for ks xs
    using that by (induction ks xs rule: list_induct2) auto
  then show ?thesis by (simp add: enumerate_keys_def)
qed

lemma and_then_cong [fundef_cong]:
  "r = r' \<Longrightarrow> (\<And>x. r' = Inr x \<Longrightarrow> f x = f' x) \<Longrightarrow> and_then r f = and_then r' f'"
  by (cases r') auto

function build :: "db_limits \<Rightarrow> nat \<Rightarrow> nat \<Rightarrow> json \<Rightarrow> (error_kind, node option) result"
  and from_object :: "db_limits \<Rightarrow> nat \<Rightarrow> nat \<Rightarrow> (string \<times> json) list \<Rightarrow> (error_kind, node option) result"
  and from_entries :: "db_limits \<Rightarrow> nat \<Rightarrow> nat \<Rightarrow> (string \<times> json) list \<Rightarrow> priority option
        \<Rightarrow> (error_kind, node option) result"
  and build_children :: "db_limits \<Rightarrow> nat \<Rightarrow> nat \<Rightarrow> (string \<times> json) list \<Rightarrow> (string \<times> node) list
        \<Rightarrow> (error_kind, (string \<times> node) list) result" where
  "build limits depth bytes json =
     (if depth > max_depth limits then Err PathTooDeep
      else case json of
        JNull \<Rightarrow> Ok None
      | JBool b \<Rightarrow> Ok (Some (node_leaf (LBool b)))
      | JNumber n \<Rightarrow> Ok (Some (node_leaf (LNumber n)))
      | JString s \<Rightarrow>
          if length s > max_string_bytes limits then Err StringTooLong
          else Ok (Some (node_leaf (LString s)))
      | JArray items \<Rightarrow> from_entries limits depth bytes (enumerate_keys items) None
      | JObject m \<Rightarrow> from_object limits depth bytes m)"
| "from_object limits depth bytes m =
     (if bm_contains m server_value_key then Err InvalidServerValue
      else and_then
        (case bm_get m priority_key of
           Some j \<Rightarrow> and_then (priority_from_json j) (\<lambda>p. Ok (map_option double_priority p))
         | None \<Rightarrow> Ok None)
        (\<lambda>priority.
           let m1 = bm_remove priority_key m
           in case bm_get m1 value_key of
                Some v \<Rightarrow>
                  if bm_remove value_key m1 \<noteq> [] \<or> is_container v then Err InvalidData
                  else and_then (build limits depth bytes v)
                    (\<lambda>n. if n = None \<and> priority \<noteq> None then Err InvalidData
                         else Ok (map_option (with_priority priority) n))
              | None \<Rightarrow> from_entries limits depth bytes m1 priority))"
| "from_entries limits depth bytes entries priority =
     and_then (build_children limits depth bytes entries [])
       (\<lambda>children.
          if children = [] then if priority \<noteq> None then Err InvalidData else Ok None
          else Ok (Some (Node (Children children) priority)))"
| "build_children limits depth bytes [] children = Ok children"
| "build_children limits depth bytes ((key, v) # entries) children =
     and_then (validate_key key)
       (\<lambda>_. let separator = (if depth > 0 then 1 else 0);
                child_bytes = bytes + separator + length key
            in and_then (check_path_bytes child_bytes limits)
                 (\<lambda>_. and_then (build limits (depth + 1) child_bytes v)
                    (\<lambda>c. build_children limits depth bytes entries
                          (case c of Some child \<Rightarrow> bm_insert key child children | None \<Rightarrow> children))))"
  by pat_completeness auto
termination
proof (relation "measures
    [\<lambda>x. case x of
        Inl (Inl (_, _, _, j)) \<Rightarrow> json_weight j
      | Inl (Inr (_, _, _, m)) \<Rightarrow> entries_weight m
      | Inr (Inl (_, _, _, m, _)) \<Rightarrow> entries_weight m
      | Inr (Inr (_, _, _, m, _)) \<Rightarrow> entries_weight m,
     \<lambda>x. case x of
        Inl (Inl (_, _, _, j)) \<Rightarrow> 0
      | Inl (Inr (_, _, _, m)) \<Rightarrow> 3
      | Inr (Inl (_, _, _, m, _)) \<Rightarrow> 2
      | Inr (Inr (_, _, _, m, _)) \<Rightarrow> Suc 0]", goal_cases)
qed (auto simp: entries_weight_enumerate entries_weight_remove entries_weight_get
    order_le_less [symmetric] json_weight_object simp del: json_weight.simps(6) split: if_splits)

text \<open>\<open>from_json\<close> for the location at a path.\<close>

definition node_from_json :: "json \<Rightarrow> path \<Rightarrow> db_limits \<Rightarrow> (error_kind, node option) result" where
  "node_from_json json p limits = build limits (length p) (path_byte_len p) json"

section \<open>To JSON\<close>

definition canonical_index :: "string \<Rightarrow> bool" where
  "canonical_index key \<longleftrightarrow>
     key = ''0'' \<or> key \<noteq> [] \<and> hd key \<noteq> CHR ''0'' \<and> list_all is_digit key"

fun array_max :: "nat \<Rightarrow> string list \<Rightarrow> nat option" where
  "array_max m [] = Some m"
| "array_max m (key # keys) =
     (if \<not> canonical_index key then None
      else case parse_usize key of
        None \<Rightarrow> None
      | Some i \<Rightarrow> array_max (max m i) keys)"

definition array_length :: "(string \<times> 'a) list \<Rightarrow> nat option" where
  "array_length children =
     (case array_max 0 (map fst children) of
        None \<Rightarrow> None
      | Some m \<Rightarrow> if m < 2 * length children then Some (m + 1) else None)"

definition place_items :: "nat \<Rightarrow> (string \<times> json) list \<Rightarrow> json list" where
  "place_items len kids =
     foldl (\<lambda>items (key, j).
              case parse_usize key of
                Some i \<Rightarrow> if i < length items then items[i := j] else items
              | None \<Rightarrow> items)
       (replicate len JNull) kids"

fun to_json :: "format \<Rightarrow> node \<Rightarrow> json"
  and content_json :: "format \<Rightarrow> priority option \<Rightarrow> content \<Rightarrow> json"
  and kids_json :: "format \<Rightarrow> (string \<times> node) list \<Rightarrow> (string \<times> json) list" where
  "to_json fmt (Node c p) = content_json fmt (case fmt of Plain \<Rightarrow> None | Export \<Rightarrow> p) c"
| "content_json fmt priority (Leaf l) =
     (case priority of
        None \<Rightarrow> leaf_to_json l
      | Some q \<Rightarrow>
          JObject (bm_insert priority_key (priority_to_json q) (bm_insert value_key (leaf_to_json l) [])))"
| "content_json fmt priority (Children cs) =
     (let kids = kids_json fmt cs
      in if priority = None \<and> fmt = Plain
         then (case array_length cs of
                 Some len \<Rightarrow> JArray (place_items len kids)
               | None \<Rightarrow> JObject kids)
         else JObject (case priority of
                         None \<Rightarrow> kids
                       | Some q \<Rightarrow> bm_insert priority_key (priority_to_json q) kids))"
| "kids_json fmt [] = []"
| "kids_json fmt ((k, c) # cs) = (k, to_json fmt c) # kids_json fmt cs"

fun shallow :: "node \<Rightarrow> json" where
  "shallow (Node (Leaf l) _) = leaf_to_json l"
| "shallow (Node (Children cs) _) = JObject (map (\<lambda>(k, _). (k, JBool True)) cs)"

fun node_child :: "node \<Rightarrow> string \<Rightarrow> node option" where
  "node_child (Node (Leaf _) _) key = None"
| "node_child (Node (Children cs) _) key = bm_get cs key"

fun descendant :: "node \<Rightarrow> path \<Rightarrow> node option" where
  "descendant n [] = Some n"
| "descendant n (key # keys) =
     (case node_child n key of None \<Rightarrow> None | Some c \<Rightarrow> descendant c keys)"

fun node_depth :: "node \<Rightarrow> nat"
  and children_depth :: "(string \<times> node) list \<Rightarrow> nat" where
  "node_depth (Node (Leaf _) _) = 0"
| "node_depth (Node (Children cs) _) = 1 + children_depth cs"
| "children_depth [] = 0"
| "children_depth ((_, c) # cs) = max (node_depth c) (children_depth cs)"

section \<open>Well-formed nodes within the limits\<close>

fun node_wf :: "node \<Rightarrow> bool"
  and children_wf :: "(string \<times> node) list \<Rightarrow> bool" where
  "node_wf (Node (Leaf _) _) \<longleftrightarrow> True"
| "node_wf (Node (Children cs) _) \<longleftrightarrow> cs \<noteq> [] \<and> bm_wf cs \<and> children_wf cs"
| "children_wf [] \<longleftrightarrow> True"
| "children_wf ((_, c) # cs) \<longleftrightarrow> node_wf c \<and> children_wf cs"

text \<open>The byte length of a child's path.\<close>

definition child_bytes :: "nat \<Rightarrow> nat \<Rightarrow> string \<Rightarrow> nat" where
  "child_bytes depth bytes key = bytes + (if depth > 0 then 1 else 0) + length key"

fun fits :: "db_limits \<Rightarrow> nat \<Rightarrow> nat \<Rightarrow> node \<Rightarrow> bool"
  and children_fit :: "db_limits \<Rightarrow> nat \<Rightarrow> nat \<Rightarrow> (string \<times> node) list \<Rightarrow> bool" where
  "fits limits depth bytes (Node (Leaf l) _) \<longleftrightarrow>
     depth \<le> max_depth limits \<and>
     (case l of LString s \<Rightarrow> length s \<le> max_string_bytes limits | _ \<Rightarrow> True)"
| "fits limits depth bytes (Node (Children cs) _) \<longleftrightarrow>
     depth \<le> max_depth limits \<and> children_fit limits depth bytes cs"
| "children_fit limits depth bytes [] \<longleftrightarrow> True"
| "children_fit limits depth bytes ((k, c) # cs) \<longleftrightarrow>
     validate_key k = Ok () \<and> child_bytes depth bytes k \<le> max_path_bytes limits \<and>
     fits limits (depth + 1) (child_bytes depth bytes k) c \<and> children_fit limits depth bytes cs"

lemma children_wf_iff: "children_wf cs \<longleftrightarrow> (\<forall>(k, c)\<in>set cs. node_wf c)"
  by (induction cs) auto

lemma children_fit_iff:
  "children_fit limits depth bytes cs \<longleftrightarrow>
     (\<forall>(k, c)\<in>set cs. validate_key k = Ok () \<and> child_bytes depth bytes k \<le> max_path_bytes limits
        \<and> fits limits (depth + 1) (child_bytes depth bytes k) c)"
  by (induction cs) auto

lemma node_wf_Children: "node_wf (Node (Children cs) p) \<longleftrightarrow> cs \<noteq> [] \<and> bm_wf cs \<and> (\<forall>(k, c)\<in>set cs. node_wf c)"
  by (simp add: children_wf_iff)

declare build.simps [simp del] from_object.simps [simp del] from_entries.simps [simp del]

end
