(* ===== verification/Db_Build.thy ===== *)
theory Db_Build
  imports Db_Node
begin

text \<open>
  What \<open>build\<close> and \<open>to_json\<close> guarantee together: every node built from JSON is well formed and
  within the limits, and both renderings read back as the node they were made from, the plain
  one without its priorities and the export one with them.
\<close>

section \<open>Built nodes are well formed and within the limits\<close>

lemma with_priority_wf [simp]:
  "node_wf (with_priority p n) = node_wf n"
  "fits limits depth bytes (with_priority p n) = fits limits depth bytes n"
  by (cases n; cases "content_of n"; simp)+

lemma children_wf_insert:
  "children_wf cs \<Longrightarrow> node_wf c \<Longrightarrow> children_wf (bm_insert k c cs)"
  by (auto simp: children_wf_iff set_bm_insert)

lemma children_fit_insert:
  "children_fit limits depth bytes cs \<Longrightarrow> validate_key k = Ok () \<Longrightarrow>
   child_bytes depth bytes k \<le> max_path_bytes limits \<Longrightarrow>
   fits limits (depth + 1) (child_bytes depth bytes k) c \<Longrightarrow>
   children_fit limits depth bytes (bm_insert k c cs)"
  by (auto simp: children_fit_iff set_bm_insert)

lemma build_sound:
  "build limits depth bytes j = Ok r \<Longrightarrow>
     (case r of None \<Rightarrow> True | Some n \<Rightarrow> node_wf n \<and> fits limits depth bytes n)"
  "from_object limits depth bytes m = Ok r \<Longrightarrow> depth \<le> max_depth limits \<Longrightarrow>
     (case r of None \<Rightarrow> True | Some n \<Rightarrow> node_wf n \<and> fits limits depth bytes n)"
  "from_entries limits depth bytes es p = Ok r \<Longrightarrow> depth \<le> max_depth limits \<Longrightarrow>
     (case r of None \<Rightarrow> True | Some n \<Rightarrow> node_wf n \<and> fits limits depth bytes n)"
  "build_children limits depth bytes es acc = Ok cs \<Longrightarrow>
     bm_wf acc \<Longrightarrow> children_wf acc \<Longrightarrow> children_fit limits depth bytes acc \<Longrightarrow>
     bm_wf cs \<and> children_wf cs \<and> children_fit limits depth bytes cs"
proof (induction limits depth bytes j and limits depth bytes m and limits depth bytes es p
    and limits depth bytes es acc arbitrary: r and r and r and cs
    rule: build_from_object_from_entries_build_children.induct)
  case (1 limits depth bytes j)
  then show ?case
    by (cases j) (auto simp: build.simps node_leaf_def split: if_splits)
next
  case (2 limits depth bytes m)
  from 2(3) obtain q where q: "\<not> bm_contains m server_value_key"
    "(case bm_get m priority_key of
           Some j \<Rightarrow> and_then (priority_from_json j) (\<lambda>p. Ok (map_option double_priority p))
         | None \<Rightarrow> Ok None) = Ok q"
    by (auto simp: from_object.simps and_then_eq_Inr split: if_splits)
  show ?case
  proof (cases "bm_get (bm_remove priority_key m) value_key")
    case None
    then show ?thesis using 2(1) [OF q(1) q(2) refl None] 2(3,4) q
      by (simp add: from_object.simps Let_def)
  next
    case (Some v)
    then show ?thesis using 2(2) [OF q(1) q(2) refl Some] 2(3,4) q
      by (auto simp: from_object.simps Let_def and_then_eq_Inr split: if_splits option.splits)
  qed
next
  case (3 limits depth bytes es p)
  then show ?case
    by (auto simp: from_entries.simps and_then_eq_Inr split: if_splits)
next
  case (4 limits depth bytes acc)
  then show ?case by simp
next
  case (5 limits depth bytes key v es acc)
  from 5(3) obtain c where c: "validate_key key = Ok ()"
      "check_path_bytes (child_bytes depth bytes key) limits = Ok ()"
      "build limits (depth + 1) (child_bytes depth bytes key) v = Ok c"
      "build_children limits depth bytes es (case c of Some child \<Rightarrow> bm_insert key child acc | None \<Rightarrow> acc) = Ok cs"
    by (auto simp: and_then_eq_Inr Let_def child_bytes_def)
  have "case c of None \<Rightarrow> True | Some n \<Rightarrow> node_wf n \<and> fits limits (depth + 1) (child_bytes depth bytes key) n"
    using 5(1) c by (auto simp: child_bytes_def)
  moreover have "child_bytes depth bytes key \<le> max_path_bytes limits"
    using c(2) by (simp add: check_path_bytes_def split: if_splits)
  ultimately have acc: "bm_wf (case c of Some child \<Rightarrow> bm_insert key child acc | None \<Rightarrow> acc)"
      "children_wf (case c of Some child \<Rightarrow> bm_insert key child acc | None \<Rightarrow> acc)"
      "children_fit limits depth bytes (case c of Some child \<Rightarrow> bm_insert key child acc | None \<Rightarrow> acc)"
    using c(1) 5(4,5,6) by (cases c; auto simp: children_wf_insert children_fit_insert)+
  show ?case
    by (rule 5(2) [OF c(1) refl refl c(2,3) [unfolded child_bytes_def] c(4) acc])
qed

section \<open>Reading a rendering back\<close>

text \<open>The node a rendering stands for: \<open>format=export\<close> keeps the priorities (a number becomes a
  double), the plain format drops them.\<close>

fun read_priority :: "format \<Rightarrow> priority option \<Rightarrow> priority option" where
  "read_priority Plain p = None"
| "read_priority Export p = map_option double_priority p"

fun read_node :: "format \<Rightarrow> node \<Rightarrow> node"
  and read_kids :: "format \<Rightarrow> (string \<times> node) list \<Rightarrow> (string \<times> node) list" where
  "read_node fmt (Node (Leaf l) p) = Node (Leaf l) (read_priority fmt p)"
| "read_node fmt (Node (Children cs) p) = Node (Children (read_kids fmt cs)) (read_priority fmt p)"
| "read_kids fmt [] = []"
| "read_kids fmt ((k, c) # cs) = (k, read_node fmt c) # read_kids fmt cs"

lemma read_kids_map: "read_kids fmt cs = map (\<lambda>(k, c). (k, read_node fmt c)) cs"
  by (induction cs) auto

lemma kids_json_map: "kids_json fmt cs = map (\<lambda>(k, c). (k, to_json fmt c)) cs"
  by (induction cs) auto

lemma map_of_map_snd: "map_of (map (\<lambda>(k, c). (k, f c)) cs) = map_option f \<circ> map_of cs"
  by (induction cs) auto

lemma bm_wf_map_snd: "bm_wf (map (\<lambda>(k, c). (k, f c)) cs) = bm_wf cs"
  by (simp add: bm_wf_def case_prod_beta o_def)

subsection \<open>Building from entries that all succeed\<close>

definition collect_built :: "(string \<Rightarrow> json \<Rightarrow> node option) \<Rightarrow> (string \<times> json) list
    \<Rightarrow> (string \<times> node) list \<Rightarrow> (string \<times> node) list" where
  "collect_built f es acc =
     foldl (\<lambda>acc (k, j). case f k j of Some c \<Rightarrow> bm_insert k c acc | None \<Rightarrow> acc) acc es"

lemma build_children_all:
  assumes "\<forall>(k, j)\<in>set es. validate_key k = Ok () \<and> child_bytes depth bytes k \<le> max_path_bytes limits
      \<and> build limits (depth + 1) (child_bytes depth bytes k) j = Ok (f k j)"
  shows "build_children limits depth bytes es acc = Ok (collect_built f es acc)"
  using assms
proof (induction es arbitrary: acc)
  case (Cons e es)
  obtain k j where e: "e = (k, j)" by (cases e)
  have step: "validate_key k = Ok ()" "check_path_bytes (child_bytes depth bytes k) limits = Ok ()"
      "build limits (depth + 1) (child_bytes depth bytes k) j = Ok (f k j)"
    using Cons.prems e by (simp_all add: check_path_bytes_def)
  have "build_children limits depth bytes (e # es) acc =
      build_children limits depth bytes es (case f k j of Some c \<Rightarrow> bm_insert k c acc | None \<Rightarrow> acc)"
    unfolding e build_children.simps Let_def step(1) and_then_simps
      step(2,3) [unfolded child_bytes_def] by (rule refl)
  also have "\<dots> = Ok (collect_built f es (case f k j of Some c \<Rightarrow> bm_insert k c acc | None \<Rightarrow> acc))"
    using Cons.prems by (intro Cons.IH) simp
  finally show ?case unfolding e collect_built_def foldl_Cons prod.case .
qed (simp add: collect_built_def)

lemma collect_built_wf: "bm_wf acc \<Longrightarrow> bm_wf (collect_built f es acc)"
proof (induction es arbitrary: acc)
  case (Cons e es)
  then show ?case
    by (cases e; cases "f (fst e) (snd e)") (simp_all add: collect_built_def bm_wf_insert)
qed (simp add: collect_built_def)

lemma collect_built_get:
  "distinct (map fst es) \<Longrightarrow>
   bm_get (collect_built f es acc) k =
     (case map_of es k of
        Some j \<Rightarrow> (case f k j of Some c \<Rightarrow> Some c | None \<Rightarrow> bm_get acc k)
      | None \<Rightarrow> bm_get acc k)"
  unfolding collect_built_def
proof (induction es arbitrary: acc)
  case (Cons e es)
  obtain k' j' where e: "e = (k', j')" by (cases e)
  have "map_of es k' = None" using Cons.prems e by (simp add: map_of_eq_None_iff)
  then show ?case using Cons e by (auto split: option.split)
qed simp

lemma from_entries_read:
  assumes all: "\<forall>(k, j)\<in>set es. validate_key k = Ok () \<and> child_bytes depth bytes k \<le> max_path_bytes limits
      \<and> build limits (depth + 1) (child_bytes depth bytes k) j = Ok (f k j)"
    and "distinct (map fst es)" "bm_wf cs" "cs \<noteq> []"
    and get: "\<And>k. bm_get cs k = (case map_of es k of None \<Rightarrow> None | Some j \<Rightarrow> f k j)"
  shows "from_entries limits depth bytes es p = Ok (Some (Node (Children cs) p))"
proof -
  have "collect_built f es [] = cs"
    by (rule map_of_eqI)
      (use assms in \<open>auto simp: collect_built_wf collect_built_get get split: option.split\<close>)
  then show ?thesis using build_children_all [OF all, of "[]"] assms(4)
    by (simp add: from_entries.simps)
qed

subsection \<open>Objects\<close>

lemma valid_not_special:
  assumes "\<forall>(k, j)\<in>set m. validate_key k = Ok ()"
  shows "bm_get m priority_key = None" "bm_get m value_key = None" "bm_get m server_value_key = None"
  using assms special_keys_invalid
  by (auto simp: map_of_eq_None_iff value_key_def server_value_key_def)

lemma key_names [simp]:
  "value_key \<noteq> priority_key" "priority_key \<noteq> value_key" "server_value_key \<noteq> priority_key"
  by code_simp+

lemma from_object_kids:
  assumes "\<forall>(k, j)\<in>set m. validate_key k = Ok ()"
  shows "from_object limits depth bytes m = from_entries limits depth bytes m None"
proof -
  note sp = valid_not_special [OF assms]
  have "bm_remove priority_key m = m" using sp(1) by (intro bm_remove_absent) (simp add: map_of_eq_None_iff)
  then show ?thesis using sp by (simp add: from_object.simps bm_contains_def)
qed

lemma priority_json [simp]: "priority_from_json (priority_to_json q) = Ok (Some q)"
  by (cases q) auto

lemma from_object_priority:
  assumes "\<forall>(k, j)\<in>set m. validate_key k = Ok ()" "bm_wf m"
  shows "from_object limits depth bytes (bm_insert priority_key (priority_to_json q) m) =
           from_entries limits depth bytes m (Some (double_priority q))"
proof -
  note sp = valid_not_special [OF assms(1)]
  have "bm_remove priority_key (bm_insert priority_key (priority_to_json q) m) = m"
    by (rule bmap.rem_ins [OF assms(2) sp(1)])
  then show ?thesis using sp by (simp add: from_object.simps bm_contains_def Let_def)
qed

subsection \<open>Arrays\<close>

lemma canonical_parse:
  assumes "canonical_index k" "parse_usize k = Some i"
  shows "k = dec_string i"
proof -
  have d: "list_all is_digit k" "k \<noteq> []" "hd k \<noteq> CHR ''0'' \<or> length k = 1"
    using assms(1) by (auto simp: canonical_index_def is_digit_def)
  have "hd k \<noteq> CHR ''+''" using d(1,2) by (cases k) (auto simp: is_digit_def)
  then have "i = dec_value k" using assms(2) by (simp add: parse_usize_def Let_def split: if_splits)
  then show ?thesis using dec_string_dec_value [OF d] by simp
qed

lemma parse_dec_string: "i < 2 ^ 64 \<Longrightarrow> parse_usize (dec_string i) = Some i"
proof -
  have "hd (dec_string i) \<noteq> CHR ''+''"
    using dec_string_digits [of i] by (cases "dec_string i") (auto simp: is_digit_def)
  then show "i < 2 ^ 64 \<Longrightarrow> parse_usize (dec_string i) = Some i"
    using dec_string_digits [of i] by (simp add: parse_usize_def Let_def)
qed

lemma array_max_Some:
  "array_max m ks = Some n \<Longrightarrow>
     m \<le> n \<and> (n = m \<or> dec_string n \<in> set ks) \<and>
     (\<forall>k\<in>set ks. \<exists>i. parse_usize k = Some i \<and> k = dec_string i \<and> i \<le> n)"
proof (induction m ks rule: array_max.induct)
  case (2 m key keys)
  then obtain i where i: "canonical_index key" "parse_usize key = Some i" "array_max (max m i) keys = Some n"
    by (auto split: if_splits option.splits)
  have "key = dec_string i" by (rule canonical_parse [OF i(1,2)])
  then show ?case using 2 i by (auto simp: max_def split: if_splits)
qed simp

lemma place_items_length: "length (place_items len kids) = len"
proof -
  have "length (foldl (\<lambda>items (key, j). case parse_usize key of
      Some i \<Rightarrow> if i < length items then items[i := j] else items | None \<Rightarrow> items) xs kids) = length xs" for xs
    by (induction kids arbitrary: xs) (auto split: option.split)
  then show ?thesis by (simp add: place_items_def)
qed

lemma place_items_snoc:
  "place_items len (kids @ [(k, j)]) =
     (case parse_usize k of
        Some i \<Rightarrow> if i < len then (place_items len kids)[i := j] else place_items len kids
      | None \<Rightarrow> place_items len kids)"
  using place_items_length [of len kids] unfolding place_items_def by (simp split: option.split)

lemma place_items_nth:
  assumes "\<forall>k\<in>set (map fst kids). \<exists>i. parse_usize k = Some i \<and> k = dec_string i"
    "distinct (map fst kids)" "i < len"
  shows "place_items len kids ! i = (case map_of kids (dec_string i) of None \<Rightarrow> JNull | Some j \<Rightarrow> j)"
  using assms
proof (induction kids rule: rev_induct)
  case Nil
  then show ?case by (simp add: place_items_def)
next
  case (snoc e kids)
  obtain k j where e: "e = (k, j)" by (cases e)
  obtain n where n: "parse_usize k = Some n" "k = dec_string n" using snoc.prems(1) e by auto
  have inj: "dec_string n = dec_string i \<longleftrightarrow> n = i" by (metis dec_value_dec_string)
  have "map_of kids k = None" using snoc.prems(2) e by (simp add: map_of_eq_None_iff)
  then have "map_of (kids @ [e]) (dec_string i) = (if n = i then Some j else map_of kids (dec_string i))"
    using e n inj by (auto simp: map_add_def split: option.split)
  then show ?case
    using snoc e n place_items_snoc [of len kids k j] place_items_length [of len kids]
    by (auto simp: nth_list_update)
qed

lemma map_of_enumerate:
  "map_of (enumerate_keys items) k =
     (if \<exists>i<length items. k = dec_string i then Some (items ! dec_value k) else None)"
proof -
  have inj: "inj dec_string" by (metis injI dec_value_dec_string)
  have "map_of (enumerate_keys items) (dec_string i) = Some (items ! i)" if "i < length items" for i
    using that inj unfolding enumerate_keys_def
    by (intro map_of_is_SomeI) (auto simp: distinct_map set_zip inj_on_def intro!: exI [of _ i])
  moreover have "map_of (enumerate_keys items) k = None" if "\<forall>i<length items. k \<noteq> dec_string i"
    using that by (fastforce simp: map_of_eq_None_iff enumerate_keys_def dest: set_zip_leftD)
  ultimately show ?thesis by auto
qed

lemma distinct_enumerate: "distinct (map fst (enumerate_keys items))"
proof -
  have "inj dec_string" by (metis injI dec_value_dec_string)
  then show ?thesis by (simp add: enumerate_keys_def distinct_map inj_on_def)
qed

subsection \<open>The round trip\<close>

lemma leaf_read:
  "fits limits depth bytes (Node (Leaf l) p) \<Longrightarrow>
     build limits depth bytes (leaf_to_json l) = Ok (Some (Node (Leaf l) None))"
  by (cases l) (auto simp: build.simps node_leaf_def)

lemma leaf_priority_read:
  assumes "fits limits depth bytes (Node (Leaf l) p)"
  shows "from_object limits depth bytes
      (bm_insert priority_key (priority_to_json q) (bm_insert value_key (leaf_to_json l) [])) =
      Ok (Some (Node (Leaf l) (Some (double_priority q))))"
proof -
  have "server_value_key \<noteq> value_key" by code_simp
  moreover have "bm_remove priority_key (bm_insert priority_key (priority_to_json q) [(value_key, leaf_to_json l)])
      = [(value_key, leaf_to_json l)]"
    by (rule bmap.rem_ins) (simp_all add: bm_wf_def)
  moreover have "\<not> is_container (leaf_to_json l)" by (cases l) auto
  ultimately show ?thesis
    using leaf_read [OF assms] by (simp add: from_object.simps bm_contains_def bm_remove_def Let_def)
qed

lemma array_read:
  assumes fit: "children_fit limits depth bytes cs" and wf: "bm_wf cs" "cs \<noteq> []"
    and len: "array_length cs = Some len" and depth: "depth + 1 \<le> max_depth limits"
    and IH: "\<forall>(k, c)\<in>set cs. build limits (depth + 1) (child_bytes depth bytes k) (to_json Plain c) = Ok (Some (g c))"
  shows "from_entries limits depth bytes (enumerate_keys (place_items len (kids_json Plain cs))) None =
      Ok (Some (Node (Children (map (\<lambda>(k, c). (k, g c)) cs)) None))"
proof -
  obtain m where m: "array_max 0 (map fst cs) = Some m" "len = m + 1"
    using len by (auto simp: array_length_def split: option.splits if_splits)
  note mx = array_max_Some [OF m(1)]
  let ?kids = "kids_json Plain cs"
  have keys: "map fst ?kids = map fst cs" by (simp add: kids_json_map case_prod_beta o_def)
  have "\<exists>k\<in>set (map fst cs). k = dec_string m"
  proof (cases "m = 0")
    case True
    obtain k where "k \<in> set (map fst cs)" using wf(2) by (cases cs) auto
    then show ?thesis using mx True by auto
  qed (use mx in blast)
  then obtain c where top: "(dec_string m, c) \<in> set cs" by auto
  have small: "validate_key (dec_string i) = Ok () \<and> child_bytes depth bytes (dec_string i) \<le> max_path_bytes limits"
    if "i < len" for i
    using that top fit dec_string_length_mono [of i m] m(2) validate_digits [OF dec_string_digits]
    unfolding children_fit_iff by (fastforce simp: child_bytes_def)
  have idx: "\<forall>k\<in>set (map fst ?kids). \<exists>i. parse_usize k = Some i \<and> k = dec_string i"
    unfolding keys using mx by blast
  have dis: "distinct (map fst ?kids)" unfolding keys by (rule bm_wf_distinct [OF wf(1)])
  have get: "map_of ?kids k = map_option (to_json Plain) (map_of cs k)" for k
    by (simp add: kids_json_map map_of_map_snd)
  have item: "place_items len ?kids ! i = (case map_of cs (dec_string i) of None \<Rightarrow> JNull | Some c \<Rightarrow> to_json Plain c)"
    if "i < len" for i
    using place_items_nth [OF idx dis that] unfolding get by (simp split: option.split)
  define f where "f = (\<lambda>k (_::json). map_option g (map_of cs k))"
  show ?thesis
  proof (rule from_entries_read [where f = f])
    have "build limits (depth + 1) (child_bytes depth bytes (dec_string i)) (place_items len ?kids ! i) =
        Ok (f (dec_string i) (place_items len ?kids ! i))" if "i < len" for i
    proof (cases "map_of cs (dec_string i)")
      case None
      then show ?thesis using item [OF that] depth by (simp add: f_def build.simps)
    next
      case (Some c)
      then show ?thesis using item [OF that] IH map_of_SomeD [OF Some] by (auto simp: f_def)
    qed
    then show "\<forall>(k, j)\<in>set (enumerate_keys (place_items len ?kids)).
        validate_key k = Ok () \<and> child_bytes depth bytes k \<le> max_path_bytes limits
        \<and> build limits (depth + 1) (child_bytes depth bytes k) j = Ok (f k j)"
      using small by (auto simp: enumerate_keys_def place_items_length set_zip)
    show "bm_get (map (\<lambda>(k, c). (k, g c)) cs) k =
        (case map_of (enumerate_keys (place_items len ?kids)) k of None \<Rightarrow> None | Some j \<Rightarrow> f k j)" for k
    proof (cases "\<exists>i<len. k = dec_string i")
      case False
      have "map_of cs k = None"
      proof (rule ccontr)
        assume "map_of cs k \<noteq> None"
        then have "k \<in> set (map fst cs)" by (simp add: map_of_eq_None_iff)
        then show False using mx False m(2) by fastforce
      qed
      then show ?thesis by (simp add: map_of_enumerate place_items_length map_of_map_snd f_def)
    qed (simp add: map_of_enumerate place_items_length map_of_map_snd f_def)
  qed (use wf in \<open>simp_all add: distinct_enumerate bm_wf_map_snd\<close>)
qed

lemma object_read:
  assumes fit: "children_fit limits depth bytes cs" and wf: "bm_wf cs" "cs \<noteq> []"
    and IH: "\<forall>(k, c)\<in>set cs. build limits (depth + 1) (child_bytes depth bytes k) (to_json fmt c) = Ok (Some (g c))"
  shows "from_entries limits depth bytes (kids_json fmt cs) p =
      Ok (Some (Node (Children (map (\<lambda>(k, c). (k, g c)) cs)) p))"
proof (rule from_entries_read [where f = "\<lambda>k _. map_option g (map_of cs k)"])
  have "validate_key k = Ok () \<and> child_bytes depth bytes k \<le> max_path_bytes limits
      \<and> build limits (depth + 1) (child_bytes depth bytes k) j = Ok (map_option g (map_of cs k))"
    if kj: "(k, j) \<in> set (kids_json fmt cs)" for k j
  proof -
    obtain c where c: "(k, c) \<in> set cs" "j = to_json fmt c" using kj by (auto simp: kids_json_map)
    then have "map_of cs k = Some c" by (simp add: bm_get_eq_Some [OF wf(1)])
    then show ?thesis using fit IH c unfolding children_fit_iff by auto
  qed
  then show "\<forall>(k, j)\<in>set (kids_json fmt cs).
      validate_key k = Ok () \<and> child_bytes depth bytes k \<le> max_path_bytes limits
      \<and> build limits (depth + 1) (child_bytes depth bytes k) j = Ok (map_option g (map_of cs k))"
    by blast
  show "distinct (map fst (kids_json fmt cs))"
    using bm_wf_distinct [OF wf(1)] by (simp add: kids_json_map case_prod_beta o_def)
  show "bm_get (map (\<lambda>(k, c). (k, g c)) cs) k =
      (case map_of (kids_json fmt cs) k of None \<Rightarrow> None | Some j \<Rightarrow> map_option g (map_of cs k))" for k
    by (simp add: kids_json_map map_of_map_snd split: option.split)
qed (use wf in \<open>simp_all add: bm_wf_map_snd\<close>)

lemma kids_valid:
  "children_fit limits depth bytes cs \<Longrightarrow> \<forall>(k, j)\<in>set (kids_json fmt cs). validate_key k = Ok ()"
  unfolding children_fit_iff by (auto simp: kids_json_map)

lemma render_read:
  "fits limits depth bytes n \<Longrightarrow> node_wf n \<Longrightarrow>
     build limits depth bytes (to_json fmt n) = Ok (Some (read_node fmt n))"
  "children_fit limits depth bytes cs \<Longrightarrow> children_wf cs \<Longrightarrow>
     \<forall>(k, c)\<in>set cs. build limits (depth + 1) (child_bytes depth bytes k) (to_json fmt c) = Ok (Some (read_node fmt c))"
proof (induction limits depth bytes n and limits depth bytes cs rule: fits_children_fit.induct)
  case (1 limits depth bytes l p)
  then have d: "\<not> max_depth limits < depth" by simp
  show ?case
  proof (cases "case fmt of Plain \<Rightarrow> None | Export \<Rightarrow> p")
    case None
    then show ?thesis using leaf_read [OF 1(1)] by (cases fmt) auto
  next
    case (Some q)
    then have "fmt = Export" "p = Some q" by (cases fmt; simp)+
    then show ?thesis using leaf_priority_read [OF 1(1), of q] d by (simp add: build.simps)
  qed
next
  case (2 limits depth bytes cs p)
  then have d: "\<not> max_depth limits < depth" and fit: "children_fit limits depth bytes cs"
    and wf: "bm_wf cs" "cs \<noteq> []" by auto
  have kids: "\<forall>(k, c)\<in>set cs. build limits (depth + 1) (child_bytes depth bytes k) (to_json fmt c) = Ok (Some (read_node fmt c))"
    using 2 by simp
  have deeper: "depth + 1 \<le> max_depth limits"
    using wf(2) fit by (cases cs) (auto elim: fits.elims)
  note obj = object_read [OF fit wf kids] and arr = array_read [OF fit wf _ deeper, of _ "read_node Plain"]
  show ?case
  proof (cases fmt)
    case Plain
    have "build limits depth bytes (JArray (place_items len (kids_json Plain cs))) =
        Ok (Some (Node (Children (read_kids Plain cs)) None))" if "array_length cs = Some len" for len
      using arr [OF that] kids d Plain by (simp add: build.simps read_kids_map)
    moreover have "build limits depth bytes (JObject (kids_json Plain cs)) =
        Ok (Some (Node (Children (read_kids Plain cs)) None))"
      using obj [of None] d Plain from_object_kids [OF kids_valid [OF fit]]
      by (simp add: build.simps read_kids_map)
    ultimately show ?thesis using Plain by (simp add: Let_def split: option.split)
  next
    case Export
    have "bm_wf (kids_json Export cs)" using wf(1) by (simp add: kids_json_map bm_wf_map_snd)
    then show ?thesis
      using obj d Export from_object_kids [OF kids_valid [OF fit]] from_object_priority [OF kids_valid [OF fit]]
      by (cases p) (simp_all add: build.simps read_kids_map)
  qed
qed auto

text \<open>Priorities built from JSON are strings or doubles already, so the export form is exact.\<close>

lemma double_priority_idem [simp]: "double_priority (double_priority q) = double_priority q"
  by (cases q) auto

lemma read_kids_fix: "read_kids fmt cs = cs \<longleftrightarrow> (\<forall>(k, c)\<in>set cs. read_node fmt c = c)"
  by (induction cs) auto

lemma read_with_priority:
  "read_node Export n = n \<Longrightarrow> map_option double_priority q = q \<Longrightarrow>
     read_node Export (with_priority q n) = with_priority q n"
  by (cases n; cases "content_of n") auto

lemma object_priority_double:
  assumes "(case bm_get m priority_key of
        Some j \<Rightarrow> and_then (priority_from_json j) (\<lambda>p. Ok (map_option double_priority p))
      | None \<Rightarrow> Ok None) = Ok q"
  shows "map_option double_priority q = q"
  using assms by (auto simp: and_then_eq_Inr option.map_comp comp_def split: option.splits)

lemma build_export_fixed:
  "build limits depth bytes j = Ok r \<Longrightarrow> \<forall>n. r = Some n \<longrightarrow> read_node Export n = n"
  "from_object limits depth bytes m = Ok r \<Longrightarrow> \<forall>n. r = Some n \<longrightarrow> read_node Export n = n"
  "from_entries limits depth bytes es p = Ok r \<Longrightarrow> map_option double_priority p = p \<Longrightarrow>
     \<forall>n. r = Some n \<longrightarrow> read_node Export n = n"
  "build_children limits depth bytes es acc = Ok cs \<Longrightarrow>
     \<forall>(k, c)\<in>set acc. read_node Export c = c \<Longrightarrow> \<forall>(k, c)\<in>set cs. read_node Export c = c"
proof (induction limits depth bytes j and limits depth bytes m and limits depth bytes es p
    and limits depth bytes es acc arbitrary: r and r and r and cs
    rule: build_from_object_from_entries_build_children.induct)
  case (1 limits depth bytes j)
  then show ?case
    by (cases j) (auto simp: build.simps node_leaf_def split: if_splits)
next
  case (2 limits depth bytes m)
  from 2(3) obtain q where q: "\<not> bm_contains m server_value_key"
    "(case bm_get m priority_key of
           Some j \<Rightarrow> and_then (priority_from_json j) (\<lambda>p. Ok (map_option double_priority p))
         | None \<Rightarrow> Ok None) = Ok q"
    by (auto simp: from_object.simps and_then_eq_Inr split: if_splits)
  note d = object_priority_double [OF q(2)]
  show ?case
  proof (cases "bm_get (bm_remove priority_key m) value_key")
    case None
    then show ?thesis using 2(1) [OF q(1) q(2) refl None] 2(3) q d
      by (simp add: from_object.simps Let_def)
  next
    case (Some v)
    then show ?thesis using 2(2) [OF q(1) q(2) refl Some] 2(3) q d
      by (auto simp: from_object.simps Let_def and_then_eq_Inr read_with_priority split: if_splits)
  qed
next
  case (3 limits depth bytes es p)
  then show ?case
    by (auto simp: from_entries.simps and_then_eq_Inr read_kids_fix split: if_splits)
next
  case (5 limits depth bytes key v es acc)
  from 5(3) obtain c where c: "validate_key key = Ok ()"
      "check_path_bytes (child_bytes depth bytes key) limits = Ok ()"
      "build limits (depth + 1) (child_bytes depth bytes key) v = Ok c"
      "build_children limits depth bytes es (case c of Some child \<Rightarrow> bm_insert key child acc | None \<Rightarrow> acc) = Ok cs"
    by (auto simp: and_then_eq_Inr Let_def child_bytes_def)
  have "\<forall>n. c = Some n \<longrightarrow> read_node Export n = n"
    by (rule 5(1) [OF c(1) refl refl c(2,3) [unfolded child_bytes_def]])
  then have acc: "\<forall>(k, n)\<in>set (case c of Some child \<Rightarrow> bm_insert key child acc | None \<Rightarrow> acc). read_node Export n = n"
    using 5(4) by (cases c) (auto simp: set_bm_insert)
  show ?case
    by (rule 5(2) [OF c(1) refl refl c(2,3) [unfolded child_bytes_def] c(4) acc])
qed simp

text \<open>C34: A value accepted for a location becomes a well-formed node (no empty maps, keys in order)
  within the depth, path and string limits, and both renderings of that node are accepted again
  there: \<open>format=export\<close> reads back as the same node, priorities included, and the plain form
  (index-keyed children as arrays) as the same node without priorities.\<close>

theorem json_round_trip:
  assumes "node_from_json j p limits = Ok (Some n)"
  shows "node_wf n \<and> fits limits (length p) (path_byte_len p) n
    \<and> node_from_json (to_json Export n) p limits = Ok (Some n)
    \<and> node_from_json (to_json Plain n) p limits = Ok (Some (read_node Plain n))"
proof -
  have b: "build limits (length p) (path_byte_len p) j = Ok (Some n)"
    using assms by (simp add: node_from_json_def)
  have "node_wf n" "fits limits (length p) (path_byte_len p) n"
    using build_sound(1) [OF b] by simp_all
  then show ?thesis
    using render_read(1) [of limits "length p" "path_byte_len p" n] build_export_fixed(1) [OF b]
    by (simp add: node_from_json_def)
qed

definition sample_limits :: db_limits where
  "sample_limits = \<lparr>max_depth = 4, max_path_bytes = 20, max_string_bytes = 8\<rparr>"

definition sample_json :: json where
  "sample_json = JObject [(''.priority'', JString ''p''), (''a'', JArray [JNull, JBool True]),
     (''b'', JObject [(''.priority'', JString ''q''), (''.value'', JString ''x'')])]"

definition sample_node :: node where
  "sample_node = Node (Children [(''a'', Node (Children [(''1'', Node (Leaf (LBool True)) None)]) None),
     (''b'', Node (Leaf (LString ''x'')) (Some (PString ''q'')))]) (Some (PString ''p''))"

theorem json_round_trip_witness:
  "node_from_json sample_json [''r''] sample_limits = Ok (Some sample_node)
   \<and> node_from_json (to_json Export sample_node) [''r''] sample_limits = Ok (Some sample_node)"
proof -
  have s: "node_from_json sample_json [''r''] sample_limits = Ok (Some sample_node)" by code_simp
  show ?thesis using json_round_trip [OF s] s by simp
qed

end
