(* ===== verification/Db_Server_Value.thy ===== *)
theory Db_Server_Value
  imports Db_Build
begin

text \<open>
  Server value placeholders (crates/fireemu-core-database/src/server_value.rs): resolution of
  \<open>timestamp\<close> and \<open>increment\<close> against the stored node. A resolved value holds no placeholder,
  and a value without placeholders resolves to itself.
\<close>

section \<open>Resolution\<close>

definition stored_priority :: "node option \<Rightarrow> node option" where
  "stored_priority n =
     (case n of
        None \<Rightarrow> None
      | Some n \<Rightarrow> map_option (\<lambda>p. node_leaf (as_leaf p)) (priority_of n))"

definition existing_child :: "node option \<Rightarrow> string \<Rightarrow> node option" where
  "existing_child n key = (case n of None \<Rightarrow> None | Some n \<Rightarrow> node_child n key)"

fun has_server_value :: "json \<Rightarrow> bool" where
  "has_server_value (JObject m) \<longleftrightarrow>
     bm_contains m server_value_key \<or> list_ex (\<lambda>(_, v). has_server_value v) m"
| "has_server_value (JArray items) \<longleftrightarrow> list_ex has_server_value items"
| "has_server_value _ \<longleftrightarrow> False"

definition incremented :: "number \<Rightarrow> node option \<Rightarrow> number" where
  "incremented delta existing =
     (case map_option content_of existing of
        Some (Leaf (LNumber current)) \<Rightarrow> increment current delta
      | _ \<Rightarrow> delta)"

fun resolve_placeholder :: "json \<Rightarrow> node option \<Rightarrow> int \<Rightarrow> (error_kind, json) result" where
  "resolve_placeholder (JString name) existing now_millis =
     (if name = ''timestamp'' then Ok (JNumber (IntN now_millis)) else Err InvalidServerValue)"
| "resolve_placeholder (JObject operation) existing now_millis =
     (if length operation = 1 then
        case bm_get operation ''increment'' of
          Some (JNumber delta) \<Rightarrow> Ok (JNumber (incremented delta existing))
        | _ \<Rightarrow> Err InvalidServerValue
      else Err InvalidServerValue)"
| "resolve_placeholder _ existing now_millis = Err InvalidServerValue"

function (sequential) resolve :: "json \<Rightarrow> node option \<Rightarrow> int \<Rightarrow> (error_kind, json) result"
  and resolve_items :: "nat \<Rightarrow> json list \<Rightarrow> node option \<Rightarrow> int \<Rightarrow> (error_kind, json list) result"
  and resolve_members :: "(string \<times> json) list \<Rightarrow> node option \<Rightarrow> int
        \<Rightarrow> (error_kind, (string \<times> json) list) result" where
  "resolve (JArray items) existing now_millis =
     and_then (resolve_items 0 items existing now_millis) (\<lambda>resolved. Ok (JArray resolved))"
| "resolve (JObject m) existing now_millis =
     (case bm_get m server_value_key of
        Some placeholder \<Rightarrow>
          if list_ex (\<lambda>(k, _). k \<noteq> server_value_key \<and> k \<noteq> priority_key) m then Err InvalidServerValue
          else and_then (resolve_placeholder placeholder existing now_millis)
            (\<lambda>v. case bm_get m priority_key of
                   None \<Rightarrow> Ok v
                 | Some p \<Rightarrow>
                     and_then (resolve p (stored_priority existing) now_millis)
                       (\<lambda>p. Ok (JObject (bm_insert priority_key p (bm_insert value_key v [])))))
      | None \<Rightarrow>
          and_then (resolve_members m existing now_millis) (\<lambda>resolved. Ok (JObject resolved)))"
| "resolve json existing now_millis = Ok json"
| "resolve_items index [] existing now_millis = Ok []"
| "resolve_items index (item # items) existing now_millis =
     and_then (resolve item (existing_child existing (dec_string index)) now_millis)
       (\<lambda>v. and_then (resolve_items (index + 1) items existing now_millis) (\<lambda>vs. Ok (v # vs)))"
| "resolve_members [] existing now_millis = Ok []"
| "resolve_members ((key, v) # members) existing now_millis =
     and_then
       (if key = value_key then resolve v existing now_millis
        else if key = priority_key then resolve v (stored_priority existing) now_millis
        else resolve v (existing_child existing key) now_millis)
       (\<lambda>r. and_then (resolve_members members existing now_millis) (\<lambda>rs. Ok ((key, r) # rs)))"
  by pat_completeness auto
termination
proof (relation "measures
    [\<lambda>x. case x of
        Inl (j, _, _) \<Rightarrow> json_weight j
      | Inr (Inl (_, items, _, _)) \<Rightarrow> sum_list (map json_weight items)
      | Inr (Inr (m, _, _)) \<Rightarrow> entries_weight m,
     \<lambda>x. case x of Inl _ \<Rightarrow> 0 | _ \<Rightarrow> Suc 0]", goal_cases)
qed (auto simp: json_weight_object entries_weight_get less_Suc_eq_le simp del: json_weight.simps(6))

section \<open>What resolution guarantees\<close>

lemma resolve_placeholder_Ok:
  "resolve_placeholder j existing now = Ok v \<Longrightarrow> \<exists>n. v = JNumber n"
  by (cases j) (auto split: if_splits option.splits json.splits)

lemma resolve_keys:
  "resolve_members m existing now = Ok rs \<Longrightarrow> map fst rs = map fst m"
  by (induction m arbitrary: rs) (auto simp: and_then_eq_Inr)

lemma bm_contains_keys: "map fst m = map fst n \<Longrightarrow> bm_contains m k = bm_contains n k"
  by (metis bm_contains_iff list.set_map)

lemma resolve_clean:
  "resolve j existing now = Ok v \<Longrightarrow> \<not> has_server_value v"
  "resolve_items i items existing now = Ok vs \<Longrightarrow> \<not> list_ex has_server_value vs"
  "resolve_members m existing now = Ok rs \<Longrightarrow> \<not> list_ex (\<lambda>(_, v). has_server_value v) rs"
proof (induction j existing now and i items existing now and m existing now
    arbitrary: v and vs and rs rule: resolve_resolve_items_resolve_members.induct)
  case (2 m existing now)
  show ?case
  proof (cases "bm_get m server_value_key")
    case None
    then obtain rs where rs: "resolve_members m existing now = Ok rs" "v = JObject rs"
      using 2(3) by (auto simp: and_then_eq_Inr)
    then have "\<not> bm_contains rs server_value_key"
      using None bm_contains_keys [OF resolve_keys [OF rs(1)]] by (simp add: bm_contains_def)
    then show ?thesis using 2(1) [OF None rs(1)] rs(2) by simp
  next
    case (Some ph)
    have keys: "server_value_key \<noteq> value_key" "server_value_key \<noteq> priority_key" by code_simp+
    obtain w where w: "resolve_placeholder ph existing now = Ok w"
        "\<not> list_ex (\<lambda>(k, _). k \<noteq> server_value_key \<and> k \<noteq> priority_key) m"
      using 2(3) Some by (auto simp: and_then_eq_Inr split: if_splits)
    obtain n where n: "w = JNumber n" using resolve_placeholder_Ok [OF w(1)] by blast
    show ?thesis
    proof (cases "bm_get m priority_key")
      case None
      then show ?thesis using 2(3) Some w n by auto
    next
      case (Some p)
      then obtain p' where p': "resolve p (stored_priority existing) now = Ok p'"
          "v = JObject (bm_insert priority_key p' (bm_insert value_key w []))"
        using 2(3) \<open>bm_get m server_value_key = Some ph\<close> w by (auto simp: and_then_eq_Inr)
      have "\<not> has_server_value p'"
        by (rule 2(2) [OF \<open>bm_get m server_value_key = Some ph\<close> w(2) w(1) Some p'(1)])
      then show ?thesis using p'(2) n keys
        by (auto simp: bm_contains_def list_ex_iff set_bm_insert)
    qed
  qed
qed (auto simp: and_then_eq_Inr split: if_splits)

lemma resolve_identity:
  "\<not> has_server_value j \<Longrightarrow> resolve j existing now = Ok j"
  "\<not> list_ex has_server_value items \<Longrightarrow> resolve_items i items existing now = Ok items"
  "\<not> list_ex (\<lambda>(_, v). has_server_value v) m \<Longrightarrow> resolve_members m existing now = Ok m"
  by (induction j existing now and i items existing now and m existing now
      rule: resolve_resolve_items_resolve_members.induct) (auto simp: bm_contains_def)

end
