(* ===== verification/Db_Tree.thy ===== *)
theory Db_Tree
  imports Db_Server_Value "HOL-Library.Sublist"
begin

text \<open>
  The tree of one database namespace (crates/fireemu-core-database/src/tree.rs): reads, single
  writes and multipath updates. The specification is the pair of maps from paths to leaf
  values and to priorities; the lemmas show that a write changes exactly the part of the maps
  it names, and that the maps determine the tree.
\<close>

section \<open>Operations\<close>

datatype db_write =
    WriteValue path "node option"
  | WritePriority path "priority option"
  | WriteUnchanged "node option"

record db_tree =
  tr_root :: "node option"
  tr_limits :: db_limits

definition tree_new :: "db_limits \<Rightarrow> db_tree" where
  "tree_new limits = \<lparr>tr_root = None, tr_limits = limits\<rparr>"

definition node_get :: "node option \<Rightarrow> path \<Rightarrow> node option" where
  "node_get root p = (case root of None \<Rightarrow> None | Some n \<Rightarrow> descendant n p)"

definition tree_get :: "db_tree \<Rightarrow> path \<Rightarrow> node option" where
  "tree_get t p = node_get (tr_root t) p"

definition parent_or_root :: "path \<Rightarrow> path" where
  "parent_or_root p = (case path_parent p of Some q \<Rightarrow> q | None \<Rightarrow> [])"

definition get_json :: "db_tree \<Rightarrow> path \<Rightarrow> format \<Rightarrow> json" where
  "get_json t p fmt =
     (if is_priority p then
        (case tree_get t (parent_or_root p) of
           None \<Rightarrow> JNull
         | Some n \<Rightarrow> (case priority_of n of None \<Rightarrow> JNull | Some q \<Rightarrow> priority_to_json q))
      else case tree_get t p of None \<Rightarrow> JNull | Some n \<Rightarrow> to_json fmt n)"

fun replace :: "node option \<Rightarrow> path \<Rightarrow> node option \<Rightarrow> node option" where
  "replace n [] v = v"
| "replace None (key # rest) v =
     map_option (\<lambda>child. Node (Children [(key, child)]) None) (replace None rest v)"
| "replace (Some (Node (Leaf l) p)) (key # rest) v =
     (case replace None rest v of
        None \<Rightarrow> Some (Node (Leaf l) p)
      | Some child \<Rightarrow> Some (Node (Children [(key, child)]) p))"
| "replace (Some (Node (Children cs) p)) (key # rest) v =
     (let cs1 = bm_remove key cs
      in case replace (bm_get cs key) rest v of
           Some child \<Rightarrow> Some (Node (Children (bm_insert key child cs1)) p)
         | None \<Rightarrow> if cs1 = [] then None else Some (Node (Children cs1) p))"

text \<open>The write of \<open>get_mut\<close>: the priority of the node at a path, if there is one.\<close>

fun set_priority_at :: "node \<Rightarrow> path \<Rightarrow> priority option \<Rightarrow> node" where
  "set_priority_at n [] q = with_priority q n"
| "set_priority_at (Node (Leaf l) p) (key # rest) q = Node (Leaf l) p"
| "set_priority_at (Node (Children cs) p) (key # rest) q =
     (case bm_get cs key of
        None \<Rightarrow> Node (Children cs) p
      | Some c \<Rightarrow> Node (Children (bm_insert key (set_priority_at c rest q) cs)) p)"

fun tree_apply :: "db_write \<Rightarrow> db_tree \<Rightarrow> db_tree" where
  "tree_apply (WriteValue p n) t = t\<lparr>tr_root := replace (tr_root t) p n\<rparr>"
| "tree_apply (WritePriority p q) t =
     t\<lparr>tr_root := map_option (\<lambda>n. set_priority_at n p q) (tr_root t)\<rparr>"
| "tree_apply (WriteUnchanged _) t = t"

definition prepare :: "db_tree \<Rightarrow> path \<Rightarrow> json \<Rightarrow> int \<Rightarrow> (error_kind, db_write) result" where
  "prepare t p v now_millis =
     (if is_info p then Err ReadOnlyPath
      else if is_priority p then
        let parent = parent_or_root p
        in case tree_get t parent of
             None \<Rightarrow> Err PriorityOnAbsentNode
           | Some n \<Rightarrow>
               and_then (resolve v (stored_priority (Some n)) now_millis)
                 (\<lambda>resolved. and_then (priority_from_json resolved)
                    (\<lambda>q. if option_eq priority_eq q (priority_of n) then Ok (WriteUnchanged None)
                         else Ok (WritePriority parent q)))
      else and_then (resolve v (tree_get t p) now_millis)
             (\<lambda>resolved. and_then (node_from_json resolved p (tr_limits t))
                (\<lambda>n. if option_eq node_eq n (tree_get t p) then Ok (WriteUnchanged n)
                     else Ok (WriteValue p n))))"

fun written_node :: "db_write \<Rightarrow> node option" where
  "written_node (WriteValue _ n) = n"
| "written_node (WriteUnchanged n) = n"
| "written_node (WritePriority _ _) = None"

definition tree_set :: "path \<Rightarrow> json \<Rightarrow> int \<Rightarrow> db_tree \<Rightarrow> (error_kind, node option) result \<times> db_tree" where
  "tree_set p v now_millis t =
     (case prepare t p v now_millis of
        Inl e \<Rightarrow> (Err e, t)
      | Inr w \<Rightarrow> (Ok (written_node w), tree_apply w t))"

definition replace_root :: "node option \<Rightarrow> db_tree \<Rightarrow> db_tree" where
  "replace_root root t = (if option_eq node_eq root (tr_root t) then t else t\<lparr>tr_root := root\<rparr>)"

subsection \<open>Multipath updates\<close>

fun check_windows :: "path list \<Rightarrow> (error_kind, unit) result" where
  "check_windows (a # b # ps) =
     (if path_contains a b then Err OverlappingUpdate else check_windows (b # ps))"
| "check_windows _ = Ok ()"

definition check_disjoint :: "path list \<Rightarrow> (error_kind, unit) result" where
  "check_disjoint paths = check_windows (sort paths)"

fun update_paths :: "db_limits \<Rightarrow> path \<Rightarrow> (string \<times> json) list \<Rightarrow> (error_kind, path list) result" where
  "update_paths limits base [] = Ok []"
| "update_paths limits base ((relative, _) # entries) =
     and_then (path_parse relative limits)
       (\<lambda>r. and_then (path_parse (path_display (path_join base r)) limits)
          (\<lambda>p. and_then (update_paths limits base entries) (\<lambda>ps. Ok (p # ps))))"

fun prepare_all :: "db_tree \<Rightarrow> path list \<Rightarrow> (string \<times> json) list \<Rightarrow> int \<Rightarrow> (error_kind, db_write list) result" where
  "prepare_all t (p # ps) ((_, v) # entries) now_millis =
     and_then (prepare t p v now_millis)
       (\<lambda>w. and_then (prepare_all t ps entries now_millis) (\<lambda>ws. Ok (w # ws)))"
| "prepare_all t _ _ now_millis = Ok []"

fun is_priority_write :: "db_write \<Rightarrow> bool" where
  "is_priority_write (WritePriority _ _) = True"
| "is_priority_write _ = False"

definition tree_update ::
  "path \<Rightarrow> (string \<times> json) list \<Rightarrow> int \<Rightarrow> db_tree \<Rightarrow> (error_kind, unit) result \<times> db_tree" where
  "tree_update base entries now_millis t =
     (if entries = [] then (Ok (), t)
      else case and_then (update_paths (tr_limits t) base entries)
             (\<lambda>paths. and_then (check_disjoint paths)
                (\<lambda>_. prepare_all t paths entries now_millis)) of
        Inl e \<Rightarrow> (Err e, t)
      | Inr writes \<Rightarrow>
          (Ok (), foldl (\<lambda>t w. tree_apply w t) t
             (filter (\<lambda>w. \<not> is_priority_write w) writes @ filter is_priority_write writes)))"

section \<open>The maps a tree stands for\<close>

fun leaf_of :: "node \<Rightarrow> leaf option" where
  "leaf_of (Node (Leaf l) _) = Some l"
| "leaf_of (Node (Children _) _) = None"

definition leaf_at :: "node option \<Rightarrow> path \<Rightarrow> leaf option" where
  "leaf_at n p = (case node_get n p of None \<Rightarrow> None | Some m \<Rightarrow> leaf_of m)"

definition priority_at :: "node option \<Rightarrow> path \<Rightarrow> priority option" where
  "priority_at n p = (case node_get n p of None \<Rightarrow> None | Some m \<Rightarrow> priority_of m)"

definition opt_wf :: "node option \<Rightarrow> bool" where
  "opt_wf n = (case n of None \<Rightarrow> True | Some m \<Rightarrow> node_wf m)"

lemma node_get_None [simp]: "node_get None p = None"
  by (simp add: node_get_def)

lemma node_get_Nil [simp]: "node_get n [] = n"
  by (cases n) (simp_all add: node_get_def)

lemma node_get_Cons:
  "node_get n (k # p) = node_get (existing_child n k) p"
  by (cases n) (simp_all add: node_get_def existing_child_def split: option.split)

lemma node_get_append: "node_get n (p @ q) = node_get (node_get n p) q"
  by (induction p arbitrary: n) (simp_all add: node_get_Cons)

lemma leaf_at_simps [simp]:
  "leaf_at None p = None"
  "leaf_at n (k # p) = leaf_at (existing_child n k) p"
  by (simp_all add: leaf_at_def node_get_Cons)

lemma leaf_at_append: "leaf_at n (p @ q) = leaf_at (node_get n p) q"
  by (simp add: leaf_at_def node_get_append)

lemma priority_at_simps [simp]:
  "priority_at None p = None"
  "priority_at n (k # p) = priority_at (existing_child n k) p"
  by (simp_all add: priority_at_def node_get_Cons)

lemma existing_child_simps [simp]:
  "existing_child None k = None"
  "existing_child (Some (Node (Leaf l) p)) k = None"
  "existing_child (Some (Node (Children cs) p)) k = bm_get cs k"
  by (simp_all add: existing_child_def)

lemma opt_wf_simps [simp]:
  "opt_wf None" "opt_wf (Some n) = node_wf n"
  by (simp_all add: opt_wf_def)

lemma node_wf_child: "node_wf (Node (Children cs) p) \<Longrightarrow> opt_wf (bm_get cs k)"
  by (cases "bm_get cs k") (auto simp: children_wf_iff dest: map_of_SomeD)

lemma opt_wf_existing: "opt_wf n \<Longrightarrow> opt_wf (existing_child n k)"
proof (cases n)
  case (Some m)
  then show "opt_wf n \<Longrightarrow> ?thesis"
    by (cases m; cases "content_of m") (auto simp: existing_child_def node_wf_child simp del: node_wf.simps(2))
qed simp

lemma opt_wf_get: "opt_wf n \<Longrightarrow> opt_wf (node_get n p)"
  by (induction p arbitrary: n) (auto simp: node_get_Cons opt_wf_existing)

section \<open>Replacing a location\<close>

lemma replace_child:
  "existing_child (replace n (key # rest) v) k =
     (if k = key then replace (existing_child n key) rest v else existing_child n k)"
proof -
  consider (none) "n = None" | (leaf) l p where "n = Some (Node (Leaf l) p)"
    | (children) cs p where "n = Some (Node (Children cs) p)"
    by (metis content.exhaust node.exhaust option.exhaust)
  then show ?thesis
  proof cases
    case children
    have rem: "bm_get (bm_remove key cs) k = (if k = key then None else bm_get cs k)" by simp
    show ?thesis
    proof (cases "replace (bm_get cs key) rest v")
      case None
      then show ?thesis using rem children by (cases "bm_remove key cs = []") auto
    next
      case (Some c)
      then show ?thesis using rem children by auto
    qed
  qed (cases "replace None rest v"; auto)+
qed



lemma replace_None_iff: "replace None p v = None \<longleftrightarrow> v = None"
  by (induction p) auto

lemma node_get_replace_below:
  "node_get (replace n p v) (p @ q) = node_get v q"
  by (induction p arbitrary: n) (auto simp: node_get_Cons replace_child)

lemma node_get_replace_disjoint:
  "\<not> prefix p q \<Longrightarrow> \<not> prefix q p \<Longrightarrow> node_get (replace n p v) q = node_get n q"
proof (induction p arbitrary: n q)
  case (Cons key rest)
  then obtain k q' where q: "q = k # q'" by (cases q) auto
  then show ?case using Cons by (cases "k = key") (auto simp: node_get_Cons replace_child)
qed simp

text \<open>Above the location: a leaf in the way is displaced by a value, and stays over a deletion.\<close>

lemma leaf_at_replace_above:
  "strict_prefix q p \<Longrightarrow>
     leaf_at (replace n p v) q = (if v = None then leaf_at n q else None)"
proof (induction p arbitrary: n q)
  case (Cons key rest)
  show ?case
  proof (cases q)
    case Nil
    have r: "replace None rest v = None \<longleftrightarrow> v = None" by (rule replace_None_iff)
    show ?thesis
    proof (cases n)
      case None
      then show ?thesis using Nil r by (cases "replace None rest v") (auto simp: leaf_at_def)
    next
      case (Some m)
      then show ?thesis using Nil r
        by (cases m; cases "content_of m"; cases "replace None rest v")
          (auto simp: leaf_at_def Let_def split: option.split)
    qed
  next
    case (Cons k q')
    then show ?thesis using Cons.prems Cons.IH [of q' "existing_child n key"]
      by (auto simp: replace_child)
  qed
qed simp

lemma leaf_at_replace:
  shows "leaf_at (replace n p v) q =
     (if prefix p q then leaf_at v (drop (length p) q)
      else if strict_prefix q p \<and> v \<noteq> None then None
      else leaf_at n q)"
proof -
  consider (below) r where "q = p @ r" | (above) "strict_prefix q p" | (apart) "\<not> prefix p q" "\<not> prefix q p"
    by (metis prefixE prefix_order.le_less)
  then show ?thesis
  proof cases
    case below
    then show ?thesis using node_get_replace_below [of n p v r] by (simp add: leaf_at_def)
  next
    case above
    then have "\<not> prefix p q" by (meson prefix_order.less_le_not_le)
    then show ?thesis using leaf_at_replace_above [OF above, of n v] above by simp
  next
    case apart
    then show ?thesis using node_get_replace_disjoint [OF apart, of n v]
      by (auto simp: leaf_at_def strict_prefix_def)
  qed
qed

text \<open>Priorities above the location stay while the node they belong to stays.\<close>

lemma priority_at_replace_above:
  "strict_prefix q p \<Longrightarrow>
     priority_at (replace n p v) q = (if node_get (replace n p v) q = None then None else priority_at n q)"
proof (induction p arbitrary: n q)
  case (Cons key rest)
  show ?case
  proof (cases q)
    case Nil
    show ?thesis
    proof (cases n)
      case None
      then show ?thesis using Nil by (cases "replace None rest v") (auto simp: priority_at_def)
    next
      case (Some m)
      then show ?thesis using Nil
        by (cases m; cases "content_of m"; cases "replace None rest v")
          (auto simp: priority_at_def Let_def split: option.split)
    qed
  next
    case (Cons k q')
    then show ?thesis using Cons.prems Cons.IH [of q' "existing_child n key"]
      by (auto simp: replace_child node_get_Cons)
  qed
qed simp

lemma priority_at_replace:
  shows "priority_at (replace n p v) q =
     (if prefix p q then priority_at v (drop (length p) q)
      else if node_get (replace n p v) q = None then None
      else priority_at n q)"
proof -
  consider (below) r where "q = p @ r" | (above) "strict_prefix q p" | (apart) "\<not> prefix p q" "\<not> prefix q p"
    by (metis prefixE prefix_order.le_less)
  then show ?thesis
  proof cases
    case below
    then show ?thesis using node_get_replace_below [of n p v r] by (simp add: priority_at_def)
  next
    case above
    then have "\<not> prefix p q" by (meson prefix_order.less_le_not_le)
    then show ?thesis using priority_at_replace_above [OF above, of n v] by simp
  next
    case apart
    then show ?thesis using node_get_replace_disjoint [OF apart, of n v] by (auto simp: priority_at_def)
  qed
qed

text \<open>Replacing keeps nodes well formed.\<close>

lemma children_wf_remove: "children_wf cs \<Longrightarrow> children_wf (bm_remove k cs)"
  by (auto simp: children_wf_iff set_bm_remove)

lemma replace_wf: "opt_wf n \<Longrightarrow> opt_wf v \<Longrightarrow> opt_wf (replace n p v)"
proof (induction n p v rule: replace.induct)
  case (2 key rest v)
  then show ?case by (cases "replace None rest v") (auto simp: bm_wf_def)
next
  case (3 l p key rest v)
  then show ?case by (cases "replace None rest v") (auto simp: bm_wf_def)
next
  case (4 cs p key rest v)
  have w: "bm_wf (bm_remove key cs)" "children_wf (bm_remove key cs)"
    using 4(2) by (auto intro: children_wf_remove)
  have "opt_wf (replace (bm_get cs key) rest v)"
    using 4 node_wf_child [of cs p key] by (intro 4(1)) auto
  then show ?case using w
    by (cases "replace (bm_get cs key) rest v") (auto simp: Let_def children_wf_insert)
qed simp

section \<open>Setting a priority\<close>

lemma set_priority_child:
  "existing_child (Some (set_priority_at n (key # rest) q)) k =
     (if k = key then map_option (\<lambda>c. set_priority_at c rest q) (existing_child (Some n) key)
      else existing_child (Some n) k)"
  by (cases n; cases "content_of n") (auto split: option.split)

lemma with_priority_root [simp]:
  "priority_of (with_priority q n) = q" "leaf_of (with_priority q n) = leaf_of n"
  by (cases n; cases "content_of n"; simp)+

lemma set_priority_root [simp]:
  "leaf_of (set_priority_at n p q) = leaf_of n"
  "priority_of (set_priority_at n p q) = (if p = [] then q else priority_of n)"
  by (cases n; cases "content_of n"; cases p; auto split: option.split)+

lemma node_get_set_priority:
  "node_get (Some (set_priority_at n p q)) r =
     (case node_get (Some n) r of
        None \<Rightarrow> None
      | Some m \<Rightarrow> Some (if prefix r p then set_priority_at m (drop (length r) p) q else m))"
proof (induction r arbitrary: n p)
  case (Cons k r)
  show ?case
  proof (cases p)
    case Nil
    then show ?thesis by (cases n; cases "content_of n") (auto simp: node_get_Cons split: option.split)
  next
    case (Cons key rest)
    show ?thesis
    proof (cases "existing_child (Some n) k")
      case None
      then show ?thesis using Cons set_priority_child [of n key rest q k]
        by (auto simp: node_get_Cons)
    next
      case (Some c)
      then show ?thesis using Cons Cons.IH [of c rest] set_priority_child [of n key rest q k]
        by (auto simp: node_get_Cons split: option.split)
    qed
  qed
qed simp

lemma leaf_at_set_priority: "leaf_at (Some (set_priority_at n p q)) r = leaf_at (Some n) r"
  by (simp add: leaf_at_def node_get_set_priority split: option.split)

lemma priority_at_set_priority:
  "priority_at (Some (set_priority_at n p q)) r =
     (if r = p \<and> node_get (Some n) p \<noteq> None then q else priority_at (Some n) r)"
  by (auto simp: priority_at_def node_get_set_priority prefix_def split: option.split)

lemma set_priority_wf: "node_wf n \<Longrightarrow> node_wf (set_priority_at n p q)"
proof (induction n p q rule: set_priority_at.induct)
  case (3 cs p key rest q)
  then show ?case using node_wf_child [of cs p key]
    by (auto simp: children_wf_insert split: option.split)
qed auto

section \<open>The maps determine the tree\<close>

lemma leaf_below_none:
  "leaf_at n q = Some l \<Longrightarrow> r \<noteq> [] \<Longrightarrow> node_get n (q @ r) = None"
proof (induction q arbitrary: n)
  case Nil
  then obtain k r' where "r = k # r'" by (cases r) auto
  moreover have "existing_child n k = None"
  proof (cases n)
    case (Some m)
    then show ?thesis using Nil by (cases m; cases "content_of m") (auto simp: leaf_at_def)
  qed simp
  ultimately show ?case by (simp add: node_get_Cons)
qed (simp add: node_get_Cons)

lemma wf_has_leaf:
  "node_wf n \<Longrightarrow> \<exists>q l. leaf_at (Some n) q = Some l"
  "children_wf cs \<Longrightarrow> \<forall>(k, c)\<in>set cs. \<exists>q l. leaf_at (Some c) q = Some l"
proof (induction n and cs rule: node_wf_children_wf.induct)
  case (1 l p)
  have "leaf_at (Some (Node (Leaf l) p)) [] = Some l" by (simp add: leaf_at_def)
  then show ?case by blast
next
  case (2 cs p)
  then obtain k c ds where cs: "cs = (k, c) # ds" by (cases cs) auto
  then obtain q l where "leaf_at (Some c) q = Some l" using 2 by auto
  then have "leaf_at (Some (Node (Children cs) p)) (k # q) = Some l" using cs by simp
  then show ?case by blast
qed auto

lemma node_exists_iff_leaf:
  "opt_wf n \<Longrightarrow> node_get n p \<noteq> None \<longleftrightarrow> (\<exists>q. leaf_at n (p @ q) \<noteq> None)"
  using wf_has_leaf(1) opt_wf_get [of n p] by (cases "node_get n p") (auto simp: leaf_at_append)

lemma maps_determine:
  "node_wf n \<Longrightarrow> opt_wf m \<Longrightarrow> leaf_at (Some n) = leaf_at m \<Longrightarrow> priority_at (Some n) = priority_at m \<Longrightarrow>
     m = Some n"
  "children_wf cs \<Longrightarrow> \<forall>(k, c)\<in>set cs. \<forall>m. opt_wf m \<longrightarrow> leaf_at (Some c) = leaf_at m \<longrightarrow>
     priority_at (Some c) = priority_at m \<longrightarrow> m = Some c"
proof (induction n and cs arbitrary: m rule: node_wf_children_wf.induct)
  case (1 l p)
  have "leaf_at m [] = Some l" "priority_at m [] = p"
    using fun_cong [OF 1(3), of "[]"] fun_cong [OF 1(4), of "[]"] by (simp_all add: leaf_at_def priority_at_def)
  then show ?case
    by (cases m) (auto simp: leaf_at_def priority_at_def elim: leaf_of.elims)
next
  case (2 cs p)
  obtain q l where ql: "leaf_at m q = Some l"
    using wf_has_leaf(1) [OF 2(2)] 2(4) by metis
  then obtain m' where m: "m = Some m'" by (cases m) auto
  have "leaf_of m' = None" "priority_of m' = p"
    using fun_cong [OF 2(4), of "[]"] fun_cong [OF 2(5), of "[]"] by (simp_all add: m leaf_at_def priority_at_def)
  then obtain ds where ds: "m' = Node (Children ds) p" by (cases m'; cases "content_of m'") auto
  have "bm_get ds k = bm_get cs k" for k
  proof -
    have la: "leaf_at (bm_get cs k) = leaf_at (bm_get ds k)"
      using fun_cong [OF 2(4), of "k # r" for r] by (auto simp: m ds)
    have pa: "priority_at (bm_get cs k) = priority_at (bm_get ds k)"
      using fun_cong [OF 2(5), of "k # r" for r] by (auto simp: m ds)
    have wf: "opt_wf (bm_get ds k)" "opt_wf (bm_get cs k)"
      using node_wf_child [of ds p k] node_wf_child [of cs p k] 2(2,3) by (simp_all add: m ds)
    show ?thesis
    proof (cases "bm_get cs k")
      case None
      have "bm_get ds k = None"
      proof (cases "bm_get ds k")
        case (Some d)
        then obtain r l where "leaf_at (bm_get ds k) r = Some l" using wf wf_has_leaf(1) [of d] by auto
        then have "leaf_at None r = Some l" using la None by simp
        then show ?thesis by simp
      qed
      then show ?thesis using None by simp
    next
      case (Some c)
      have "(k, c) \<in> set cs" using Some by (rule map_of_SomeD)
      then show ?thesis using 2(1) 2(2) la pa wf Some by auto
    qed
  qed
  then have "ds = cs" using 2(2,3) by (intro map_of_eqI) (auto simp: m ds)
  then show ?case by (simp add: m ds)
qed auto

end
