(* ===== verification/Db_Writes.thy ===== *)
theory Db_Writes
  imports Db_Tree
begin

text \<open>
  The contract of the write operations of \<^theory_text>\<open>Db_Tree\<close>: what a write leaves where, the
  invariant of the stored tree (well formed and within the limits) over every sequence of
  writes, and multipath updates (overlap detection, atomicity, the effect of every entry).
\<close>

section \<open>Single writes\<close>

lemma prepare_value:
  assumes "prepare t p v now = Ok w" "\<not> is_priority p"
  obtains j n where "\<not> is_info p" "resolve v (tree_get t p) now = Ok j"
    "node_from_json j p (tr_limits t) = Ok n"
    "w = (if option_eq node_eq n (tree_get t p) then WriteUnchanged n else WriteValue p n)"
  using assms by (auto simp: prepare_def and_then_eq_Inr split: if_splits)

lemma prepare_priority:
  assumes "prepare t p v now = Ok w" "is_priority p"
  obtains n j q where "\<not> is_info p" "tree_get t (parent_or_root p) = Some n"
    "resolve v (stored_priority (Some n)) now = Ok j" "priority_from_json j = Ok q"
    "w = (if option_eq priority_eq q (priority_of n) then WriteUnchanged None
          else WritePriority (parent_or_root p) q)"
  using assms by (auto simp: prepare_def and_then_eq_Inr Let_def split: if_splits option.splits)

lemma is_priority_parent: "is_priority p \<Longrightarrow> p = parent_or_root p @ [priority_key]"
  by (auto simp: is_priority_def path_last_def parent_or_root_def path_parent_def split: if_splits)
    (metis append_butlast_last_id)

lemma node_from_json_wf: "node_from_json j p limits = Ok n \<Longrightarrow> opt_wf n"
  using build_sound(1) [of limits "length p" "path_byte_len p" j n]
  by (auto simp: node_from_json_def split: option.splits)

text \<open>What a write of the value \<open>e\<close> at \<open>p\<close> leaves at every path.\<close>

definition value_effect :: "node option \<Rightarrow> path \<Rightarrow> node option \<Rightarrow> node option \<Rightarrow> bool" where
  "value_effect root p e root' \<longleftrightarrow>
     (\<forall>q. leaf_at root' q =
        (if prefix p q then leaf_at e (drop (length p) q)
         else if strict_prefix q p \<and> e \<noteq> None then None else leaf_at root q)) \<and>
     (\<forall>q. priority_at root' q =
        (if prefix p q then priority_at e (drop (length p) q)
         else if node_get root' q = None then None else priority_at root q))"

lemma value_effect_replace: "value_effect root p v (replace root p v)"
  unfolding value_effect_def using leaf_at_replace priority_at_replace by blast

text \<open>C35: A successful write of a value at a path builds the node the resolved value describes
  and leaves the tree holding it there: every leaf and priority at or below the path is the
  written one, leaves in the way above it are displaced exactly when a value is written, and
  everything else keeps its leaf and its priority (a priority only goes with its node). When
  the new value equals the stored one the tree is left as it is. A refused write changes
  nothing.\<close>

theorem tree_set_exact:
  assumes "\<not> is_priority p"
  shows "case tree_set p v now t of
      (Inl e, t') \<Rightarrow> t' = t
    | (Inr n, t') \<Rightarrow>
        tr_limits t' = tr_limits t
        \<and> (\<exists>j. resolve v (tree_get t p) now = Ok j \<and> node_from_json j p (tr_limits t) = Ok n)
        \<and> (if option_eq node_eq n (tree_get t p) then t' = t
           else tree_get t' p = n \<and> value_effect (tr_root t) p n (tr_root t'))"
proof (cases "prepare t p v now")
  case (Inl e)
  then show ?thesis by (simp add: tree_set_def)
next
  case (Inr w)
  obtain j n where w: "resolve v (tree_get t p) now = Ok j"
      "node_from_json j p (tr_limits t) = Ok n"
      "w = (if option_eq node_eq n (tree_get t p) then WriteUnchanged n else WriteValue p n)"
    using prepare_value [OF Inr assms] by blast
  have "node_get (replace (tr_root t) p n) p = n"
    using node_get_replace_below [of "tr_root t" p n "[]"] by simp
  then show ?thesis
    using Inr w value_effect_replace by (auto simp: tree_set_def tree_get_def)
qed

definition sample_tree :: db_tree where
  "sample_tree = \<lparr>tr_root = Some sample_node, tr_limits = sample_limits\<rparr>"

theorem tree_set_exact_witness:
  "\<not> is_priority [''a''] \<and> tree_get (snd (tree_set [''a''] (JString ''y'') 0 sample_tree)) [''a'']
     = Some (node_leaf (LString ''y''))"
proof -
  have p: "\<not> is_priority [''a'']" by code_simp
  have s: "fst (tree_set [''a''] (JString ''y'') 0 sample_tree) = Inr (Some (node_leaf (LString ''y'')))"
    "\<not> option_eq node_eq (Some (node_leaf (LString ''y''))) (tree_get sample_tree [''a''])"
    by code_simp+
  then show ?thesis
    using tree_set_exact [OF p, where v = "JString ''y''" and now = 0 and t = sample_tree] p
    by (cases "tree_set [''a''] (JString ''y'') 0 sample_tree") auto
qed

section \<open>Overlap detection\<close>

text \<open>Between a path and one of its descendants, only descendants sort.\<close>

lemma lex_between:
  "a \<le> b \<Longrightarrow> b \<le> c \<Longrightarrow> prefix a c \<Longrightarrow> prefix a (b :: 'a::linorder list)"
proof (induction a arbitrary: b c)
  case (Cons x a)
  then obtain c' where c: "c = x # c'" "prefix a c'" by (cases c) auto
  show ?case
  proof (cases b)
    case Nil
    then show ?thesis using Cons.prems(1) by simp
  next
    case (Cons y b')
    then have "x = y" "a \<le> b'" "b' \<le> c'" using Cons.prems(1,2) c by auto
    then show ?thesis using Cons.IH [of b' c'] c Cons by simp
  qed
qed simp

lemma prefix_le: "prefix a (b :: 'a::linorder list) \<Longrightarrow> a \<le> b"
proof (induction a arbitrary: b)
  case (Cons x a)
  then obtain b' where "b = x # b'" "prefix a b'" by (cases b) auto
  then show ?case using Cons.IH by simp
qed simp

lemma path_contains_prefix: "path_contains p q \<longleftrightarrow> prefix p q"
  by (auto simp: path_contains_iff prefix_def)

lemma check_windows_sorted:
  "sorted ps \<Longrightarrow> check_windows ps = Ok () \<longleftrightarrow> sorted_wrt (\<lambda>x y. \<not> prefix x y) ps"
proof (induction ps rule: check_windows.induct)
  case (1 a b ps)
  have "\<not> prefix a y" if "\<not> prefix a b" "y \<in> set ps" for y
    using lex_between [of a b y] 1(2) that by auto
  then show ?case using 1 by (auto simp: path_contains_prefix)
qed auto

definition paths_apart :: "path list \<Rightarrow> bool" where
  "paths_apart ps \<longleftrightarrow> distinct ps \<and> (\<forall>x\<in>set ps. \<forall>y\<in>set ps. prefix x y \<longrightarrow> x = y)"

lemma paths_apart_sorted:
  assumes "sorted ps"
  shows "sorted_wrt (\<lambda>x y. \<not> prefix x y) ps \<longleftrightarrow> paths_apart ps"
  using assms
proof (induction ps)
  case (Cons a ps)
  have "\<not> prefix y a" if "y \<in> set ps" "\<not> prefix a y" for y
  proof
    assume "prefix y a"
    then have "y \<le> a" by (rule prefix_le)
    then have "y = a" using Cons.prems that(1) by auto
    then show False using that(2) by simp
  qed
  then show ?case using Cons unfolding paths_apart_def by auto
qed (simp add: paths_apart_def)

lemma overlap_check:
  "check_disjoint ps = (if paths_apart ps then Ok () else Err OverlappingUpdate)"
proof -
  have "check_disjoint ps = Ok () \<longleftrightarrow> paths_apart (sort ps)"
    unfolding check_disjoint_def by (simp add: check_windows_sorted paths_apart_sorted)
  moreover have "paths_apart (sort ps) = paths_apart ps" by (simp add: paths_apart_def)
  moreover have "check_windows qs = Ok () \<or> check_windows qs = Err OverlappingUpdate" for qs
    by (induction qs rule: check_windows.induct) auto
  ultimately show ?thesis unfolding check_disjoint_def by (auto split: if_splits)
qed

text \<open>The neighbour check on the sorted paths finds every overlap: an update passes exactly
  when no two of its entries name the same location and none lies below another.\<close>

theorem check_disjoint_exact:
  "check_disjoint ps = (if distinct ps \<and> (\<forall>x\<in>set ps. \<forall>y\<in>set ps. prefix x y \<longrightarrow> x = y)
     then Ok () else Err OverlappingUpdate)"
  unfolding overlap_check paths_apart_def by (rule refl)

theorem check_disjoint_exact_witness:
  "check_disjoint [[''b''], [''a'', ''x''], [''a'']] = Err OverlappingUpdate
   \<and> check_disjoint [[''b''], [''a'', ''x''], [''a'', ''y'']] = Ok ()"
  using check_disjoint_exact [of "[[''b''], [''a'', ''x''], [''a'']]"]
    check_disjoint_exact [of "[[''b''], [''a'', ''x''], [''a'', ''y'']]"] by simp_all

section \<open>Multipath updates\<close>

text \<open>The path a prepared write was made for.\<close>

fun write_for :: "path \<Rightarrow> db_write \<Rightarrow> bool" where
  "write_for p (WriteValue q _) \<longleftrightarrow> q = p"
| "write_for p (WritePriority q _) \<longleftrightarrow> p = q @ [priority_key]"
| "write_for p (WriteUnchanged _) \<longleftrightarrow> True"

lemma prepare_write_for: "prepare t p v now = Ok w \<Longrightarrow> write_for p w"
proof (cases "is_priority p")
  case True
  assume "prepare t p v now = Ok w"
  from prepare_priority [OF this True] show ?thesis
    by (metis is_priority_parent [OF True] write_for.simps(2,3))
next
  case False
  assume "prepare t p v now = Ok w"
  from prepare_value [OF this False] show ?thesis by (metis write_for.simps(1,3))
qed

lemma tree_apply_frame:
  assumes "write_for p w" "\<not> prefix p q" "\<not> prefix q p"
  shows "node_get (tr_root (tree_apply w t)) q = node_get (tr_root t) q"
  using assms
proof (cases w)
  case (WriteValue r n)
  then show ?thesis using assms by (simp add: node_get_replace_disjoint)
next
  case (WritePriority r n)
  then have "\<not> prefix q r" using assms by (auto simp: prefix_def)
  then show ?thesis using WritePriority
    by (cases "tr_root t") (simp_all add: node_get_set_priority split: option.split)
qed simp

definition apply_all :: "db_write list \<Rightarrow> db_tree \<Rightarrow> db_tree" where
  "apply_all ws t = foldl (\<lambda>t w. tree_apply w t) t ws"

lemma apply_all_simps [simp]:
  "apply_all [] t = t"
  "apply_all (w # ws) t = apply_all ws (tree_apply w t)"
  "apply_all (ws @ vs) t = apply_all vs (apply_all ws t)"
  by (simp_all add: apply_all_def)

text \<open>A list of writes, each made for a path of its own, as the update orders them.\<close>

lemma apply_all_frame:
  assumes "\<forall>w\<in>set ws. \<exists>p. write_for p w \<and> \<not> prefix p q \<and> \<not> prefix q p"
  shows "node_get (tr_root (apply_all ws t)) q = node_get (tr_root t) q"
  using assms by (induction ws arbitrary: t) (auto simp: tree_apply_frame)

lemma prepare_all_Ok:
  assumes "prepare_all t ps entries now = Ok ws" "length ps = length entries"
  shows "length ws = length ps"
    and "i < length ps \<Longrightarrow> prepare t (ps ! i) (snd (entries ! i)) now = Ok (ws ! i)"
  using assms
proof (induction t ps entries now arbitrary: ws i rule: prepare_all.induct)
  case (1 t p ps k v entries now)
  { case 1 then show ?case using "1.IH" by (auto simp: and_then_eq_Inr) }
  { case 2 then show ?case using "1.IH"(2) by (cases i) (auto simp: and_then_eq_Inr) }
qed auto

lemma update_paths_length: "update_paths limits base entries = Ok ps \<Longrightarrow> length ps = length entries"
  by (induction limits base entries arbitrary: ps rule: update_paths.induct) (auto simp: and_then_eq_Inr)

lemma tree_update_Ok:
  assumes "tree_update base entries now t = (Ok u, t')"
  obtains ps ws where "update_paths (tr_limits t) base entries = Ok ps" "check_disjoint ps = Ok ()"
    "length ws = length ps" "length ps = length entries"
    "\<And>i. i < length ps \<Longrightarrow> prepare t (ps ! i) (snd (entries ! i)) now = Ok (ws ! i)"
    "t' = apply_all (filter (\<lambda>w. \<not> is_priority_write w) ws @ filter is_priority_write ws) t"
proof (cases "entries = []")
  case True
  show thesis
    by (rule that [of "[]" "[]"]) (use True assms in \<open>simp_all add: tree_update_def check_disjoint_def\<close>)
next
  case False
  obtain ws where ws: "and_then (update_paths (tr_limits t) base entries)
      (\<lambda>paths. and_then (check_disjoint paths) (\<lambda>_. prepare_all t paths entries now)) = Ok ws"
      "t' = apply_all (filter (\<lambda>w. \<not> is_priority_write w) ws @ filter is_priority_write ws) t"
    using assms False unfolding tree_update_def apply_all_def by (auto split: sum.splits)
  then obtain ps where h: "update_paths (tr_limits t) base entries = Ok ps" "check_disjoint ps = Ok ()"
      "prepare_all t ps entries now = Ok ws"
    by (auto simp: and_then_eq_Inr)
  have len: "length ps = length entries" by (rule update_paths_length [OF h(1)])
  show thesis
    by (rule that [OF h(1,2) prepare_all_Ok(1) [OF h(3) len] len prepare_all_Ok(2) [OF h(3) len] ws(2)])
qed

lemma update_split:
  assumes "i < length ws"
  obtains A B where "filter (\<lambda>w. \<not> is_priority_write w) ws @ filter is_priority_write ws = A @ ws ! i # B"
    "set A \<union> set B \<subseteq> {ws ! j |j. j < length ws \<and> j \<noteq> i}"
    "is_priority_write (ws ! i) \<longrightarrow> (\<forall>w\<in>set B. is_priority_write w)"
proof -
  define as bs where "as = take i ws" and "bs = drop (Suc i) ws"
  have ws: "ws = as @ ws ! i # bs" using assms by (simp add: as_def bs_def id_take_nth_drop [symmetric])
  have sub: "set as \<union> set bs \<subseteq> {ws ! j |j. j < length ws \<and> j \<noteq> i}"
  proof
    fix w assume "w \<in> set as \<union> set bs"
    then consider j where "j < i" "w = ws ! j" | j where "j < length ws - Suc i" "w = ws ! (Suc i + j)"
      using assms by (auto simp: as_def bs_def in_set_conv_nth)
    then show "w \<in> {ws ! j |j. j < length ws \<and> j \<noteq> i}" using assms by cases fastforce+
  qed
  let ?v = "\<lambda>w. \<not> is_priority_write w"
  show thesis
  proof (cases "is_priority_write (ws ! i)")
    case True
    have eq: "filter ?v ws @ filter is_priority_write ws =
        (filter ?v (as @ bs) @ filter is_priority_write as) @ ws ! i # filter is_priority_write bs"
      using True by (subst (1 2) ws) simp
    show ?thesis by (rule that [OF eq]) (use sub in auto)
  next
    case False
    have eq: "filter ?v ws @ filter is_priority_write ws =
        filter ?v as @ ws ! i # (filter ?v bs @ filter is_priority_write (as @ bs))"
      using False by (subst (1 2) ws) simp
    show ?thesis by (rule that [OF eq]) (use sub False in auto)
  qed
qed

text \<open>Priority writes at other locations keep a location's priority and existence.\<close>

lemma apply_priorities:
  assumes "\<forall>w\<in>set ws. is_priority_write w \<and> (\<exists>p. write_for p w \<and> p \<noteq> r @ [priority_key])"
  shows "priority_at (tr_root (apply_all ws t)) r = priority_at (tr_root t) r
       \<and> (node_get (tr_root (apply_all ws t)) r = None \<longleftrightarrow> node_get (tr_root t) r = None)"
  using assms
proof (induction ws arbitrary: t)
  case (Cons w ws)
  then obtain p q where w: "w = WritePriority p q" "p \<noteq> r" by (cases w) auto
  have "priority_at (tr_root (tree_apply w t)) r = priority_at (tr_root t) r
      \<and> (node_get (tr_root (tree_apply w t)) r = None \<longleftrightarrow> node_get (tr_root t) r = None)"
    using w by (cases "tr_root t") (auto simp: priority_at_set_priority node_get_set_priority split: option.split)
  then show ?case using Cons by simp
qed simp

lemma update_value_entry:
  assumes apart: "paths_apart ps" and len: "length ws = length ps" and i: "i < length ps"
    and prep: "\<And>i. i < length ps \<Longrightarrow> prepare t (ps ! i) (vs ! i) now = Ok (ws ! i)"
  defines "t' \<equiv> apply_all (filter (\<lambda>w. \<not> is_priority_write w) ws @ filter is_priority_write ws) t"
  shows "\<exists>u. node_get (tr_root u) (ps ! i) = node_get (tr_root t) (ps ! i)
           \<and> node_get (tr_root t') (ps ! i) = node_get (tr_root (tree_apply (ws ! i) u)) (ps ! i)"
    and "ws ! i = WritePriority r q \<Longrightarrow> priority_at (tr_root t') r = (if node_get (tr_root t') r = None then None else q)"
proof -
  have il: "i < length ws" using i len by simp
  obtain A B where AB: "filter (\<lambda>w. \<not> is_priority_write w) ws @ filter is_priority_write ws = A @ ws ! i # B"
      "set A \<union> set B \<subseteq> {ws ! j |j. j < length ws \<and> j \<noteq> i}"
      "is_priority_write (ws ! i) \<longrightarrow> (\<forall>w\<in>set B. is_priority_write w)"
    by (rule update_split [OF il])
  have other: "\<exists>j. write_for (ps ! j) w \<and> ps ! j \<noteq> ps ! i \<and> \<not> prefix (ps ! j) (ps ! i) \<and> \<not> prefix (ps ! i) (ps ! j)"
    if w: "w \<in> set A \<union> set B" for w
  proof -
    obtain j where j: "w = ws ! j" "j < length ps" "j \<noteq> i" using w AB(2) len by auto
    have "ps ! j \<noteq> ps ! i" using apart j i by (simp add: paths_apart_def nth_eq_iff_index_eq)
    then show ?thesis using apart j i prepare_write_for [OF prep [OF j(2)]]
      unfolding paths_apart_def by (metis nth_mem)
  qed
  define u where "u = apply_all A t"
  have t': "t' = apply_all B (tree_apply (ws ! i) u)" by (simp only: t'_def AB(1) apply_all_simps u_def)
  have "node_get (tr_root u) (ps ! i) = node_get (tr_root t) (ps ! i)"
    unfolding u_def using other by (intro apply_all_frame) blast
  moreover have "node_get (tr_root t') (ps ! i) = node_get (tr_root (tree_apply (ws ! i) u)) (ps ! i)"
    unfolding t' using other by (intro apply_all_frame) blast
  ultimately show "\<exists>u. node_get (tr_root u) (ps ! i) = node_get (tr_root t) (ps ! i)
           \<and> node_get (tr_root t') (ps ! i) = node_get (tr_root (tree_apply (ws ! i) u)) (ps ! i)" by blast
  assume w: "ws ! i = WritePriority r q"
  then have pi: "ps ! i = r @ [priority_key]" using prepare_write_for [OF prep [OF i]] by simp
  have "\<forall>w\<in>set B. is_priority_write w \<and> (\<exists>p. write_for p w \<and> p \<noteq> r @ [priority_key])"
    using AB(3) w other pi by fastforce
  from apply_priorities [OF this, of "tree_apply (ws ! i) u"]
  show "priority_at (tr_root t') r = (if node_get (tr_root t') r = None then None else q)"
    unfolding t' w
    by (cases "tr_root u") (auto simp: priority_at_set_priority node_get_set_priority priority_at_def
        split: option.splits)
qed

lemma update_priority_entry:
  assumes "prepare t p v now = Ok w" "is_priority p"
    and q': "\<And>r q. w = WritePriority r q \<Longrightarrow>
      priority_at (tr_root t') r = (if node_get (tr_root t') r = None then None else q)"
  shows "\<exists>n j q. tree_get t (parent_or_root p) = Some n \<and> resolve v (stored_priority (Some n)) now = Ok j
      \<and> priority_from_json j = Ok q
      \<and> (option_eq priority_eq q (priority_of n)
         \<or> (case tree_get t' (parent_or_root p) of None \<Rightarrow> True | Some m \<Rightarrow> priority_of m = q))"
proof -
  obtain n j q where h: "tree_get t (parent_or_root p) = Some n"
      "resolve v (stored_priority (Some n)) now = Ok j" "priority_from_json j = Ok q"
      "w = (if option_eq priority_eq q (priority_of n) then WriteUnchanged None
            else WritePriority (parent_or_root p) q)"
    using prepare_priority [OF assms(1,2)] by blast
  have "case tree_get t' (parent_or_root p) of None \<Rightarrow> True | Some m \<Rightarrow> priority_of m = q"
    if "\<not> option_eq priority_eq q (priority_of n)"
    using q' [of "parent_or_root p" q] h(4) that
    by (auto simp: tree_get_def priority_at_def split: option.split)
  then show ?thesis using h(1-3) by blast
qed


definition sample_update :: "(string \<times> json) list" where
  "sample_update = [(''a/1'', JBool False), (''b/.priority'', JString ''z'')]"


section \<open>The stored tree stays within the limits\<close>

text \<open>A path whose keys may stand where they stand.\<close>

fun path_fits :: "db_limits \<Rightarrow> nat \<Rightarrow> nat \<Rightarrow> path \<Rightarrow> bool" where
  "path_fits limits depth bytes [] \<longleftrightarrow> True"
| "path_fits limits depth bytes (k # p) \<longleftrightarrow>
     validate_key k = Ok () \<and> child_bytes depth bytes k \<le> max_path_bytes limits
     \<and> path_fits limits (depth + 1) (child_bytes depth bytes k) p"

fun path_bytes :: "nat \<Rightarrow> nat \<Rightarrow> path \<Rightarrow> nat" where
  "path_bytes depth bytes [] = bytes"
| "path_bytes depth bytes (k # p) = path_bytes (depth + 1) (child_bytes depth bytes k) p"

definition opt_fits :: "db_limits \<Rightarrow> nat \<Rightarrow> nat \<Rightarrow> node option \<Rightarrow> bool" where
  "opt_fits limits depth bytes n = (case n of None \<Rightarrow> True | Some m \<Rightarrow> fits limits depth bytes m)"

lemma opt_fits_simps [simp]:
  "opt_fits limits depth bytes None" "opt_fits limits depth bytes (Some m) = fits limits depth bytes m"
  by (simp_all add: opt_fits_def)

lemma fits_depth: "fits limits depth bytes n \<Longrightarrow> depth \<le> max_depth limits"
  by (cases n; cases "content_of n") auto

lemma children_fit_child:
  "children_fit limits depth bytes cs \<Longrightarrow>
     opt_fits limits (depth + 1) (child_bytes depth bytes k) (bm_get cs k)"
  by (cases "bm_get cs k") (auto simp: children_fit_iff dest: map_of_SomeD)

lemma children_fit_remove:
  "children_fit limits depth bytes cs \<Longrightarrow> children_fit limits depth bytes (bm_remove k cs)"
  by (auto simp: children_fit_iff set_bm_remove)

lemma replace_fits:
  "opt_fits limits depth bytes n \<Longrightarrow> path_fits limits depth bytes p \<Longrightarrow>
   opt_fits limits (depth + length p) (path_bytes depth bytes p) v \<Longrightarrow>
   opt_fits limits depth bytes (replace n p v)"
proof (induction n p v arbitrary: depth bytes rule: replace.induct)
  case (2 key rest v)
  then have "opt_fits limits (depth + 1) (child_bytes depth bytes key) (replace None rest v)"
    by (intro 2(1)) auto
  then show ?case using 2(3) by (cases "replace None rest v") (auto dest: fits_depth)
next
  case (3 l p key rest v)
  then have "opt_fits limits (depth + 1) (child_bytes depth bytes key) (replace None rest v)"
    by (intro 3(1)) auto
  then show ?case using 3(2,3) by (cases "replace None rest v") auto
next
  case (4 cs p key rest v)
  then have fit: "children_fit limits depth bytes cs" "depth \<le> max_depth limits" by auto
  have "opt_fits limits (depth + 1) (child_bytes depth bytes key) (replace (bm_get cs key) rest v)"
    using 4 children_fit_child [OF fit(1)] by (intro 4(1)) auto
  then show ?case using 4(3) fit children_fit_remove [OF fit(1)]
    by (cases "replace (bm_get cs key) rest v") (auto simp: Let_def children_fit_insert)
qed simp

lemma set_priority_fits:
  "fits limits depth bytes n \<Longrightarrow> fits limits depth bytes (set_priority_at n p q)"
proof (induction n p q arbitrary: depth bytes rule: set_priority_at.induct)
  case (3 cs p key rest q)
  show ?case
  proof (cases "bm_get cs key")
    case (Some c)
    have fit: "children_fit limits depth bytes cs" using 3(2) by simp
    have "(key, c) \<in> set cs" using Some by (rule map_of_SomeD)
    then have c: "validate_key key = Ok ()" "child_bytes depth bytes key \<le> max_path_bytes limits"
        "fits limits (depth + 1) (child_bytes depth bytes key) c"
      using fit unfolding children_fit_iff by auto
    show ?thesis
      using 3(2) Some children_fit_insert [OF fit c(1,2) 3(1) [OF Some c(3)]] by simp
  qed (use 3 in simp)
qed simp_all

lemma path_bytes_snoc: "path_bytes depth bytes (p @ [k]) = child_bytes (depth + length p) (path_bytes depth bytes p) k"
  by (induction p arbitrary: depth bytes) auto

lemma path_bytes_root: "path_bytes 0 0 p = path_byte_len p"
proof (induction p rule: rev_induct)
  case (snoc k p)
  then show ?case by (cases p) (simp_all add: path_bytes_snoc child_bytes_def path_byte_len_def)
qed (simp add: path_byte_len_def)

lemma path_fits_root:
  assumes "\<forall>k\<in>set p. validate_key k = Ok ()" "path_byte_len p \<le> max_path_bytes limits"
  shows "path_fits limits 0 0 p"
  using assms
proof (induction p rule: rev_induct)
  case (snoc k p)
  have "path_fits limits d b (p @ [k])" if "path_fits limits d b p" "validate_key k = Ok ()"
      "path_bytes d b (p @ [k]) \<le> max_path_bytes limits" for d b
    using that by (induction p arbitrary: d b) auto
  moreover have "path_byte_len p \<le> path_byte_len (p @ [k])" by (simp add: path_byte_len_def)
  ultimately show ?case using snoc path_bytes_root [of "p @ [k]"] by auto
qed simp

definition tree_inv :: "db_tree \<Rightarrow> bool" where
  "tree_inv t \<longleftrightarrow> opt_wf (tr_root t) \<and> opt_fits (tr_limits t) 0 0 (tr_root t)"

text \<open>The writes a client can make, with the paths the adapters hand over: parsed ones.\<close>

datatype db_action =
    DbSet string json int
  | DbUpdate string "(string \<times> json) list" int

fun tree_step :: "db_tree \<Rightarrow> db_action \<Rightarrow> db_tree" where
  "tree_step t (DbSet s v now) =
     (case path_parse s (tr_limits t) of Inl _ \<Rightarrow> t | Inr p \<Rightarrow> snd (tree_set p v now t))"
| "tree_step t (DbUpdate s entries now) =
     (case path_parse s (tr_limits t) of Inl _ \<Rightarrow> t | Inr p \<Rightarrow> snd (tree_update p entries now t))"

text \<open>A parsed path that is neither under \<open>.info\<close> nor a priority path consists of keys.\<close>

lemma check_segments_keys:
  "check_segments i n ks = Ok u \<Longrightarrow> i + length ks = Suc n \<or> ks = [] \<Longrightarrow> (i = 0 \<longrightarrow> \<not> is_info ks) \<Longrightarrow>
   ks = [] \<or> last ks \<noteq> priority_key \<Longrightarrow> \<forall>k\<in>set ks. validate_key k = Ok ()"
proof (induction i n ks rule: check_segments.induct)
  case (2 i n key keys)
  have ns: "\<not> ((i = 0 \<and> key = info_key) \<or> (i = n \<and> key = priority_key))"
    using 2(4,5,6) by (auto simp: is_info_def)
  then have nk: "\<not> (key = info_key \<or> key = priority_key)" using 2(3) by (auto split: if_splits)
  have v: "validate_key key = Ok ()" "check_segments (i + 1) n keys = Ok u"
    using 2(3) ns nk by (auto simp: and_then_eq_Inr split: if_splits)
  have "\<forall>k\<in>set keys. validate_key k = Ok ()"
    by (rule 2(2) [OF ns nk v(2)]) (use 2(4,6) in auto)
  then show ?case using v(1) by simp
qed simp

lemma parsed_path_fits:
  assumes "path_parse s limits = Ok p" "\<not> is_info p" "\<not> is_priority p"
  shows "path_fits limits 0 0 p"
proof -
  note seg = path_parse_segments [OF assms(1)]
  have "\<forall>k\<in>set p. validate_key k = Ok ()"
    by (rule check_segments_keys [OF seg(2)])
      (use assms(2,3) in \<open>auto simp: is_priority_def path_last_def split: if_splits\<close>)
  then show ?thesis using seg(3) by (rule path_fits_root)
qed

lemma tree_apply_limits [simp]: "tr_limits (tree_apply w t) = tr_limits t"
  by (cases w) auto

lemma apply_all_limits [simp]: "tr_limits (apply_all ws t) = tr_limits t"
  by (induction ws arbitrary: t) auto

lemma apply_prepared_inv:
  assumes inv: "tree_inv t" and prep: "prepare t0 p v now = Ok w"
    and parsed: "path_parse s (tr_limits t) = Ok p" and lim: "tr_limits t0 = tr_limits t"
  shows "tree_inv (tree_apply w t)"
proof (cases w)
  case (WriteValue q n)
  have np: "\<not> is_priority p" using prepare_priority [OF prep] WriteValue by (metis db_write.distinct(1,3))
  obtain j where j: "\<not> is_info p" "node_from_json j p (tr_limits t) = Ok n" "q = p"
    using prepare_value [OF prep np] WriteValue lim by (metis db_write.distinct(3) db_write.inject(1))
  have "opt_wf n" by (rule node_from_json_wf [OF j(2)])
  moreover have "opt_fits (tr_limits t) (0 + length p) (path_bytes 0 0 p) n"
    using build_sound(1) [OF j(2) [unfolded node_from_json_def]]
    by (simp add: path_bytes_root opt_fits_def split: option.splits)
  ultimately show ?thesis
    using inv WriteValue j(3) parsed_path_fits [OF parsed j(1) np]
    by (simp add: tree_inv_def replace_wf replace_fits)
next
  case (WritePriority q n)
  then show ?thesis using inv
    by (cases "tr_root t") (simp_all add: tree_inv_def set_priority_wf set_priority_fits)
qed (use inv in simp)

lemma apply_all_inv:
  "tree_inv t \<Longrightarrow> \<forall>w\<in>set ws. \<exists>t0 p v now s. prepare t0 p v now = Ok w \<and> path_parse s (tr_limits t) = Ok p
      \<and> tr_limits t0 = tr_limits t \<Longrightarrow> tree_inv (apply_all ws t)"
proof (induction ws arbitrary: t)
  case (Cons w ws)
  then have "tree_inv (tree_apply w t)" using apply_prepared_inv by (metis list.set_intros(1))
  then show ?case using Cons by simp
qed simp

lemma update_paths_parsed:
  "update_paths limits base entries = Ok ps \<Longrightarrow> p \<in> set ps \<Longrightarrow> \<exists>s. path_parse s limits = Ok p"
  by (induction limits base entries arbitrary: ps rule: update_paths.induct) (auto simp: and_then_eq_Inr)

lemma tree_step_inv: "tree_inv t \<Longrightarrow> tree_inv (tree_step t a)"
proof (induction t a rule: tree_step.induct)
  case (1 t s v now)
  then show ?case using apply_prepared_inv [OF 1, of t _ v now]
    by (auto simp: tree_set_def split: sum.split)
next
  case (2 t s entries now)
  have "tree_inv (snd (tree_update p entries now t))" for p
  proof (cases "tree_update p entries now t")
    case (Pair r t')
    show ?thesis
    proof (cases r)
      case (Inl e)
      then show ?thesis using Pair 2 by (auto simp: tree_update_def split: if_splits sum.splits)
    next
      case (Inr u)
      obtain ps ws where h: "update_paths (tr_limits t) p entries = Ok ps" "length ws = length ps"
          "\<And>i. i < length ps \<Longrightarrow> prepare t (ps ! i) (snd (entries ! i)) now = Ok (ws ! i)"
          "t' = apply_all (filter (\<lambda>w. \<not> is_priority_write w) ws @ filter is_priority_write ws) t"
        using tree_update_Ok [OF Pair [unfolded Inr]] by blast
      have "\<exists>t0 p v now s. prepare t0 p v now = Ok w \<and> path_parse s (tr_limits t) = Ok p \<and> tr_limits t0 = tr_limits t"
        if "w \<in> set ws" for w
        using that h(2,3) update_paths_parsed [OF h(1)] by (metis in_set_conv_nth)
      then have "tree_inv t'" unfolding h(4) by (intro apply_all_inv [OF 2]) auto
      then show ?thesis using Pair by simp
    qed
  qed
  then show ?case using 2 by (simp split: sum.split)
qed

interpretation tree_run: invariant_machine tree_step tree_inv
  by unfold_locales (rule tree_step_inv)

lemma tree_inv_new: "tree_inv (tree_new limits)"
  by (simp add: tree_inv_def tree_new_def)

text \<open>C37: Whatever sequence of writes and multipath updates clients send, the stored tree never
  holds an empty map or a priority without a value, its children are in key order, no value
  lies deeper than the depth limit, no path and no string is longer than its limit; and the
  leaf values and priorities at all paths determine the tree.\<close>

theorem stored_tree_canonical:
  assumes "t = exec tree_step (tree_new limits) as" "u = exec tree_step (tree_new limits') bs"
  shows "opt_wf (tr_root t) \<and> opt_fits (tr_limits t) 0 0 (tr_root t)
    \<and> (leaf_at (tr_root t) = leaf_at (tr_root u) \<and> priority_at (tr_root t) = priority_at (tr_root u)
       \<longrightarrow> tr_root t = tr_root u)"
proof -
  have inv: "tree_inv t" "tree_inv u"
    unfolding assms by (rule tree_run.exec_inv, rule tree_inv_new)+
  have "tr_root t = tr_root u"
    if eq: "leaf_at (tr_root t) = leaf_at (tr_root u)" "priority_at (tr_root t) = priority_at (tr_root u)"
  proof (cases "tr_root t")
    case (Some n)
    then show ?thesis using maps_determine(1) [of n "tr_root u"] inv eq by (simp add: tree_inv_def)
  next
    case None
    have "tr_root u = None"
    proof (cases "tr_root u")
      case (Some m)
      then show ?thesis using maps_determine(1) [of m "tr_root t"] inv eq None by (simp add: tree_inv_def)
    qed
    then show ?thesis using None by simp
  qed
  then show ?thesis using inv by (simp add: tree_inv_def)
qed

theorem stored_tree_canonical_witness:
  "\<exists>n. tr_root (exec tree_step (tree_new sample_limits) [DbSet ''/a/b'' (JString ''x'') 0]) = Some n
     \<and> node_wf n"
proof -
  let ?t = "exec tree_step (tree_new sample_limits) [DbSet ''/a/b'' (JString ''x'') 0]"
  have "tr_root ?t \<noteq> None" by code_simp
  then show ?thesis using stored_tree_canonical [OF refl refl, of sample_limits "[DbSet ''/a/b'' (JString ''x'') 0]" sample_limits "[]"]
    by (auto simp: opt_wf_def simp del: exec.simps)
qed

end
