(* ===== verification/Db_Scope.thy ===== *)
theory Db_Scope
  imports Db_Writes
begin

text \<open>
  Saved scopes of the tree (the second half of crates/fireemu-core-database/src/tree.rs):
  \<open>save_scope\<close> and \<open>restore_scope\<close>, and the borrowed views that read the tree as it was before
  a write through the saved scope and the live siblings.
\<close>

section \<open>Saving and restoring\<close>

record scope_snapshot =
  sn_path :: path
  sn_node :: "node option"
  sn_priorities :: "priority option list"

text \<open>The walk down the ancestors: their priorities, and the node where it stops.\<close>

fun save_walk :: "node option \<Rightarrow> path \<Rightarrow> priority option list \<times> node option" where
  "save_walk (Some (Node (Children cs) p)) (key # keys) =
     (case save_walk (bm_get cs key) keys of (ps, n) \<Rightarrow> (p # ps, n))"
| "save_walk n keys = ([], n)"

definition scope_path :: "path \<Rightarrow> path" where
  "scope_path p = (if is_priority p then parent_or_root p else p)"

definition save_scope :: "db_tree \<Rightarrow> path \<Rightarrow> scope_snapshot" where
  "save_scope t p =
     (case save_walk (tr_root t) (scope_path p) of
        (ps, n) \<Rightarrow> \<lparr>sn_path = take (length ps) (scope_path p), sn_node = n, sn_priorities = ps\<rparr>)"

definition node_children :: "node option \<Rightarrow> (string \<times> node) list" where
  "node_children n = (case n of Some (Node (Children cs) _) \<Rightarrow> cs | _ \<Rightarrow> [])"

text \<open>Indexing past the saved priorities would panic.\<close>

fun restore_spine :: "node option \<Rightarrow> path \<Rightarrow> priority option list \<Rightarrow> node option \<Rightarrow> node option option" where
  "restore_spine current [] priorities saved = Some saved"
| "restore_spine current (key # rest) [] saved = None"
| "restore_spine current (key # rest) (p # ps) saved =
     (let cs = node_children current
      in case restore_spine (bm_get cs key) rest ps saved of
           None \<Rightarrow> None
         | Some old_child \<Rightarrow>
             let cs1 = (case old_child of
                          Some child \<Rightarrow> bm_insert key child (bm_remove key cs)
                        | None \<Rightarrow> bm_remove key cs)
             in if cs1 = [] then Some None else Some (Some (Node (Children cs1) p)))"

definition restore_scope :: "scope_snapshot \<Rightarrow> db_tree \<Rightarrow> db_tree option" where
  "restore_scope sn t =
     map_option (\<lambda>root. t\<lparr>tr_root := root\<rparr>)
       (restore_spine (tr_root t) (sn_path sn) (sn_priorities sn) (sn_node sn))"

section \<open>Writes inside a scope keep what is outside\<close>

text \<open>The live node agrees with the original one on every branch that leaves the path.\<close>

fun agree_outside :: "node option \<Rightarrow> node option \<Rightarrow> path \<Rightarrow> bool" where
  "agree_outside n m [] \<longleftrightarrow> True"
| "agree_outside n m (k # p) \<longleftrightarrow>
     (\<forall>j. j \<noteq> k \<longrightarrow> existing_child m j = existing_child n j)
     \<and> agree_outside (existing_child n k) (existing_child m k) p"

lemma agree_refl: "agree_outside n n p"
  by (induction p arbitrary: n) auto

lemma agree_prefix: "agree_outside n m p \<Longrightarrow> prefix q p \<Longrightarrow> agree_outside n m q"
  by (induction p arbitrary: n m q) (auto simp: prefix_Cons)

lemma agree_replace: "agree_outside n m p \<Longrightarrow> agree_outside n (replace m (p @ r) v) p"
  by (induction p arbitrary: n m) (auto simp: replace_child)

lemma agree_set_priority:
  "agree_outside n (Some m) p \<Longrightarrow> agree_outside n (Some (set_priority_at m (p @ r) q)) p"
proof (induction p arbitrary: n m)
  case (Cons k p)
  show ?case
  proof (cases "existing_child (Some m) k")
    case None
    then show ?thesis using Cons.prems set_priority_child [of m k "p @ r" q] by auto
  next
    case (Some c)
    then show ?thesis using Cons.prems Cons.IH [of "existing_child n k" c] set_priority_child [of m k "p @ r" q]
      by auto
  qed
qed simp

fun confined :: "path \<Rightarrow> db_write \<Rightarrow> bool" where
  "confined p (WriteValue q _) \<longleftrightarrow> prefix p q"
| "confined p (WritePriority q _) \<longleftrightarrow> prefix p q"
| "confined p (WriteUnchanged _) \<longleftrightarrow> True"

lemma agree_apply:
  assumes "agree_outside n (tr_root t) p" "confined p w"
  shows "agree_outside n (tr_root (tree_apply w t)) p"
proof (cases w)
  case (WriteValue q v)
  then show ?thesis using assms agree_replace by (auto simp: prefix_def)
next
  case (WritePriority q v)
  then show ?thesis using assms agree_set_priority by (cases "tr_root t") (auto simp: prefix_def)
qed (use assms in simp)

lemma agree_apply_all:
  "agree_outside n (tr_root t) p \<Longrightarrow> \<forall>w\<in>set ws. confined p w \<Longrightarrow>
     agree_outside n (tr_root (apply_all ws t)) p"
  by (induction ws arbitrary: t) (auto simp: agree_apply)

section \<open>Restoring gives the original back\<close>

lemma bm_get_node_children: "bm_get (node_children n) k = existing_child n k"
  by (auto simp: node_children_def existing_child_def split: option.split node.split content.split)

lemma node_children_wf: "opt_wf n \<Longrightarrow> bm_wf (node_children n)"
  by (auto simp: node_children_def split: option.split node.split content.split)

lemma restore_spine_exact:
  assumes "opt_wf n" "opt_wf m" "save_walk n p = (ps, saved)" "agree_outside n m (take (length ps) p)"
  shows "restore_spine m (take (length ps) p) ps saved = Some n"
  using assms
proof (induction n p arbitrary: m ps rule: save_walk.induct)
  case (1 cs pr key keys)
  obtain ps' where ps': "save_walk (bm_get cs key) keys = (ps', saved)" "ps = pr # ps'"
    using 1(4) by (auto split: prod.splits)
  let ?m = "existing_child m key"
  have child: "restore_spine ?m (take (length ps') keys) ps' saved = Some (bm_get cs key)"
    using 1(1) [OF _ opt_wf_existing [OF 1(3)] ps'(1), of key] 1(2,5) ps' node_wf_child [of cs pr key] by simp
  define cs1 where "cs1 = (case bm_get cs key of
      Some child \<Rightarrow> bm_insert key child (bm_remove key (node_children m))
    | None \<Rightarrow> bm_remove key (node_children m))"
  have "bm_get cs1 j = bm_get cs j" for j
    using 1(5) ps'(2) by (cases "bm_get cs key") (auto simp: cs1_def bm_get_node_children)
  moreover have "bm_wf cs1"
    using node_children_wf [OF 1(3)] by (auto simp: cs1_def split: option.split)
  ultimately have "cs1 = cs" using 1(2) by (intro map_of_eqI) auto
  then show ?case
    using child 1(2) ps'(2) by (simp add: Let_def bm_get_node_children cs1_def)
qed auto

lemma write_confined:
  assumes "write_for q w" "prefix base q"
  shows "confined (scope_path base) w"
proof (cases w)
  case (WriteValue r n)
  have "prefix (scope_path base) base"
    unfolding scope_path_def by (metis append_Nil2 is_priority_parent prefix_order.refl prefixI)
  then show ?thesis using assms WriteValue by (auto intro: prefix_order.trans)
next
  case (WritePriority r n)
  then have q: "q = r @ [priority_key]" using assms(1) by simp
  show ?thesis
  proof (cases "base = q")
    case True
    then have "is_priority base" using q by (simp add: is_priority_def path_last_def)
    then have "scope_path base = r" using True q is_priority_parent [of base] by (simp add: scope_path_def)
    then show ?thesis using WritePriority by simp
  next
    case False
    then have "prefix base r" using assms(2) q by (auto simp: prefix_snoc)
    moreover have "prefix (scope_path base) base"
      unfolding scope_path_def by (metis append_Nil2 is_priority_parent prefix_order.refl prefixI)
    ultimately show ?thesis using WritePriority by (auto intro: prefix_order.trans)
  qed
qed simp

text \<open>The base path of an action, and the paths of its writes.\<close>

fun action_path :: "db_action \<Rightarrow> string" where
  "action_path (DbSet s _ _) = s"
| "action_path (DbUpdate s _ _) = s"

lemma parse_display_eq:
  assumes "\<forall>k\<in>set p. k \<noteq> [] \<and> CHR ''/'' \<notin> set k" "path_parse (path_display p) limits = Ok q"
  shows "q = p"
  using assms filter_split_display [OF assms(1)] by (auto simp: path_parse_def Let_def and_then_eq_Inr)

lemma update_paths_below:
  assumes "path_parse s limits = Ok base"
  shows "update_paths limits base entries = Ok ps \<Longrightarrow> q \<in> set ps \<Longrightarrow> prefix base q"
proof (induction entries arbitrary: ps)
  case (Cons e entries)
  obtain relative v where e: "e = (relative, v)" by (cases e)
  from Cons(2) obtain r p' ps' where h: "path_parse relative limits = Ok r"
      "path_parse (path_display (path_join base r)) limits = Ok p'"
      "update_paths limits base entries = Ok ps'" "ps = p' # ps'"
    by (auto simp: e and_then_eq_Inr)
  have "\<forall>k\<in>set (path_join base r). k \<noteq> [] \<and> CHR ''/'' \<notin> set k"
    using path_parse_segments(1) [OF h(1)] path_parse_segments(1) [OF assms] by (auto simp: path_join_def)
  then have "p' = base @ r" using parse_display_eq [OF _ h(2)] by (simp add: path_join_def)
  then show ?case using Cons h by auto
qed simp

lemma tree_step_writes:
  obtains ws where "tree_step t a = apply_all ws t"
    "\<forall>w\<in>set ws. \<exists>p q. path_parse (action_path a) (tr_limits t) = Ok p \<and> write_for q w \<and> prefix p q"
proof (cases a)
  case (DbSet s v now)
  show ?thesis
  proof (cases "path_parse s (tr_limits t)")
    case (Inl e)
    then show ?thesis using DbSet that [of "[]"] by simp
  next
    case (Inr p)
    show ?thesis
    proof (cases "prepare t p v now")
      case (Inl e)
      then show ?thesis using DbSet Inr that [of "[]"] by (simp add: tree_set_def)
    next
      case (Inr w)
      then show ?thesis
        using DbSet \<open>path_parse s (tr_limits t) = Inr p\<close> that [of "[w]"] prepare_write_for [OF Inr]
        by (auto simp: tree_set_def)
    qed
  qed
next
  case (DbUpdate s entries now)
  show ?thesis
  proof (cases "path_parse s (tr_limits t)")
    case (Inl e)
    then show ?thesis using DbUpdate that [of "[]"] by simp
  next
    case (Inr p)
    obtain r t' where rt: "tree_update p entries now t = (r, t')" by (cases "tree_update p entries now t")
    show ?thesis
    proof (cases r)
      case (Inl e)
      then have "t' = t" using rt by (auto simp: tree_update_def split: if_splits sum.splits)
      then show ?thesis using DbUpdate Inr rt that [of "[]"] by simp
    next
      case ok: (Inr u)
      obtain ps ws where h: "update_paths (tr_limits t) p entries = Ok ps" "length ws = length ps"
          "\<And>i. i < length ps \<Longrightarrow> prepare t (ps ! i) (snd (entries ! i)) now = Ok (ws ! i)"
          "t' = apply_all (filter (\<lambda>w. \<not> is_priority_write w) ws @ filter is_priority_write ws) t"
        using tree_update_Ok [OF rt [unfolded ok]] by blast
      have "\<exists>q. write_for q w \<and> prefix p q" if w: "w \<in> set ws" for w
      proof -
        obtain i where i: "i < length ps" "w = ws ! i" using w h(2) by (auto simp: in_set_conv_nth)
        then show ?thesis
          using prepare_write_for [OF h(3)] update_paths_below [OF Inr h(1)] nth_mem by blast
      qed
      then show ?thesis using DbUpdate Inr rt h(4)
          that [of "filter (\<lambda>w. \<not> is_priority_write w) ws @ filter is_priority_write ws"] by auto
    qed
  qed
qed

lemma tree_step_limits [simp]: "tr_limits (tree_step t a) = tr_limits t"
proof -
  obtain ws where "tree_step t a = apply_all ws t" by (rule tree_step_writes)
  then show ?thesis by simp
qed

definition within :: "db_limits \<Rightarrow> path \<Rightarrow> db_action \<Rightarrow> bool" where
  "within limits base a \<longleftrightarrow>
     (case path_parse (action_path a) limits of Inl _ \<Rightarrow> True | Inr p \<Rightarrow> prefix base p)"

lemma agree_exec:
  "agree_outside n (tr_root t) (scope_path base) \<Longrightarrow> \<forall>a\<in>set as. within (tr_limits t) base a \<Longrightarrow>
     agree_outside n (tr_root (exec tree_step t as)) (scope_path base)"
proof (induction as arbitrary: t)
  case (Cons a as)
  obtain ws where ws: "tree_step t a = apply_all ws t"
      "\<forall>w\<in>set ws. \<exists>p q. path_parse (action_path a) (tr_limits t) = Ok p \<and> write_for q w \<and> prefix p q"
    by (rule tree_step_writes)
  have "confined (scope_path base) w" if "w \<in> set ws" for w
  proof -
    obtain p q where "path_parse (action_path a) (tr_limits t) = Ok p" "write_for q w" "prefix p q"
      using ws(2) \<open>w \<in> set ws\<close> by blast
    then show ?thesis using Cons.prems(2) write_confined [of q w base]
      by (auto simp: within_def intro: prefix_order.trans)
  qed
  then have "agree_outside n (tr_root (tree_step t a)) (scope_path base)"
    unfolding ws(1) using Cons.prems(1) by (intro agree_apply_all) auto
  then show ?case using Cons by simp
qed simp

text \<open>C38: A saved scope undoes every sequence of writes and updates confined to it: restoring gives
  back exactly the tree that was saved, pruned ancestors, displaced leaves and priorities
  included, and never panics.\<close>

theorem scope_restore_exact:
  assumes "tree_inv t" "\<forall>a\<in>set as. within (tr_limits t) base a"
  shows "restore_scope (save_scope t base) (exec tree_step t as) = Some t"
proof -
  let ?u = "exec tree_step t as"
  obtain ps saved where w: "save_walk (tr_root t) (scope_path base) = (ps, saved)"
    by (cases "save_walk (tr_root t) (scope_path base)")
  have u: "tree_inv ?u" by (rule tree_run.exec_inv [OF assms(1)])
  have "agree_outside (tr_root t) (tr_root ?u) (scope_path base)"
    using assms(2) by (intro agree_exec) (simp_all add: agree_refl)
  then have "agree_outside (tr_root t) (tr_root ?u) (take (length ps) (scope_path base))"
    by (rule agree_prefix) (rule take_is_prefix)
  then have "restore_spine (tr_root ?u) (take (length ps) (scope_path base)) ps saved = Some (tr_root t)"
    using assms(1) u w by (intro restore_spine_exact) (auto simp: tree_inv_def)
  moreover have "tr_limits ?u = tr_limits t" by (induction as arbitrary: t) auto
  ultimately show ?thesis by (simp add: restore_scope_def save_scope_def w)
qed

theorem scope_restore_exact_witness:
  "tree_get (exec tree_step sample_tree [DbSet ''a/1'' JNull 0, DbSet ''a/2'' (JString ''y'') 0]) [''a'', ''1''] = None
   \<and> restore_scope (save_scope sample_tree [''a''])
       (exec tree_step sample_tree [DbSet ''a/1'' JNull 0, DbSet ''a/2'' (JString ''y'') 0]) = Some sample_tree"
proof -
  have inv: "tree_inv sample_tree" unfolding tree_inv_def by code_simp
  have "\<forall>a\<in>set [DbSet ''a/1'' JNull 0, DbSet ''a/2'' (JString ''y'') 0]. within (tr_limits sample_tree) [''a''] a"
    unfolding within_def by code_simp
  from scope_restore_exact [OF inv this]
  have "restore_scope (save_scope sample_tree [''a''])
       (exec tree_step sample_tree [DbSet ''a/1'' JNull 0, DbSet ''a/2'' (JString ''y'') 0]) = Some sample_tree" .
  moreover have "tree_get (exec tree_step sample_tree [DbSet ''a/1'' JNull 0, DbSet ''a/2'' (JString ''y'') 0]) [''a'', ''1''] = None"
    by code_simp
  ultimately show ?thesis by blast
qed

end
