(* ===== verification/Db_View.thy ===== *)
theory Db_View
  imports Db_Scope
begin

text \<open>
  Views of the tree before a scoped write (\<open>ScopeView\<close> and \<open>NodeView\<close> of crates/
  fireemu-core-database/src/tree.rs): they read the saved scope and the live siblings without
  rebuilding the tree. A view stands for a node of the original tree; every reader of a view
  gives what the original node would.
\<close>

section \<open>Views\<close>

datatype node_view = Borrowed node | Spine "node option" nat

definition view_root :: "scope_snapshot option \<Rightarrow> db_tree \<Rightarrow> node_view option" where
  "view_root snapshot t =
     (case snapshot of
        None \<Rightarrow> map_option Borrowed (tr_root t)
      | Some sn \<Rightarrow>
          if is_root (sn_path sn) then map_option Borrowed (sn_node sn)
          else Some (Spine (tr_root t) 0))"

fun view_leaf :: "node_view \<Rightarrow> leaf option" where
  "view_leaf (Borrowed (Node (Leaf l) _)) = Some l"
| "view_leaf _ = None"

fun view_priority :: "scope_snapshot \<Rightarrow> node_view \<Rightarrow> priority option" where
  "view_priority sn (Borrowed n) = priority_of n"
| "view_priority sn (Spine _ depth) = sn_priorities sn ! depth"

definition child_node :: "node option \<Rightarrow> string \<Rightarrow> node option" where
  "child_node n key = bm_get (node_children n) key"

fun view_child :: "scope_snapshot \<Rightarrow> node_view \<Rightarrow> string \<Rightarrow> node_view option" where
  "view_child sn (Spine current depth) key =
     (if key = sn_path sn ! depth then
        if depth + 1 = length (sn_path sn) then map_option Borrowed (sn_node sn)
        else Some (Spine (child_node current key) (depth + 1))
      else map_option Borrowed (child_node current key))"
| "view_child sn (Borrowed n) key = map_option Borrowed (child_node (Some n) key)"

fun view_descend :: "scope_snapshot \<Rightarrow> node_view \<Rightarrow> path \<Rightarrow> node_view option" where
  "view_descend sn v [] = Some v"
| "view_descend sn v (key # keys) =
     (case view_child sn v key of None \<Rightarrow> None | Some c \<Rightarrow> view_descend sn c keys)"

definition view_get :: "scope_snapshot \<Rightarrow> db_tree \<Rightarrow> path \<Rightarrow> node_view option" where
  "view_get sn t p =
     (case view_root (Some sn) t of None \<Rightarrow> None | Some v \<Rightarrow> view_descend sn v p)"

text \<open>The items of \<open>ViewChildren\<close> in the order the iterator yields them.\<close>

fun view_iter :: "(string \<times> node) list \<Rightarrow> (string \<times> node_view option) option \<Rightarrow> (string \<times> node_view) list" where
  "view_iter [] None = []"
| "view_iter [] (Some (key, v)) = (case v of Some v \<Rightarrow> [(key, v)] | None \<Rightarrow> [])"
| "view_iter ((k, n) # es) None = (k, Borrowed n) # view_iter es None"
| "view_iter ((k, n) # es) (Some (key, v)) =
     (if key \<le> k then
        (let rest = (if key = k then es else (k, n) # es)
         in case v of
              Some v \<Rightarrow> (key, v) # view_iter rest None
            | None \<Rightarrow> view_iter rest None)
      else (k, Borrowed n) # view_iter es (Some (key, v)))"

fun view_children :: "scope_snapshot \<Rightarrow> node_view \<Rightarrow> (string \<times> node_view) list option" where
  "view_children sn (Borrowed n) =
     (if view_leaf (Borrowed n) \<noteq> None then None else Some (view_iter (node_children (Some n)) None))"
| "view_children sn (Spine current depth) =
     (let key = sn_path sn ! depth
      in Some (view_iter (node_children current) (Some (key, view_child sn (Spine current depth) key))))"

text \<open>The subtraction is on \<open>usize\<close>; the subtrahend counts a key of the map.\<close>

fun child_count :: "scope_snapshot \<Rightarrow> node_view \<Rightarrow> nat" where
  "child_count sn (Borrowed n) = length (node_children (Some n))"
| "child_count sn (Spine current depth) =
     (let key = sn_path sn ! depth; cs = node_children current
      in length cs - (if bm_contains cs key then 1 else 0)
         + (if view_child sn (Spine current depth) key \<noteq> None then 1 else 0))"

lemma size_child: "(k, c) \<in> set cs \<Longrightarrow> size c < size (Node (Children cs) p)"
  by (induction cs) auto

text \<open>Comparing with a node of the live tree; the nesting of a view is bounded by the node.\<close>

function view_equals :: "scope_snapshot \<Rightarrow> node_view \<Rightarrow> node \<Rightarrow> bool" where
  "view_equals sn (Borrowed n) other = node_eq n other"
| "view_equals sn (Spine current depth) other =
     (option_eq priority_eq (view_priority sn (Spine current depth)) (priority_of other)
      \<and> (case content_of other of
            Leaf _ \<Rightarrow> False
          | Children cs \<Rightarrow>
              child_count sn (Spine current depth) = length cs
              \<and> (case view_children sn (Spine current depth) of
                    None \<Rightarrow> True
                  | Some kids \<Rightarrow>
                      list_all (\<lambda>(key, v). case bm_get cs key of
                          None \<Rightarrow> False
                        | Some o2 \<Rightarrow> view_equals sn v o2) kids)))"
  by pat_completeness auto
termination
proof (relation "measure (\<lambda>(_, _, other). size other)", goal_cases)
  case (2 sn current depth other cs kids kv key v o2)
  then have "(key, o2) \<in> set cs" "content_of other = Children cs" by (auto dest: map_of_SomeD)
  then show ?case using size_child by (cases other) auto
qed simp

section \<open>A view stands for a node\<close>

fun stands_for :: "scope_snapshot \<Rightarrow> node_view \<Rightarrow> node \<Rightarrow> bool" where
  "stands_for sn (Borrowed m) n \<longleftrightarrow> m = n"
| "stands_for sn (Spine current depth) n \<longleftrightarrow>
     depth < length (sn_path sn) \<and> length (sn_priorities sn) = length (sn_path sn)
     \<and> save_walk (Some n) (drop depth (sn_path sn)) = (drop depth (sn_priorities sn), sn_node sn)
     \<and> agree_outside (Some n) current (drop depth (sn_path sn)) \<and> node_wf n \<and> opt_wf current"

lemma save_walk_take:
  "save_walk n p = (ps, saved) \<Longrightarrow> save_walk n (take (length ps) p) = (ps, saved) \<and> length ps \<le> length p"
  by (induction n p arbitrary: ps rule: save_walk.induct) (auto split: prod.splits)

lemma child_node_existing [simp]: "child_node n k = existing_child n k"
  by (simp add: child_node_def bm_get_node_children)

lemma existing_child_Some: "existing_child (Some n) k = node_child n k"
  by (simp add: existing_child_def)

text \<open>The node a spine view stands for has children; the next key leads to the next view.\<close>

lemma spine_step:
  assumes "stands_for sn (Spine current depth) n"
  obtains cs where "n = Node (Children cs) (sn_priorities sn ! depth)"
    "drop depth (sn_path sn) = sn_path sn ! depth # drop (depth + 1) (sn_path sn)"
    "save_walk (bm_get cs (sn_path sn ! depth)) (drop (depth + 1) (sn_path sn)) =
       (drop (depth + 1) (sn_priorities sn), sn_node sn)"
    "\<And>j. j \<noteq> sn_path sn ! depth \<Longrightarrow> existing_child current j = bm_get cs j"
    "agree_outside (bm_get cs (sn_path sn ! depth)) (existing_child current (sn_path sn ! depth)) (drop (depth + 1) (sn_path sn))"
proof -
  let ?key = "sn_path sn ! depth"
  have p: "drop depth (sn_path sn) = ?key # drop (depth + 1) (sn_path sn)"
    "drop depth (sn_priorities sn) = sn_priorities sn ! depth # drop (depth + 1) (sn_priorities sn)"
    using assms by (simp_all add: Cons_nth_drop_Suc)
  have w: "save_walk (Some n) (?key # drop (depth + 1) (sn_path sn)) =
      (sn_priorities sn ! depth # drop (depth + 1) (sn_priorities sn), sn_node sn)"
    using assms p by simp
  then obtain cs where cs: "n = Node (Children cs) (sn_priorities sn ! depth)"
      "save_walk (bm_get cs ?key) (drop (depth + 1) (sn_path sn)) = (drop (depth + 1) (sn_priorities sn), sn_node sn)"
    by (cases n; cases "content_of n") (auto split: prod.splits)
  have "agree_outside (Some n) current (?key # drop (depth + 1) (sn_path sn))"
    using assms p(1) by simp
  then show thesis using that [OF cs(1) p(1) cs(2)] cs(1) by simp
qed

lemma view_child_stands:
  assumes "stands_for sn v n"
  shows "case view_child sn v key of
      None \<Rightarrow> node_child n key = None
    | Some v' \<Rightarrow> \<exists>c. node_child n key = Some c \<and> stands_for sn v' c"
proof (cases v)
  case (Borrowed m)
  then show ?thesis using assms by (auto simp: existing_child_Some split: option.split)
next
  case (Spine current depth)
  then have st: "stands_for sn (Spine current depth) n" using assms by simp
  obtain cs where cs: "n = Node (Children cs) (sn_priorities sn ! depth)"
      "drop depth (sn_path sn) = sn_path sn ! depth # drop (depth + 1) (sn_path sn)"
      "save_walk (bm_get cs (sn_path sn ! depth)) (drop (depth + 1) (sn_path sn)) =
         (drop (depth + 1) (sn_priorities sn), sn_node sn)"
      "\<And>j. j \<noteq> sn_path sn ! depth \<Longrightarrow> existing_child current j = bm_get cs j"
      "agree_outside (bm_get cs (sn_path sn ! depth)) (existing_child current (sn_path sn ! depth)) (drop (depth + 1) (sn_path sn))"
    using spine_step [OF st] by blast
  show ?thesis
  proof (cases "key = sn_path sn ! depth")
    case False
    then show ?thesis using Spine cs(1,4) by (auto split: option.split)
  next
    case key: True
    show ?thesis
    proof (cases "depth + 1 = length (sn_path sn)")
      case True
      then have "bm_get cs key = sn_node sn" using cs(3) key st by (cases "bm_get cs key") auto
      then show ?thesis using Spine key True cs(1) by (auto split: option.split)
    next
      case False
      then have d: "depth + 1 < length (sn_path sn)" using st by simp
      then have ne: "drop (depth + 1) (sn_priorities sn) \<noteq> []" using st by simp
      obtain c where c: "bm_get cs key = Some c"
        using cs(3) key ne by (cases "bm_get cs key") auto
      have "node_wf c" "opt_wf (existing_child current key)"
        using st cs(1) node_wf_child [of cs _ key] c opt_wf_existing by auto
      then have "stands_for sn (Spine (existing_child current key) (depth + 1)) c"
        using cs(3,5) key c st d by simp
      then show ?thesis using Spine key False cs(1) c by simp
    qed
  qed
qed

lemma view_descend_stands:
  "stands_for sn v n \<Longrightarrow>
   (case view_descend sn v p of
      None \<Rightarrow> descendant n p = None
    | Some v' \<Rightarrow> \<exists>c. descendant n p = Some c \<and> stands_for sn v' c)"
proof (induction p arbitrary: v n)
  case (Cons k p)
  note child = view_child_stands [OF Cons.prems, of k]
  show ?case
  proof (cases "view_child sn v k")
    case (Some v')
    then obtain c where "node_child n k = Some c" "stands_for sn v' c" using child by auto
    then show ?thesis using Some Cons.IH [of v' c] by (auto split: option.splits)
  qed (use child in simp)
qed simp

lemma view_leaf_stands: "stands_for sn v n \<Longrightarrow> view_leaf v = leaf_of n"
proof (cases v)
  case (Borrowed m)
  then show "stands_for sn v n \<Longrightarrow> ?thesis" by (cases m; cases "content_of m") auto
next
  case (Spine current depth)
  assume "stands_for sn v n"
  then have "stands_for sn (Spine current depth) n" using Spine by simp
  then obtain cs where "n = Node (Children cs) (sn_priorities sn ! depth)" by (rule spine_step)
  then show ?thesis using Spine by simp
qed

lemma view_priority_stands: "stands_for sn v n \<Longrightarrow> view_priority sn v = priority_of n"
proof (cases v)
  case (Spine current depth)
  assume "stands_for sn v n"
  then have "stands_for sn (Spine current depth) n" using Spine by simp
  then obtain cs where "n = Node (Children cs) (sn_priorities sn ! depth)" by (rule spine_step)
  then show ?thesis using Spine by simp
qed simp

subsection \<open>Children\<close>

lemma view_iter_None: "view_iter es None = map (\<lambda>(k, n). (k, Borrowed n)) es"
  by (induction es) auto

lemma view_iter_overlay:
  "bm_wf es \<Longrightarrow> view_iter es (Some (key, v)) =
     map (\<lambda>(k, n). (k, Borrowed n)) (filter (\<lambda>e. fst e < key) es)
     @ (case v of Some v \<Rightarrow> [(key, v)] | None \<Rightarrow> [])
     @ map (\<lambda>(k, n). (k, Borrowed n)) (filter (\<lambda>e. key < fst e) es)"
proof (induction es)
  case (Cons e es)
  obtain k n where e: "e = (k, n)" by (cases e)
  have wf: "bm_wf es" "\<forall>x\<in>set es. k < fst x" using Cons.prems e by (auto simp: bm_wf_def)
  show ?case
  proof (cases "key \<le> k")
    case True
    then have below: "filter (\<lambda>e. fst e < key) es = []" "filter (\<lambda>e. key < fst e) es = es"
      using wf(2) by (auto simp: filter_empty_conv filter_id_conv)
    then show ?thesis using True e by (auto simp: view_iter_None Let_def split: option.split)
  next
    case False
    then have "k < key" "\<not> key < k" by auto
    then show ?thesis using Cons.IH [OF wf(1)] e False by simp
  qed
qed (simp split: option.split)

lemma bm_split:
  assumes "bm_wf cs"
  shows "cs = filter (\<lambda>e. fst e < key) cs
       @ (case bm_get cs key of Some c \<Rightarrow> [(key, c)] | None \<Rightarrow> []) @ filter (\<lambda>e. key < fst e) cs"
proof (cases "bm_get cs key")
  case (Some c)
  have "cs = bm_insert key c cs" using bmap.ins_get [OF assms Some] by simp
  then show ?thesis using Some by (simp add: bm_insert_def)
next
  case None
  then have "\<forall>e\<in>set cs. fst e \<noteq> key" by (auto simp: map_of_eq_None_iff)
  then have "cs = filter (\<lambda>e. fst e < key) cs @ filter (\<lambda>e. key < fst e) cs"
    using assms
  proof (induction cs)
    case (Cons e cs)
    then have le: "\<forall>x\<in>set cs. fst e < fst x" "bm_wf cs" by (auto simp: bm_wf_def)
    show ?case
    proof (cases "fst e < key")
      case True
      then show ?thesis using Cons le by auto
    next
      case False
      then have "key < fst e" using Cons.prems by auto
      then have "filter (\<lambda>e. fst e < key) cs = []" "filter (\<lambda>e. key < fst e) cs = cs"
        using le by (auto simp: filter_empty_conv filter_id_conv)
      then show ?thesis using False \<open>key < fst e\<close> by simp
    qed
  qed simp
  then show ?thesis using None by simp
qed

lemma filter_bm_remove:
  "filter (\<lambda>e. fst e < k) (bm_remove k cs) = filter (\<lambda>e. fst e < k) cs"
  "filter (\<lambda>e. k < fst e) (bm_remove k cs) = filter (\<lambda>e. k < fst e) cs"
  by (auto simp: bm_remove_def intro!: filter_cong)

lemma length_bm_remove:
  assumes "bm_wf es"
  shows "length es = length (bm_remove k es) + (if bm_contains es k then 1 else 0)"
proof (cases "bm_get es k")
  case None
  then show ?thesis by (auto simp: bm_contains_iff map_of_eq_None_iff bm_remove_absent)
next
  case (Some v)
  have "length (bm_insert k v (bm_remove k es)) = Suc (length (bm_remove k es))"
    using length_bm_insert [OF bm_wf_remove [OF assms], of k v k]
    by (auto simp: bm_contains_iff set_bm_remove)
  then show ?thesis using bm_remove_insert [OF assms Some] Some
    by (auto simp: bm_contains_iff dest!: map_of_SomeD intro: rev_image_eqI)
qed

definition kids_stand :: "scope_snapshot \<Rightarrow> (string \<times> node_view) list \<Rightarrow> (string \<times> node) list \<Rightarrow> bool" where
  "kids_stand sn kids cs \<longleftrightarrow> list_all2 (\<lambda>(k, v) (l, c). k = l \<and> stands_for sn v c) kids cs"

lemma kids_stand_borrowed: "kids_stand sn (map (\<lambda>(k, n). (k, Borrowed n)) es) es"
  by (induction es) (auto simp: kids_stand_def)

lemma kids_stand_append:
  "kids_stand sn a b \<Longrightarrow> kids_stand sn c d \<Longrightarrow> kids_stand sn (a @ c) (b @ d)"
  by (simp add: kids_stand_def list_all2_appendI)

lemma view_children_stands:
  assumes "stands_for sn v (Node (Children cs) p)"
  shows "\<exists>kids. view_children sn v = Some kids \<and> kids_stand sn kids cs \<and> child_count sn v = length cs"
proof (cases v)
  case (Borrowed m)
  then show ?thesis using assms by (auto simp: node_children_def view_iter_None kids_stand_borrowed)
next
  case (Spine current depth)
  let ?key = "sn_path sn ! depth"
  have st: "stands_for sn (Spine current depth) (Node (Children cs) p)" using assms Spine by simp
  obtain cs' where "Node (Children cs) p = Node (Children cs') (sn_priorities sn ! depth)"
      "\<And>j. j \<noteq> ?key \<Longrightarrow> existing_child current j = bm_get cs' j"
    using spine_step [OF st] by blast
  then have sib: "\<And>j. j \<noteq> ?key \<Longrightarrow> existing_child current j = bm_get cs j" by simp
  let ?es = "node_children current"
  have wf: "bm_wf ?es" "bm_wf cs" using st node_children_wf [of current] by auto
  have rem: "bm_remove ?key ?es = bm_remove ?key cs"
    using wf sib by (intro map_of_eqI) (auto simp: bm_get_node_children fun_eq_iff)
  have flt: "filter (\<lambda>e. fst e < ?key) ?es = filter (\<lambda>e. fst e < ?key) cs"
    "filter (\<lambda>e. ?key < fst e) ?es = filter (\<lambda>e. ?key < fst e) cs"
    using filter_bm_remove rem by metis+
  note child = view_child_stands [OF st, of ?key]
  have mid: "kids_stand sn
      (case view_child sn (Spine current depth) ?key of Some v \<Rightarrow> [(?key, v)] | None \<Rightarrow> [])
      (case bm_get cs ?key of Some c \<Rightarrow> [(?key, c)] | None \<Rightarrow> [])"
    using child by (auto simp: kids_stand_def simp del: view_child.simps split: option.splits)
  have "kids_stand sn (view_iter ?es (Some (?key, view_child sn (Spine current depth) ?key)))
      (filter (\<lambda>e. fst e < ?key) cs @ (case bm_get cs ?key of Some c \<Rightarrow> [(?key, c)] | None \<Rightarrow> [])
       @ filter (\<lambda>e. ?key < fst e) cs)"
    unfolding view_iter_overlay [OF wf(1)] flt
    by (intro kids_stand_append mid kids_stand_borrowed)
  then have kids: "kids_stand sn (view_iter ?es (Some (?key, view_child sn (Spine current depth) ?key))) cs"
    by (simp flip: bm_split [OF wf(2)])
  have len: "length es = length (bm_remove ?key es) + (if bm_contains es ?key then 1 else 0)"
    if "bm_wf es" for es :: "(string \<times> node) list"
    by (rule length_bm_remove [OF that])
  have has: "bm_contains cs ?key \<longleftrightarrow> bm_get cs ?key \<noteq> None"
    by (simp add: bm_contains_def)
  have "child_count sn (Spine current depth) = length (bm_remove ?key cs)
      + (if view_child sn (Spine current depth) ?key \<noteq> None then 1 else 0)"
    using len [OF wf(1)] rem by (simp add: Let_def del: view_child.simps)
  also have "\<dots> = length cs"
    using len [OF wf(2)] child has
    by (auto simp del: view_child.simps split: option.splits)
  finally show ?thesis using Spine kids by (simp add: Let_def del: view_child.simps)
qed

lemma child_count_stands:
  assumes "stands_for sn v n"
  shows "child_count sn v = length (node_children (Some n))"
proof (cases n)
  case (Node c p)
  show ?thesis
  proof (cases c)
    case (Leaf l)
    then show ?thesis using view_leaf_stands [OF assms] assms Node by (cases v) auto
  next
    case (Children cs)
    then show ?thesis using view_children_stands [of sn v cs p] assms Node by (auto simp: node_children_def)
  qed
qed

subsection \<open>Equality\<close>

lemma children_eq_list: "children_eq as bs \<longleftrightarrow> list_all2 (\<lambda>(k, a) (l, b). k = l \<and> node_eq a b) as bs"
  by (induction as bs rule: list_induct2') auto

text \<open>Two maps are equal when they have the same size and each entry of one is found in the other.\<close>

lemma children_eq_lookup:
  assumes "bm_wf as" "bm_wf bs"
  shows "children_eq as bs \<longleftrightarrow> length as = length bs
     \<and> (\<forall>(k, a)\<in>set as. case bm_get bs k of None \<Rightarrow> False | Some b \<Rightarrow> node_eq a b)" (is "_ \<longleftrightarrow> _ \<and> ?all")
proof
  assume "children_eq as bs"
  then have l2: "list_all2 (\<lambda>(k, a) (l, b). k = l \<and> node_eq a b) as bs" by (simp add: children_eq_list)
  have ?all
  proof clarify
    fix k a assume "(k, a) \<in> set as"
    then obtain b where "(k, b) \<in> set bs" "node_eq a b"
      using l2 by (fastforce simp: list_all2_conv_all_nth in_set_conv_nth)
    then show "case bm_get bs k of None \<Rightarrow> False | Some b \<Rightarrow> node_eq a b"
      using assms(2) by (simp flip: bm_get_eq_Some)
  qed
  then show "length as = length bs \<and> ?all" using l2 by (auto dest: list_all2_lengthD)
next
  assume h: "length as = length bs \<and> ?all"
  have "k \<in> fst ` set bs" if "(k, a) \<in> set as" for k a
    using h that by (cases "bm_get bs k") (auto dest!: map_of_SomeD intro: rev_image_eqI)
  then have "set (map fst as) \<subseteq> set (map fst bs)" by auto
  moreover have "card (set (map fst as)) = card (set (map fst bs))"
    using h assms by (simp only: distinct_card bm_wf_distinct length_map)
  ultimately have "set (map fst as) = set (map fst bs)" by (intro card_subset_eq) auto
  then have keys: "map fst as = map fst bs" using assms by (intro bs_ext) (auto simp: bm_wf_def bs_wf_def)
  have "node_eq (snd (as ! i)) (snd (bs ! i)) \<and> fst (as ! i) = fst (bs ! i)" if i: "i < length as" for i
  proof -
    have f: "fst (as ! i) = fst (bs ! i)" using keys i by (metis length_map nth_map)
    have "bs ! i \<in> set bs" using h i by simp
    then have "bm_get bs (fst (as ! i)) = Some (snd (bs ! i))"
      using assms(2) f by (simp add: bm_get_eq_Some)
    moreover have "as ! i \<in> set as" using i by simp
    ultimately show ?thesis using h f by (fastforce split: prod.splits)
  qed
  then show "children_eq as bs"
    using h by (auto simp: children_eq_list list_all2_conv_all_nth case_prod_beta)
qed

lemma stands_for_wf: "stands_for sn (Spine current depth) n \<Longrightarrow> node_wf n"
  by simp

lemma view_equals_stands:
  "stands_for sn v n \<Longrightarrow> node_wf other \<Longrightarrow> view_equals sn v other = node_eq n other"
proof (induction sn v other arbitrary: n rule: view_equals.induct)
  case (2 sn current depth other)
  obtain cs where n: "n = Node (Children cs) (sn_priorities sn ! depth)"
    using spine_step [OF 2(2)] by blast
  show ?case
  proof (cases other)
    case (Node d q)
    show ?thesis
    proof (cases d)
      case (Children ds)
      obtain kids where kids: "view_children sn (Spine current depth) = Some kids" "kids_stand sn kids cs"
          "child_count sn (Spine current depth) = length cs"
        using view_children_stands [of sn _ cs] 2(2) n by blast
      have wf: "bm_wf cs" "bm_wf ds" using stands_for_wf [OF 2(2)] 2(3) n Node Children by auto
      show ?thesis
      proof (cases "option_eq priority_eq (sn_priorities sn ! depth) q \<and> length cs = length ds")
        case True
        have step: "view_equals sn v e = node_eq c e"
          if "stands_for sn v c" "(k, v) \<in> set kids" "bm_get ds k = Some e" for k v c e
        proof (rule 2(1))
          show "node_wf e" using node_wf_child [of ds _ k] 2(3) Node Children that(3) by simp
        qed (use that Node Children kids(1,3) True in \<open>auto simp del: view_children.simps child_count.simps\<close>)
        have each: "kids_stand sn ks es \<Longrightarrow> set ks \<subseteq> set kids \<Longrightarrow>
            list_all (\<lambda>(key, v). case bm_get ds key of None \<Rightarrow> False | Some o2 \<Rightarrow> view_equals sn v o2) ks
            = list_all (\<lambda>(k, a). case bm_get ds k of None \<Rightarrow> False | Some b \<Rightarrow> node_eq a b) es" for ks es
          unfolding kids_stand_def
          by (induction rule: list_all2_induct) (auto simp: step split: option.split)
        have "view_equals sn (Spine current depth) other \<longleftrightarrow>
            list_all (\<lambda>(key, v). case bm_get ds key of None \<Rightarrow> False | Some o2 \<Rightarrow> view_equals sn v o2) kids"
          unfolding view_equals.simps(2) using kids Node Children True
          by (simp del: view_children.simps child_count.simps)
        also have "\<dots> \<longleftrightarrow> children_eq cs ds"
          unfolding each [OF kids(2) order_refl] children_eq_lookup [OF wf] using True
          by (simp add: list_all_iff)
        finally show ?thesis using n Node Children True by simp
      next
        case False
        then have "\<not> node_eq n other" using n Node Children children_eq_lookup [OF wf] by auto
        moreover have "\<not> view_equals sn (Spine current depth) other"
          using False kids(3) Node Children by (auto simp del: view_children.simps child_count.simps)
        ultimately show ?thesis by simp
      qed
    qed (use Node n in simp)
  qed
qed simp

section \<open>The view of a saved scope\<close>

lemma view_root_stands:
  assumes "tree_inv t" "tree_inv u" "agree_outside (tr_root t) (tr_root u) (scope_path base)"
  shows "case view_root (Some (save_scope t base)) u of
      None \<Rightarrow> tr_root t = None
    | Some v \<Rightarrow> \<exists>n. tr_root t = Some n \<and> stands_for (save_scope t base) v n"
proof -
  obtain ps saved where w: "save_walk (tr_root t) (scope_path base) = (ps, saved)"
    by (cases "save_walk (tr_root t) (scope_path base)")
  let ?p = "take (length ps) (scope_path base)"
  have sn: "save_scope t base = \<lparr>sn_path = ?p, sn_node = saved, sn_priorities = ps\<rparr>"
    by (simp add: save_scope_def w)
  have w': "save_walk (tr_root t) ?p = (ps, saved)" "length ps \<le> length (scope_path base)"
    using save_walk_take [OF w] by auto
  show ?thesis
  proof (cases "ps = []")
    case True
    then have "saved = tr_root t" using w' by (cases "tr_root t") auto
    then show ?thesis using True by (simp add: view_root_def sn is_root_def split: option.split)
  next
    case False
    then obtain n where n: "tr_root t = Some n" using w by (cases "tr_root t") auto
    have "agree_outside (tr_root t) (tr_root u) ?p"
      using assms(3) by (rule agree_prefix) (rule take_is_prefix)
    moreover have "opt_wf (tr_root t)" "opt_wf (tr_root u)" using assms by (auto simp: tree_inv_def)
    ultimately have "stands_for (save_scope t base) (Spine (tr_root u) 0) n"
      using False w' n by (simp add: sn)
    then show ?thesis using False n w' by (auto simp: view_root_def sn is_root_def)
  qed
qed

lemma view_get_stands:
  assumes "tree_inv t" "tree_inv u" "agree_outside (tr_root t) (tr_root u) (scope_path base)"
  shows "case view_get (save_scope t base) u q of
      None \<Rightarrow> tree_get t q = None
    | Some v \<Rightarrow> \<exists>n. tree_get t q = Some n \<and> stands_for (save_scope t base) v n"
  using view_root_stands [OF assms] view_descend_stands [of "save_scope t base" _ _ q]
  by (fastforce simp: view_get_def tree_get_def node_get_def split: option.splits)

lemma view_children_keys:
  assumes "stands_for sn v n"
  shows "map_option (map fst) (view_children sn v)
     = (case content_of n of Leaf _ \<Rightarrow> None | Children cs \<Rightarrow> Some (map fst cs))"
proof (cases n)
  case (Node c p)
  show ?thesis
  proof (cases c)
    case (Leaf l)
    then have "view_leaf v = Some l" using view_leaf_stands [OF assms] Node by simp
    then show ?thesis using Leaf Node by (cases v) auto
  next
    case (Children cs)
    then obtain kids where "view_children sn v = Some kids" "kids_stand sn kids cs"
      using view_children_stands [of sn v cs p] assms Node by auto
    moreover have "map fst kids = map fst cs" if "kids_stand sn kids cs" for kids
      using that by (auto simp: kids_stand_def list_all2_conv_all_nth case_prod_beta intro: nth_equalityI)
    ultimately show ?thesis using Node Children by simp
  qed
qed

text \<open>C39: After any sequence of writes confined to a scope, the view through the saved scope reads the
  tree as it was when the scope was saved, at every path: a view exists exactly where a node
  did, and its leaf, priority, child keys in order, child count and equality with any node are
  the original node's.\<close>

theorem scope_view_exact:
  fixes t u :: db_tree and as :: "db_action list" and base :: path
  defines "u \<equiv> exec tree_step t as" and "sn \<equiv> save_scope t base"
  assumes "tree_inv t" "\<forall>a\<in>set as. within (tr_limits t) base a"
  shows "case view_get sn u q of
      None \<Rightarrow> tree_get t q = None
    | Some v \<Rightarrow> \<exists>n. tree_get t q = Some n \<and> view_leaf v = leaf_of n
        \<and> view_priority sn v = priority_of n
        \<and> map_option (map fst) (view_children sn v)
            = (case content_of n of Leaf _ \<Rightarrow> None | Children cs \<Rightarrow> Some (map fst cs))
        \<and> child_count sn v = length (node_children (Some n))
        \<and> (\<forall>other. node_wf other \<longrightarrow> view_equals sn v other = node_eq n other)"
proof -
  have "tree_inv u" unfolding u_def by (rule tree_run.exec_inv [OF assms(3)])
  moreover have "agree_outside (tr_root t) (tr_root u) (scope_path base)"
    unfolding u_def using assms(4) by (intro agree_exec) (simp_all add: agree_refl)
  ultimately have get: "case view_get sn u q of None \<Rightarrow> tree_get t q = None
    | Some v \<Rightarrow> \<exists>n. tree_get t q = Some n \<and> stands_for sn v n"
    unfolding sn_def by (rule view_get_stands [OF assms(3)])
  show ?thesis
  proof (cases "view_get sn u q")
    case (Some v)
    then obtain n where n: "tree_get t q = Some n" "stands_for sn v n" using get by auto
    show ?thesis unfolding Some option.case
      using n(1) view_leaf_stands [OF n(2)] view_priority_stands [OF n(2)] view_children_keys [OF n(2)]
        child_count_stands [OF n(2)] view_equals_stands [OF n(2)] by blast
  qed (use get in simp)
qed

theorem scope_view_exact_witness:
  "case view_get (save_scope sample_tree [''a'']) (exec tree_step sample_tree [DbSet ''a/1'' JNull 0]) [''a'', ''1''] of
     None \<Rightarrow> False
   | Some v \<Rightarrow> tree_get sample_tree [''a'', ''1''] \<noteq> None
       \<and> view_leaf v = leaf_at (tr_root sample_tree) [''a'', ''1'']"
proof -
  have inv: "tree_inv sample_tree" unfolding tree_inv_def by code_simp
  have "\<forall>a\<in>set [DbSet ''a/1'' JNull 0]. within (tr_limits sample_tree) [''a''] a"
    unfolding within_def by code_simp
  note exact = scope_view_exact [OF inv this, of "[''a'', ''1'']"]
  have "view_get (save_scope sample_tree [''a'']) (exec tree_step sample_tree [DbSet ''a/1'' JNull 0]) [''a'', ''1''] \<noteq> None"
    by code_simp
  then show ?thesis using exact by (auto simp: leaf_at_def tree_get_def split: option.splits)
qed

end
