(* ===== verification/Db_Query.thy ===== *)
theory Db_Query
  imports Db_Tree
begin

text \<open>
  Queries on the children of a location (crates/fireemu-core-database/src/query.rs): the four
  orders, range bounds, limits, validation and evaluation. Evaluation is shown to cut a
  contiguous range out of one total order of the children.
\<close>

section \<open>Parameters\<close>

datatype order_by = OrderPriority | OrderKey | OrderValue | OrderChild path

datatype bound_key = MinKey | MaxKey | NameKey string

record bound =
  b_value :: json
  b_key :: bound_key
  b_inclusive :: bool

datatype limit = First nat | Last nat

record query_params =
  q_order :: order_by
  q_start :: "bound option"
  q_end :: "bound option"
  q_limit :: "limit option"

definition ordered_by :: "order_by \<Rightarrow> query_params" where
  "ordered_by order = \<lparr>q_order = order, q_start = None, q_end = None, q_limit = None\<rparr>"

definition bound_key_or :: "bound_key \<Rightarrow> string option \<Rightarrow> bound_key" where
  "bound_key_or missing key = (case key of None \<Rightarrow> missing | Some k \<Rightarrow> NameKey k)"

definition start_at :: "json \<Rightarrow> string option \<Rightarrow> query_params \<Rightarrow> query_params" where
  "start_at v key q = q\<lparr>q_start := Some \<lparr>b_value = v, b_key = bound_key_or MinKey key, b_inclusive = True\<rparr>\<rparr>"

definition start_after :: "json \<Rightarrow> string option \<Rightarrow> query_params \<Rightarrow> query_params" where
  "start_after v key q = q\<lparr>q_start := Some \<lparr>b_value = v, b_key = bound_key_or MaxKey key, b_inclusive = False\<rparr>\<rparr>"

definition end_at :: "json \<Rightarrow> string option \<Rightarrow> query_params \<Rightarrow> query_params" where
  "end_at v key q = q\<lparr>q_end := Some \<lparr>b_value = v, b_key = bound_key_or MaxKey key, b_inclusive = True\<rparr>\<rparr>"

definition end_before :: "json \<Rightarrow> string option \<Rightarrow> query_params \<Rightarrow> query_params" where
  "end_before v key q = q\<lparr>q_end := Some \<lparr>b_value = v, b_key = bound_key_or MinKey key, b_inclusive = False\<rparr>\<rparr>"

definition equal_to :: "json \<Rightarrow> string option \<Rightarrow> query_params \<Rightarrow> query_params" where
  "equal_to v key q = end_at v key (start_at v key q)"

definition limit_to_first :: "nat \<Rightarrow> query_params \<Rightarrow> query_params" where
  "limit_to_first n q = q\<lparr>q_limit := Some (First n)\<rparr>"

definition limit_to_last :: "nat \<Rightarrow> query_params \<Rightarrow> query_params" where
  "limit_to_last n q = q\<lparr>q_limit := Some (Last n)\<rparr>"

text \<open>The arms of the match, in the order of the source.\<close>

fun bound_fits :: "order_by \<Rightarrow> json \<Rightarrow> bound_key \<Rightarrow> bool" where
  "bound_fits OrderKey (JString _) key \<longleftrightarrow> (case key of NameKey _ \<Rightarrow> False | _ \<Rightarrow> True)"
| "bound_fits _ (JArray _) _ \<longleftrightarrow> False"
| "bound_fits _ (JObject _) _ \<longleftrightarrow> False"
| "bound_fits OrderKey _ _ \<longleftrightarrow> False"
| "bound_fits OrderPriority (JBool _) _ \<longleftrightarrow> False"
| "bound_fits _ _ _ \<longleftrightarrow> True"

fun check_bounds :: "order_by \<Rightarrow> bound list \<Rightarrow> (error_kind, unit) result" where
  "check_bounds order [] = Ok ()"
| "check_bounds order (b # bs) =
     (if \<not> bound_fits order (b_value b) (b_key b) then Err InvalidQuery else check_bounds order bs)"

definition option_list :: "'a option \<Rightarrow> 'a list" where
  "option_list x = (case x of None \<Rightarrow> [] | Some y \<Rightarrow> [y])"

definition query_validate :: "query_params \<Rightarrow> (error_kind, unit) result" where
  "query_validate q = check_bounds (q_order q) (option_list (q_start q) @ option_list (q_end q))"

section \<open>Index values\<close>

text \<open>\<open>Leaf\<close> and \<open>LeafRef\<close> differ in ownership only.\<close>

datatype index_value = IAbsent | ILeaf leaf | IChildren

fun of_content :: "content option \<Rightarrow> index_value" where
  "of_content None = IAbsent"
| "of_content (Some (Leaf l)) = ILeaf l"
| "of_content (Some (Children _)) = IChildren"

definition of_node :: "node option \<Rightarrow> index_value" where
  "of_node n = of_content (map_option content_of n)"

fun of_bound :: "json \<Rightarrow> index_value" where
  "of_bound (JBool b) = ILeaf (LBool b)"
| "of_bound (JNumber n) = ILeaf (LNumber n)"
| "of_bound (JString s) = ILeaf (LString s)"
| "of_bound _ = IAbsent"

fun index_leaf :: "index_value \<Rightarrow> leaf option" where
  "index_leaf (ILeaf l) = Some l"
| "index_leaf _ = None"

fun index_rank :: "index_value \<Rightarrow> nat" where
  "index_rank IAbsent = 0"
| "index_rank (ILeaf _) = 1"
| "index_rank IChildren = 2"

definition cmp_with :: "index_value \<Rightarrow> index_value \<Rightarrow> ordering" where
  "cmp_with a b =
     (case (index_leaf a, index_leaf b) of
        (Some x, Some y) \<Rightarrow> value_cmp x y
      | _ \<Rightarrow> cmp (index_rank a) (index_rank b))"

fun index_of :: "order_by \<Rightarrow> node \<Rightarrow> index_value" where
  "index_of OrderPriority child =
     (case priority_of child of None \<Rightarrow> IAbsent | Some p \<Rightarrow> ILeaf (as_leaf p))"
| "index_of OrderValue child = of_node (Some child)"
| "index_of (OrderChild p) child = of_node (descendant child p)"
| "index_of OrderKey child = IAbsent"

section \<open>Evaluation\<close>

definition compare_children :: "query_params \<Rightarrow> string \<Rightarrow> node \<Rightarrow> string \<Rightarrow> node \<Rightarrow> ordering" where
  "compare_children q ka a kb b =
     (case q_order q of
        OrderKey \<Rightarrow> name_compare ka kb
      | order \<Rightarrow> then_with (cmp_with (index_of order a) (index_of order b)) (name_compare ka kb))"

fun bound_primary :: "order_by \<Rightarrow> json \<Rightarrow> string \<Rightarrow> node \<Rightarrow> ordering" where
  "bound_primary OrderKey (JString name) key child = name_compare key name"
| "bound_primary order v key child = cmp_with (index_of order child) (of_bound v)"

definition compare_to_bound :: "query_params \<Rightarrow> string \<Rightarrow> node \<Rightarrow> bound \<Rightarrow> ordering" where
  "compare_to_bound q key child b =
     then_with (bound_primary (q_order q) (b_value b) key child)
       (case b_key b of
          MinKey \<Rightarrow> Greater
        | MaxKey \<Rightarrow> Less
        | NameKey name \<Rightarrow> name_compare key name)"

definition after_start :: "query_params \<Rightarrow> string \<Rightarrow> node \<Rightarrow> bool" where
  "after_start q key child =
     (case q_start q of
        None \<Rightarrow> True
      | Some b \<Rightarrow> let ord = compare_to_bound q key child b
                  in ord = Greater \<or> (ord = Equal \<and> b_inclusive b))"

definition before_end :: "query_params \<Rightarrow> string \<Rightarrow> node \<Rightarrow> bool" where
  "before_end q key child =
     (case q_end q of
        None \<Rightarrow> True
      | Some b \<Rightarrow> let ord = compare_to_bound q key child b
                  in ord = Less \<or> (ord = Equal \<and> b_inclusive b))"

definition in_range :: "query_params \<Rightarrow> string \<Rightarrow> node \<Rightarrow> bool" where
  "in_range q key child \<longleftrightarrow> after_start q key child \<and> before_end q key child"

definition apply_limit :: "limit option \<Rightarrow> 'a list \<Rightarrow> 'a list" where
  "apply_limit l selected =
     (case l of
        None \<Rightarrow> selected
      | Some (First n) \<Rightarrow> take n selected
      | Some (Last n) \<Rightarrow> drop (length selected - n) selected)"

definition query_run :: "query_params \<Rightarrow> node option \<Rightarrow> (string \<times> node) list" where
  "query_run q n =
     (case map_option content_of n of
        Some (Children cs) \<Rightarrow>
          apply_limit (q_limit q)
            (sort_by (\<lambda>(ka, a) (kb, b). compare_children q ka a kb b)
              (filter (\<lambda>(key, child). in_range q key child) cs))
      | _ \<Rightarrow> [])"

section \<open>Data whose numbers are numbers\<close>

fun leaf_ok :: "leaf \<Rightarrow> bool" where
  "leaf_ok (LNumber n) \<longleftrightarrow> number_ok n"
| "leaf_ok _ \<longleftrightarrow> True"

definition priority_ok :: "priority option \<Rightarrow> bool" where
  "priority_ok p \<longleftrightarrow> (case p of Some (PNumber n) \<Rightarrow> number_ok n | _ \<Rightarrow> True)"

fun node_ok :: "node \<Rightarrow> bool"
  and children_ok :: "(string \<times> node) list \<Rightarrow> bool" where
  "node_ok (Node (Leaf l) p) \<longleftrightarrow> leaf_ok l \<and> priority_ok p"
| "node_ok (Node (Children cs) p) \<longleftrightarrow> priority_ok p \<and> children_ok cs"
| "children_ok [] \<longleftrightarrow> True"
| "children_ok ((k, c) # cs) \<longleftrightarrow> utf8_ok k \<and> node_ok c \<and> children_ok cs"

lemma children_ok_iff: "children_ok cs \<longleftrightarrow> (\<forall>(k, c)\<in>set cs. utf8_ok k \<and> node_ok c)"
  by (induction cs) auto

lemma node_ok_priority: "node_ok n \<Longrightarrow> priority_ok (priority_of n)"
  by (cases n; cases "content_of n") auto

lemma node_ok_child: "node_ok n \<Longrightarrow> node_child n k = Some c \<Longrightarrow> node_ok c"
  by (cases n; cases "content_of n") (auto simp: children_ok_iff dest!: map_of_SomeD)

lemma node_ok_descendant: "node_ok n \<Longrightarrow> descendant n p = Some c \<Longrightarrow> node_ok c"
  by (induction p arbitrary: n) (auto split: option.splits dest: node_ok_child)

fun index_ok :: "index_value \<Rightarrow> bool" where
  "index_ok (ILeaf l) \<longleftrightarrow> leaf_ok l"
| "index_ok _ \<longleftrightarrow> True"

lemma of_node_ok: "(\<And>m. n = Some m \<Longrightarrow> node_ok m) \<Longrightarrow> index_ok (of_node n)"
proof (cases n)
  case (Some m)
  assume "\<And>m. n = Some m \<Longrightarrow> node_ok m"
  then show ?thesis using Some by (cases m; cases "content_of m") (auto simp: of_node_def)
qed (simp add: of_node_def)

lemma index_of_ok: "node_ok n \<Longrightarrow> index_ok (index_of order n)"
proof (cases order)
  case OrderPriority
  assume "node_ok n"
  then show ?thesis using OrderPriority node_ok_priority [of n]
    by (auto simp: priority_ok_def split: option.splits priority.splits)
qed (auto intro!: of_node_ok dest: node_ok_descendant)

section \<open>One total order\<close>

text \<open>A key whose order is the order of index values.\<close>

fun leaf_code :: "leaf \<Rightarrow> bool \<times> int \<times> nat list" where
  "leaf_code (LBool b) = (b, 0, [])"
| "leaf_code (LNumber n) = (False, number_units n, [])"
| "leaf_code (LString s) = (False, 0, encode_utf16 s)"

fun index_code :: "index_value \<Rightarrow> nat \<times> nat \<times> bool \<times> int \<times> nat list" where
  "index_code (ILeaf l) = (1, type_rank l, leaf_code l)"
| "index_code i = (index_rank i, 0, False, 0, [])"

lemma value_cmp_code:
  "leaf_ok a \<Longrightarrow> leaf_ok b \<Longrightarrow> value_cmp a b = cmp (type_rank a, leaf_code a) (type_rank b, leaf_code b)"
  by (cases a; cases b) (auto simp: number_cmp_exact utf16_cmp_def cmp_def less_prod_def')

lemma cmp_with_code:
  "index_ok a \<Longrightarrow> index_ok b \<Longrightarrow> cmp_with a b = cmp (index_code a) (index_code b)"
  by (cases a; cases b) (auto simp: cmp_with_def value_cmp_code cmp_def less_prod_def')

definition query_order :: "order_by \<Rightarrow> string \<times> node \<Rightarrow> string \<times> node \<Rightarrow> ordering" where
  "query_order order x y =
     then_with (cmp (index_code (index_of order (snd x))) (index_code (index_of order (snd y))))
       (name_compare (fst x) (fst y))"

interpretation query_order: comparison "query_order order" for order
  unfolding query_order_def
  by (intro comparison_then comparison_on [OF comparison_cmp] comparison_on [OF comparison_name])

lemma compare_children_order:
  assumes "node_ok a" "node_ok b"
  shows "compare_children q ka a kb b = query_order (q_order q) (ka, a) (kb, b)"
proof -
  have e: "cmp (index_code (index_of order a)) (index_code (index_of order b))
      = cmp_with (index_of order a) (index_of order b)" for order
    using cmp_with_code [OF index_of_ok [OF assms(1)] index_of_ok [OF assms(2)]] by simp
  show ?thesis unfolding compare_children_def query_order_def fst_conv snd_conv e
    by (cases "q_order q") (simp_all add: cmp_with_def cmp_def)
qed

lemma compare_entries_order:
  assumes "node_ok (snd x)" "node_ok (snd y)"
  shows "(case x of (ka, a) \<Rightarrow> \<lambda>(kb, b). compare_children q ka a kb b) y = query_order (q_order q) x y"
  using compare_children_order [OF assms, of q "fst x" "fst y"] by (simp add: case_prod_beta)

text \<open>A test that only gets later along the order.\<close>

definition monotone_to :: "('a \<Rightarrow> 'a \<Rightarrow> ordering) \<Rightarrow> 'a set \<Rightarrow> ('a \<Rightarrow> ordering) \<Rightarrow> bool" where
  "monotone_to c A f \<longleftrightarrow> (\<forall>x\<in>A. \<forall>y\<in>A. c x y \<noteq> Greater \<longrightarrow>
     (f y = Less \<longrightarrow> f x = Less) \<and> (f x = Greater \<longrightarrow> f y = Greater))"

context comparison
begin

lemma monotone_self: "monotone_to c A (\<lambda>x. c x b)"
  unfolding monotone_to_def using trans_less' trans_less Greater_iff by metis

lemma insert_by_least:
  "\<forall>y\<in>set ys. c x y \<noteq> Greater \<Longrightarrow> insert_by c x ys = x # ys"
  by (cases ys) auto

lemma filter_insert_by:
  "sorted_wrt (\<lambda>a b. c a b \<noteq> Greater) ys \<Longrightarrow>
   filter P (insert_by c x ys) = (if P x then insert_by c x (filter P ys) else filter P ys)"
proof (induction ys)
  case (Cons y ys)
  show ?case
  proof (cases "c x y = Greater")
    case False
    then have "\<forall>z\<in>set (y # ys). c x z \<noteq> Greater" using Cons.prems trans_le by auto
    then show ?thesis using insert_by_least [of "filter P (y # ys)" x] False by auto
  qed (use Cons in auto)
qed simp

lemma filter_sort_by: "filter P (sort_by c xs) = sort_by c (filter P xs)"
  by (induction xs) (auto simp: sort_by_def filter_insert_by sorted_sort_by [unfolded sort_by_def])

end

lemma insert_by_cong:
  "(\<And>y. y \<in> set ys \<Longrightarrow> c x y = d x y) \<Longrightarrow> insert_by c x ys = insert_by d x ys"
  by (induction ys) auto

lemma sort_by_cong:
  "(\<And>x y. x \<in> set xs \<Longrightarrow> y \<in> set xs \<Longrightarrow> c x y = d x y) \<Longrightarrow> sort_by c xs = sort_by d xs"
proof (induction xs)
  case (Cons x xs)
  have "insert_by c x (sort_by d xs) = insert_by d x (sort_by d xs)"
    by (rule insert_by_cong) (use Cons.prems in auto)
  then show ?case using Cons by (simp add: sort_by_def)
qed (simp add: sort_by_def)

lemma monotone_lexicographic:
  assumes "comparison c" "monotone_to (\<lambda>x y. d (g x) (g y)) A s"
  shows "monotone_to (\<lambda>x y. then_with (c (f x) (f y)) (d (g x) (g y))) A (\<lambda>x. then_with (c (f x) b) (s x))"
proof -
  have "(then_with (c (f y) b) (s y) = Less \<longrightarrow> then_with (c (f x) b) (s x) = Less)
      \<and> (then_with (c (f x) b) (s x) = Greater \<longrightarrow> then_with (c (f y) b) (s y) = Greater)"
    if xy: "x \<in> A" "y \<in> A" "then_with (c (f x) (f y)) (d (g x) (g y)) \<noteq> Greater" for x y
  proof -
    have le: "c (f x) (f y) \<noteq> Greater" using xy(3) by auto
    have m: "(c (f y) b = Less \<longrightarrow> c (f x) b = Less) \<and> (c (f x) b = Greater \<longrightarrow> c (f y) b = Greater)"
      using comparison.monotone_self [OF assms(1), of UNIV b] le by (simp add: monotone_to_def)
    show ?thesis
    proof (cases "c (f x) (f y) = Equal")
      case True
      then have "(s y = Less \<longrightarrow> s x = Less) \<and> (s x = Greater \<longrightarrow> s y = Greater)"
        using xy assms(2) by (simp add: monotone_to_def)
      moreover have "c (f x) b = c (f y) b"
        using True comparison.Equal_trans [OF assms(1)] comparison.Equal_sym [OF assms(1)] m
          comparison.trans_less [OF assms(1)] comparison.Greater_iff [OF assms(1)] 
        by (metis ordering.exhaust ordering.simps(2,4,6))
      ultimately show ?thesis by auto
    next
      case False
      then have "c (f x) (f y) = Less" using le by (cases "c (f x) (f y)") auto
      then show ?thesis
        using m comparison.trans_less [OF assms(1), of "f x" "f y" b]
          comparison.trans_le [OF assms(1), of "f y" b "f x"] comparison.Greater_iff [OF assms(1)]
          comparison.Equal_sym [OF assms(1)]
        by (metis ordering.distinct(3) ordering.distinct(5) then_with_iff)
    qed
  qed
  then show ?thesis by (simp add: monotone_to_def)
qed

lemma monotone_to_cong:
  "monotone_to c A f \<Longrightarrow> (\<And>x. x \<in> A \<Longrightarrow> f x = g x) \<Longrightarrow> monotone_to c A g"
  by (simp add: monotone_to_def)

lemma monotone_const: "monotone_to c A (\<lambda>_. b)"
  by (simp add: monotone_to_def)

definition key_against :: "bound_key \<Rightarrow> string \<times> node \<Rightarrow> ordering" where
  "key_against key x = (case key of MinKey \<Rightarrow> Greater | MaxKey \<Rightarrow> Less | NameKey name \<Rightarrow> name_compare (fst x) name)"

lemma key_against_monotone: "monotone_to (\<lambda>x y. name_compare (fst x) (fst y)) A (key_against key)"
proof (cases key)
  case (NameKey name)
  then show ?thesis
    using comparison.monotone_self [OF comparison_on [OF comparison_name, where f = fst], of A "(name, undefined)"]
    by (simp add: key_against_def [abs_def])
qed (simp_all add: key_against_def [abs_def] monotone_const)

lemma query_order_key: "query_order OrderKey = (\<lambda>x y. then_with (name_compare (fst x) (fst y)) Equal)"
proof (intro ext)
  fix x y show "query_order OrderKey x y = then_with (name_compare (fst x) (fst y)) Equal"
    by (cases "name_compare (fst x) (fst y)") (simp_all add: query_order_def cmp_def)
qed

text \<open>Position against a bound that fits the order follows the order of the children.\<close>

lemma compare_to_bound_monotone:
  assumes "bound_fits (q_order q) (b_value b) (b_key b)" "index_ok (of_bound (b_value b))"
    "\<forall>x\<in>A. node_ok (snd x)"
  shows "monotone_to (query_order (q_order q)) A (\<lambda>(k, c). compare_to_bound q k c b)"
proof (cases "q_order q = OrderKey")
  case True
  then obtain name where v: "b_value b = JString name" "\<forall>k. b_key b \<noteq> NameKey k"
    using assms(1) by (cases "b_value b") (auto split: bound_key.splits)
  let ?s = "\<lambda>x. case b_key b of MinKey \<Rightarrow> Greater | MaxKey \<Rightarrow> Less | NameKey k \<Rightarrow> Equal"
  show ?thesis
  proof (rule monotone_to_cong)
    show "monotone_to (query_order (q_order q)) A (\<lambda>x. then_with (name_compare (fst x) name) (?s x))"
      unfolding True query_order_key
      by (rule monotone_lexicographic [where d = "\<lambda>_ _. Equal" and g = "\<lambda>_. ()", OF comparison_name monotone_const])
  qed (use True v in \<open>auto simp: compare_to_bound_def split: bound_key.split\<close>)
next
  case False
  have p: "bound_primary (q_order q) (b_value b) k c = cmp_with (index_of (q_order q) c) (of_bound (b_value b))" for k c
    using False by (cases "q_order q"; cases "b_value b") auto
  show ?thesis
  proof (rule monotone_to_cong)
    show "monotone_to (query_order (q_order q)) A
        (\<lambda>x. then_with (cmp (index_code (index_of (q_order q) (snd x))) (index_code (of_bound (b_value b))))
           (key_against (b_key b) x))"
      unfolding query_order_def [abs_def]
      by (rule monotone_lexicographic [where d = name_compare and g = fst, OF comparison_cmp key_against_monotone])
  next
    fix x assume "x \<in> A"
    then have "index_ok (index_of (q_order q) (snd x))" using assms(3) index_of_ok by blast
    then show "then_with (cmp (index_code (index_of (q_order q) (snd x))) (index_code (of_bound (b_value b))))
        (key_against (b_key b) x) = (case x of (k, c) \<Rightarrow> compare_to_bound q k c b)"
      using cmp_with_code [OF _ assms(2)]
      by (auto simp: compare_to_bound_def p key_against_def case_prod_beta)
  qed
qed

section \<open>What a query answers\<close>

definition bound_ok :: "order_by \<Rightarrow> bound option \<Rightarrow> bool" where
  "bound_ok order b = (case b of None \<Rightarrow> True
     | Some b \<Rightarrow> bound_fits order (b_value b) (b_key b) \<and> index_ok (of_bound (b_value b)))"

lemma filter_upward:
  "sorted_wrt le xs \<Longrightarrow> (\<And>x y. x \<in> set xs \<Longrightarrow> y \<in> set xs \<Longrightarrow> le x y \<Longrightarrow> P x \<Longrightarrow> P y) \<Longrightarrow>
     filter P xs = dropWhile (\<lambda>x. \<not> P x) xs"
  by (induction xs) (auto simp: filter_id_conv)

lemma filter_downward:
  "sorted_wrt le xs \<Longrightarrow> (\<And>x y. x \<in> set xs \<Longrightarrow> y \<in> set xs \<Longrightarrow> le x y \<Longrightarrow> P y \<Longrightarrow> P x) \<Longrightarrow>
     filter P xs = takeWhile P xs"
  by (induction xs) (auto simp: filter_empty_conv)

lemma after_start_upward:
  assumes "bound_ok (q_order q) (q_start q)" "\<forall>x\<in>A. node_ok (snd x)" "x \<in> A" "y \<in> A"
    "query_order (q_order q) x y \<noteq> Greater" "case_prod (after_start q) x"
  shows "case_prod (after_start q) y"
proof (cases "q_start q")
  case (Some b)
  have "monotone_to (query_order (q_order q)) A (\<lambda>(k, c). compare_to_bound q k c b)"
    using assms(1,2) Some by (intro compare_to_bound_monotone) (auto simp: bound_ok_def)
  then have "(case y of (k, c) \<Rightarrow> compare_to_bound q k c b) = Less \<longrightarrow> (case x of (k, c) \<Rightarrow> compare_to_bound q k c b) = Less"
    "(case x of (k, c) \<Rightarrow> compare_to_bound q k c b) = Greater \<longrightarrow> (case y of (k, c) \<Rightarrow> compare_to_bound q k c b) = Greater"
    using assms(3-5) unfolding monotone_to_def by blast+
  then show ?thesis using assms(6) Some
    by (cases x; cases y; cases "compare_to_bound q (fst y) (snd y) b") (auto simp: after_start_def)
qed (auto simp: after_start_def case_prod_beta)

lemma before_end_downward:
  assumes "bound_ok (q_order q) (q_end q)" "\<forall>x\<in>A. node_ok (snd x)" "x \<in> A" "y \<in> A"
    "query_order (q_order q) x y \<noteq> Greater" "case_prod (before_end q) y"
  shows "case_prod (before_end q) x"
proof (cases "q_end q")
  case (Some b)
  have "monotone_to (query_order (q_order q)) A (\<lambda>(k, c). compare_to_bound q k c b)"
    using assms(1,2) Some by (intro compare_to_bound_monotone) (auto simp: bound_ok_def)
  then have "(case y of (k, c) \<Rightarrow> compare_to_bound q k c b) = Less \<longrightarrow> (case x of (k, c) \<Rightarrow> compare_to_bound q k c b) = Less"
    "(case x of (k, c) \<Rightarrow> compare_to_bound q k c b) = Greater \<longrightarrow> (case y of (k, c) \<Rightarrow> compare_to_bound q k c b) = Greater"
    using assms(3-5) unfolding monotone_to_def by blast+
  then show ?thesis using assms(6) Some
    by (cases x; cases y; cases "compare_to_bound q (fst x) (snd x) b") (auto simp: before_end_def)
qed (auto simp: before_end_def case_prod_beta)

lemma query_run_sorted:
  assumes "node_ok (Node (Children cs) p)"
  shows "query_run q (Some (Node (Children cs) p)) = apply_limit (q_limit q)
     (filter (\<lambda>(k, c). in_range q k c) (sort_by (query_order (q_order q)) cs))"
proof -
  have "\<forall>x\<in>set cs. node_ok (snd x)" using assms by (auto simp: children_ok_iff)
  then have "sort_by (\<lambda>(ka, a) (kb, b). compare_children q ka a kb b) (filter (\<lambda>(k, c). in_range q k c) cs)
      = sort_by (query_order (q_order q)) (filter (\<lambda>(k, c). in_range q k c) cs)"
    by (intro sort_by_cong) (simp add: compare_entries_order)
  then show ?thesis by (simp add: query_run_def query_order.filter_sort_by)
qed

lemma validate_bounds:
  "query_validate q = Ok () \<Longrightarrow> \<forall>b\<in>set_option (q_start q) \<union> set_option (q_end q). bound_fits (q_order q) (b_value b) (b_key b)"
  by (auto simp: query_validate_def option_list_def split: option.splits if_splits)

text \<open>C40: A valid query cuts a contiguous range out of one order of the children. Without bounds and
  limit it answers every child exactly once, strictly increasing in the query order; with
  bounds it drops the children before the start, keeps those up to the end, and a limit keeps
  the first or the last of what is left.\<close>

theorem query_run_exact:
  fixes q :: query_params and cs :: "(string \<times> node) list" and p :: "priority option"
  defines "everything \<equiv> query_run (ordered_by (q_order q)) (Some (Node (Children cs) p))"
  assumes "query_validate q = Ok ()"
    "\<forall>b\<in>set_option (q_start q) \<union> set_option (q_end q). index_ok (of_bound (b_value b))"
    "node_wf (Node (Children cs) p)" "node_ok (Node (Children cs) p)"
  shows "sorted_wrt (\<lambda>(ka, a) (kb, b). compare_children q ka a kb b = Less) everything
     \<and> set everything = set cs
     \<and> query_run q (Some (Node (Children cs) p)) =
         (let range = takeWhile (\<lambda>(k, c). before_end q k c)
                        (dropWhile (\<lambda>(k, c). \<not> after_start q k c) everything)
          in case q_limit q of
               None \<Rightarrow> range
             | Some (First n) \<Rightarrow> take n range
             | Some (Last n) \<Rightarrow> drop (length range - n) range)"
proof -
  let ?le = "\<lambda>a b. query_order (q_order q) a b \<noteq> Greater"
  have ok: "\<forall>x\<in>set cs. node_ok (snd x) \<and> utf8_ok (fst x)" using assms(5) by (auto simp: children_ok_iff)
  have all: "everything = sort_by (query_order (q_order q)) cs"
    unfolding everything_def query_run_sorted [OF assms(5)]
    by (simp add: ordered_by_def apply_limit_def in_range_def after_start_def before_end_def case_prod_beta)
  have "distinct (map fst cs)" using assms(4) by (auto intro: bm_wf_distinct)
  then have "sorted_wrt (\<lambda>a b. query_order (q_order q) a b = Less) everything"
    unfolding all using ok
    by (intro query_order.strictly_sorted_sort_by)
      (auto simp: distinct_map query_order_def name_compare_Equal dest: inj_onD)
  then have strict: "sorted_wrt (\<lambda>(ka, a) (kb, b). compare_children q ka a kb b = Less) everything"
    by (rule sorted_wrt_mono_rel [rotated])
      (use ok compare_entries_order [of _ _ q] in \<open>auto simp: all case_prod_beta\<close>)
  have sorted: "sorted_wrt ?le everything" unfolding all by (rule query_order.sorted_sort_by)
  have bounds: "bound_ok (q_order q) (q_start q)" "bound_ok (q_order q) (q_end q)"
    using validate_bounds [OF assms(2)] assms(3) by (auto simp: bound_ok_def split: option.split)
  have okA: "\<forall>x\<in>set everything. node_ok (snd x)" using ok by (simp add: all)
  have drop: "filter (case_prod (after_start q)) everything = dropWhile (\<lambda>x. \<not> case_prod (after_start q) x) everything"
    using sorted by (rule filter_upward) (rule after_start_upward [OF bounds(1) okA])
  let ?mid = "dropWhile (\<lambda>x. \<not> case_prod (after_start q) x) everything"
  have mid: "sorted_wrt ?le ?mid" "\<forall>x\<in>set ?mid. node_ok (snd x)"
    using sorted okA by (auto simp flip: drop intro: sorted_wrt_filter)
  have take: "filter (case_prod (before_end q)) ?mid = takeWhile (case_prod (before_end q)) ?mid"
    using mid(1) by (rule filter_downward) (rule before_end_downward [OF bounds(2) mid(2)])
  have "filter (\<lambda>(k, c). in_range q k c) everything = filter (case_prod (before_end q)) (filter (case_prod (after_start q)) everything)"
    by (auto simp: in_range_def intro: filter_cong)
  then have "query_run q (Some (Node (Children cs) p)) = apply_limit (q_limit q)
      (takeWhile (case_prod (before_end q)) ?mid)"
    unfolding query_run_sorted [OF assms(5), of q] all [symmetric] by (simp only: drop take)
  moreover have "?mid = dropWhile (\<lambda>(k, c). \<not> after_start q k c) everything"
    by (rule dropWhile_cong) auto
  ultimately have "query_run q (Some (Node (Children cs) p)) = apply_limit (q_limit q)
      (takeWhile (case_prod (before_end q)) (dropWhile (\<lambda>(k, c). \<not> after_start q k c) everything))"
    by (simp only:)
  moreover have "set everything = set cs" by (simp add: all)
  ultimately show ?thesis using strict unfolding apply_limit_def Let_def by blast
qed

definition sample_children :: "(string \<times> node) list" where
  "sample_children = [(''X'', node_leaf (LNumber (IntN 1))), (''Y'', node_leaf (LNumber (IntN 3))),
     (''a'', node_leaf (LString ''x'')), (''b'', node_leaf (LNumber (IntN 2)))]"

definition sample_query :: query_params where
  "sample_query = limit_to_first 2 (start_at (JNumber (IntN 2)) None (ordered_by OrderValue))"

theorem query_run_exact_witness:
  "map fst (query_run sample_query (Some (Node (Children sample_children) None))) = [''b'', ''Y'']
   \<and> set (query_run (ordered_by (q_order sample_query)) (Some (Node (Children sample_children) None)))
       = set sample_children"
proof -
  have v: "query_validate sample_query = Ok ()" by code_simp
  have b: "\<forall>b\<in>set_option (q_start sample_query) \<union> set_option (q_end sample_query). index_ok (of_bound (b_value b))"
    by code_simp
  have w: "node_wf (Node (Children sample_children) None)" by code_simp
  have o: "node_ok (Node (Children sample_children) None)"
    by (simp add: sample_children_def node_leaf_def priority_ok_def i_ok_bounds utf8_ok_ascii ascii_def)
  note exact = query_run_exact [OF v b w o]
  have "map fst (query_run sample_query (Some (Node (Children sample_children) None))) = [''b'', ''Y'']"
    by (simp add: sample_query_def sample_children_def query_run_def limit_to_first_def start_at_def
        ordered_by_def in_range_def after_start_def before_end_def compare_to_bound_def of_node_def
        bound_key_or_def node_leaf_def cmp_with_def cmp_def sort_by_def compare_children_def apply_limit_def)
  then show ?thesis using conjunct1 [OF conjunct2 [OF exact]] by (rule conjI)
qed

end
