(* ===== verification/Ps_Message.thy ===== *)
theory Ps_Message
  imports Ids BTree Logical_Time "HOL-Library.Sublist"
begin

text \<open>
  Pub/Sub messages and resource names (crates/fireemu-core-pubsub/src/error.rs, message.rs
  and name.rs): the status codes, the bounds a published message is checked against, and the
  names of topics and subscriptions with their text form.
\<close>

section \<open>Status codes\<close>

datatype code =
    InvalidArgument
  | NotFound
  | AlreadyExists
  | FailedPrecondition
  | ResourceExhausted
  | Unimplemented

fun code_as_str :: "code \<Rightarrow> string" where
  "code_as_str InvalidArgument = ''INVALID_ARGUMENT''"
| "code_as_str NotFound = ''NOT_FOUND''"
| "code_as_str AlreadyExists = ''ALREADY_EXISTS''"
| "code_as_str FailedPrecondition = ''FAILED_PRECONDITION''"
| "code_as_str ResourceExhausted = ''RESOURCE_EXHAUSTED''"
| "code_as_str Unimplemented = ''UNIMPLEMENTED''"

section \<open>Messages\<close>

definition max_data_bytes :: nat where "max_data_bytes = 10000000"
definition max_total_bytes :: nat where "max_total_bytes = 10000000"
definition max_attributes :: nat where "max_attributes = 100"
definition max_attr_key_bytes :: nat where "max_attr_key_bytes = 256"
definition max_attr_value_bytes :: nat where "max_attr_value_bytes = 1024"
definition max_ordering_key_bytes :: nat where "max_ordering_key_bytes = 1024"

lemmas message_bounds = max_data_bytes_def max_total_bytes_def max_attributes_def
  max_attr_key_bytes_def max_attr_value_bytes_def max_ordering_key_bytes_def

record pubsub_message =
  pm_data :: string
  pm_attributes :: "(string, string) bmap"
  pm_ordering_key :: string

record stored_message =
  sm_message_id :: string
  sm_publish_time :: logical_instant
  sm_message :: pubsub_message

definition validate_attribute :: "string \<Rightarrow> string \<Rightarrow> (code, unit) result" where
  "validate_attribute key v =
     (if key = [] then Err InvalidArgument
      else if length key > max_attr_key_bytes then Err InvalidArgument
      else if length v > max_attr_value_bytes then Err InvalidArgument
      else if prefix ''goog'' key then Err InvalidArgument
      else if CHR 0x00 \<in> set key then Err InvalidArgument
      else if CHR 0x00 \<in> set v then Err InvalidArgument
      else Ok ())"

definition validate_ordering_key :: "string \<Rightarrow> (code, unit) result" where
  "validate_ordering_key key =
     (if length key > max_ordering_key_bytes then Err InvalidArgument
      else if CHR 0x00 \<in> set key then Err InvalidArgument
      else Ok ())"

fun validate_attributes :: "nat \<Rightarrow> (string \<times> string) list \<Rightarrow> (code, nat) result" where
  "validate_attributes acc [] = Ok acc"
| "validate_attributes acc ((key, v) # rest) =
     and_then (validate_attribute key v)
       (\<lambda>_. validate_attributes (saturating_add_u 64 (saturating_add_u 64 acc (length key)) (length v)) rest)"

definition message_validate :: "pubsub_message \<Rightarrow> (code, unit) result" where
  "message_validate m =
     (if pm_data m = [] \<and> pm_attributes m = [] then Err InvalidArgument
      else if length (pm_data m) > max_data_bytes then Err InvalidArgument
      else if length (pm_attributes m) > max_attributes then Err InvalidArgument
      else and_then (validate_attributes (length (pm_data m)) (pm_attributes m))
             (\<lambda>n. if n > max_total_bytes then Err InvalidArgument
                       else validate_ordering_key (pm_ordering_key m)))"

text \<open>The bytes a message holds besides its ordering key.\<close>

definition payload_bytes :: "pubsub_message \<Rightarrow> nat" where
  "payload_bytes m = length (pm_data m) + sum_list (map (\<lambda>(k, v). length k + length v) (pm_attributes m))"

definition attribute_ok :: "string \<times> string \<Rightarrow> bool" where
  "attribute_ok kv = (case kv of (k, v) \<Rightarrow>
     k \<noteq> [] \<and> length k \<le> 256 \<and> length v \<le> 1024 \<and> \<not> prefix ''goog'' k
     \<and> CHR 0x00 \<notin> set k \<and> CHR 0x00 \<notin> set v)"

lemma validate_attribute_Ok: "validate_attribute k v = Ok () \<longleftrightarrow> attribute_ok (k, v)"
  by (auto simp: validate_attribute_def attribute_ok_def message_bounds)

lemma validate_attributes_Ok:
  "validate_attributes acc as = Ok n \<Longrightarrow> acc \<le> u_max 64 \<Longrightarrow>
     (\<forall>kv\<in>set as. attribute_ok kv)
     \<and> n = min (acc + sum_list (map (\<lambda>(k, v). length k + length v) as)) (u_max 64)"
proof (induction as arbitrary: acc)
  case (Cons kv as)
  obtain k v where kv: "kv = (k, v)" by (cases kv)
  let ?t = "saturating_add_u 64 (saturating_add_u 64 acc (length k)) (length v)"
  have ok: "validate_attribute k v = Ok ()" "validate_attributes ?t as = Ok n"
    using Cons.prems(1) kv by (auto simp: and_then_eq_Inr)
  have "(\<forall>kv\<in>set as. attribute_ok kv) \<and> n = min (?t + sum_list (map (\<lambda>(k, v). length k + length v) as)) (u_max 64)"
    by (rule Cons.IH [OF ok(2) saturating_add_u_le])
  then show ?case using kv ok(1) by (auto simp: validate_attribute_Ok saturating_add_u_def)
qed (simp add: min_absorb1)

lemma validate_attributes_accepts:
  "\<forall>kv\<in>set as. attribute_ok kv \<Longrightarrow> \<exists>n. validate_attributes acc as = Ok n"
proof (induction as arbitrary: acc)
  case (Cons kv as)
  obtain k v where kv: "kv = (k, v)" by (cases kv)
  then have "validate_attribute k v = Ok ()" using Cons.prems by (simp add: validate_attribute_Ok)
  then show ?case using Cons kv by (simp add: and_then_def)
qed simp

lemma message_validate_iff:
  "message_validate m = Ok () \<longleftrightarrow>
     (pm_data m \<noteq> [] \<or> pm_attributes m \<noteq> []) \<and> length (pm_attributes m) \<le> 100
     \<and> payload_bytes m \<le> 10000000 \<and> (\<forall>kv\<in>set (pm_attributes m). attribute_ok kv)
     \<and> length (pm_ordering_key m) \<le> 1024 \<and> CHR 0x00 \<notin> set (pm_ordering_key m)"
proof -
  let ?n = "length (pm_data m)"
  have cap: "(10000000::nat) < u_max 64" by (simp add: u_max_def)
  have "message_validate m = Ok () \<longleftrightarrow> (pm_data m \<noteq> [] \<or> pm_attributes m \<noteq> []) \<and> ?n \<le> 10000000
      \<and> length (pm_attributes m) \<le> 100
      \<and> (\<exists>n. validate_attributes ?n (pm_attributes m) = Ok n \<and> n \<le> 10000000)
      \<and> validate_ordering_key (pm_ordering_key m) = Ok ()"
    unfolding message_validate_def message_bounds not_le [symmetric]
    by (cases "validate_attributes ?n (pm_attributes m)") (simp_all add: not_le)
  moreover have "(\<exists>n. validate_attributes ?n (pm_attributes m) = Ok n \<and> n \<le> 10000000)
      \<longleftrightarrow> payload_bytes m \<le> 10000000 \<and> (\<forall>kv\<in>set (pm_attributes m). attribute_ok kv)"
    if "?n \<le> 10000000"
  proof -
    have n: "?n \<le> u_max 64" using that cap by linarith
    have v: "(\<forall>kv\<in>set (pm_attributes m). attribute_ok kv) \<and> k = min (payload_bytes m) (u_max 64)"
      if "validate_attributes ?n (pm_attributes m) = Ok k" for k
      using validate_attributes_Ok [OF that n] by (simp add: payload_bytes_def)
    show ?thesis
    proof
      assume "\<exists>n. validate_attributes ?n (pm_attributes m) = Ok n \<and> n \<le> 10000000"
      then obtain k where k: "validate_attributes ?n (pm_attributes m) = Ok k" "k \<le> 10000000" by blast
      show "payload_bytes m \<le> 10000000 \<and> (\<forall>kv\<in>set (pm_attributes m). attribute_ok kv)"
        using v [OF k(1)] k(2) cap by linarith
    next
      assume h: "payload_bytes m \<le> 10000000 \<and> (\<forall>kv\<in>set (pm_attributes m). attribute_ok kv)"
      then obtain k where k: "validate_attributes ?n (pm_attributes m) = Ok k"
        using validate_attributes_accepts by blast
      then show "\<exists>n. validate_attributes ?n (pm_attributes m) = Ok n \<and> n \<le> 10000000"
        using v [OF k] h by (intro exI [of _ k]) (simp add: min.coboundedI1)
    qed
  qed
  moreover have "validate_ordering_key (pm_ordering_key m) = Ok ()
      \<longleftrightarrow> length (pm_ordering_key m) \<le> 1024 \<and> CHR 0x00 \<notin> set (pm_ordering_key m)"
    by (simp add: validate_ordering_key_def max_ordering_key_bytes_def)
  moreover have "payload_bytes m \<le> 10000000 \<Longrightarrow> ?n \<le> 10000000" by (simp add: payload_bytes_def)
  ultimately show ?thesis by blast
qed

section \<open>Resource names\<close>

definition max_project_len :: nat where "max_project_len = 255"
definition min_id_len :: nat where "min_id_len = 3"
definition max_id_len :: nat where "max_id_len = 255"

definition validate_project :: "string \<Rightarrow> (code, unit) result" where
  "validate_project project =
     (if project = [] then Err InvalidArgument
      else if length project > max_project_len then Err InvalidArgument
      else if CHR ''/'' \<in> set project then Err InvalidArgument
      else if control_offset 0 project \<noteq> None then Err InvalidArgument
      else Ok ())"

definition is_ascii_alphabetic :: "char \<Rightarrow> bool" where
  "is_ascii_alphabetic b \<longleftrightarrow> is_ascii_lowercase b \<or> is_ascii_uppercase b"

definition is_id_byte :: "char \<Rightarrow> bool" where
  "is_id_byte b \<longleftrightarrow> is_ascii_alphanumeric b \<or> b \<in> set ''._~%+-''"

definition validate_resource_id :: "string \<Rightarrow> (code, unit) result" where
  "validate_resource_id i =
     (if length i < min_id_len \<or> length i > max_id_len then Err InvalidArgument
      else if \<not> is_ascii_alphabetic (hd i) then Err InvalidArgument
      else if position (\<lambda>b. \<not> is_id_byte b) i \<noteq> None then Err InvalidArgument
      else if prefix ''goog'' i then Err InvalidArgument
      else Ok ())"

record topic_name =
  tn_project :: string
  tn_topic :: string

record subscription_name =
  sn_project :: string
  sn_subscription :: string

definition deleted_topic :: string where
  "deleted_topic = ''_deleted-topic_''"

text \<open>\<open>strip_prefix\<close> and \<open>split_once\<close> of \<open>str\<close>.\<close>

definition strip_prefix :: "string \<Rightarrow> string \<Rightarrow> string option" where
  "strip_prefix pre s = (if prefix pre s then Some (drop (length pre) s) else None)"

fun split_once :: "char \<Rightarrow> string \<Rightarrow> (string \<times> string) option" where
  "split_once c [] = None"
| "split_once c (b # s) =
     (if b = c then Some ([], s) else map_option (\<lambda>(x, y). (b # x, y)) (split_once c s))"

definition split_two :: "string \<Rightarrow> string \<Rightarrow> (string \<times> string) option" where
  "split_two full collection =
     (case strip_prefix ''projects/'' full of
        None \<Rightarrow> None
      | Some rest \<Rightarrow>
          (case split_once CHR ''/'' rest of
             None \<Rightarrow> None
           | Some (project, tail) \<Rightarrow>
               (case Option.bind (strip_prefix collection tail) (strip_prefix ''/'') of
                  None \<Rightarrow> None
                | Some i \<Rightarrow>
                    if project = [] \<or> i = [] \<or> CHR ''/'' \<in> set i then None else Some (project, i))))"

text \<open>\<open>map_err\<close> replaces the text of the error; its code is the same.\<close>

definition topic_new :: "string \<Rightarrow> string \<Rightarrow> (code, topic_name) result" where
  "topic_new project topic =
     and_then (and_then (validate_project project) (\<lambda>_. validate_resource_id topic))
       (\<lambda>_. Ok \<lparr>tn_project = project, tn_topic = topic\<rparr>)"

definition topic_parse :: "string \<Rightarrow> (code, topic_name) result" where
  "topic_parse full =
     (if full = deleted_topic then Ok \<lparr>tn_project = [], tn_topic = deleted_topic\<rparr>
      else case split_two full ''topics'' of
             None \<Rightarrow> Err InvalidArgument
           | Some (project, topic) \<Rightarrow> topic_new project topic)"

definition is_deleted_sentinel :: "topic_name \<Rightarrow> bool" where
  "is_deleted_sentinel t \<longleftrightarrow> tn_topic t = deleted_topic"

definition topic_to_full :: "topic_name \<Rightarrow> string" where
  "topic_to_full t =
     (if is_deleted_sentinel t then deleted_topic
      else ''projects/'' @ tn_project t @ ''/topics/'' @ tn_topic t)"

definition subscription_new :: "string \<Rightarrow> string \<Rightarrow> (code, subscription_name) result" where
  "subscription_new project subscription =
     and_then (and_then (validate_project project) (\<lambda>_. validate_resource_id subscription))
       (\<lambda>_. Ok \<lparr>sn_project = project, sn_subscription = subscription\<rparr>)"

definition subscription_parse :: "string \<Rightarrow> (code, subscription_name) result" where
  "subscription_parse full =
     (case split_two full ''subscriptions'' of
        None \<Rightarrow> Err InvalidArgument
      | Some (project, subscription) \<Rightarrow> subscription_new project subscription)"

definition subscription_to_full :: "subscription_name \<Rightarrow> string" where
  "subscription_to_full s = ''projects/'' @ sn_project s @ ''/subscriptions/'' @ sn_subscription s"

lemma split_once_append: "c \<notin> set x \<Longrightarrow> split_once c (x @ c # y) = Some (x, y)"
  by (induction x) auto

lemma split_once_Some: "split_once c s = Some (x, y) \<Longrightarrow> s = x @ c # y \<and> c \<notin> set x"
  by (induction s arbitrary: x) (auto split: if_splits)

lemma strip_prefix_Some: "strip_prefix pre s = Some r \<longleftrightarrow> s = pre @ r"
  by (auto simp: strip_prefix_def prefix_def)

lemma split_two_iff:
  assumes "CHR ''/'' \<notin> set collection"
  shows "split_two full collection = Some (a, b) \<longleftrightarrow>
     full = ''projects/'' @ a @ ''/'' @ collection @ ''/'' @ b
     \<and> a \<noteq> [] \<and> b \<noteq> [] \<and> CHR ''/'' \<notin> set a \<and> CHR ''/'' \<notin> set b"
proof
  assume "split_two full collection = Some (a, b)"
  then obtain rest tail where r: "strip_prefix ''projects/'' full = Some rest"
      "split_once CHR ''/'' rest = Some (a, tail)"
      "Option.bind (strip_prefix collection tail) (strip_prefix ''/'') = Some b"
      "a \<noteq> []" "b \<noteq> []" "CHR ''/'' \<notin> set b"
    by (auto simp: split_two_def split: option.splits if_splits)
  then have "full = ''projects/'' @ rest" "rest = a @ CHR ''/'' # tail" "CHR ''/'' \<notin> set a"
      "tail = collection @ ''/'' @ b"
    using split_once_Some [OF r(2)] by (auto simp: strip_prefix_Some bind_eq_Some_conv)
  then show "full = ''projects/'' @ a @ ''/'' @ collection @ ''/'' @ b
     \<and> a \<noteq> [] \<and> b \<noteq> [] \<and> CHR ''/'' \<notin> set a \<and> CHR ''/'' \<notin> set b" using r by simp
next
  assume h: "full = ''projects/'' @ a @ ''/'' @ collection @ ''/'' @ b
     \<and> a \<noteq> [] \<and> b \<noteq> [] \<and> CHR ''/'' \<notin> set a \<and> CHR ''/'' \<notin> set b"
  then have "strip_prefix ''projects/'' full = Some (a @ CHR ''/'' # collection @ ''/'' @ b)"
    by (simp add: strip_prefix_def)
  moreover have "Option.bind (strip_prefix collection (collection @ ''/'' @ b)) (strip_prefix ''/'') = Some b"
    by (simp add: strip_prefix_def)
  ultimately show "split_two full collection = Some (a, b)"
    using h split_once_append [of "CHR ''/''" a "collection @ ''/'' @ b"]
    by (simp add: split_two_def del: append_Cons)
qed

lemma resource_id_parts:
  "validate_resource_id i = Ok () \<Longrightarrow> i \<noteq> [] \<and> CHR ''/'' \<notin> set i \<and> i \<noteq> deleted_topic"
proof -
  assume v: "validate_resource_id i = Ok ()"
  then have "position (\<lambda>b. \<not> is_id_byte b) i = None" "is_ascii_alphabetic (hd i)" "length i \<ge> 3"
    by (auto simp: validate_resource_id_def min_id_len_def split: if_splits)
  moreover have "\<not> is_id_byte (CHR ''/'')" by code_simp
  moreover have "\<not> is_ascii_alphabetic (hd deleted_topic)" by code_simp
  ultimately show ?thesis by (auto simp: position_None_iff)
qed

lemma project_parts: "validate_project p = Ok () \<Longrightarrow> p \<noteq> [] \<and> CHR ''/'' \<notin> set p"
  by (auto simp: validate_project_def split: if_splits)

text \<open>A parsed topic name prints to the text it was read from, and a name built from valid parts
  reads back.\<close>

lemma topic_parse_iff:
  "topic_parse full = Ok t \<longleftrightarrow>
     topic_to_full t = full
     \<and> (t = \<lparr>tn_project = [], tn_topic = deleted_topic\<rparr>
        \<or> validate_project (tn_project t) = Ok () \<and> validate_resource_id (tn_topic t) = Ok ())"
proof (cases "full = deleted_topic")
  case True
  have "''projects/'' @ r \<noteq> deleted_topic" for r by (simp add: deleted_topic_def)
  then show ?thesis using True
    by (auto simp: topic_parse_def topic_to_full_def is_deleted_sentinel_def dest: resource_id_parts)
next
  case False
  have "CHR ''/'' \<notin> set ''topics''" by simp
  note split = split_two_iff [OF this, of full]
  show ?thesis
  proof
    assume "topic_parse full = Ok t"
    then obtain a b where ab: "split_two full ''topics'' = Some (a, b)" "topic_new a b = Ok t"
      using False by (auto simp: topic_parse_def split: option.splits)
    then have "t = \<lparr>tn_project = a, tn_topic = b\<rparr>" "validate_project a = Ok ()" "validate_resource_id b = Ok ()"
      by (auto simp: topic_new_def and_then_eq_Inr)
    then show "topic_to_full t = full \<and> (t = \<lparr>tn_project = [], tn_topic = deleted_topic\<rparr>
        \<or> validate_project (tn_project t) = Ok () \<and> validate_resource_id (tn_topic t) = Ok ())"
      using split [of a b] ab(1) resource_id_parts [of b] by (auto simp: topic_to_full_def is_deleted_sentinel_def)
  next
    assume h: "topic_to_full t = full \<and> (t = \<lparr>tn_project = [], tn_topic = deleted_topic\<rparr>
        \<or> validate_project (tn_project t) = Ok () \<and> validate_resource_id (tn_topic t) = Ok ())"
    then have v: "validate_project (tn_project t) = Ok ()" "validate_resource_id (tn_topic t) = Ok ()"
      using False by (auto simp: topic_to_full_def is_deleted_sentinel_def)
    then have "split_two full ''topics'' = Some (tn_project t, tn_topic t)"
      using h resource_id_parts [OF v(2)] project_parts [OF v(1)] unfolding split
      by (auto simp: topic_to_full_def is_deleted_sentinel_def)
    then show "topic_parse full = Ok t" using False v by (simp add: topic_parse_def topic_new_def)
  qed
qed

lemma subscription_parse_iff:
  "subscription_parse full = Ok s \<longleftrightarrow>
     subscription_to_full s = full
     \<and> validate_project (sn_project s) = Ok () \<and> validate_resource_id (sn_subscription s) = Ok ()"
proof -
  have "CHR ''/'' \<notin> set ''subscriptions''" by simp
  note split = split_two_iff [OF this, of full]
  show ?thesis
  proof
    assume "subscription_parse full = Ok s"
    then obtain a b where ab: "split_two full ''subscriptions'' = Some (a, b)" "subscription_new a b = Ok s"
      by (auto simp: subscription_parse_def split: option.splits)
    then show "subscription_to_full s = full \<and> validate_project (sn_project s) = Ok ()
        \<and> validate_resource_id (sn_subscription s) = Ok ()"
      using split [of a b] by (auto simp: subscription_to_full_def subscription_new_def and_then_eq_Inr)
  next
    assume h: "subscription_to_full s = full \<and> validate_project (sn_project s) = Ok ()
        \<and> validate_resource_id (sn_subscription s) = Ok ()"
    then have "split_two full ''subscriptions'' = Some (sn_project s, sn_subscription s)"
      using resource_id_parts [of "sn_subscription s"] project_parts [of "sn_project s"] unfolding split
      by (auto simp: subscription_to_full_def)
    then show "subscription_parse full = Ok s" using h by (simp add: subscription_parse_def subscription_new_def)
  qed
qed

end
