(* ===== verification/Ps_Filter.thy ===== *)
theory Ps_Filter
  imports Ps_Message Utf
begin

text \<open>
  Subscription filters (crates/fireemu-core-pubsub/src/filter.rs): the lexer, the recursive
  descent parser with its depth bound, and evaluation over the attributes of a message. The
  parser's position is the list of tokens left; the byte offsets the source keeps beside the
  tokens only enter error texts.
\<close>

section \<open>Expressions\<close>

datatype expr =
    Has string
  | EqAttr string string
  | NeAttr string string
  | HasPrefix string string
  | NotE expr
  | AndE expr expr
  | OrE expr expr

record filter_expr =
  fe_root :: "expr option"
  fe_source :: string

definition filter_always :: filter_expr where
  "filter_always = \<lparr>fe_root = None, fe_source = []\<rparr>"

fun eval_expr :: "expr \<Rightarrow> (string, string) bmap \<Rightarrow> bool" where
  "eval_expr (Has k) attrs \<longleftrightarrow> bm_contains attrs k"
| "eval_expr (EqAttr k v) attrs \<longleftrightarrow> is_some_and (\<lambda>a. a = v) (bm_get attrs k)"
| "eval_expr (NeAttr k v) attrs \<longleftrightarrow> bm_get attrs k \<noteq> Some v"
| "eval_expr (HasPrefix k p) attrs \<longleftrightarrow> is_some_and (\<lambda>a. prefix p a) (bm_get attrs k)"
| "eval_expr (NotE e) attrs \<longleftrightarrow> \<not> eval_expr e attrs"
| "eval_expr (AndE a b) attrs \<longleftrightarrow> eval_expr a attrs \<and> eval_expr b attrs"
| "eval_expr (OrE a b) attrs \<longleftrightarrow> eval_expr a attrs \<or> eval_expr b attrs"

definition filter_matches :: "filter_expr \<Rightarrow> (string, string) bmap \<Rightarrow> bool" where
  "filter_matches f attrs = (case fe_root f of None \<Rightarrow> True | Some e \<Rightarrow> eval_expr e attrs)"

section \<open>Lexer\<close>

datatype filter_token =
    TIdent string
  | TStr string
  | TAttributes
  | TDot
  | TColon
  | TEq
  | TNe
  | TLParen
  | TRParen
  | TComma

definition is_ident_start :: "char \<Rightarrow> bool" where
  "is_ident_start b \<longleftrightarrow> is_ascii_alphabetic b \<or> b = CHR ''_''"

definition is_ident_byte :: "char \<Rightarrow> bool" where
  "is_ident_byte b \<longleftrightarrow> is_ascii_alphanumeric b \<or> b \<in> set ''_-~%+''"

definition is_filter_space :: "char \<Rightarrow> bool" where
  "is_filter_space b \<longleftrightarrow> b = CHR 0x20 \<or> b = CHR 0x09 \<or> b = CHR 0x0A \<or> b = CHR 0x0D"

text \<open>The length of the UTF-8 character that starts with a byte.\<close>

definition char_len :: "char \<Rightarrow> nat" where
  "char_len b = (let n = (of_char b :: nat) in if n < 128 then 1 else if n < 224 then 2 else if n < 240 then 3 else 4)"

lemma char_len_pos [simp]: "0 < char_len b"
  by (simp add: char_len_def Let_def)

text \<open>The text after the opening quote; the result is the content and what follows.\<close>

function lex_string :: "string \<Rightarrow> (code, string \<times> string) result" where
  "lex_string [] = Err InvalidArgument"
| "lex_string (b # s) =
     (if b = CHR 0x22 then Ok ([], s)
      else if b = CHR 0x5C then
        (case s of
           [] \<Rightarrow> Err InvalidArgument
         | n # r \<Rightarrow>
             if n = CHR 0x22 \<or> n = CHR 0x5C
             then and_then (lex_string r) (\<lambda>(out, rest). Ok (n # out, rest))
             else Err InvalidArgument)
      else and_then (lex_string (drop (char_len b) (b # s)))
             (\<lambda>(out, rest). Ok (take (char_len b) (b # s) @ out, rest)))"
  by pat_completeness auto
termination
  by (relation "measure length") auto

declare lex_string.simps(2) [simp del]

lemma lex_string_shorter: "lex_string s = Ok (out, rest) \<Longrightarrow> length rest < length s"
proof (induction s arbitrary: out rest rule: lex_string.induct)
  case (2 b s)
  show ?case
  proof (cases "b = CHR 0x22")
    case True
    then show ?thesis using 2(3) by (simp add: lex_string.simps(2))
  next
    case q: False
    show ?thesis
    proof (cases "b = CHR 0x5C")
      case True
      then obtain n r out' where n: "s = n # r" "n = CHR 0x22 \<or> n = CHR 0x5C" "lex_string r = Ok (out', rest)"
        using 2(3) q by (auto simp: lex_string.simps(2) and_then_eq_Inr split: list.splits if_splits)
      then show ?thesis using 2(1) [OF q True n(1,2), of out' rest] by simp
    next
      case False
      then obtain out' where "lex_string (drop (char_len b) (b # s)) = Ok (out', rest)"
        using 2(3) q by (auto simp: lex_string.simps(2) and_then_eq_Inr)
      then have "length rest < length (drop (char_len b) (b # s))" using 2(2) [OF q False] by blast
      then show ?thesis by simp
    qed
  qed
qed simp

fun punctuation :: "char \<Rightarrow> filter_token option" where
  "punctuation b =
     (if b = CHR ''('' then Some TLParen
      else if b = CHR '')'' then Some TRParen
      else if b = CHR ''.'' then Some TDot
      else if b = CHR '':'' then Some TColon
      else if b = CHR '','' then Some TComma
      else if b = CHR ''='' then Some TEq
      else None)"

function lex :: "string \<Rightarrow> (code, filter_token list) result" where
  "lex [] = Ok []"
| "lex (b # s) =
     (if is_filter_space b then lex s
      else case punctuation b of
        Some t \<Rightarrow> and_then (lex s) (\<lambda>ts. Ok (t # ts))
      | None \<Rightarrow>
          if b = CHR ''!'' then
            (case s of
               c # r \<Rightarrow> if c = CHR ''='' then and_then (lex r) (\<lambda>ts. Ok (TNe # ts)) else Err InvalidArgument
             | [] \<Rightarrow> Err InvalidArgument)
          else if b = CHR 0x22 then
            (case lex_string s of
               Inl e \<Rightarrow> Err e
             | Inr (out, rest) \<Rightarrow> and_then (lex rest) (\<lambda>ts. Ok (TStr out # ts)))
          else if is_ident_start b then
            (let word = takeWhile is_ident_byte (b # s)
             in and_then (lex (dropWhile is_ident_byte s))
                  (\<lambda>ts. Ok ((if word = ''attributes'' then TAttributes else TIdent word) # ts)))
          else Err InvalidArgument)"
  by pat_completeness auto
termination
  by (relation "measure length") (auto dest: lex_string_shorter simp: le_imp_less_Suc length_dropWhile_le)

declare lex.simps(2) [simp del]

section \<open>Parser\<close>

definition filter_max_depth :: nat where "filter_max_depth = 64"
definition max_filter_bytes :: nat where "max_filter_bytes = 256"

definition ascii_lower :: "char \<Rightarrow> char" where
  "ascii_lower b = (if is_ascii_uppercase b then char_of (of_char b + 32 :: nat) else b)"

definition eq_ignore_ascii_case :: "string \<Rightarrow> string \<Rightarrow> bool" where
  "eq_ignore_ascii_case a b \<longleftrightarrow> map ascii_lower a = map ascii_lower b"

type_synonym 'a parsed = "(code, 'a \<times> filter_token list) result"

fun eat_keyword :: "string \<Rightarrow> filter_token list \<Rightarrow> filter_token list option" where
  "eat_keyword kw (TIdent w # ts) = (if eq_ignore_ascii_case w kw then Some ts else None)"
| "eat_keyword kw _ = None"

fun expect :: "filter_token \<Rightarrow> filter_token list \<Rightarrow> (code, filter_token list) result" where
  "expect want (t # ts) = (if t = want then Ok ts else Err InvalidArgument)"
| "expect want [] = Err InvalidArgument"

fun parse_attr_key :: "filter_token list \<Rightarrow> string parsed" where
  "parse_attr_key (TIdent w # ts) = Ok (w, ts)"
| "parse_attr_key (TStr s # ts) = Ok (s, ts)"
| "parse_attr_key _ = Err InvalidArgument"

fun parse_string :: "filter_token list \<Rightarrow> string parsed" where
  "parse_string (TStr s # ts) = Ok (s, ts)"
| "parse_string _ = Err InvalidArgument"

text \<open>After \<open>hasPrefix\<close>.\<close>

definition parse_has_prefix :: "filter_token list \<Rightarrow> expr parsed" where
  "parse_has_prefix ts =
     and_then (expect TLParen ts) (\<lambda>ts. and_then (expect TAttributes ts) (\<lambda>ts.
     and_then (expect TDot ts) (\<lambda>ts. and_then (parse_attr_key ts) (\<lambda>(key, ts).
     and_then (expect TComma ts) (\<lambda>ts. and_then (parse_string ts) (\<lambda>(pre, ts).
     and_then (expect TRParen ts) (\<lambda>ts. Ok (HasPrefix key pre, ts))))))))"

text \<open>After \<open>attributes\<close>, and after \<open>attributes.key\<close>.\<close>

fun parse_comparison :: "string \<Rightarrow> filter_token list \<Rightarrow> expr parsed" where
  "parse_comparison key (TEq # ts) = and_then (parse_string ts) (\<lambda>(v, ts). Ok (EqAttr key v, ts))"
| "parse_comparison key (TNe # ts) = and_then (parse_string ts) (\<lambda>(v, ts). Ok (NeAttr key v, ts))"
| "parse_comparison key _ = Err InvalidArgument"

fun parse_attribute_term :: "filter_token list \<Rightarrow> expr parsed" where
  "parse_attribute_term (TColon # ts) = and_then (parse_attr_key ts) (\<lambda>(key, ts). Ok (Has key, ts))"
| "parse_attribute_term (TDot # ts) =
     and_then (parse_attr_key ts) (\<lambda>(key, ts). parse_comparison key ts)"
| "parse_attribute_term _ = Err InvalidArgument"

text \<open>
  The loops of \<open>parse_or\<close> and \<open>parse_and\<close>: as long as the keyword follows, another operand. The
  operand parser never gives back more tokens than it got, so the test on the length always
  holds (\<open>parse_shorter\<close> below).
\<close>

function operand_loop ::
  "(filter_token list \<Rightarrow> expr parsed) \<Rightarrow> string \<Rightarrow> (expr \<Rightarrow> expr \<Rightarrow> expr) \<Rightarrow> expr \<Rightarrow> filter_token list \<Rightarrow> expr parsed" where
  "operand_loop operand kw join left ts =
     (case eat_keyword kw ts of
        None \<Rightarrow> Ok (left, ts)
      | Some ts1 \<Rightarrow>
          (case operand ts1 of
             Inl e \<Rightarrow> Err e
           | Inr (right, ts2) \<Rightarrow>
               if length ts2 < length ts then operand_loop operand kw join (join left right) ts2
               else Err InvalidArgument))"
  by pat_completeness auto
termination
  by (relation "measure (\<lambda>(_, _, _, _, ts). length ts)") auto

declare operand_loop.simps [simp del]

text \<open>The first argument is the nesting still allowed, \<open>MAX_DEPTH\<close> minus the source's \<open>depth\<close>.\<close>

function parse_or :: "nat \<Rightarrow> filter_token list \<Rightarrow> expr parsed"
  and parse_and :: "nat \<Rightarrow> filter_token list \<Rightarrow> expr parsed"
  and parse_not :: "nat \<Rightarrow> filter_token list \<Rightarrow> expr parsed"
  and parse_primary :: "nat \<Rightarrow> filter_token list \<Rightarrow> expr parsed" where
  "parse_or d ts =
     and_then (parse_and d ts) (\<lambda>(left, ts'). operand_loop (\<lambda>us. parse_and d us) ''OR'' OrE left ts')"
| "parse_and d ts =
     and_then (parse_not d ts) (\<lambda>(left, ts'). operand_loop (\<lambda>us. parse_not d us) ''AND'' AndE left ts')"
| "parse_not d ts =
     (case eat_keyword ''NOT'' ts of
        Some ts' \<Rightarrow>
          (case d of
             0 \<Rightarrow> Err InvalidArgument
           | Suc d' \<Rightarrow> and_then (parse_not d' ts') (\<lambda>(inner, rest). Ok (NotE inner, rest)))
      | None \<Rightarrow> parse_primary d ts)"
| "parse_primary d ts =
     (case ts of
        TLParen # ts' \<Rightarrow>
          (case d of
             0 \<Rightarrow> Err InvalidArgument
           | Suc d' \<Rightarrow>
               and_then (parse_or d' ts') (\<lambda>(inner, rest). and_then (expect TRParen rest) (\<lambda>rest. Ok (inner, rest))))
      | TIdent w # ts' \<Rightarrow> if w = ''hasPrefix'' then parse_has_prefix ts' else Err InvalidArgument
      | TAttributes # ts' \<Rightarrow> parse_attribute_term ts'
      | _ \<Rightarrow> Err InvalidArgument)"
  by pat_completeness auto
termination
  by (relation "measures [\<lambda>x. case x of Inl (Inl (d, _)) \<Rightarrow> d | Inl (Inr (d, _)) \<Rightarrow> d | Inr (Inl (d, _)) \<Rightarrow> d | Inr (Inr (d, _)) \<Rightarrow> d,
      \<lambda>x. case x of Inl (Inl _) \<Rightarrow> 3 | Inl (Inr _) \<Rightarrow> 2 | Inr (Inl _) \<Rightarrow> 1 | Inr (Inr _) \<Rightarrow> 0]") auto

declare parse_or.simps [simp del] parse_and.simps [simp del] parse_not.simps [simp del] parse_primary.simps [simp del]

text \<open>\<open>char::is_whitespace\<close>\<close>

definition is_whitespace :: "nat \<Rightarrow> bool" where
  "is_whitespace c \<longleftrightarrow> 9 \<le> c \<and> c \<le> 13 \<or> c = 32 \<or> c = 133 \<or> c = 160 \<or> c = 5760 \<or> 8192 \<le> c \<and> c \<le> 8202
     \<or> c = 8232 \<or> c = 8233 \<or> c = 8239 \<or> c = 8287 \<or> c = 12288"

definition filter_parse :: "string \<Rightarrow> (code, filter_expr) result" where
  "filter_parse input =
     (if length input > max_filter_bytes then Err InvalidArgument
      else if list_all is_whitespace (str_chars input) then Ok filter_always
      else and_then (lex input) (\<lambda>tokens.
             and_then (parse_or filter_max_depth tokens) (\<lambda>(e, rest).
               if rest \<noteq> [] then Err InvalidArgument else Ok \<lparr>fe_root = Some e, fe_source = input\<rparr>)))"

section \<open>Operands shorten the input\<close>

lemma eat_keyword_length: "eat_keyword kw ts = Some ts' \<Longrightarrow> length ts = Suc (length ts')"
  by (induction kw ts rule: eat_keyword.induct) (auto split: if_splits)

lemma expect_Ok: "expect t ts = Ok ts' \<longleftrightarrow> ts = t # ts'"
  by (cases ts) auto

lemma parse_string_Ok: "parse_string ts = Ok (s, ts') \<longleftrightarrow> ts = TStr s # ts'"
  by (cases ts rule: parse_string.cases) auto

lemma parse_attr_key_Ok: "parse_attr_key ts = Ok (s, ts') \<longleftrightarrow> ts = TIdent s # ts' \<or> ts = TStr s # ts'"
  by (cases ts rule: parse_attr_key.cases) auto

lemma parse_has_prefix_Ok:
  "parse_has_prefix ts = Ok (e, ts') \<Longrightarrow> length ts' < length ts"
  by (auto simp: parse_has_prefix_def and_then_eq_Inr expect_Ok parse_string_Ok parse_attr_key_Ok)

lemma parse_comparison_Ok: "parse_comparison key ts = Ok (e, ts') \<Longrightarrow> length ts' < length ts"
  by (cases "(key, ts)" rule: parse_comparison.cases) (auto simp: and_then_eq_Inr parse_string_Ok)

lemma parse_attribute_term_Ok:
  "parse_attribute_term ts = Ok (e, ts') \<Longrightarrow> length ts' < length ts"
  by (cases ts rule: parse_attribute_term.cases)
    (auto simp: and_then_eq_Inr parse_attr_key_Ok dest: parse_comparison_Ok)

lemma operand_loop_length:
  "operand_loop p kw join left ts = Ok (e, ts') \<Longrightarrow> length ts' \<le> length ts"
proof (induction p kw join left ts rule: operand_loop.induct)
  case (1 p kw join left ts)
  show ?case
  proof (cases "eat_keyword kw ts")
    case None
    then show ?thesis using 1(2) by (simp add: operand_loop.simps)
  next
    case (Some ts1)
    then show ?thesis using 1(2) 1(1) [OF Some]
      by (force simp: operand_loop.simps [of p kw join left ts] split: sum.splits if_splits)
  qed
qed

lemma parse_shorter:
  "parse_or d ts = Ok (e, ts') \<Longrightarrow> length ts' < length ts"
  "parse_and d ts = Ok (e, ts') \<Longrightarrow> length ts' < length ts"
  "parse_not d ts = Ok (e, ts') \<Longrightarrow> length ts' < length ts"
  "parse_primary d ts = Ok (e, ts') \<Longrightarrow> length ts' < length ts"
proof (induction d ts and d ts and d ts and d ts arbitrary: e ts' and e ts' and e ts' and e ts'
    rule: parse_or_parse_and_parse_not_parse_primary.induct)
  case (1 d ts)
  then show ?case
    by (auto simp: parse_or.simps [of d ts] and_then_eq_Inr dest!: operand_loop_length dest: le_less_trans)
next
  case (2 d ts)
  then show ?case
    by (auto simp: parse_and.simps [of d ts] and_then_eq_Inr dest!: operand_loop_length dest: le_less_trans)
next
  case (3 d ts)
  then show ?case
    by (fastforce simp: parse_not.simps [of d ts] and_then_eq_Inr split: option.splits nat.splits dest: eat_keyword_length)
next
  case (4 d ts)
  then show ?case
    by (fastforce simp: parse_primary.simps [of d ts] and_then_eq_Inr expect_Ok
        split: list.splits filter_token.splits nat.splits if_splits
        dest: parse_has_prefix_Ok parse_attribute_term_Ok)
qed

section \<open>Writing a filter\<close>

definition escape :: "string \<Rightarrow> string" where
  "escape s = concat (map (\<lambda>b. if b = CHR 0x22 \<or> b = CHR 0x5C then [CHR 0x5C, b] else [b]) s)"

definition quoted :: "string \<Rightarrow> string" where
  "quoted s = CHR 0x22 # escape s @ [CHR 0x22]"

fun print_expr :: "expr \<Rightarrow> string" where
  "print_expr (Has k) = ''attributes:'' @ quoted k"
| "print_expr (EqAttr k v) = ''attributes.'' @ quoted k @ ''='' @ quoted v"
| "print_expr (NeAttr k v) = ''attributes.'' @ quoted k @ ''!='' @ quoted v"
| "print_expr (HasPrefix k p) = ''hasPrefix(attributes.'' @ quoted k @ '','' @ quoted p @ '')''"
| "print_expr (NotE e) = ''NOT '' @ print_expr e"
| "print_expr (AndE a b) = ''('' @ print_expr a @ '' AND '' @ print_expr b @ '')''"
| "print_expr (OrE a b) = ''('' @ print_expr a @ '' OR '' @ print_expr b @ '')''"

fun expr_tokens :: "expr \<Rightarrow> filter_token list" where
  "expr_tokens (Has k) = [TAttributes, TColon, TStr k]"
| "expr_tokens (EqAttr k v) = [TAttributes, TDot, TStr k, TEq, TStr v]"
| "expr_tokens (NeAttr k v) = [TAttributes, TDot, TStr k, TNe, TStr v]"
| "expr_tokens (HasPrefix k p) = [TIdent ''hasPrefix'', TLParen, TAttributes, TDot, TStr k, TComma, TStr p, TRParen]"
| "expr_tokens (NotE e) = TIdent ''NOT'' # expr_tokens e"
| "expr_tokens (AndE a b) = TLParen # expr_tokens a @ TIdent ''AND'' # expr_tokens b @ [TRParen]"
| "expr_tokens (OrE a b) = TLParen # expr_tokens a @ TIdent ''OR'' # expr_tokens b @ [TRParen]"

fun expr_depth :: "expr \<Rightarrow> nat" where
  "expr_depth (NotE e) = Suc (expr_depth e)"
| "expr_depth (AndE a b) = Suc (max (expr_depth a) (expr_depth b))"
| "expr_depth (OrE a b) = Suc (max (expr_depth a) (expr_depth b))"
| "expr_depth _ = 0"

fun expr_strings :: "expr \<Rightarrow> string list" where
  "expr_strings (Has k) = [k]"
| "expr_strings (EqAttr k v) = [k, v]"
| "expr_strings (NeAttr k v) = [k, v]"
| "expr_strings (HasPrefix k p) = [k, p]"
| "expr_strings (NotE e) = expr_strings e"
| "expr_strings (AndE a b) = expr_strings a @ expr_strings b"
| "expr_strings (OrE a b) = expr_strings a @ expr_strings b"

subsection \<open>Reading quoted text\<close>

lemma escape_simps [simp]:
  "escape [] = []"
  "escape (b # s) = (if b = CHR 0x22 \<or> b = CHR 0x5C then [CHR 0x5C, b] else [b]) @ escape s"
  "escape (s @ t) = escape s @ escape t"
  by (simp_all add: escape_def)

lemma escape_id: "\<forall>b\<in>set s. b \<noteq> CHR 0x22 \<and> b \<noteq> CHR 0x5C \<Longrightarrow> escape s = s"
  by (induction s) auto

lemma utf8_char_lead:
  assumes "is_scalar c" "128 \<le> c"
  shows "\<exists>b r. utf8_char c = b # r \<and> char_len b = Suc (length r) \<and> (\<forall>x\<in>set (b # r). (128::nat) \<le> of_char x)"
proof -
  have b: "c < 1114112" using assms(1) by (auto simp: is_scalar_def)
  consider "c < 2048" | "2048 \<le> c" "c < 65536" | "65536 \<le> c" by linarith
  then show ?thesis
  proof cases
    case 1
    then have "c div 64 < 32" by (simp add: div_less_iff_less_mult)
    then show ?thesis using 1 assms
      by (simp add: utf8_char_def char_len_def of_char_byte Let_def)
  next
    case 2
    then have "c div 4096 < 16" by (simp add: div_less_iff_less_mult)
    then show ?thesis using 2 assms
      by (simp add: utf8_char_def char_len_def of_char_byte Let_def)
  next
    case 3
    then have "c div 262144 < 5" using b by (simp add: div_less_iff_less_mult)
    then show ?thesis using 3 assms
      by (simp add: utf8_char_def char_len_def of_char_byte Let_def)
  qed
qed

lemma lex_string_char:
  assumes "is_scalar c"
  shows "lex_string (escape (utf8_char c) @ s) = and_then (lex_string s) (\<lambda>(out, rest). Ok (utf8_char c @ out, rest))"
proof (cases "c < 128")
  case True
  then have u: "utf8_char c = [byte c]" "(of_char (byte c) :: nat) = c"
    by (simp_all add: utf8_char_def of_char_byte)
  then have "char_len (byte c) = 1" using True by (simp add: char_len_def)
  then show ?thesis using u(1) by (simp add: lex_string.simps(2))
next
  case False
  then obtain b r where br: "utf8_char c = b # r" "char_len b = Suc (length r)"
      "\<forall>x\<in>set (b # r). (128::nat) \<le> of_char x"
    using utf8_char_lead [OF assms] by auto
  have "x \<noteq> CHR 0x22 \<and> x \<noteq> CHR 0x5C" if "x \<in> set (b # r)" for x
    using br(3) that by auto
  then have e: "escape (b # r) = b # r" "b \<noteq> CHR 0x22" "b \<noteq> CHR 0x5C" by (auto simp: escape_id)
  show ?thesis unfolding br(1) e(1) using e br(2) by (simp add: lex_string.simps(2))
qed

lemma lex_string_quoted:
  assumes "utf8_ok s"
  shows "lex_string (escape s @ CHR 0x22 # rest) = Ok (s, rest)"
proof -
  have "list_all is_scalar cs \<Longrightarrow> lex_string (escape (utf8_encode cs) @ CHR 0x22 # rest) = Ok (utf8_encode cs, rest)" for cs
  proof (induction cs)
    case (Cons c cs)
    then show ?case
      using lex_string_char [of c "escape (utf8_encode cs) @ CHR 0x22 # rest"] by (simp add: utf8_encode_simps)
  qed (simp add: lex_string.simps(2) utf8_encode_simps)
  then show ?thesis using assms by (metis utf8_ok_def)
qed

subsection \<open>Reading the tokens\<close>

lemma and_then_assoc: "and_then (and_then r f) g = and_then r (\<lambda>x. and_then (f x) g)"
  by (cases r) auto

lemma lex_quoted:
  "utf8_ok s \<Longrightarrow> lex (quoted s @ r) = and_then (lex r) (\<lambda>ts. Ok (TStr s # ts))"
  by (simp add: quoted_def lex.simps(2) is_filter_space_def lex_string_quoted)

lemma lex_punctuation:
  "lex (CHR ''('' # r) = and_then (lex r) (\<lambda>ts. Ok (TLParen # ts))"
  "lex (CHR '')'' # r) = and_then (lex r) (\<lambda>ts. Ok (TRParen # ts))"
  "lex (CHR ''.'' # r) = and_then (lex r) (\<lambda>ts. Ok (TDot # ts))"
  "lex (CHR '':'' # r) = and_then (lex r) (\<lambda>ts. Ok (TColon # ts))"
  "lex (CHR '','' # r) = and_then (lex r) (\<lambda>ts. Ok (TComma # ts))"
  "lex (CHR ''='' # r) = and_then (lex r) (\<lambda>ts. Ok (TEq # ts))"
  "lex (CHR ''!'' # CHR ''='' # r) = and_then (lex r) (\<lambda>ts. Ok (TNe # ts))"
  "lex (CHR 0x20 # r) = lex r"
  by (simp_all add: lex.simps(2) is_filter_space_def)

lemma ident_start_other:
  assumes "is_ident_start b"
  shows "\<not> is_filter_space b" "punctuation b = None" "b \<noteq> CHR ''!''" "b \<noteq> CHR 0x22" "is_ident_byte b"
  using assms
  by (auto simp: is_ident_start_def is_ascii_alphabetic_def is_ascii_lowercase_def is_ascii_uppercase_def
      is_filter_space_def less_eq_char_def is_ident_byte_def is_ascii_alphanumeric_def)

lemma lex_word:
  assumes "w \<noteq> []" "is_ident_start (hd w)" "list_all is_ident_byte w" "r \<noteq> [] \<longrightarrow> \<not> is_ident_byte (hd r)"
  shows "lex (w @ r) = and_then (lex r)
     (\<lambda>ts. Ok ((if w = ''attributes'' then TAttributes else TIdent w) # ts))"
proof (cases w)
  case (Cons b v)
  have "takeWhile is_ident_byte (w @ r) = w"
    using assms(3,4) by (cases r) (auto simp: list_all_iff)
  moreover have "dropWhile is_ident_byte (v @ r) = r"
    using assms(3,4) Cons by (cases r) (auto simp: list_all_iff dropWhile_append3)
  ultimately show ?thesis using assms(2) Cons ident_start_other [of b]
    by (simp add: lex.simps(2) Let_def del: punctuation.simps takeWhile.simps)
qed (use assms in simp)

lemma ident_bytes:
  "list_all is_ident_byte ''attributes''" "list_all is_ident_byte ''hasPrefix''"
  "list_all is_ident_byte ''NOT''" "list_all is_ident_byte ''AND''" "list_all is_ident_byte ''OR''"
  "is_ident_start CHR ''a''" "is_ident_start CHR ''h''" "is_ident_start CHR ''N''"
  "is_ident_start CHR ''A''" "is_ident_start CHR ''O''"
  "\<not> is_ident_byte CHR '':''" "\<not> is_ident_byte CHR ''.''" "\<not> is_ident_byte CHR ''(''"
  "\<not> is_ident_byte CHR 0x20"
  by code_simp+

lemma lex_words:
  "lex (''attributes:'' @ r) = and_then (lex r) (\<lambda>ts. Ok (TAttributes # TColon # ts))"
  "lex (''attributes.'' @ r) = and_then (lex r) (\<lambda>ts. Ok (TAttributes # TDot # ts))"
  "lex (''hasPrefix('' @ r) = and_then (lex r) (\<lambda>ts. Ok (TIdent ''hasPrefix'' # TLParen # ts))"
  "lex (''NOT '' @ r) = and_then (lex r) (\<lambda>ts. Ok (TIdent ''NOT'' # ts))"
  "lex ('' AND '' @ r) = and_then (lex r) (\<lambda>ts. Ok (TIdent ''AND'' # ts))"
  "lex ('' OR '' @ r) = and_then (lex r) (\<lambda>ts. Ok (TIdent ''OR'' # ts))"
  using lex_word [OF _ _ ident_bytes(1), of "CHR '':'' # r"] lex_word [OF _ _ ident_bytes(1), of "CHR ''.'' # r"]
    lex_word [OF _ _ ident_bytes(2), of "CHR ''('' # r"] lex_word [OF _ _ ident_bytes(3), of "CHR 0x20 # r"]
    lex_word [OF _ _ ident_bytes(4), of "CHR 0x20 # r"] lex_word [OF _ _ ident_bytes(5), of "CHR 0x20 # r"]
  by (simp_all add: ident_bytes(6-) lex_punctuation and_then_assoc)

lemma lex_print:
  "\<forall>s\<in>set (expr_strings e). utf8_ok s \<Longrightarrow>
     lex (print_expr e @ r) = and_then (lex r) (\<lambda>ts. Ok (expr_tokens e @ ts))"
proof (induction e arbitrary: r)
  case (Has k)
  then show ?case using lex_words(1) [of "quoted k @ r"] by (simp add: lex_quoted and_then_assoc)
next
  case (EqAttr k v)
  then show ?case using lex_words(2) [of "quoted k @ ''='' @ quoted v @ r"]
    by (simp add: lex_quoted lex_punctuation and_then_assoc)
next
  case (NeAttr k v)
  then show ?case using lex_words(2) [of "quoted k @ ''!='' @ quoted v @ r"]
    by (simp add: lex_quoted lex_punctuation and_then_assoc)
next
  case (HasPrefix k p)
  then show ?case
    using lex_words(3) [of "''attributes.'' @ quoted k @ '','' @ quoted p @ '')'' @ r"]
      lex_words(2) [of "quoted k @ '','' @ quoted p @ '')'' @ r"]
    by (simp add: lex_quoted lex_punctuation and_then_assoc)
next
  case (NotE e)
  then show ?case using lex_words(4) [of "print_expr e @ r"] by (simp add: and_then_assoc)
next
  case (AndE a b)
  then show ?case using lex_words(5) [of "print_expr b @ '')'' @ r"]
    by (simp add: lex_punctuation and_then_assoc)
next
  case (OrE a b)
  then show ?case using lex_words(6) [of "print_expr b @ '')'' @ r"]
    by (simp add: lex_punctuation and_then_assoc)
qed

subsection \<open>Reading the expression\<close>

lemma operand_loop_end: "eat_keyword kw ts = None \<Longrightarrow> operand_loop p kw join left ts = Ok (left, ts)"
  by (simp add: operand_loop.simps)

lemma operand_loop_one:
  assumes "eat_keyword kw ts = Some ts1" "p ts1 = Ok (right, ts2)" "eat_keyword kw ts2 = None"
    "length ts2 < length ts"
  shows "operand_loop p kw join left ts = Ok (join left right, ts2)"
  using assms by (simp add: operand_loop.simps [of p kw join left ts] operand_loop_end)

lemma keyword_cases:
  "eq_ignore_ascii_case ''NOT'' ''NOT''" "eq_ignore_ascii_case ''AND'' ''AND''" "eq_ignore_ascii_case ''OR'' ''OR''"
  "\<not> eq_ignore_ascii_case ''hasPrefix'' ''NOT''" "\<not> eq_ignore_ascii_case ''OR'' ''AND''"
  by code_simp+

lemma parse_not_tokens:
  "expr_depth e \<le> d \<Longrightarrow> parse_not d (expr_tokens e @ ts) = Ok (e, ts)"
proof (induction e arbitrary: d ts)
  case (NotE e)
  then obtain d' where "d = Suc d'" "expr_depth e \<le> d'" by (cases d) auto
  then show ?case using NotE.IH [of d' ts] by (simp add: parse_not.simps [of "Suc d'"] keyword_cases)
next
  case (AndE a b)
  then obtain d' where d: "d = Suc d'" "expr_depth a \<le> d'" "expr_depth b \<le> d'" by (cases d) auto
  have b: "parse_not d' (expr_tokens b @ TRParen # ts) = Ok (b, TRParen # ts)" by (rule AndE.IH(2) [OF d(3)])
  have loop: "operand_loop (parse_not d') ''AND'' AndE a (TIdent ''AND'' # expr_tokens b @ TRParen # ts) = Ok (AndE a b, TRParen # ts)"
    by (rule operand_loop_one [where p = "parse_not d'", OF _ b]) (simp_all add: keyword_cases)
  have "parse_and d' (expr_tokens a @ TIdent ''AND'' # expr_tokens b @ TRParen # ts) = Ok (AndE a b, TRParen # ts)"
    by (simp add: parse_and.simps AndE.IH(1) [OF d(2)] loop)
  then have "parse_or d' (expr_tokens a @ TIdent ''AND'' # expr_tokens b @ TRParen # ts) = Ok (AndE a b, TRParen # ts)"
    by (simp add: parse_or.simps operand_loop_end)
  then show ?case using d(1) by (simp add: parse_not.simps [of "Suc d'"] parse_primary.simps [of "Suc d'"])
next
  case (OrE a b)
  then obtain d' where d: "d = Suc d'" "expr_depth a \<le> d'" "expr_depth b \<le> d'" by (cases d) auto
  have a: "parse_and d' (expr_tokens a @ TIdent ''OR'' # us) = Ok (a, TIdent ''OR'' # us)" for us
    by (simp add: parse_and.simps OrE.IH(1) [OF d(2)] operand_loop_end keyword_cases)
  have b: "parse_and d' (expr_tokens b @ TRParen # ts) = Ok (b, TRParen # ts)"
    by (simp add: parse_and.simps OrE.IH(2) [OF d(3)] operand_loop_end)
  have loop: "operand_loop (parse_and d') ''OR'' OrE a (TIdent ''OR'' # expr_tokens b @ TRParen # ts) = Ok (OrE a b, TRParen # ts)"
    by (rule operand_loop_one [where p = "parse_and d'", OF _ b]) (simp_all add: keyword_cases)
  have "parse_or d' (expr_tokens a @ TIdent ''OR'' # expr_tokens b @ TRParen # ts) = Ok (OrE a b, TRParen # ts)"
    by (simp add: parse_or.simps a loop)
  then show ?case using d(1) by (simp add: parse_not.simps [of "Suc d'"] parse_primary.simps [of "Suc d'"])
qed (simp_all add: parse_not.simps parse_primary.simps parse_has_prefix_def keyword_cases)

lemma parse_or_tokens: "expr_depth e \<le> d \<Longrightarrow> parse_or d (expr_tokens e) = Ok (e, [])"
  using parse_not_tokens [of e d "[]"] by (simp add: parse_or.simps parse_and.simps operand_loop_end)

lemma print_starts: "\<exists>b r. print_expr e = b # r \<and> (of_char b :: nat) < 128 \<and> \<not> is_whitespace (of_char b)"
  by (cases e) (simp_all add: is_whitespace_def)



section \<open>The depth limit is reachable\<close>

text \<open>
  The comment on \<open>MAX_DEPTH\<close> calls it a guard that no 256-byte filter can reach. Sixty-five
  parentheses around a term of twelve bytes reach it: 142 bytes that are refused, while
  sixty-four are accepted.
\<close>

definition nested_filter :: "nat \<Rightarrow> string" where
  "nested_filter n = replicate n CHR ''('' @ ''attributes:k'' @ replicate n CHR '')''"

lemma parse_or_too_deep: "parse_or d (replicate (Suc d) TLParen @ ts) = Err InvalidArgument"
proof (induction d)
  case 0
  then show ?case by (simp add: parse_or.simps parse_and.simps parse_not.simps parse_primary.simps)
next
  case (Suc d)
  then have "parse_primary (Suc d) (TLParen # replicate (Suc d) TLParen @ ts) = Err InvalidArgument"
    by (simp add: parse_primary.simps [of "Suc d"])
  then show ?case by (simp add: parse_or.simps [of "Suc d"] parse_and.simps [of "Suc d"] parse_not.simps [of "Suc d"])
qed

lemma parse_or_single:
  assumes "parse_not d ts = Ok (e, rest)" "eat_keyword ''AND'' rest = None" "eat_keyword ''OR'' rest = None"
  shows "parse_or d ts = Ok (e, rest)"
  using assms by (simp add: parse_or.simps parse_and.simps operand_loop_end)

lemma parse_not_nested:
  "n \<le> d \<Longrightarrow> parse_not d (replicate n TLParen @ TAttributes # TColon # TIdent ''k'' # replicate n TRParen @ ts)
     = Ok (Has ''k'', ts)"
proof (induction n arbitrary: d ts)
  case 0
  then show ?case by (simp add: parse_not.simps parse_primary.simps)
next
  case (Suc n)
  then obtain d' where d: "d = Suc d'" "n \<le> d'" by (cases d) auto
  have swap: "replicate (Suc n) TRParen @ ts = replicate n TRParen @ TRParen # ts"
    by (simp add: replicate_app_Cons_same)
  have "parse_or d' (replicate n TLParen @ TAttributes # TColon # TIdent ''k'' # replicate n TRParen @ TRParen # ts)
      = Ok (Has ''k'', TRParen # ts)"
    by (rule parse_or_single [OF Suc.IH [OF d(2)]]) simp_all
  then show ?case
    unfolding swap d(1) by (simp add: parse_not.simps [of "Suc d'"] parse_primary.simps [of "Suc d'"])
qed

lemma lex_replicate:
  "lex (replicate n CHR ''('' @ r) = and_then (lex r) (\<lambda>ts. Ok (replicate n TLParen @ ts))"
  "lex (replicate n CHR '')'') = Ok (replicate n TRParen)"
  by (induction n) (simp_all add: lex_punctuation and_then_assoc and_then_def split: sum.split)

lemma lex_nested: "lex (nested_filter n) = Ok (replicate n TLParen @ TAttributes # TColon # TIdent ''k'' # replicate n TRParen)"
proof -
  have "lex (''k'' @ replicate n CHR '')'') = and_then (lex (replicate n CHR '')''))
      (\<lambda>ts. Ok ((if ''k'' = ''attributes'' then TAttributes else TIdent ''k'') # ts))"
    by (rule lex_word) (code_simp, code_simp, code_simp, cases n, simp, simp, code_simp)
  then show ?thesis using lex_words(1) [of "''k'' @ replicate n CHR '')''"]
    by (simp add: nested_filter_def lex_replicate)
qed

lemma depth_limit_reachable:
  "length (nested_filter 65) = 142
   \<and> filter_parse (nested_filter 65) = Err InvalidArgument
   \<and> map_option fe_root (case filter_parse (nested_filter 64) of Inl _ \<Rightarrow> None | Inr f \<Rightarrow> Some f) = Some (Some (Has ''k''))"
proof -
  have w: "\<not> list_all is_whitespace (str_chars (nested_filter (Suc n)))" for n
    by (simp add: nested_filter_def str_chars.simps(2) is_whitespace_def Let_def)
  have "filter_parse (nested_filter 65) = Err InvalidArgument"
    using parse_or_too_deep [of 64 "TAttributes # TColon # TIdent ''k'' # replicate 65 TRParen"] w [of 64]
    by (simp add: filter_parse_def lex_nested filter_max_depth_def)
  moreover have "filter_parse (nested_filter 64) = Ok \<lparr>fe_root = Some (Has ''k''), fe_source = nested_filter 64\<rparr>"
  proof -
    have "parse_or 64 (replicate 64 TLParen @ TAttributes # TColon # TIdent ''k'' # replicate 64 TRParen @ []) = Ok (Has ''k'', [])"
      by (rule parse_or_single [OF parse_not_nested]) simp_all
    moreover have "length (nested_filter 64) \<le> max_filter_bytes"
      by (simp add: nested_filter_def max_filter_bytes_def)
    ultimately show ?thesis using w [of 63]
      by (simp add: filter_parse_def lex_nested filter_max_depth_def)
  qed
  ultimately show ?thesis by (simp add: nested_filter_def)
qed

end
