(* ===== verification/Ps_Subscription.thy ===== *)
theory Ps_Subscription
  imports Ps_Filter
begin

text \<open>
  One Pub/Sub subscription (crates/fireemu-core-pubsub/src/subscription.rs and the retention
  bound of configuration.rs): its configuration, the log of retained messages with the delivery
  state of each, and the operations on it. Time is an argument; the source of ack ids and the
  admission of a batch are parameters of a pull, as they are closures in the source.

  A stored message is shared by reference counting; \<open>Arc::ptr_eq\<close> compares addresses, so a
  reference is modelled as its address with the message it points to.
\<close>

section \<open>Configuration\<close>

definition min_ack_deadline_seconds :: nat where "min_ack_deadline_seconds = 10"
definition max_ack_deadline_seconds :: nat where "max_ack_deadline_seconds = 600"
definition min_dead_letter_attempts :: nat where "min_dead_letter_attempts = 5"
definition max_dead_letter_attempts :: nat where "max_dead_letter_attempts = 100"
definition max_retry_backoff_seconds :: int where "max_retry_backoff_seconds = 600"
definition default_push_minimum_millis :: int where "default_push_minimum_millis = 0"
definition max_retained_per_sub :: nat where "max_retained_per_sub = 100000"
definition max_retained_bytes_per_sub :: nat where "max_retained_bytes_per_sub = 1024 * 1024 * 1024"

record dead_letter_policy =
  dl_topic :: topic_name
  dl_max_attempts :: nat

record backoff_policy =
  bp_minimum :: logical_duration
  bp_maximum :: logical_duration

record push_config =
  pc_endpoint :: string
  pc_attributes :: "(string, string) bmap"

record expiration_policy =
  xp_ttl :: "logical_duration option"

record subscription_config =
  sc_name :: subscription_name
  sc_topic :: topic_name
  sc_ack_deadline_seconds :: nat
  sc_labels :: "(string, string) bmap"
  sc_expiration_policy :: "expiration_policy option"
  sc_retain_acked_messages :: bool
  sc_message_retention_duration :: "logical_duration option"
  sc_enable_message_ordering :: bool
  sc_filter :: filter_expr
  sc_dead_letter_policy :: "dead_letter_policy option"
  sc_retry_policy :: "backoff_policy option"
  sc_push_config :: push_config

definition validate_retention :: "logical_duration \<Rightarrow> (code, unit) result" where
  "validate_retention d =
     (if d < duration_from_seconds 600 \<or> d > duration_from_seconds 2678400 then Err InvalidArgument
      else Ok ())"

definition validate_dead_letter :: "dead_letter_policy \<Rightarrow> (code, unit) result" where
  "validate_dead_letter dl =
     (if dl_max_attempts dl < min_dead_letter_attempts then Err InvalidArgument
      else if dl_max_attempts dl > max_dead_letter_attempts then Err InvalidArgument
      else Ok ())"

fun validate_backoffs :: "logical_duration list \<Rightarrow> (code, unit) result" where
  "validate_backoffs [] = Ok ()"
| "validate_backoffs (v # vs) =
     (if v < 0 \<or> v > duration_from_seconds max_retry_backoff_seconds then Err InvalidArgument
      else validate_backoffs vs)"

definition validate_retry :: "backoff_policy \<Rightarrow> (code, unit) result" where
  "validate_retry rp =
     and_then (validate_backoffs [bp_minimum rp, bp_maximum rp])
       (\<lambda>_. if bp_minimum rp > bp_maximum rp then Err InvalidArgument else Ok ())"

definition when_some :: "'a option \<Rightarrow> ('a \<Rightarrow> (code, unit) result) \<Rightarrow> (code, unit) result" where
  "when_some x f = (case x of None \<Rightarrow> Ok () | Some y \<Rightarrow> f y)"

definition config_validate :: "subscription_config \<Rightarrow> (code, unit) result" where
  "config_validate c =
     (if sc_ack_deadline_seconds c = 0 \<or> sc_ack_deadline_seconds c > max_ack_deadline_seconds
      then Err InvalidArgument
      else and_then (when_some (sc_message_retention_duration c) validate_retention) (\<lambda>_.
           and_then (when_some (sc_dead_letter_policy c) validate_dead_letter) (\<lambda>_.
           when_some (sc_retry_policy c) validate_retry)))"

definition resolved_retention :: "subscription_config \<Rightarrow> logical_duration" where
  "resolved_retention c =
     (case sc_message_retention_duration c of Some d \<Rightarrow> d | None \<Rightarrow> duration_from_seconds 604800)"

definition config_is_push :: "subscription_config \<Rightarrow> bool" where
  "config_is_push c \<longleftrightarrow> pc_endpoint (sc_push_config c) \<noteq> []"

definition ack_deadline :: "subscription_config \<Rightarrow> logical_duration" where
  "ack_deadline c = duration_from_seconds (int (sc_ack_deadline_seconds c))"

text \<open>The doubling loop of the backoff.\<close>

fun double_backoff :: "nat \<Rightarrow> logical_duration \<Rightarrow> logical_duration \<Rightarrow> logical_duration" where
  "double_backoff 0 maximum backoff = backoff"
| "double_backoff (Suc steps) maximum backoff =
     (if backoff \<ge> maximum then backoff
      else double_backoff steps maximum (min (saturating_i 128 (backoff * 2)) maximum))"

definition redelivery_backoff :: "subscription_config \<Rightarrow> nat \<Rightarrow> logical_duration \<Rightarrow> logical_duration" where
  "redelivery_backoff c delivery_attempt push_minimum =
     (case sc_retry_policy c of
        None \<Rightarrow> if config_is_push c then push_minimum else 0
      | Some policy \<Rightarrow>
          if bp_minimum policy = 0 \<or> bp_maximum policy = 0 then 0
          else double_backoff (min (delivery_attempt - 1) 127) (bp_maximum policy) (bp_minimum policy))"

section \<open>The log\<close>

record message_ref =
  ref_addr :: nat
  ref_stored :: stored_message

definition ptr_eq :: "message_ref \<Rightarrow> message_ref \<Rightarrow> bool" where
  "ptr_eq a b \<longleftrightarrow> ref_addr a = ref_addr b"

abbreviation ref_id :: "message_ref \<Rightarrow> string" where
  "ref_id r \<equiv> sm_message_id (ref_stored r)"

abbreviation ref_key :: "message_ref \<Rightarrow> string" where
  "ref_key r \<equiv> pm_ordering_key (sm_message (ref_stored r))"

datatype delivery =
    Available logical_instant
  | Outstanding string logical_instant
  | Acked
  | ForwardPending

record entry =
  en_stored :: message_ref
  en_state :: delivery
  en_attempt :: nat

record received_message =
  rm_ack_id :: string
  rm_message :: message_ref
  rm_delivery_attempt :: nat

record pull_outcome =
  po_received :: "received_message list"
  po_dead_lettered :: "message_ref list"

datatype ordered_pull_batching = Mixed | SeparateUnkeyed

record subscription_state =
  ss_config :: subscription_config
  ss_entries :: "entry list"
  ss_first_unacked :: nat
  ss_outstanding :: "(string, nat) bmap"
  ss_retained_bytes :: nat
  ss_push_minimum :: logical_duration

definition sub_new :: "subscription_config \<Rightarrow> subscription_state" where
  "sub_new config =
     \<lparr>ss_config = config, ss_entries = [], ss_first_unacked = 0, ss_outstanding = [],
      ss_retained_bytes = 0, ss_push_minimum = duration_from_millis default_push_minimum_millis\<rparr>"

definition set_push_minimum :: "logical_duration \<Rightarrow> subscription_state \<Rightarrow> subscription_state" where
  "set_push_minimum interval s = s\<lparr>ss_push_minimum := interval\<rparr>"

definition set_ack_deadline :: "nat \<Rightarrow> subscription_state \<Rightarrow> subscription_state" where
  "set_ack_deadline seconds s = s\<lparr>ss_config := (ss_config s)\<lparr>sc_ack_deadline_seconds := seconds\<rparr>\<rparr>"

definition set_push_config :: "push_config \<Rightarrow> subscription_state \<Rightarrow> subscription_state" where
  "set_push_config push s = s\<lparr>ss_config := (ss_config s)\<lparr>sc_push_config := push\<rparr>\<rparr>"

definition replace_config :: "subscription_config \<Rightarrow> subscription_state \<Rightarrow> subscription_state" where
  "replace_config config s = s\<lparr>ss_config := config\<rparr>"

text \<open>Parsing the sentinel always succeeds (\<open>topic_parse_iff\<close>).\<close>

definition mark_topic_deleted :: "subscription_state \<Rightarrow> subscription_state" where
  "mark_topic_deleted s =
     s\<lparr>ss_config := (ss_config s)\<lparr>sc_topic := \<lparr>tn_project = [], tn_topic = deleted_topic\<rparr>\<rparr>\<rparr>"

text \<open>\<open>sum::<usize>\<close> wraps around in a release build.\<close>

definition sum_usize :: "nat list \<Rightarrow> nat" where
  "sum_usize ns = sum_list ns mod 2 ^ 64"

definition message_bytes :: "stored_message \<Rightarrow> nat" where
  "message_bytes stored =
     saturating_add_u 64
       (saturating_add_u 64 (length (pm_data (sm_message stored))) (length (pm_ordering_key (sm_message stored))))
       (sum_usize (map (\<lambda>(k, v). saturating_add_u 64 (length k) (length v)) (pm_attributes (sm_message stored))))"

abbreviation entry_bytes :: "entry \<Rightarrow> nat" where
  "entry_bytes e \<equiv> message_bytes (ref_stored (en_stored e))"

fun index_entries :: "nat \<Rightarrow> entry list \<Rightarrow> (string, nat) bmap \<Rightarrow> (string, nat) bmap" where
  "index_entries i [] m = m"
| "index_entries i (e # es) m =
     index_entries (Suc i) es (case en_state e of Outstanding ack_id _ \<Rightarrow> bm_insert ack_id i m | _ \<Rightarrow> m)"

definition rebuild_indexes :: "subscription_state \<Rightarrow> subscription_state" where
  "rebuild_indexes s =
     s\<lparr>ss_first_unacked :=
         (case position (\<lambda>e. en_state e \<noteq> Acked) (ss_entries s) of
            Some i \<Rightarrow> i | None \<Rightarrow> length (ss_entries s)),
       ss_outstanding := index_entries 0 (ss_entries s) [],
       ss_retained_bytes := sum_usize (map entry_bytes (ss_entries s))\<rparr>"

text \<open>The loop that moves past acknowledged entries, by what is left of the log.\<close>

definition advance_first_unacked :: "subscription_state \<Rightarrow> subscription_state" where
  "advance_first_unacked s =
     s\<lparr>ss_first_unacked := ss_first_unacked s
         + length (takeWhile (\<lambda>e. en_state e = Acked) (drop (ss_first_unacked s) (ss_entries s)))\<rparr>"

definition reclaim_acked_entries :: "subscription_state \<Rightarrow> subscription_state" where
  "reclaim_acked_entries s = rebuild_indexes (s\<lparr>ss_entries := filter (\<lambda>e. en_state e \<noteq> Acked) (ss_entries s)\<rparr>)"

section \<open>Capacity and sub_enqueue\<close>

fun batch_size :: "nat \<Rightarrow> nat \<Rightarrow> stored_message list \<Rightarrow> (code, nat \<times> nat) result" where
  "batch_size cnt bytes [] = Ok (cnt, bytes)"
| "batch_size cnt bytes (m # ms) =
     and_then (ok_or (checked_add_u 64 cnt 1) ResourceExhausted) (\<lambda>cnt'.
     and_then (ok_or (checked_add_u 64 bytes (message_bytes m)) ResourceExhausted) (\<lambda>bytes'.
     batch_size cnt' bytes' ms))"

definition fits_limits :: "nat \<Rightarrow> nat \<Rightarrow> nat \<Rightarrow> nat \<Rightarrow> bool" where
  "fits_limits additional_count additional_bytes cnt bytes \<longleftrightarrow>
     is_some_and (\<lambda>t. t \<le> max_retained_per_sub) (checked_add_u 64 cnt additional_count)
     \<and> is_some_and (\<lambda>t. t \<le> max_retained_bytes_per_sub) (checked_add_u 64 bytes additional_bytes)"

definition acked_size :: "entry list \<Rightarrow> nat \<times> nat" where
  "acked_size es =
     foldl (\<lambda>(cnt, bytes) e. (saturating_add_u 64 cnt 1, saturating_add_u 64 bytes (entry_bytes e)))
       (0, 0) (filter (\<lambda>e. en_state e = Acked) es)"

definition ensure_enqueue_capacity :: "subscription_state \<Rightarrow> stored_message list \<Rightarrow> (code, unit) result" where
  "ensure_enqueue_capacity s messages =
     and_then (batch_size 0 0 messages) (\<lambda>(additional_count, additional_bytes).
       if fits_limits additional_count additional_bytes (length (ss_entries s)) (ss_retained_bytes s) then Ok ()
       else let (acked_count, acked_bytes) = acked_size (ss_entries s)
            in if fits_limits additional_count additional_bytes
                    (length (ss_entries s) - acked_count) (ss_retained_bytes s - acked_bytes)
               then Ok () else Err ResourceExhausted)"

definition exceeds_bytes :: "nat \<Rightarrow> nat \<Rightarrow> bool" where
  "exceeds_bytes retained bytes =
     (case checked_add_u 64 retained bytes of None \<Rightarrow> True | Some t \<Rightarrow> t > max_retained_bytes_per_sub)"

definition sub_enqueue :: "message_ref \<Rightarrow> logical_instant \<Rightarrow> subscription_state \<Rightarrow> (code, unit) result \<times> subscription_state" where
  "sub_enqueue stored now s0 =
     (let bytes = message_bytes (ref_stored stored);
          s = (if (length (ss_entries s0) \<ge> max_retained_per_sub \<or> exceeds_bytes (ss_retained_bytes s0) bytes)
                  \<and> list_ex (\<lambda>e. en_state e = Acked) (ss_entries s0)
               then reclaim_acked_entries s0 else s0)
      in if length (ss_entries s) \<ge> max_retained_per_sub then (Err ResourceExhausted, s)
         else if exceeds_bytes (ss_retained_bytes s) bytes then (Err ResourceExhausted, s)
         else (Ok (), s\<lparr>ss_entries := ss_entries s @ [\<lparr>en_stored = stored, en_state = Available now, en_attempt = 0\<rparr>],
                        ss_retained_bytes := ss_retained_bytes s + bytes\<rparr>))"

definition admits :: "subscription_state \<Rightarrow> (string, string) bmap \<Rightarrow> bool" where
  "admits s attributes = filter_matches (sc_filter (ss_config s)) attributes"


section \<open>Queries\<close>

abbreviation live_entries :: "subscription_state \<Rightarrow> entry list" where
  "live_entries s \<equiv> drop (ss_first_unacked s) (ss_entries s)"

text \<open>\<open>min\<close> of an iterator.\<close>

definition iter_min :: "'a::linorder list \<Rightarrow> 'a option" where
  "iter_min xs = (case xs of [] \<Rightarrow> None | x # xs' \<Rightarrow> Some (foldl min x xs'))"

definition has_pending :: "subscription_state \<Rightarrow> logical_instant \<Rightarrow> bool" where
  "has_pending s now =
     list_ex (\<lambda>e. case en_state e of
                    Outstanding _ _ \<Rightarrow> True
                  | Available available_at \<Rightarrow> available_at \<le> now
                  | Acked \<Rightarrow> False | ForwardPending \<Rightarrow> False) (live_entries s)"

fun available_heads :: "bool \<Rightarrow> string bset \<Rightarrow> entry list \<Rightarrow> logical_instant list" where
  "available_heads ordered blocked_keys [] = []"
| "available_heads ordered blocked_keys (e # es) =
     (if en_state e = Acked then available_heads ordered blocked_keys es
      else let key = ref_key (en_stored e)
           in if ordered \<and> key \<noteq> [] \<and> bs_contains blocked_keys key
              then available_heads ordered blocked_keys es
              else (case en_state e of Available available_at \<Rightarrow> [available_at] | _ \<Rightarrow> [])
                   @ available_heads ordered
                       (if ordered \<and> key \<noteq> [] then bs_insert key blocked_keys else blocked_keys) es)"

definition next_available_at :: "subscription_state \<Rightarrow> logical_instant option" where
  "next_available_at s =
     iter_min (available_heads (sc_enable_message_ordering (ss_config s)) [] (live_entries s))"

definition entry_deadline :: "entry \<Rightarrow> logical_instant option" where
  "entry_deadline e =
     (case en_state e of
        Available available_at \<Rightarrow> Some available_at
      | Outstanding _ deadline \<Rightarrow> Some deadline
      | Acked \<Rightarrow> None | ForwardPending \<Rightarrow> None)"

definition next_pull_deadline :: "subscription_state \<Rightarrow> logical_instant \<Rightarrow> logical_instant option" where
  "next_pull_deadline s now =
     iter_min (filter (\<lambda>deadline. deadline > now) (List.map_filter entry_deadline (live_entries s)))"

definition outstanding_count :: "subscription_state \<Rightarrow> nat" where
  "outstanding_count s = length (ss_outstanding s)"

section \<open>Leases\<close>

definition lapsed :: "subscription_state \<Rightarrow> logical_instant \<Rightarrow> nat \<Rightarrow> bool" where
  "lapsed s now index =
     (case en_state (ss_entries s ! index) of
        Outstanding _ deadline \<Rightarrow> deadline \<le> now
      | Available _ \<Rightarrow> False | Acked \<Rightarrow> False | ForwardPending \<Rightarrow> False)"

definition requeue_at :: "subscription_state \<Rightarrow> logical_instant \<Rightarrow> nat \<Rightarrow> logical_instant" where
  "requeue_at s now attempt =
     (case instant_checked_add now (redelivery_backoff (ss_config s) attempt (ss_push_minimum s)) of
        Some t \<Rightarrow> t | None \<Rightarrow> now)"

definition set_state :: "nat \<Rightarrow> delivery \<Rightarrow> subscription_state \<Rightarrow> subscription_state" where
  "set_state index d s = s\<lparr>ss_entries := (ss_entries s)[index := (ss_entries s ! index)\<lparr>en_state := d\<rparr>]\<rparr>"

definition expire_one :: "logical_instant \<Rightarrow> subscription_state \<Rightarrow> string \<Rightarrow> subscription_state" where
  "expire_one now s ack_id =
     (case bm_get (ss_outstanding s) ack_id of
        None \<Rightarrow> s
      | Some index \<Rightarrow>
          set_state index (Available (requeue_at s now (en_attempt (ss_entries s ! index))))
            (s\<lparr>ss_outstanding := bm_remove ack_id (ss_outstanding s)\<rparr>))"

definition expire_deadlines :: "logical_instant \<Rightarrow> subscription_state \<Rightarrow> subscription_state" where
  "expire_deadlines now s =
     foldl (expire_one now) s (map fst (filter (\<lambda>(_, index). lapsed s now index) (ss_outstanding s)))"

definition retain_outstanding_ack_ids ::
    "string bset \<Rightarrow> logical_instant \<Rightarrow> subscription_state \<Rightarrow> string bset \<times> subscription_state" where
  "retain_outstanding_ack_ids ack_ids now s =
     (let s' = expire_deadlines now s in (filter (bm_contains (ss_outstanding s')) ack_ids, s'))"

section \<open>Pull\<close>

text \<open>What the selection loop reads: its limits and the configuration.\<close>

record pull_plan =
  pp_max :: nat
  pp_now :: logical_instant
  pp_max_attempts :: "nat option"
  pp_ordered :: bool
  pp_unkeyed_only :: bool
  pp_push :: bool

record selection =
  sel_selected :: "nat list"
  sel_forwarded :: "nat list"
  sel_blocked :: "string bset"
  sel_emitted :: "string bset"

definition is_ready :: "logical_instant \<Rightarrow> entry \<Rightarrow> bool" where
  "is_ready now e = (case en_state e of Available available_at \<Rightarrow> available_at \<le> now | _ \<Rightarrow> False)"

definition exhausted :: "nat option \<Rightarrow> entry \<Rightarrow> bool" where
  "exhausted max_attempts e = is_some_and (\<lambda>limit. en_attempt e \<ge> limit) max_attempts"

text \<open>One turn of the selection loop; returning the selection unchanged is its \<open>continue\<close>.\<close>

definition select_entry :: "pull_plan \<Rightarrow> nat \<Rightarrow> entry \<Rightarrow> selection \<Rightarrow> selection" where
  "select_entry p i e sel =
     (let key = ref_key (en_stored e);
          keyed = (pp_ordered p \<and> key \<noteq> [])
      in if en_state e = Acked then sel
         else if pp_unkeyed_only p \<and> key \<noteq> [] then sel
         else if keyed \<and> bs_contains (sel_blocked sel) key then sel
         else if \<not> is_ready (pp_now p) e
         then (if keyed then sel\<lparr>sel_blocked := bs_insert key (sel_blocked sel)\<rparr> else sel)
         else if exhausted (pp_max_attempts p) e
         then (let sel = (if keyed then sel\<lparr>sel_blocked := bs_insert key (sel_blocked sel)\<rparr> else sel)
               in if keyed \<and> bs_contains (sel_emitted sel) key then sel
                  else sel\<lparr>sel_forwarded := sel_forwarded sel @ [i]\<rparr>)
         else (let sel = (if keyed
                          then sel\<lparr>sel_blocked := (if pp_push p \<or> en_attempt e > 0
                                                   then bs_insert key (sel_blocked sel)
                                                   else sel_blocked sel),
                                   sel_emitted := bs_insert key (sel_emitted sel)\<rparr>
                          else sel)
               in sel\<lparr>sel_selected := sel_selected sel @ [i]\<rparr>))"

fun select_from :: "pull_plan \<Rightarrow> nat \<Rightarrow> entry list \<Rightarrow> selection \<Rightarrow> selection" where
  "select_from p i [] sel = sel"
| "select_from p i (e # es) sel =
     (if length (sel_selected sel) \<ge> pp_max p then sel
      else select_from p (Suc i) es (select_entry p i e sel))"

definition empty_selection :: selection where
  "empty_selection = \<lparr>sel_selected = [], sel_forwarded = [], sel_blocked = [], sel_emitted = []\<rparr>"

definition make_plan ::
    "subscription_state \<Rightarrow> nat \<Rightarrow> logical_instant \<Rightarrow> bool \<Rightarrow> ordered_pull_batching \<Rightarrow> pull_plan" where
  "make_plan s max_messages now forwarding_authorized batching =
     (let max_attempts = (if forwarding_authorized
                          then map_option dl_max_attempts (sc_dead_letter_policy (ss_config s)) else None);
          ordered = sc_enable_message_ordering (ss_config s)
      in \<lparr>pp_max = max_messages, pp_now = now, pp_max_attempts = max_attempts, pp_ordered = ordered,
          pp_unkeyed_only = (ordered \<and> batching = SeparateUnkeyed
             \<and> list_ex (\<lambda>e. ref_key (en_stored e) = [] \<and> is_ready now e \<and> \<not> exhausted max_attempts e)
                 (live_entries s)),
          pp_push = config_is_push (ss_config s)\<rparr>)"

definition plan_pull :: "pull_plan \<Rightarrow> subscription_state \<Rightarrow> selection" where
  "plan_pull p s = select_from p (ss_first_unacked s) (live_entries s) empty_selection"

text \<open>A pull without the grant takes every transfer in flight back to the log.\<close>

definition revoke_forwards :: "logical_instant \<Rightarrow> subscription_state \<Rightarrow> subscription_state" where
  "revoke_forwards now s =
     s\<lparr>ss_entries := map (\<lambda>e. if en_state e = ForwardPending then e\<lparr>en_state := Available now\<rparr> else e)
                      (ss_entries s)\<rparr>"

definition pull_deadline :: "subscription_config \<Rightarrow> logical_instant \<Rightarrow> logical_instant" where
  "pull_deadline c now = (case instant_checked_add now (ack_deadline c) of Some t \<Rightarrow> t | None \<Rightarrow> i_max 128)"

fun commit_forwards :: "nat list \<Rightarrow> subscription_state \<Rightarrow> message_ref list \<times> subscription_state" where
  "commit_forwards [] s = ([], s)"
| "commit_forwards (i # is) s =
     (let (ms, s') = commit_forwards is (set_state i ForwardPending s)
      in (en_stored (ss_entries s ! i) # ms, s'))"

definition lease_entry :: "nat \<Rightarrow> string \<Rightarrow> logical_instant \<Rightarrow> subscription_state \<Rightarrow> received_message \<times> subscription_state" where
  "lease_entry i ack_id deadline s =
     (let e = ss_entries s ! i;
          e' = e\<lparr>en_attempt := (en_attempt e + 1) mod 2 ^ 32, en_state := Outstanding ack_id deadline\<rparr>
      in (\<lparr>rm_ack_id = ack_id, rm_message = en_stored e', rm_delivery_attempt = en_attempt e'\<rparr>,
          s\<lparr>ss_entries := (ss_entries s)[i := e'], ss_outstanding := bm_insert ack_id i (ss_outstanding s)\<rparr>))"

fun commit_leases ::
    "('g \<Rightarrow> string \<times> 'g) \<Rightarrow> logical_instant \<Rightarrow> nat list \<Rightarrow> 'g \<times> subscription_state
     \<Rightarrow> received_message list \<times> 'g \<times> subscription_state" where
  "commit_leases next_ack_id deadline [] (g, s) = ([], g, s)"
| "commit_leases next_ack_id deadline (i # is) (g, s) =
     (let (ack_id, g') = next_ack_id g;
          (r, s') = lease_entry i ack_id deadline s;
          (rs, gs) = commit_leases next_ack_id deadline is (g', s')
      in (r # rs, gs))"

definition pull_with_admission ::
    "nat \<Rightarrow> logical_instant \<Rightarrow> bool \<Rightarrow> ordered_pull_batching \<Rightarrow> ('g \<Rightarrow> string \<times> 'g)
     \<Rightarrow> (stored_message list \<Rightarrow> bool) \<Rightarrow> 'g \<Rightarrow> subscription_state \<Rightarrow> pull_outcome \<times> 'g \<times> subscription_state" where
  "pull_with_admission max_messages now forwarding_authorized batching next_ack_id admit g s0 =
     (let s = (if forwarding_authorized then s0 else revoke_forwards now s0);
          none = \<lparr>po_received = [], po_dead_lettered = []\<rparr>
      in if max_messages = 0 then (none, g, s)
         else let deadline = pull_deadline (ss_config s) now;
                  sel = plan_pull (make_plan s max_messages now forwarding_authorized batching) s;
                  candidates = map (\<lambda>i. ref_stored (en_stored (ss_entries s ! i))) (sel_selected sel)
              in if candidates \<noteq> [] \<and> \<not> admit candidates then (none, g, s)
                 else let (dead_lettered, s) = commit_forwards (sel_forwarded sel) s;
                          (received, g, s) = commit_leases next_ack_id deadline (sel_selected sel) (g, s)
                      in (\<lparr>po_received = received, po_dead_lettered = dead_lettered\<rparr>, g,
                          advance_first_unacked s))"

definition pull_with_forwarding ::
    "nat \<Rightarrow> logical_instant \<Rightarrow> bool \<Rightarrow> ordered_pull_batching \<Rightarrow> ('g \<Rightarrow> string \<times> 'g)
     \<Rightarrow> 'g \<Rightarrow> subscription_state \<Rightarrow> pull_outcome \<times> 'g \<times> subscription_state" where
  "pull_with_forwarding max_messages now forwarding_authorized batching next_ack_id =
     pull_with_admission max_messages now forwarding_authorized batching next_ack_id (\<lambda>_. True)"

definition pull :: "nat \<Rightarrow> logical_instant \<Rightarrow> ('g \<Rightarrow> string \<times> 'g) \<Rightarrow> 'g \<Rightarrow> subscription_state
     \<Rightarrow> pull_outcome \<times> 'g \<times> subscription_state" where
  "pull max_messages now next_ack_id = pull_with_forwarding max_messages now True Mixed next_ack_id"


section \<open>Acknowledgement, transfers and seeks\<close>

definition acknowledge_one :: "nat \<times> subscription_state \<Rightarrow> string \<Rightarrow> nat \<times> subscription_state" where
  "acknowledge_one = (\<lambda>(acked, s) ack_id.
     case bm_get (ss_outstanding s) ack_id of
       None \<Rightarrow> (acked, s)
     | Some index \<Rightarrow> (acked + 1, set_state index Acked (s\<lparr>ss_outstanding := bm_remove ack_id (ss_outstanding s)\<rparr>)))"

definition acknowledge :: "string list \<Rightarrow> subscription_state \<Rightarrow> nat \<times> subscription_state" where
  "acknowledge ack_ids s =
     (let (acked, s') = foldl acknowledge_one (0, s) ack_ids in (acked, advance_first_unacked s'))"

definition complete_forward :: "string \<Rightarrow> subscription_state \<Rightarrow> bool \<times> subscription_state" where
  "complete_forward message_id s =
     (case position (\<lambda>e. ref_id (en_stored e) = message_id \<and> en_state e = ForwardPending) (ss_entries s) of
        None \<Rightarrow> (False, s)
      | Some i \<Rightarrow> (True, advance_first_unacked (set_state i Acked s)))"

definition forwarding_attempt :: "subscription_state \<Rightarrow> message_ref \<Rightarrow> nat option" where
  "forwarding_attempt s message =
     map_option en_attempt
       (List.find (\<lambda>e. en_state e = ForwardPending \<and> ptr_eq (en_stored e) message) (ss_entries s))"

definition resume_forward :: "message_ref \<Rightarrow> logical_instant \<Rightarrow> subscription_state \<Rightarrow> subscription_state" where
  "resume_forward message now s =
     s\<lparr>ss_entries := map (\<lambda>e. if en_state e = ForwardPending \<and> ptr_eq (en_stored e) message
                              then e\<lparr>en_state := Available now\<rparr> else e) (ss_entries s)\<rparr>"

definition pending_forwards :: "subscription_state \<Rightarrow> message_ref list" where
  "pending_forwards s = map en_stored (filter (\<lambda>e. en_state e = ForwardPending) (ss_entries s))"

definition modify_ack_deadline :: "string \<Rightarrow> nat \<Rightarrow> logical_instant \<Rightarrow> subscription_state \<Rightarrow> subscription_state" where
  "modify_ack_deadline ack_id seconds now s =
     (case bm_get (ss_outstanding s) ack_id of
        None \<Rightarrow> s
      | Some index \<Rightarrow>
          if seconds = 0
          then set_state index (Available (requeue_at s now (en_attempt (ss_entries s ! index))))
                 (s\<lparr>ss_outstanding := bm_remove ack_id (ss_outstanding s)\<rparr>)
          else (case en_state (ss_entries s ! index) of
                  Outstanding a _ \<Rightarrow>
                    set_state index
                      (Outstanding a (case instant_checked_add now (duration_from_seconds (int seconds)) of
                                        Some t \<Rightarrow> t | None \<Rightarrow> i_max 128)) s
                | _ \<Rightarrow> s))"

definition seek_to_time :: "logical_instant \<Rightarrow> logical_instant \<Rightarrow> subscription_state \<Rightarrow> (code, unit) result \<times> subscription_state" where
  "seek_to_time time now s =
     (if sc_enable_message_ordering (ss_config s) then (Err Unimplemented, s)
      else (Ok (), rebuild_indexes (s\<lparr>ss_entries :=
        map (\<lambda>e. if sm_publish_time (ref_stored (en_stored e)) < time then e\<lparr>en_state := Acked\<rparr>
                 else e\<lparr>en_state := Available now, en_attempt := 0\<rparr>) (ss_entries s)\<rparr>)))"

definition retention_accounting :: "subscription_state \<Rightarrow> nat \<times> nat \<times> nat" where
  "retention_accounting s =
     foldl (\<lambda>(unacked, unacked_bytes, acked_bytes) e.
              let bytes = length (pm_data (sm_message (ref_stored (en_stored e))))
              in if en_state e = Acked then (unacked, unacked_bytes, saturating_add_u 64 acked_bytes bytes)
                 else (unacked + 1, saturating_add_u 64 unacked_bytes bytes, acked_bytes))
       (0, 0, 0) (ss_entries s)"

definition unacknowledged_message_ids :: "subscription_state \<Rightarrow> string bset" where
  "unacknowledged_message_ids s =
     bs_of_list (map (\<lambda>e. ref_id (en_stored e)) (filter (\<lambda>e. en_state e \<noteq> Acked) (ss_entries s)))"

definition retained_message_ids :: "subscription_state \<Rightarrow> string bset" where
  "retained_message_ids s = bs_of_list (map (\<lambda>e. ref_id (en_stored e)) (ss_entries s))"

definition retained_messages :: "subscription_state \<Rightarrow> message_ref list" where
  "retained_messages s = map en_stored (ss_entries s)"

definition oldest_unacknowledged_publish_time :: "subscription_state \<Rightarrow> logical_instant option" where
  "oldest_unacknowledged_publish_time s =
     iter_min (map (\<lambda>e. sm_publish_time (ref_stored (en_stored e)))
                 (filter (\<lambda>e. en_state e \<noteq> Acked) (ss_entries s)))"

text \<open>
  What a snapshot brings back: the captured messages the log no longer holds. They go before
  the first message published after the capture.
\<close>

definition missing_messages :: "message_ref list \<Rightarrow> string bset \<Rightarrow> subscription_state \<Rightarrow> message_ref list" where
  "missing_messages captured retained_ids s =
     (let existing_ids = bs_of_list (map (\<lambda>e. ref_id (en_stored e)) (ss_entries s))
      in filter (\<lambda>m. bs_contains retained_ids (ref_id m) \<and> \<not> bs_contains existing_ids (ref_id m)
                     \<and> admits s (pm_attributes (sm_message (ref_stored m)))) captured)"

definition published_after :: "string bset \<Rightarrow> logical_instant \<Rightarrow> entry \<Rightarrow> bool" where
  "published_after retained_ids created_at e \<longleftrightarrow>
     \<not> bs_contains retained_ids (ref_id (en_stored e))
     \<and> sm_publish_time (ref_stored (en_stored e)) \<ge> created_at"

definition restore_entry :: "string bset \<Rightarrow> string bset \<Rightarrow> logical_instant \<Rightarrow> logical_instant \<Rightarrow> entry \<Rightarrow> entry" where
  "restore_entry retained_ids unacked_ids created_at now e =
     (if bs_contains unacked_ids (ref_id (en_stored e)) \<or> published_after retained_ids created_at e
      then e\<lparr>en_state := Available now, en_attempt := 0\<rparr>
      else e\<lparr>en_state := Acked\<rparr>)"

definition splice_missing :: "message_ref list \<Rightarrow> string bset \<Rightarrow> logical_instant \<Rightarrow> logical_instant \<Rightarrow> entry list \<Rightarrow> entry list" where
  "splice_missing missing retained_ids created_at now es =
     (let i = (case position (published_after retained_ids created_at) es of Some i \<Rightarrow> i | None \<Rightarrow> length es)
      in take i es @ map (\<lambda>m. \<lparr>en_stored = m, en_state = Available now, en_attempt = 0\<rparr>) missing @ drop i es)"

definition sub_seek_to_snapshot ::
    "message_ref list \<Rightarrow> string bset \<Rightarrow> string bset \<Rightarrow> logical_instant \<Rightarrow> logical_instant
     \<Rightarrow> subscription_state \<Rightarrow> (code, unit) result \<times> subscription_state" where
  "sub_seek_to_snapshot captured retained_ids unacked_ids created_at now s =
     (let missing = missing_messages captured retained_ids s;
          acked = filter (\<lambda>e. en_state e = Acked) (ss_entries s);
          acked_count = length acked;
          acked_bytes = sum_usize (map entry_bytes acked);
          missing_bytes = sum_usize (map (\<lambda>m. message_bytes (ref_stored m)) missing);
          entries_without_acked = length (ss_entries s) - acked_count;
          bytes_without_acked = ss_retained_bytes s - acked_bytes;
          entries_after = saturating_add_u 64 (length (ss_entries s)) (length missing);
          bytes_after = saturating_add_u 64 (ss_retained_bytes s) missing_bytes;
          can_reclaim_acked = (entries_after > max_retained_per_sub \<or> bytes_after > max_retained_bytes_per_sub)
      in if can_reclaim_acked
            \<and> (saturating_add_u 64 entries_without_acked (length missing) > max_retained_per_sub
               \<or> saturating_add_u 64 bytes_without_acked missing_bytes > max_retained_bytes_per_sub)
         then (Err ResourceExhausted, s)
         else let s = (if can_reclaim_acked then reclaim_acked_entries s else s)
              in (Ok (), rebuild_indexes (s\<lparr>ss_entries :=
                    map (restore_entry retained_ids unacked_ids created_at now)
                      (splice_missing missing retained_ids created_at now (ss_entries s))\<rparr>)))"

end
