(* ===== verification/Ps_Delivery.thy ===== *)
theory Ps_Delivery
  imports Ps_Subscription
begin

text \<open>
  What the subscription log keeps: the three indexes beside it (first unacknowledged entry,
  ack id to entry, retained bytes) always agree with the log and its bounds, the backlog of
  unacknowledged messages changes only by publication, acknowledgement, completed transfer and
  seek, and a lapsed lease returns its message.
\<close>

section \<open>The index of ack ids\<close>

definition ack_of :: "entry \<Rightarrow> string option" where
  "ack_of e = (case en_state e of Outstanding a _ \<Rightarrow> Some a | _ \<Rightarrow> None)"

lemma ack_of_Some: "ack_of e = Some a \<longleftrightarrow> (\<exists>d. en_state e = Outstanding a d)"
  by (simp add: ack_of_def split: delivery.split)

lemma ack_of_simps [simp]:
  "en_state e = Acked \<Longrightarrow> ack_of e = None"
  "en_state e = ForwardPending \<Longrightarrow> ack_of e = None"
  "en_state e = Available t \<Longrightarrow> ack_of e = None"
  "en_state e = Outstanding a d \<Longrightarrow> ack_of e = Some a"
  by (simp_all add: ack_of_def)

definition indexed :: "entry list \<Rightarrow> (string, nat) bmap \<Rightarrow> bool" where
  "indexed es m \<longleftrightarrow>
     bm_wf m \<and> (\<forall>a i. bm_get m a = Some i \<longleftrightarrow> i < length es \<and> ack_of (es ! i) = Some a)"

lemma indexedD:
  assumes "indexed es m" and "bm_get m a = Some i"
  shows "i < length es" and "ack_of (es ! i) = Some a"
  using assms by (auto simp: indexed_def)

lemma indexed_get: "indexed es m \<Longrightarrow> i < length es \<Longrightarrow> ack_of (es ! i) = Some a \<Longrightarrow> bm_get m a = Some i"
  by (auto simp: indexed_def)

lemma indexed_None: "indexed es m \<Longrightarrow> bm_get m a = None \<longleftrightarrow> (\<forall>i<length es. ack_of (es ! i) \<noteq> Some a)"
  unfolding indexed_def by (metis not_None_eq)

lemma indexed_Nil [simp]: "indexed [] []"
  by (simp add: indexed_def)

lemma indexed_release:
  assumes "indexed es m" "bm_get m a = Some i" "ack_of e = None"
  shows "indexed (es[i := e]) (bm_remove a m)"
proof -
  have "ack_of (es ! j) \<noteq> Some a" if "j < length es" "j \<noteq> i" for j
    using assms(1,2) that by (metis indexed_get option.inject)
  with assms indexedD [OF assms(1,2)] show ?thesis
    by (auto simp: indexed_def nth_list_update)
qed

lemma indexed_keep:
  "indexed es m \<Longrightarrow> ack_of e = ack_of (es ! i) \<Longrightarrow> indexed (es[i := e]) m"
  by (cases "i < length es") (auto simp: indexed_def nth_list_update)

lemma indexed_lease:
  assumes "indexed es m" "i < length es" "ack_of (es ! i) = None" "bm_get m a = None" "ack_of e = Some a"
  shows "indexed (es[i := e]) (bm_insert a i m)"
proof -
  have "\<forall>j<length es. ack_of (es ! j) \<noteq> Some a"
    using assms indexed_None by blast
  with assms show ?thesis
    by (auto simp: indexed_def nth_list_update)
qed

lemma indexed_push: "indexed es m \<Longrightarrow> ack_of e = None \<Longrightarrow> indexed (es @ [e]) m"
  by (auto simp: indexed_def nth_append)

lemma indexed_map: "indexed es m \<Longrightarrow> (\<And>e. ack_of (f e) = ack_of e) \<Longrightarrow> indexed (map f es) m"
  by (auto simp: indexed_def)

lemma distinct_map_filter_iff:
  "distinct (List.map_filter f xs) \<longleftrightarrow>
     (\<forall>i<length xs. \<forall>j<length xs. \<forall>a. f (xs ! i) = Some a \<longrightarrow> f (xs ! j) = Some a \<longrightarrow> i = j)"
proof (induction xs)
  case (Cons x xs)
  have mem: "a \<in> set (List.map_filter f xs) \<longleftrightarrow> (\<exists>i<length xs. f (xs ! i) = Some a)" for a
    by (metis in_map_filter in_set_conv_nth)
  show ?case
    by (cases "f x") (auto simp: map_filter_simps Cons.IH mem All_less_Suc2)
qed (simp add: map_filter_simps)

abbreviation acks :: "entry list \<Rightarrow> string list" where
  "acks es \<equiv> List.map_filter ack_of es"

lemma indexed_distinct: "indexed es m \<Longrightarrow> distinct (acks es)"
  unfolding distinct_map_filter_iff by (metis indexed_get option.inject)

lemma index_entries_Cons:
  "index_entries i (e # es) m =
     index_entries (Suc i) es (case ack_of e of Some a \<Rightarrow> bm_insert a i m | None \<Rightarrow> m)"
  by (simp add: ack_of_def split: delivery.split)

lemma index_entries_wf: "bm_wf m \<Longrightarrow> bm_wf (index_entries i es m)"
  by (induction es arbitrary: i m) (auto split: delivery.split)

lemma index_entries_get:
  assumes "distinct (acks es)"
  shows "bm_get (index_entries i es m) a =
    (case position (\<lambda>e. ack_of e = Some a) es of Some k \<Rightarrow> Some (i + k) | None \<Rightarrow> bm_get m a)"
  using assms
proof (induction es arbitrary: i m)
  case (Cons e es)
  have no: "position (\<lambda>e. ack_of e = Some b) es = None" if "ack_of e = Some b" for b
    using Cons.prems that by (auto simp: position_None_iff map_filter_simps in_map_filter)
  from Cons show ?case
    by (cases "ack_of e")
      (auto simp: index_entries_Cons map_filter_simps no simp del: index_entries.simps split: option.split)
qed simp

lemma position_ack_iff:
  assumes "distinct (acks es)"
  shows "position (\<lambda>e. ack_of e = Some a) es = Some i \<longleftrightarrow> i < length es \<and> ack_of (es ! i) = Some a"
proof
  assume i: "i < length es \<and> ack_of (es ! i) = Some a"
  then have "position (\<lambda>e. ack_of e = Some a) es \<noteq> None"
    unfolding position_None_iff by (meson nth_mem)
  then obtain k where k: "position (\<lambda>e. ack_of e = Some a) es = Some k" by blast
  with position_SomeD [OF k] i assms have "k = i"
    unfolding distinct_map_filter_iff by blast
  with k show "position (\<lambda>e. ack_of e = Some a) es = Some i" by simp
qed (auto dest: position_SomeD)

lemma indexed_rebuild:
  assumes "distinct (acks es)"
  shows "indexed es (index_entries 0 es [])"
proof -
  have "bm_get (index_entries 0 es []) a = position (\<lambda>e. ack_of e = Some a) es" for a
    by (simp add: index_entries_get [OF assms] split: option.split)
  then show ?thesis
    by (simp add: indexed_def index_entries_wf position_ack_iff [OF assms])
qed

lemma indexed_unique:
  assumes "indexed es m" and "indexed es n"
  shows "m = n"
proof (rule map_of_eqI)
  show "bm_get m = bm_get n"
  proof
    fix a
    have "bm_get m a = Some i \<longleftrightarrow> bm_get n a = Some i" for i
      using assms unfolding indexed_def by metis
    then show "bm_get m a = bm_get n a"
      by (cases "bm_get n a") (auto intro: option.expand simp del: map_of_eq_None_iff)
  qed
qed (use assms in \<open>simp_all add: indexed_def\<close>)

lemma acks_filter_unacked: "acks (filter (\<lambda>e. en_state e \<noteq> Acked) es) = acks es"
  by (induction es) (auto simp: map_filter_simps split: option.split)

section \<open>The invariant\<close>

abbreviation is_acked :: "entry \<Rightarrow> bool" where
  "is_acked e \<equiv> en_state e = Acked"

definition log_bytes :: "entry list \<Rightarrow> nat" where
  "log_bytes es = sum_list (map entry_bytes es)"

definition sub_inv :: "subscription_state \<Rightarrow> bool" where
  "sub_inv s \<longleftrightarrow>
     length (ss_entries s) \<le> max_retained_per_sub
     \<and> log_bytes (ss_entries s) \<le> max_retained_bytes_per_sub
     \<and> ss_retained_bytes s = log_bytes (ss_entries s)
     \<and> ss_first_unacked s = length (takeWhile is_acked (ss_entries s))
     \<and> indexed (ss_entries s) (ss_outstanding s)"

lemma sub_invI:
  assumes "length (ss_entries s) \<le> max_retained_per_sub"
    and "log_bytes (ss_entries s) \<le> max_retained_bytes_per_sub"
    and "ss_retained_bytes s = log_bytes (ss_entries s)"
    and "ss_first_unacked s = length (takeWhile is_acked (ss_entries s))"
    and "indexed (ss_entries s) (ss_outstanding s)"
  shows "sub_inv s"
  using assms by (simp add: sub_inv_def)

lemma sub_inv_facts:
  assumes "sub_inv s"
  shows "length (ss_entries s) \<le> max_retained_per_sub"
    and "log_bytes (ss_entries s) \<le> max_retained_bytes_per_sub"
    and "ss_retained_bytes s = log_bytes (ss_entries s)"
    and "ss_first_unacked s = length (takeWhile is_acked (ss_entries s))"
    and "indexed (ss_entries s) (ss_outstanding s)"
  using assms by (simp_all add: sub_inv_def)

lemma sub_inv_acks: "sub_inv s \<Longrightarrow> distinct (acks (ss_entries s))"
  by (blast intro: indexed_distinct sub_inv_facts(5))

lemma bounds_64: "max_retained_per_sub < 2 ^ 64" "max_retained_bytes_per_sub < 2 ^ 64"
  by (simp_all add: max_retained_per_sub_def max_retained_bytes_per_sub_def)

lemma sum_usize_id: "sum_list ns < 2 ^ 64 \<Longrightarrow> sum_usize ns = sum_list ns"
  by (simp add: sum_usize_def)

lemma log_bytes_usize:
  "log_bytes es \<le> max_retained_bytes_per_sub \<Longrightarrow> sum_usize (map entry_bytes es) = log_bytes es"
  using bounds_64 by (simp add: log_bytes_def sum_usize_id)

lemma position_takeWhile:
  "(case position (\<lambda>x. \<not> P x) xs of Some i \<Rightarrow> i | None \<Rightarrow> length xs) = length (takeWhile P xs)"
  by (induction xs) (auto split: option.split)

lemma rebuild_inv:
  assumes "length (ss_entries s) \<le> max_retained_per_sub"
    and "log_bytes (ss_entries s) \<le> max_retained_bytes_per_sub"
    and "distinct (acks (ss_entries s))"
  shows "sub_inv (rebuild_indexes s)"
  using assms position_takeWhile [where P = is_acked and xs = "ss_entries s"]
  by (intro sub_invI) (simp_all add: rebuild_indexes_def indexed_rebuild log_bytes_usize)

lemma sub_inv_rebuild:
  assumes "sub_inv s"
  shows "rebuild_indexes s = s"
proof -
  have "index_entries 0 (ss_entries s) [] = ss_outstanding s"
    using sub_inv_facts(5) [OF assms] indexed_rebuild indexed_distinct indexed_unique by blast
  then show ?thesis
    using position_takeWhile [where P = is_acked and xs = "ss_entries s"] sub_inv_facts [OF assms]
    by (simp add: rebuild_indexes_def log_bytes_usize)
qed

lemma sub_inv_new: "sub_inv (sub_new c)"
  by (simp add: sub_inv_def sub_new_def log_bytes_def)


section \<open>Operations keep the invariant\<close>

lemma set_state_simps [simp]:
  "ss_config (set_state i d s) = ss_config s"
  "ss_outstanding (set_state i d s) = ss_outstanding s"
  "ss_first_unacked (set_state i d s) = ss_first_unacked s"
  "ss_retained_bytes (set_state i d s) = ss_retained_bytes s"
  "ss_push_minimum (set_state i d s) = ss_push_minimum s"
  "ss_entries (set_state i d s) = (ss_entries s)[i := (ss_entries s ! i)\<lparr>en_state := d\<rparr>]"
  by (simp_all add: set_state_def)

lemma log_bytes_map: "(\<And>e. en_stored (f e) = en_stored e) \<Longrightarrow> log_bytes (map f es) = log_bytes es"
  by (simp add: log_bytes_def comp_def)

lemma map_update_same: "f e = f (es ! i) \<Longrightarrow> map f (es[i := e]) = map f es"
  by (cases "i < length es") (auto intro!: nth_equalityI simp: nth_list_update)

lemma log_bytes_update: "en_stored e = en_stored (es ! i) \<Longrightarrow> log_bytes (es[i := e]) = log_bytes es"
  by (simp add: log_bytes_def map_update_same)

lemma takeWhile_update:
  "P x \<longleftrightarrow> P (xs ! i) \<Longrightarrow> length (takeWhile P (xs[i := x])) = length (takeWhile P xs)"
  by (induction xs arbitrary: i) (auto split: nat.split)

lemma takeWhile_map_same:
  "(\<And>x. P (f x) \<longleftrightarrow> P x) \<Longrightarrow> length (takeWhile P (map f xs)) = length (takeWhile P xs)"
  by (induction xs) auto

lemma takeWhile_push: "length (takeWhile P (xs @ [x])) = (if \<forall>y\<in>set xs. P y then length xs + (if P x then 1 else 0) else length (takeWhile P xs))"
  by (induction xs) auto

text \<open>An operation that changes the state of one entry, or of each entry, but no acknowledgement.\<close>

lemma sub_inv_update:
  assumes "sub_inv s" and "indexed ((ss_entries s)[i := e]) m"
    and "en_stored e = en_stored (ss_entries s ! i)" and "is_acked e \<longleftrightarrow> is_acked (ss_entries s ! i)"
  shows "sub_inv (s\<lparr>ss_entries := (ss_entries s)[i := e], ss_outstanding := m\<rparr>)"
    and "sub_inv (s\<lparr>ss_outstanding := m, ss_entries := (ss_entries s)[i := e]\<rparr>)"
  using assms by (simp_all add: sub_inv_def log_bytes_update takeWhile_update [of is_acked])

lemma sub_inv_map:
  assumes "sub_inv s" and "\<And>e. ack_of (f e) = ack_of e" "\<And>e. en_stored (f e) = en_stored e"
    and "\<And>e. is_acked (f e) \<longleftrightarrow> is_acked e"
  shows "sub_inv (s\<lparr>ss_entries := map f (ss_entries s)\<rparr>)"
  using assms by (simp add: sub_inv_def log_bytes_map takeWhile_map_same [of is_acked] indexed_map)

lemma takeWhile_acked_advance:
  assumes "k \<le> length (takeWhile P xs)"
  shows "k + length (takeWhile P (drop k xs)) = length (takeWhile P xs)"
proof -
  have "take k xs = take k (takeWhile P xs)"
    using assms by (metis takeWhile_eq_take min.absorb1 take_take)
  then have "\<forall>x\<in>set (take k xs). P x" by (metis in_set_takeD set_takeWhileD)
  then have "takeWhile P xs = take k xs @ takeWhile P (drop k xs)"
    by (metis append_take_drop_id takeWhile_append2)
  moreover have "length (take k xs) = k"
    using assms length_takeWhile_le [of P xs] by simp
  ultimately show ?thesis by (metis length_append)
qed

text \<open>An acknowledgement moves the first unacknowledged entry only forward.\<close>

lemma takeWhile_ack: "P x \<Longrightarrow> length (takeWhile P xs) \<le> length (takeWhile P (xs[i := x]))"
  by (induction xs arbitrary: i) (auto split: nat.split)

definition sub_pre :: "subscription_state \<Rightarrow> bool" where
  "sub_pre s \<longleftrightarrow>
     length (ss_entries s) \<le> max_retained_per_sub
     \<and> log_bytes (ss_entries s) \<le> max_retained_bytes_per_sub
     \<and> ss_retained_bytes s = log_bytes (ss_entries s)
     \<and> ss_first_unacked s \<le> length (takeWhile is_acked (ss_entries s))
     \<and> indexed (ss_entries s) (ss_outstanding s)"

lemma sub_inv_pre: "sub_inv s \<Longrightarrow> sub_pre s"
  by (simp add: sub_inv_def sub_pre_def)

lemma advance_inv: "sub_pre s \<Longrightarrow> sub_inv (advance_first_unacked s)"
  by (simp add: sub_inv_def sub_pre_def advance_first_unacked_def takeWhile_acked_advance)

lemma sub_pre_ack:
  assumes "sub_pre s" and "indexed ((ss_entries s)[i := (ss_entries s ! i)\<lparr>en_state := Acked\<rparr>]) m"
  shows "sub_pre (set_state i Acked (s\<lparr>ss_outstanding := m\<rparr>))"
  using assms takeWhile_ack [of is_acked "(ss_entries s ! i)\<lparr>en_state := Acked\<rparr>" "ss_entries s" i]
  by (auto simp: sub_pre_def log_bytes_update intro: order.trans)

lemma acknowledge_one_pre: "sub_pre s \<Longrightarrow> sub_pre (snd (acknowledge_one (n, s) a))"
  by (auto simp: acknowledge_one_def split: option.split
      intro!: sub_pre_ack indexed_release simp: sub_pre_def [of s])

lemma acknowledge_inv: "sub_inv s \<Longrightarrow> sub_inv (snd (acknowledge ids s))"
proof -
  have "sub_pre s \<Longrightarrow> sub_pre (snd (foldl acknowledge_one (n, s) ids))" for n s
  proof (induction ids arbitrary: n s)
    case (Cons a ids)
    then show ?case
      using acknowledge_one_pre [OF Cons.prems, of n a] by (cases "acknowledge_one (n, s) a") simp
  qed simp
  then show "sub_inv s \<Longrightarrow> sub_inv (snd (acknowledge ids s))"
    by (auto simp: acknowledge_def split: prod.split dest!: sub_inv_pre intro!: advance_inv)
      (metis snd_conv)
qed

lemma complete_forward_inv:
  assumes "sub_inv s"
  shows "sub_inv (snd (complete_forward m s))"
proof -
  have "sub_pre (set_state i Acked s)" if "ack_of (ss_entries s ! i) = None" for i
    using assms that sub_pre_ack [of s i "ss_outstanding s"]
    by (simp add: sub_inv_pre sub_inv_facts indexed_keep)
  with assms show ?thesis
    by (auto simp: complete_forward_def split: option.split dest!: position_SomeD intro!: advance_inv)
qed

lemma requeue_inv:
  assumes "sub_inv s" and "bm_get (ss_outstanding s) a = Some i"
  shows "sub_inv (set_state i (Available t) (s\<lparr>ss_outstanding := bm_remove a (ss_outstanding s)\<rparr>))"
proof -
  have "ack_of (ss_entries s ! i) = Some a"
    using assms indexedD sub_inv_facts(5) by blast
  moreover have "indexed ((ss_entries s)[i := (ss_entries s ! i)\<lparr>en_state := Available t\<rparr>])
      (bm_remove a (ss_outstanding s))"
    using assms by (intro indexed_release) (auto simp: sub_inv_facts)
  ultimately show ?thesis
    using assms(1) by (auto simp: set_state_def ack_of_Some intro: sub_inv_update)
qed

lemma expire_inv: "sub_inv s \<Longrightarrow> sub_inv (expire_deadlines now s)"
proof -
  have "sub_inv s \<Longrightarrow> sub_inv (foldl (expire_one now) s ids)" for ids s
    by (induction ids arbitrary: s) (auto simp: expire_one_def split: option.split intro: requeue_inv)
  then show "sub_inv s \<Longrightarrow> sub_inv (expire_deadlines now s)"
    by (simp add: expire_deadlines_def)
qed

lemma set_state_inv:
  assumes "sub_inv s" and "ack_of ((ss_entries s ! i)\<lparr>en_state := d\<rparr>) = ack_of (ss_entries s ! i)"
    and "d = Acked \<longleftrightarrow> is_acked (ss_entries s ! i)"
  shows "sub_inv (set_state i d s)"
  using sub_inv_update(1) [of s i "(ss_entries s ! i)\<lparr>en_state := d\<rparr>" "ss_outstanding s"] assms
  by (simp add: set_state_def indexed_keep sub_inv_facts)

lemma modify_inv: "sub_inv s \<Longrightarrow> sub_inv (modify_ack_deadline a seconds now s)"
  by (auto simp: modify_ack_deadline_def split: option.split delivery.split
      intro!: requeue_inv set_state_inv [where s = s])

lemma resume_inv: "sub_inv s \<Longrightarrow> sub_inv (resume_forward m now s)"
  unfolding resume_forward_def by (rule sub_inv_map) auto

lemma revoke_inv: "sub_inv s \<Longrightarrow> sub_inv (revoke_forwards now s)"
  unfolding revoke_forwards_def by (rule sub_inv_map) auto

lemma config_inv: "sub_inv (s\<lparr>ss_config := c\<rparr>) = sub_inv s" "sub_inv (s\<lparr>ss_push_minimum := t\<rparr>) = sub_inv s"
  by (simp_all add: sub_inv_def)


lemma log_bytes_filter_le: "log_bytes (filter P es) \<le> log_bytes es"
  by (induction es) (auto simp: log_bytes_def)

lemma reclaim_inv: "sub_inv s \<Longrightarrow> sub_inv (reclaim_acked_entries s)"
  unfolding reclaim_acked_entries_def
  by (rule rebuild_inv)
    (auto simp: acks_filter_unacked sub_inv_facts sub_inv_acks
      intro: order.trans [OF length_filter_le] order.trans [OF log_bytes_filter_le])

lemma exceeds_bytes_iff:
  "exceeds_bytes retained bytes \<longleftrightarrow> retained + bytes > max_retained_bytes_per_sub"
  using bounds_64 by (auto simp: exceeds_bytes_def split: option.split)

lemma push_inv:
  assumes "sub_inv s" and "length (ss_entries s) < max_retained_per_sub"
    and "ss_retained_bytes s + entry_bytes e \<le> max_retained_bytes_per_sub" and "en_state e = Available t"
  shows "sub_inv (s\<lparr>ss_entries := ss_entries s @ [e], ss_retained_bytes := ss_retained_bytes s + entry_bytes e\<rparr>)"
proof (rule sub_invI)
  show "ss_first_unacked (s\<lparr>ss_entries := ss_entries s @ [e], ss_retained_bytes := ss_retained_bytes s + entry_bytes e\<rparr>)
      = length (takeWhile is_acked (ss_entries (s\<lparr>ss_entries := ss_entries s @ [e], ss_retained_bytes := ss_retained_bytes s + entry_bytes e\<rparr>)))"
    using assms(1,4) by (simp add: sub_inv_facts takeWhile_push takeWhile_eq_all_conv [THEN iffD2])
qed (use assms in \<open>auto simp: sub_inv_def log_bytes_def intro: indexed_push\<close>)

lemma enqueue_inv: "sub_inv s \<Longrightarrow> sub_inv (snd (sub_enqueue m now s))"
  using push_inv [of _ "\<lparr>en_stored = m, en_state = Available now, en_attempt = 0\<rparr>" now]
  by (auto simp: sub_enqueue_def Let_def exceeds_bytes_iff not_less reclaim_inv)

lemma seek_time_inv: "sub_inv s \<Longrightarrow> sub_inv (snd (seek_to_time t now s))"
proof -
  assume inv: "sub_inv s"
  let ?f = "\<lambda>e. if sm_publish_time (ref_stored (en_stored e)) < t then e\<lparr>en_state := Acked\<rparr>
              else e\<lparr>en_state := Available now, en_attempt := 0\<rparr>"
  have "ack_of (?f e) = None" for e by (simp add: ack_of_def)
  then have "acks (map ?f es) = []" for es
    by (induction es) (simp_all add: map_filter_simps)
  moreover have "log_bytes (map ?f (ss_entries s)) = log_bytes (ss_entries s)"
    by (rule log_bytes_map) simp
  ultimately show ?thesis
    using inv sub_inv_facts [OF inv] by (auto simp: seek_to_time_def intro!: rebuild_inv)
qed

section \<open>Ack ids\<close>

text \<open>The first \<open>n\<close> ids a source gives, and the source after them.\<close>

fun draws :: "('g \<Rightarrow> string \<times> 'g) \<Rightarrow> 'g \<Rightarrow> nat \<Rightarrow> string list" where
  "draws nx g 0 = []"
| "draws nx g (Suc n) = fst (nx g) # draws nx (snd (nx g)) n"

fun after_draws :: "('g \<Rightarrow> string \<times> 'g) \<Rightarrow> 'g \<Rightarrow> nat \<Rightarrow> 'g" where
  "after_draws nx g 0 = g"
| "after_draws nx g (Suc n) = after_draws nx (snd (nx g)) n"

lemma draws_add: "draws nx g (m + n) = draws nx g m @ draws nx (after_draws nx g m) n"
  by (induction m arbitrary: g) auto

lemma after_draws_add: "after_draws nx g (m + n) = after_draws nx (after_draws nx g m) n"
  by (induction m arbitrary: g) auto

lemma length_draws [simp]: "length (draws nx g n) = n"
  by (induction n arbitrary: g) auto


section \<open>The selection loop\<close>

lemma select_from_rule:
  assumes "I i sel" and "i \<le> length es"
    and step: "\<And>j sel. I j sel \<Longrightarrow> i \<le> j \<Longrightarrow> j < length es \<Longrightarrow> length (sel_selected sel) < pp_max p
        \<Longrightarrow> I (Suc j) (select_entry p j (es ! j) sel)"
  obtains j where "i \<le> j" "j \<le> length es" "I j (select_from p i (drop i es) sel)"
    "j = length es \<or> pp_max p \<le> length (sel_selected (select_from p i (drop i es) sel))"
proof -
  have "\<exists>j\<ge>i. j \<le> length es \<and> I j (select_from p i (drop i es) sel)
      \<and> (j = length es \<or> pp_max p \<le> length (sel_selected (select_from p i (drop i es) sel)))"
    using assms
  proof (induction "length es - i" arbitrary: i sel)
    case 0
    then show ?case by auto
  next
    case (Suc n)
    then have i: "i < length es" by simp
    show ?case
    proof (cases "length (sel_selected sel) < pp_max p")
      case True
      let ?sel = "select_entry p i (es ! i) sel"
      have n: "n = length es - Suc i" using Suc.hyps(2) by simp
      have "I (Suc i) ?sel" using Suc.prems True i by simp
      moreover have "Suc i \<le> length es" using i by simp
      ultimately obtain j where "j \<ge> Suc i" "j \<le> length es" "I j (select_from p (Suc i) (drop (Suc i) es) ?sel)"
        "j = length es \<or> pp_max p \<le> length (sel_selected (select_from p (Suc i) (drop (Suc i) es) ?sel))"
        using Suc.hyps(1) [OF n] Suc.prems(3) Suc_leD by blast
      with True i show ?thesis
        by (intro exI [of _ j]) (simp add: Cons_nth_drop_Suc [OF i, symmetric])
    next
      case False
      with Suc.prems(1) i show ?thesis
        by (auto simp: Cons_nth_drop_Suc [OF i, symmetric] intro!: exI [of _ i])
    qed
  qed
  with that show thesis by blast
qed

lemma plan_pull_rule:
  assumes "sub_inv s" and "I (ss_first_unacked s) empty_selection"
    and "\<And>j sel. I j sel \<Longrightarrow> ss_first_unacked s \<le> j \<Longrightarrow> j < length (ss_entries s) \<Longrightarrow> length (sel_selected sel) < pp_max p
        \<Longrightarrow> I (Suc j) (select_entry p j (ss_entries s ! j) sel)"
  obtains j where "ss_first_unacked s \<le> j" "j \<le> length (ss_entries s)" "I j (plan_pull p s)"
    "j = length (ss_entries s) \<or> pp_max p \<le> length (sel_selected (plan_pull p s))"
proof -
  have "ss_first_unacked s \<le> length (ss_entries s)"
    using assms(1) by (simp add: sub_inv_facts length_takeWhile_le)
  from select_from_rule [where I = I, OF assms(2) this assms(3)] that show thesis
    unfolding plan_pull_def by blast
qed

text \<open>What one turn of the loop can do to the two lists of picks.\<close>

lemma select_entry_cases:
  obtains (none) "sel_selected (select_entry p i e sel) = sel_selected sel"
      "sel_forwarded (select_entry p i e sel) = sel_forwarded sel"
  | (selected) "sel_selected (select_entry p i e sel) = sel_selected sel @ [i]"
      "sel_forwarded (select_entry p i e sel) = sel_forwarded sel"
      "is_ready (pp_now p) e" "\<not> exhausted (pp_max_attempts p) e"
  | (forwarded) "sel_selected (select_entry p i e sel) = sel_selected sel"
      "sel_forwarded (select_entry p i e sel) = sel_forwarded sel @ [i]"
      "is_ready (pp_now p) e" "exhausted (pp_max_attempts p) e"
proof -
  let ?r = "select_entry p i e sel"
  have "sel_selected ?r = sel_selected sel \<and> sel_forwarded ?r = sel_forwarded sel
    \<or> sel_selected ?r = sel_selected sel @ [i] \<and> sel_forwarded ?r = sel_forwarded sel
      \<and> is_ready (pp_now p) e \<and> \<not> exhausted (pp_max_attempts p) e
    \<or> sel_selected ?r = sel_selected sel \<and> sel_forwarded ?r = sel_forwarded sel @ [i]
      \<and> is_ready (pp_now p) e \<and> exhausted (pp_max_attempts p) e"
    by (simp add: select_entry_def Let_def)
  with none selected forwarded show thesis by blast
qed

definition picks_ok :: "pull_plan \<Rightarrow> entry list \<Rightarrow> nat \<Rightarrow> selection \<Rightarrow> bool" where
  "picks_ok p es i sel \<longleftrightarrow>
     sorted_wrt (<) (sel_selected sel) \<and> sorted_wrt (<) (sel_forwarded sel)
     \<and> length (sel_selected sel) \<le> pp_max p
     \<and> (\<forall>k\<in>set (sel_selected sel). k < i \<and> is_ready (pp_now p) (es ! k) \<and> \<not> exhausted (pp_max_attempts p) (es ! k))
     \<and> (\<forall>k\<in>set (sel_forwarded sel). k < i \<and> is_ready (pp_now p) (es ! k) \<and> exhausted (pp_max_attempts p) (es ! k))"

lemma picks_ok_step:
  assumes "picks_ok p es j sel" and "length (sel_selected sel) < pp_max p"
  shows "picks_ok p es (Suc j) (select_entry p j (es ! j) sel)"
  using assms
  by (cases rule: select_entry_cases [of p j "es ! j" sel])
    (auto simp: picks_ok_def sorted_wrt_append less_Suc_eq)

lemma plan_pull_picks:
  assumes "sub_inv s"
  shows "picks_ok p (ss_entries s) (length (ss_entries s)) (plan_pull p s)"
proof -
  have "picks_ok p (ss_entries s) (ss_first_unacked s) empty_selection"
    by (simp add: picks_ok_def empty_selection_def)
  from plan_pull_rule [where I = "picks_ok p (ss_entries s)", OF assms this picks_ok_step]
  obtain j where "j \<le> length (ss_entries s)" "picks_ok p (ss_entries s) j (plan_pull p s)" by blast
  then show ?thesis by (auto simp: picks_ok_def)
qed

lemma is_ready_facts: "is_ready now e \<Longrightarrow> ack_of e = None \<and> \<not> is_acked e \<and> en_state e \<noteq> ForwardPending"
  by (auto simp: is_ready_def split: delivery.splits)

section \<open>Committing a pull\<close>

text \<open>
  The entries a commit works on: in range, with no lease, not acknowledged. Each commit changes
  these entries only and keeps the messages of all.
\<close>

definition idle_at :: "subscription_state \<Rightarrow> nat list \<Rightarrow> bool" where
  "idle_at s is \<longleftrightarrow>
     (\<forall>i\<in>set is. i < length (ss_entries s) \<and> ack_of (ss_entries s ! i) = None \<and> \<not> is_acked (ss_entries s ! i))"

lemma commit_forwards_spec:
  assumes "sub_inv s" and "idle_at s is" and "commit_forwards is s = (ms, s')"
  shows "sub_inv s' \<and> ms = map (\<lambda>i. en_stored (ss_entries s ! i)) is
    \<and> s' = s\<lparr>ss_entries := ss_entries s'\<rparr> \<and> length (ss_entries s') = length (ss_entries s)
    \<and> (\<forall>k<length (ss_entries s). ss_entries s' ! k =
        (if k \<in> set is then (ss_entries s ! k)\<lparr>en_state := ForwardPending\<rparr> else ss_entries s ! k))"
  using assms
proof (induction "is" arbitrary: s ms)
  case (Cons i "is")
  let ?s = "set_state i ForwardPending s"
  obtain ns where ns: "commit_forwards is ?s = (ns, s')" "ms = en_stored (ss_entries s ! i) # ns"
    using Cons.prems(3) by (auto split: prod.splits)
  have i: "i < length (ss_entries s)" "sub_inv ?s"
    using Cons.prems(1,2) by (auto simp: idle_at_def intro!: set_state_inv)
  have "idle_at ?s is"
    using Cons.prems(2) by (auto simp: idle_at_def nth_list_update)
  from Cons.IH [OF i(2) this ns(1)] have "ss_entries s' ! k =
      (if k \<in> set is then (ss_entries ?s ! k)\<lparr>en_state := ForwardPending\<rparr> else ss_entries ?s ! k)"
    if "k < length (ss_entries s)" for k using that by simp
  with Cons.IH [OF i(2) \<open>idle_at ?s is\<close> ns(1)] i(1) ns(2) show ?case
    by (auto simp: nth_list_update set_state_def)
qed simp

definition leased :: "string \<Rightarrow> logical_instant \<Rightarrow> entry \<Rightarrow> entry" where
  "leased a deadline e = e\<lparr>en_attempt := (en_attempt e + 1) mod 2 ^ 32, en_state := Outstanding a deadline\<rparr>"

lemma leased_simps [simp]:
  "en_stored (leased a d e) = en_stored e" "en_state (leased a d e) = Outstanding a d"
  "ack_of (leased a d e) = Some a"
  by (simp_all add: leased_def)

lemma lease_entry_eq:
  "lease_entry i a d s =
     (\<lparr>rm_ack_id = a, rm_message = en_stored (ss_entries s ! i),
       rm_delivery_attempt = (en_attempt (ss_entries s ! i) + 1) mod 2 ^ 32\<rparr>,
      s\<lparr>ss_entries := (ss_entries s)[i := leased a d (ss_entries s ! i)],
        ss_outstanding := bm_insert a i (ss_outstanding s)\<rparr>)"
  by (simp add: lease_entry_def leased_def Let_def)

lemma lease_entry_inv:
  assumes "sub_inv s" "i < length (ss_entries s)" "ack_of (ss_entries s ! i) = None" "\<not> is_acked (ss_entries s ! i)"
    and "bm_get (ss_outstanding s) a = None"
  shows "sub_inv (snd (lease_entry i a d s))"
  using assms by (auto simp: lease_entry_eq sub_inv_facts intro!: sub_inv_update indexed_lease)

definition received_at :: "entry list \<Rightarrow> nat \<Rightarrow> string \<Rightarrow> received_message" where
  "received_at es i a = \<lparr>rm_ack_id = a, rm_message = en_stored (es ! i),
     rm_delivery_attempt = (en_attempt (es ! i) + 1) mod 2 ^ 32\<rparr>"

lemma commit_leases_spec:
  assumes "sub_inv s" "idle_at s is" "distinct is" "distinct (draws nx g (length is))"
    and "\<forall>a\<in>set (draws nx g (length is)). bm_get (ss_outstanding s) a = None"
    and "commit_leases nx d is (g, s) = (rs, g', s')"
  shows "sub_inv s' \<and> g' = after_draws nx g (length is)
    \<and> rs = map2 (received_at (ss_entries s)) is (draws nx g (length is))
    \<and> s' = s\<lparr>ss_entries := ss_entries s', ss_outstanding := ss_outstanding s'\<rparr>
    \<and> length (ss_entries s') = length (ss_entries s)
    \<and> (\<forall>k<length (ss_entries s). k \<notin> set is \<longrightarrow> ss_entries s' ! k = ss_entries s ! k)
    \<and> (\<forall>n<length is. ss_entries s' ! (is ! n) = leased (draws nx g (length is) ! n) d (ss_entries s ! (is ! n)))"
  using assms
proof (induction "is" arbitrary: g s rs)
  case (Cons i "is")
  obtain a h where ah: "nx g = (a, h)" by fastforce
  let ?s = "snd (lease_entry i a d s)"
  obtain ts where ts: "commit_leases nx d is (h, ?s) = (ts, g', s')" "rs = received_at (ss_entries s) i a # ts"
    using Cons.prems(6) ah by (auto simp: lease_entry_eq received_at_def split: prod.splits)
  have i: "i < length (ss_entries s)" "sub_inv ?s"
    using Cons.prems(1,2,5) ah by (auto simp: idle_at_def intro!: lease_entry_inv)
  have idle: "idle_at ?s is"
    using Cons.prems(2,3) by (auto simp: idle_at_def lease_entry_eq nth_list_update)
  have fresh: "\<forall>b\<in>set (draws nx h (length is)). bm_get (ss_outstanding ?s) b = None"
    using Cons.prems(4,5) ah by (auto simp: lease_entry_eq)
  have same: "ss_entries ?s ! k = ss_entries s ! k" if "k \<in> set is" for k
    using that Cons.prems(3) by (cases "k = i") (auto simp: lease_entry_eq)
  then have "map2 (received_at (ss_entries ?s)) is bs = map2 (received_at (ss_entries s)) is bs" for bs
    by (intro map_cong) (auto simp: received_at_def dest: set_zip_leftD)
  moreover note Cons.IH [OF i(2) idle _ _ fresh ts(1)]
  ultimately show ?case
    using Cons.prems(3,4) ah ts(2) i(1) same
    by (auto simp: All_less_Suc2 lease_entry_eq nth_list_update)
qed simp


lemma commit_leases_ids:
  "map rm_ack_id (fst (commit_leases nx d is (g, s))) = draws nx g (length is)"
  by (induction nx d "is" "(g, s)" arbitrary: g s rule: commit_leases.induct)
    (auto simp: lease_entry_def Let_def split: prod.split)

lemma advance_id: "sub_inv s \<Longrightarrow> advance_first_unacked s = s"
  by (simp add: advance_first_unacked_def takeWhile_acked_advance sub_inv_facts)

text \<open>
  A pull is refused (nothing requested, or the admission said no), or it hands out the entries
  its plan selected and reserves the ones it forwards.
\<close>

definition pull_committed ::
    "subscription_state \<Rightarrow> selection \<Rightarrow> string list \<Rightarrow> logical_instant \<Rightarrow> pull_outcome \<Rightarrow> subscription_state \<Rightarrow> bool" where
  "pull_committed s sel ids deadline out s' \<longleftrightarrow>
     sub_inv s'
     \<and> po_received out = map2 (received_at (ss_entries s)) (sel_selected sel) ids
     \<and> po_dead_lettered out = map (\<lambda>i. en_stored (ss_entries s ! i)) (sel_forwarded sel)
     \<and> s' = s\<lparr>ss_entries := ss_entries s', ss_outstanding := ss_outstanding s'\<rparr>
     \<and> length (ss_entries s') = length (ss_entries s)
     \<and> (\<forall>k<length (ss_entries s). k \<notin> set (sel_selected sel) \<longrightarrow> ss_entries s' ! k =
         (if k \<in> set (sel_forwarded sel) then (ss_entries s ! k)\<lparr>en_state := ForwardPending\<rparr> else ss_entries s ! k))
     \<and> (\<forall>n<length (sel_selected sel). ss_entries s' ! (sel_selected sel ! n) =
         leased (ids ! n) deadline (ss_entries s ! (sel_selected sel ! n)))"

lemma plan_pull_idle:
  assumes "sub_inv s" and "sel = plan_pull p s"
  shows "idle_at s (sel_selected sel)" "idle_at s (sel_forwarded sel)"
    "distinct (sel_selected sel)" "set (sel_selected sel) \<inter> set (sel_forwarded sel) = {}"
  using plan_pull_picks [OF assms(1), of p] assms(2)
  by (auto simp: picks_ok_def idle_at_def sorted_wrt_less_distinct dest: is_ready_facts)

lemma commit_pull:
  assumes inv: "sub_inv s" and sel: "sel = plan_pull p s"
    and fwd: "commit_forwards (sel_forwarded sel) s = (dl, s1)"
    and lea: "commit_leases nx d (sel_selected sel) (g, s1) = (rs, g', s2)"
    and ids: "ids = draws nx g (length (sel_selected sel))" "distinct ids"
    and fresh: "\<forall>a\<in>set ids. bm_get (ss_outstanding s) a = None"
  shows "pull_committed s sel ids d \<lparr>po_received = rs, po_dead_lettered = dl\<rparr> s2"
    and "g' = after_draws nx g (length ids)"
proof -
  note idle = plan_pull_idle [OF inv sel]
  from commit_forwards_spec [OF inv idle(2) fwd]
  have f: "sub_inv s1" "dl = map (\<lambda>i. en_stored (ss_entries s ! i)) (sel_forwarded sel)"
    "s1 = s\<lparr>ss_entries := ss_entries s1\<rparr>" "length (ss_entries s1) = length (ss_entries s)"
    "\<And>k. k < length (ss_entries s) \<Longrightarrow> ss_entries s1 ! k =
      (if k \<in> set (sel_forwarded sel) then (ss_entries s ! k)\<lparr>en_state := ForwardPending\<rparr> else ss_entries s ! k)"
    by blast+
  have same: "ss_entries s1 ! k = ss_entries s ! k" if "k \<in> set (sel_selected sel)" for k
    using that idle f(5) by (auto simp: idle_at_def)
  have o: "ss_outstanding s1 = ss_outstanding s" by (subst f(3)) simp
  have "idle_at s1 (sel_selected sel)"
    using idle(1) same f(4) by (simp add: idle_at_def)
  from commit_leases_spec [OF f(1) this idle(3) _ _ lea] ids fresh o
  have l: "sub_inv s2" "g' = after_draws nx g (length ids)"
    "rs = map2 (received_at (ss_entries s1)) (sel_selected sel) ids"
    "s2 = s1\<lparr>ss_entries := ss_entries s2, ss_outstanding := ss_outstanding s2\<rparr>"
    "length (ss_entries s2) = length (ss_entries s1)"
    "\<And>k. k < length (ss_entries s1) \<Longrightarrow> k \<notin> set (sel_selected sel) \<Longrightarrow> ss_entries s2 ! k = ss_entries s1 ! k"
    "\<And>n. n < length (sel_selected sel) \<Longrightarrow> ss_entries s2 ! (sel_selected sel ! n) =
       leased (ids ! n) d (ss_entries s1 ! (sel_selected sel ! n))"
    by simp_all
  have "rs = map2 (received_at (ss_entries s)) (sel_selected sel) ids"
    unfolding l(3) by (intro map_cong) (auto simp: received_at_def same dest: set_zip_leftD)
  moreover have "s2 = s\<lparr>ss_entries := ss_entries s2, ss_outstanding := ss_outstanding s2\<rparr>"
    by (subst l(4), subst f(3)) simp
  ultimately show "pull_committed s sel ids d \<lparr>po_received = rs, po_dead_lettered = dl\<rparr> s2"
    and "g' = after_draws nx g (length ids)"
    using f(2,4,5) l(1,2,5,6,7) same by (simp_all add: pull_committed_def)
qed


abbreviation ack_ids_of :: "pull_outcome \<Rightarrow> string list" where
  "ack_ids_of out \<equiv> map rm_ack_id (po_received out)"

definition pull_base :: "bool \<Rightarrow> logical_instant \<Rightarrow> subscription_state \<Rightarrow> subscription_state" where
  "pull_base auth now s = (if auth then s else revoke_forwards now s)"

lemma pull_base_facts:
  "sub_inv s \<Longrightarrow> sub_inv (pull_base auth now s)"
  "ss_outstanding (pull_base auth now s) = ss_outstanding s"
  "ss_config (pull_base auth now s) = ss_config s"
  "length (ss_entries (pull_base auth now s)) = length (ss_entries s)"
  by (simp_all add: pull_base_def revoke_inv, simp_all add: revoke_forwards_def)

lemma pull_eq:
  fixes s0 :: subscription_state and auth :: bool and now :: logical_instant and n :: nat and b :: ordered_pull_batching
  defines "s \<equiv> pull_base auth now s0"
  defines "sel \<equiv> plan_pull (make_plan s n now auth b) s"
  defines "cands \<equiv> map (\<lambda>i. ref_stored (en_stored (ss_entries s ! i))) (sel_selected sel)"
  shows "pull_with_admission n now auth b nx admit g s0 =
    (if n = 0 \<or> cands \<noteq> [] \<and> \<not> admit cands then (\<lparr>po_received = [], po_dead_lettered = []\<rparr>, g, s)
     else let (dl, s) = commit_forwards (sel_forwarded sel) s;
              (rs, g, s) = commit_leases nx (pull_deadline (ss_config s0) now) (sel_selected sel) (g, s)
          in (\<lparr>po_received = rs, po_dead_lettered = dl\<rparr>, g, advance_first_unacked s))"
  using pull_base_facts(3) [of auth now s0]
  by (simp add: pull_with_admission_def pull_base_def [symmetric] Let_def cands_def sel_def s_def)

lemma pull_cases:
  assumes inv: "sub_inv s0" and pull: "pull_with_admission n now auth b nx admit g s0 = (out, g', s')"
    and ids: "distinct (ack_ids_of out)" "\<forall>a\<in>set (ack_ids_of out). bm_get (ss_outstanding s0) a = None"
  obtains (refused) "po_received out = []" "po_dead_lettered out = []" "g' = g" "s' = pull_base auth now s0"
    | (committed) sel where "sel = plan_pull (make_plan (pull_base auth now s0) n now auth b) (pull_base auth now s0)"
      "0 < n" "length (sel_selected sel) = length (ack_ids_of out)" "ack_ids_of out = draws nx g (length (sel_selected sel))"
      "pull_committed (pull_base auth now s0) sel (ack_ids_of out) (pull_deadline (ss_config s0) now) out s'"
      "g' = after_draws nx g (length (sel_selected sel))"
proof -
  define s where "s = pull_base auth now s0"
  define sel where "sel = plan_pull (make_plan s n now auth b) s"
  define cands where "cands = map (\<lambda>i. ref_stored (en_stored (ss_entries s ! i))) (sel_selected sel)"
  note eq = pull_eq [of n now auth b nx admit g s0, folded s_def, folded sel_def, folded cands_def]
  note base = pull_base_facts [where s = s0 and auth = auth and now = now, folded s_def]
  show thesis
  proof (cases "n = 0 \<or> cands \<noteq> [] \<and> \<not> admit cands")
    case True
    then have "out = \<lparr>po_received = [], po_dead_lettered = []\<rparr> \<and> g' = g \<and> s' = s"
      using pull unfolding eq by simp
    then show thesis using refused s_def by simp
  next
    case False
    obtain dl s1 where fwd: "commit_forwards (sel_forwarded sel) s = (dl, s1)" by fastforce
    obtain rs h s2 where lea: "commit_leases nx (pull_deadline (ss_config s0) now) (sel_selected sel) (g, s1) = (rs, h, s2)"
      by (cases "commit_leases nx (pull_deadline (ss_config s0) now) (sel_selected sel) (g, s1)") auto
    have res: "out = \<lparr>po_received = rs, po_dead_lettered = dl\<rparr>" "g' = h" "s' = advance_first_unacked s2"
      using pull False fwd lea unfolding eq by auto
    have d: "ack_ids_of out = draws nx g (length (sel_selected sel))"
      using commit_leases_ids [of nx "pull_deadline (ss_config s0) now" "sel_selected sel" g s1] lea res(1) by simp
    have len: "length (po_received out) = length (sel_selected sel)"
      using arg_cong [OF d, of length] unfolding length_map length_draws .
    note com = commit_pull [OF base(1) [OF inv] sel_def fwd lea d ids(1)]
    have "pull_committed s sel (ack_ids_of out) (pull_deadline (ss_config s0) now) out s2"
      "g' = after_draws nx g (length (sel_selected sel))"
      using com ids(2) base(2) res(1,2) d len by simp_all
    moreover from this(1) have "s' = s2" using res(3) by (simp add: pull_committed_def advance_id)
    ultimately show thesis
      using committed [of sel] False d sel_def s_def by (metis length_draws not_gr0)
  qed
qed

end
