(* ===== verification/Ps_Backlog.thy ===== *)
theory Ps_Backlog
  imports Ps_Delivery Determinism
begin

text \<open>
  A subscription under any sequence of its operations: the indexes stay exact, the backlog of
  unacknowledged messages is a queue that only publication, acknowledgement, completed transfer
  and seek change, keyed messages are handed out in log order, and a message whose lease lapses
  is handed out again.
\<close>

section \<open>Restoring a snapshot\<close>

lemma length_splice [simp]: "length (splice_missing ms ids t now es) = length es + length ms"
  by (simp add: splice_missing_def Let_def split: option.split)

definition refs_bytes :: "message_ref list \<Rightarrow> nat" where
  "refs_bytes ms = sum_list (map (\<lambda>m. message_bytes (ref_stored m)) ms)"

lemma log_bytes_append: "log_bytes (es @ fs) = log_bytes es + log_bytes fs"
  by (simp add: log_bytes_def)

lemma log_bytes_splice: "log_bytes (splice_missing ms ids t now es) = log_bytes es + refs_bytes ms"
proof -
  have "log_bytes (take i es) + log_bytes (drop i es) = log_bytes es" for i
    by (metis append_take_drop_id log_bytes_append)
  moreover have "log_bytes (map (\<lambda>m. \<lparr>en_stored = m, en_state = Available now, en_attempt = 0\<rparr>) ms) = refs_bytes ms"
    by (simp add: log_bytes_def refs_bytes_def comp_def)
  ultimately show ?thesis
    by (simp add: splice_missing_def Let_def log_bytes_append)
qed

lemma refs_bytes_filter_le: "refs_bytes (filter P ms) \<le> refs_bytes ms"
  by (induction ms) (auto simp: refs_bytes_def)

lemma acks_restored: "acks (map (restore_entry r u t now) es) = []"
  by (induction es) (simp_all add: map_filter_simps restore_entry_def ack_of_def)

lemma restored_inv:
  assumes "length es + length ms \<le> max_retained_per_sub" "log_bytes es + refs_bytes ms \<le> max_retained_bytes_per_sub"
  shows "sub_inv (rebuild_indexes (s\<lparr>ss_entries :=
    map (restore_entry r u t now) (splice_missing ms r t now es)\<rparr>))"
proof (rule rebuild_inv)
  have "log_bytes (map (restore_entry r u t now) (splice_missing ms r t now es)) = log_bytes es + refs_bytes ms"
    by (simp add: log_bytes_map restore_entry_def log_bytes_splice)
  with assms(2) show "log_bytes (ss_entries (s\<lparr>ss_entries :=
      map (restore_entry r u t now) (splice_missing ms r t now es)\<rparr>)) \<le> max_retained_bytes_per_sub"
    by simp
qed (use assms(1) in \<open>simp_all add: acks_restored\<close>)

lemma filter_split_length: "length (filter P xs) + length (filter (\<lambda>x. \<not> P x) xs) = length xs"
  by (induction xs) auto

lemma log_bytes_split: "log_bytes (filter P es) + log_bytes (filter (\<lambda>e. \<not> P e) es) = log_bytes es"
  by (induction es) (auto simp: log_bytes_def)

lemma saturating_gt: "n < u_max w \<Longrightarrow> saturating_add_u w a b > n \<longleftrightarrow> a + b > n"
  by (auto simp: saturating_add_u_def)

lemma bounds_u_max: "max_retained_per_sub < u_max 64" "max_retained_bytes_per_sub < u_max 64"
  by (simp_all add: max_retained_per_sub_def max_retained_bytes_per_sub_def u_max_def)

lemma entries_reclaim [simp]: "ss_entries (reclaim_acked_entries s) = filter (\<lambda>e. \<not> is_acked e) (ss_entries s)"
  by (simp add: reclaim_acked_entries_def rebuild_indexes_def)

text \<open>
  The test the seek makes, without the machine arithmetic: what has to be stored fits once the
  acknowledged entries are given up, and they are given up only when it does not fit with them.
\<close>

lemma seek_snapshot_eq:
  fixes captured :: "message_ref list" and r :: "string bset" and s :: subscription_state
  assumes "sub_inv s" and "refs_bytes captured < 2 ^ 64"
  defines "ms \<equiv> missing_messages captured r s"
    and "live \<equiv> filter (\<lambda>e. \<not> is_acked e) (ss_entries s)"
  defines "fits \<equiv> \<lambda>es. length es + length ms \<le> max_retained_per_sub
      \<and> log_bytes es + refs_bytes ms \<le> max_retained_bytes_per_sub"
  shows "sub_seek_to_snapshot captured r u t now s =
    (if fits (ss_entries s) then
       (Ok (), rebuild_indexes (s\<lparr>ss_entries :=
          map (restore_entry r u t now) (splice_missing ms r t now (ss_entries s))\<rparr>))
     else if fits live then
       (Ok (), rebuild_indexes ((reclaim_acked_entries s)\<lparr>ss_entries :=
          map (restore_entry r u t now) (splice_missing ms r t now live)\<rparr>))
     else (Err ResourceExhausted, s))"
proof -
  have "refs_bytes ms \<le> refs_bytes captured"
    unfolding ms_def missing_messages_def Let_def by (rule refs_bytes_filter_le)
  with assms(2) have m: "sum_usize (map (\<lambda>m. message_bytes (ref_stored m)) ms) = refs_bytes ms"
    by (simp add: refs_bytes_def sum_usize_id)
  have "log_bytes (filter is_acked (ss_entries s)) \<le> max_retained_bytes_per_sub"
    using sub_inv_facts(2) [OF assms(1)] log_bytes_filter_le order.trans by blast
  then have a: "sum_usize (map entry_bytes (filter is_acked (ss_entries s)))
      = log_bytes (filter is_acked (ss_entries s))"
    by (rule log_bytes_usize)
  have l: "length (ss_entries s) - length (filter is_acked (ss_entries s)) = length live"
    "log_bytes (ss_entries s) - log_bytes (filter is_acked (ss_entries s)) = log_bytes live"
    using filter_split_length [of is_acked "ss_entries s"] log_bytes_split [of is_acked "ss_entries s"]
    by (simp_all add: live_def)
  have live: "ss_entries (reclaim_acked_entries s) = live" by (simp add: live_def)
  show ?thesis
    unfolding sub_seek_to_snapshot_def Let_def ms_def [symmetric] m a sub_inv_facts(3) [OF assms(1)] l
      saturating_gt [OF bounds_u_max(1)] saturating_gt [OF bounds_u_max(2)] fits_def
    by (auto simp: live not_less simp del: entries_reclaim)
qed

lemma seek_snapshot_inv:
  assumes "sub_inv s" and "refs_bytes captured < 2 ^ 64"
  shows "sub_inv (snd (sub_seek_to_snapshot captured r u t now s))"
  unfolding seek_snapshot_eq [OF assms] by (simp add: restored_inv assms(1))


section \<open>Runs\<close>

datatype sub_op =
    Enqueue message_ref logical_instant
  | Pull nat logical_instant bool ordered_pull_batching "stored_message list \<Rightarrow> bool"
  | Acknowledge "string list"
  | ModifyAckDeadline string nat logical_instant
  | ExpireDeadlines logical_instant
  | CompleteForward string
  | ResumeForward message_ref logical_instant
  | SeekToTime logical_instant logical_instant
  | SeekToSnapshot "message_ref list" "string bset" "string bset" logical_instant logical_instant
  | ReplaceConfig subscription_config
  | SetPushMinimum logical_duration

text \<open>One operation gives the ack ids it hands out, the source of ids it leaves and the state.\<close>

fun sub_step :: "('g \<Rightarrow> string \<times> 'g) \<Rightarrow> 'g \<times> subscription_state \<Rightarrow> sub_op \<Rightarrow> string list \<times> 'g \<times> subscription_state" where
  "sub_step nx (g, s) (Enqueue m now) = ([], g, snd (sub_enqueue m now s))"
| "sub_step nx (g, s) (Pull n now auth b admit) =
     (let (out, g', s') = pull_with_admission n now auth b nx admit g s in (ack_ids_of out, g', s'))"
| "sub_step nx (g, s) (Acknowledge ids) = ([], g, snd (acknowledge ids s))"
| "sub_step nx (g, s) (ModifyAckDeadline a seconds now) = ([], g, modify_ack_deadline a seconds now s)"
| "sub_step nx (g, s) (ExpireDeadlines now) = ([], g, expire_deadlines now s)"
| "sub_step nx (g, s) (CompleteForward m) = ([], g, snd (complete_forward m s))"
| "sub_step nx (g, s) (ResumeForward m now) = ([], g, resume_forward m now s)"
| "sub_step nx (g, s) (SeekToTime t now) = ([], g, snd (seek_to_time t now s))"
| "sub_step nx (g, s) (SeekToSnapshot ms r u t now) = ([], g, snd (sub_seek_to_snapshot ms r u t now s))"
| "sub_step nx (g, s) (ReplaceConfig c) = ([], g, replace_config c s)"
| "sub_step nx (g, s) (SetPushMinimum d) = ([], g, set_push_minimum d s)"

fun sub_run :: "('g \<Rightarrow> string \<times> 'g) \<Rightarrow> 'g \<times> subscription_state \<Rightarrow> sub_op list \<Rightarrow> string list \<times> 'g \<times> subscription_state" where
  "sub_run nx gs [] = ([], gs)"
| "sub_run nx gs (x # xs) =
     (let (ids, gs') = sub_step nx gs x; (ids', gs'') = sub_run nx gs' xs in (ids @ ids', gs''))"

text \<open>What a snapshot captured fits in memory.\<close>

fun op_fits :: "sub_op \<Rightarrow> bool" where
  "op_fits (SeekToSnapshot ms r u t now) \<longleftrightarrow> refs_bytes ms < 2 ^ 64"
| "op_fits _ \<longleftrightarrow> True"

lemma in_acks: "a \<in> set (acks es) \<longleftrightarrow> (\<exists>e\<in>set es. ack_of e = Some a)"
  by (rule in_map_filter)

lemma acks_update: "set (acks (es[i := e])) \<subseteq> set (acks es) \<union> set_option (ack_of e)"
proof
  fix a
  assume "a \<in> set (acks (es[i := e]))"
  then obtain x where "x \<in> insert e (set es)" "ack_of x = Some a"
    using set_update_subset_insert [of es i e] by (auto simp: in_acks)
  then show "a \<in> set (acks es) \<union> set_option (ack_of e)" by (auto simp: in_acks)
qed

lemma acks_requeue: "ack_of e = None \<Longrightarrow> set (acks (es[i := e])) \<subseteq> set (acks es)"
  using acks_update [of es i e] by simp

lemma outstanding_acks: "sub_inv s \<Longrightarrow> bm_get (ss_outstanding s) a \<noteq> None \<longleftrightarrow> a \<in> set (acks (ss_entries s))"
  unfolding indexed_None [OF sub_inv_facts(5)] in_acks by (metis in_set_conv_nth)

lemma acks_expire: "set (acks (ss_entries (expire_deadlines now s))) \<subseteq> set (acks (ss_entries s))"
proof -
  have "set (acks (ss_entries (foldl (expire_one now) s ids))) \<subseteq> set (acks (ss_entries s))" for ids s
  proof (induction ids arbitrary: s)
    case (Cons a ids)
    have "set (acks (ss_entries (expire_one now s a))) \<subseteq> set (acks (ss_entries s))"
      by (auto simp: expire_one_def split: option.split dest!: acks_requeue [THEN subsetD, rotated])
    with Cons.IH [of "expire_one now s a"] show ?case by auto
  qed simp
  then show ?thesis by (simp add: expire_deadlines_def)
qed

lemma advance_entries [simp]: "ss_entries (advance_first_unacked s) = ss_entries s"
  by (simp add: advance_first_unacked_def)

lemma acks_acknowledge: "set (acks (ss_entries (snd (acknowledge ids s)))) \<subseteq> set (acks (ss_entries s))"
proof -
  have "set (acks (ss_entries (snd (foldl acknowledge_one (n, s) ids)))) \<subseteq> set (acks (ss_entries s))" for n s
  proof (induction ids arbitrary: n s)
    case (Cons a ids)
    have "set (acks (ss_entries (snd (acknowledge_one (n, s) a)))) \<subseteq> set (acks (ss_entries s))"
      by (auto simp: acknowledge_one_def split: option.split dest!: acks_requeue [THEN subsetD, rotated])
    with Cons.IH show ?case by (cases "acknowledge_one (n, s) a") fastforce
  qed simp
  from this [of 0] show ?thesis by (simp add: acknowledge_def split: prod.split) (metis snd_conv)
qed


lemma acks_map: "(\<And>e. ack_of (f e) = ack_of e) \<Longrightarrow> acks (map f es) = acks es"
  by (induction es) (auto simp: map_filter_simps split: option.split)

lemma acks_pull_base: "acks (ss_entries (pull_base auth now s)) = acks (ss_entries s)"
  by (simp add: pull_base_def revoke_forwards_def acks_map)

lemma acks_committed:
  assumes "pull_committed s sel ids d out s'" and "length ids = length (sel_selected sel)"
  shows "set (acks (ss_entries s')) \<subseteq> set (acks (ss_entries s)) \<union> set ids"
proof
  fix a
  assume "a \<in> set (acks (ss_entries s'))"
  then obtain k where k: "k < length (ss_entries s')" "ack_of (ss_entries s' ! k) = Some a"
    by (metis in_acks in_set_conv_nth)
  show "a \<in> set (acks (ss_entries s)) \<union> set ids"
  proof (cases "k \<in> set (sel_selected sel)")
    case True
    then obtain n where "n < length (sel_selected sel)" "k = sel_selected sel ! n" by (metis in_set_conv_nth)
    with k(2) assms show ?thesis by (auto simp: pull_committed_def)
  next
    case False
    with k assms(1) have "ack_of (ss_entries s ! k) = Some a" "k < length (ss_entries s)"
      by (auto simp: pull_committed_def split: if_splits)
    then show ?thesis by (metis UnI1 in_acks nth_mem)
  qed
qed

lemma acks_modify:
  assumes "sub_inv s"
  shows "set (acks (ss_entries (modify_ack_deadline a seconds now s))) \<subseteq> set (acks (ss_entries s))"
proof (cases "bm_get (ss_outstanding s) a")
  case (Some i)
  note i = indexedD [OF sub_inv_facts(5) [OF assms] Some]
  have "a \<in> set (acks (ss_entries s))" using i by (auto simp: in_acks intro: nth_mem)
  then have "set (acks ((ss_entries s)[i := (ss_entries s ! i)\<lparr>en_state := Outstanding a t\<rparr>])) \<subseteq> set (acks (ss_entries s))" for t
    using acks_update [of "ss_entries s" i "(ss_entries s ! i)\<lparr>en_state := Outstanding a t\<rparr>"] by auto
  moreover have "set (acks ((ss_entries s)[i := (ss_entries s ! i)\<lparr>en_state := Available t\<rparr>])) \<subseteq> set (acks (ss_entries s))" for t
    by (rule acks_requeue) simp
  moreover obtain d where "en_state (ss_entries s ! i) = Outstanding a d" using i(2) by (auto simp: ack_of_Some)
  ultimately show ?thesis by (simp add: modify_ack_deadline_def Some)
qed (simp add: modify_ack_deadline_def)

lemma acks_enqueue: "set (acks (ss_entries (snd (sub_enqueue m now s)))) \<subseteq> set (acks (ss_entries s))"
  by (auto simp: sub_enqueue_def Let_def in_acks)

lemma acks_seeks:
  assumes "sub_inv s"
  shows "set (acks (ss_entries (snd (seek_to_time t now s)))) \<subseteq> set (acks (ss_entries s))"
    and "refs_bytes ms < 2 ^ 64 \<Longrightarrow>
      set (acks (ss_entries (snd (sub_seek_to_snapshot ms r u t now s)))) \<subseteq> set (acks (ss_entries s))"
  by (auto simp: seek_to_time_def rebuild_indexes_def in_acks seek_snapshot_eq [OF assms]
      restore_entry_def split: if_splits)

lemma acks_complete_forward: "set (acks (ss_entries (snd (complete_forward m s)))) \<subseteq> set (acks (ss_entries s))"
  by (simp add: complete_forward_def acks_requeue split: option.split)

lemma sub_step_pull:
  assumes inv: "sub_inv s" and step: "pull_with_admission n now auth b nx admit g s = (out, g', s')"
    and ids: "distinct (ack_ids_of out)" "set (ack_ids_of out) \<inter> set (acks (ss_entries s)) = {}"
  shows "sub_inv s' \<and> set (acks (ss_entries s')) \<subseteq> set (acks (ss_entries s)) \<union> set (ack_ids_of out)"
proof -
  have fresh: "\<forall>a\<in>set (ack_ids_of out). bm_get (ss_outstanding s) a = None"
    using ids(2) outstanding_acks [OF inv] by (metis disjoint_iff)
  show ?thesis
  proof (cases rule: pull_cases [OF inv step ids(1) fresh])
    case 1
    then show ?thesis by (simp add: inv pull_base_facts acks_pull_base)
  next
    case (2 sel)
    from acks_committed [OF 2(5)] 2(3) have
      "set (acks (ss_entries s')) \<subseteq> set (acks (ss_entries s)) \<union> set (ack_ids_of out)"
      by (simp add: acks_pull_base)
    moreover from 2(5) have "sub_inv s'" by (simp add: pull_committed_def)
    ultimately show ?thesis by blast
  qed
qed

lemma sub_step_inv:
  assumes "sub_inv s" "op_fits x" "sub_step nx (g, s) x = (ids, g', s')"
    and "distinct ids" "set ids \<inter> set (acks (ss_entries s)) = {}"
  shows "sub_inv s' \<and> set (acks (ss_entries s')) \<subseteq> set (acks (ss_entries s)) \<union> set ids"
proof (cases x)
  case (Pull n now auth b admit)
  then obtain out where out: "pull_with_admission n now auth b nx admit g s = (out, g', s')" "ids = ack_ids_of out"
    using assms(3) by (auto split: prod.splits)
  show ?thesis
    using sub_step_pull [OF assms(1) out(1)] assms(4,5) unfolding out(2) by simp
next
  case (CompleteForward m)
  with assms(3) have "ids = []" "s' = snd (complete_forward m s)" by simp_all
  with assms(1) show ?thesis by (simp add: complete_forward_inv acks_complete_forward)
next
  case (ResumeForward m now)
  with assms show ?thesis
    using resume_inv [OF assms(1), of m now] by (auto simp: resume_forward_def acks_map)
qed (use assms in \<open>auto simp: replace_config_def set_push_minimum_def config_inv enqueue_inv
    acknowledge_inv modify_inv expire_inv seek_time_inv seek_snapshot_inv
    dest: acks_enqueue [THEN subsetD] acks_acknowledge [THEN subsetD] acks_expire [THEN subsetD]
      acks_modify [THEN subsetD, rotated] acks_seeks(1) [THEN subsetD, rotated]
      acks_seeks(2) [THEN subsetD, rotated 2]\<close>)

text \<open>
  Ids: the whole run draws its ids from the source in order; as long as the source has not
  repeated one, no id is in use twice.
\<close>

lemma sub_run_inv:
  assumes "sub_inv s" "list_all op_fits xs" "sub_run nx (g, s) xs = (ids, g', s')"
    and "distinct ids" "set ids \<inter> set (acks (ss_entries s)) = {}"
  shows "sub_inv s' \<and> set (acks (ss_entries s')) \<subseteq> set (acks (ss_entries s)) \<union> set ids"
  using assms
proof (induction xs arbitrary: g s ids)
  case (Cons x xs)
  obtain is1 g1 s1 is2 where 1: "sub_step nx (g, s) x = (is1, g1, s1)"
    "sub_run nx (g1, s1) xs = (is2, g', s')" "ids = is1 @ is2"
    using Cons.prems(3) by (auto split: prod.splits)
  have step: "sub_inv s1 \<and> set (acks (ss_entries s1)) \<subseteq> set (acks (ss_entries s)) \<union> set is1"
    using Cons.prems 1 by (intro sub_step_inv) auto
  with Cons.prems 1(3) have "set is2 \<inter> set (acks (ss_entries s1)) = {}" by auto
  with Cons.IH [OF _ _ 1(2)] Cons.prems 1(3) step show ?case by fastforce
qed simp


section \<open>The ack ids of the registry\<close>

text \<open>\<open>format!("ack-{:016x}", rng.next_u64())\<close>\<close>

definition hex_digit :: "nat \<Rightarrow> char" where
  "hex_digit d = (if d < 10 then digit_char d else char_of (of_char CHR ''a'' + (d - 10)))"

definition hex16 :: "64 word \<Rightarrow> string" where
  "hex16 w = map (\<lambda>i. hex_digit (unat w div 16 ^ i mod 16)) (rev [0..<16])"

definition registry_ack_id :: "64 word \<Rightarrow> string \<times> 64 word" where
  "registry_ack_id rng = (let (v, rng') = next_u64 rng in (''ack-'' @ hex16 v, rng'))"

lemma of_char_hex_digit: "d < 16 \<Longrightarrow> (of_char (hex_digit d) :: nat) = (if d < 10 then 48 + d else 87 + d)"
  by (simp add: hex_digit_def digit_char_def of_char_of)

lemma hex_digit_inj:
  assumes "d < 16" "e < 16" "hex_digit d = hex_digit e"
  shows "d = e"
proof -
  have "(if d < 10 then 48 + d else 87 + d) = (if e < 10 then 48 + e else 87 + e)"
    using assms of_char_hex_digit by metis
  then show ?thesis by (simp split: if_splits)
qed

lemma nibbles_eq:
  "(\<And>i. i < k \<Longrightarrow> (m :: nat) div 16 ^ i mod 16 = n div 16 ^ i mod 16) \<Longrightarrow> m mod 16 ^ k = n mod 16 ^ k"
proof (induction k)
  case (Suc k)
  have "m mod 16 ^ Suc k = 16 ^ k * (m div 16 ^ k mod 16) + m mod 16 ^ k" for m :: nat
    by (metis mod_mult2_eq mult.commute power_Suc)
  with Suc show ?case by (metis less_Suc_eq)
qed simp

lemma hex16_inj: "hex16 v = hex16 w \<Longrightarrow> v = w"
proof -
  assume "hex16 v = hex16 w"
  then have "hex_digit (unat v div 16 ^ i mod 16) = hex_digit (unat w div 16 ^ i mod 16)" if "i < 16" for i
    using that by (simp add: hex16_def)
  then have "unat v div 16 ^ i mod 16 = unat w div 16 ^ i mod 16" if "i < 16" for i
    using that by (intro hex_digit_inj) auto
  then have "unat v mod 16 ^ 16 = unat w mod 16 ^ 16" by (rule nibbles_eq)
  moreover have "unat v < 16 ^ 16" "unat w < 16 ^ 16"
    using unsigned_less [of v, where 'a = nat] unsigned_less [of w, where 'a = nat] by simp_all
  ultimately have "unat v = unat w" by simp
  then show "v = w" by (rule unsigned_word_eqI)
qed

lemma registry_draws:
  "draws registry_ack_id rng n
   = map (\<lambda>i. ''ack-'' @ hex16 (splitmix_output (rng + of_nat (Suc i) * golden_gamma))) [0..<n]"
proof (induction n arbitrary: rng)
  case (Suc n)
  have "draws registry_ack_id rng (Suc n) = (''ack-'' @ hex16 (splitmix_output (rng + golden_gamma)))
      # draws registry_ack_id (rng + golden_gamma) n"
    by (simp add: registry_ack_id_def next_u64_def Let_def)
  also have "\<dots> = map (\<lambda>i. ''ack-'' @ hex16 (splitmix_output (rng + of_nat (Suc i) * golden_gamma))) [0..<Suc n]"
    unfolding Suc.IH map_upt_Suc by (simp add: algebra_simps)
  finally show ?case .
qed simp

lemma golden_multiple_inj:
  assumes "of_nat i * golden_gamma = of_nat j * golden_gamma" "i < 2 ^ 64" "j < 2 ^ 64"
  shows "i = j"
proof -
  have "golden_gamma * 0xF1DE83E19937733D = 1" by (simp add: golden_gamma_def)
  from mult_unit_inj [OF this assms(1)] have "(of_nat i :: 64 word) = of_nat j" .
  with assms(2,3) show ?thesis by (auto simp: word_of_nat_eq_iff take_bit_nat_eq_self)
qed

lemma registry_draws_distinct:
  assumes "n < 2 ^ 64"
  shows "distinct (draws registry_ack_id rng n)"
  unfolding registry_draws
proof (rule distinct_map [THEN iffD2], intro conjI inj_onI)
  fix i j
  assume ij: "i \<in> set [0..<n]" "j \<in> set [0..<n]"
    and "''ack-'' @ hex16 (splitmix_output (rng + of_nat (Suc i) * golden_gamma))
      = ''ack-'' @ hex16 (splitmix_output (rng + of_nat (Suc j) * golden_gamma))"
  then have "of_nat (Suc i) * golden_gamma = of_nat (Suc j) * golden_gamma"
    using hex16_inj splitmix_output_inj by (metis add_left_cancel same_append_eq)
  with ij assms show "i = j" using golden_multiple_inj [of "Suc i" "Suc j"] by simp
qed simp

lemma commit_leases_source: "fst (snd (commit_leases nx d is (g, s))) = after_draws nx g (length is)"
  by (induction nx d "is" "(g, s)" arbitrary: g s rule: commit_leases.induct)
    (auto simp: lease_entry_def Let_def split: prod.split)


lemma pull_draws:
  assumes "pull_with_admission n now auth b nx admit g s = (out, g', s')"
  shows "ack_ids_of out = draws nx g (length (ack_ids_of out)) \<and> g' = after_draws nx g (length (ack_ids_of out))"
proof -
  define base where "base = pull_base auth now s"
  define sel where "sel = plan_pull (make_plan base n now auth b) base"
  obtain dl s1 where fwd: "commit_forwards (sel_forwarded sel) base = (dl, s1)" by fastforce
  obtain rs h s2 where lea: "commit_leases nx (pull_deadline (ss_config s) now) (sel_selected sel) (g, s1) = (rs, h, s2)"
    by (cases "commit_leases nx (pull_deadline (ss_config s) now) (sel_selected sel) (g, s1)") auto
  have "map rm_ack_id rs = draws nx g (length (sel_selected sel))" "h = after_draws nx g (length (sel_selected sel))"
    using commit_leases_ids [of nx "pull_deadline (ss_config s) now" "sel_selected sel" g s1]
      commit_leases_source [of nx "pull_deadline (ss_config s) now" "sel_selected sel" g s1] by (simp_all add: lea)
  moreover have "po_received out = [] \<and> g' = g \<or> po_received out = rs \<and> g' = h"
    using assms fwd lea unfolding pull_eq base_def [symmetric] sel_def [symmetric] by (auto split: if_splits)
  ultimately have "\<exists>k. ack_ids_of out = draws nx g k \<and> g' = after_draws nx g k"
    by (metis after_draws.simps(1) draws.simps(1) list.simps(8))
  then obtain k where k: "ack_ids_of out = draws nx g k" "g' = after_draws nx g k" by blast
  from arg_cong [OF k(1), of length] have "length (ack_ids_of out) = k" unfolding length_draws .
  with k show ?thesis by simp
qed

lemma sub_step_draws:
  assumes "sub_step nx (g, s) x = (ids, g', s')"
  shows "ids = draws nx g (length ids) \<and> g' = after_draws nx g (length ids)"
proof (cases x)
  case (Pull n now auth b admit)
  with assms obtain out where out: "pull_with_admission n now auth b nx admit g s = (out, g', s')"
    "ids = ack_ids_of out" by (auto split: prod.splits)
  from pull_draws [OF out(1)] show ?thesis unfolding out(2) .
qed (use assms in auto)

lemma sub_run_draws:
  "sub_run nx (g, s) xs = (ids, g', s') \<Longrightarrow> ids = draws nx g (length ids)"
proof -
  have "sub_run nx (g, s) xs = (ids, g', s') \<Longrightarrow>
      ids = draws nx g (length ids) \<and> g' = after_draws nx g (length ids)"
  proof (induction xs arbitrary: g s ids)
    case (Cons x xs)
    obtain is1 g1 s1 is2 where 1: "sub_step nx (g, s) x = (is1, g1, s1)"
      "sub_run nx (g1, s1) xs = (is2, g', s')" "ids = is1 @ is2"
      using Cons.prems by (auto split: prod.splits)
    from sub_step_draws [OF 1(1)] Cons.IH [OF 1(2)] show ?case
      by (simp add: 1(3) draws_add after_draws_add)
  qed simp
  then show "sub_run nx (g, s) xs = (ids, g', s') \<Longrightarrow> ids = draws nx g (length ids)" by blast
qed

lemma registry_run_inv:
  assumes "list_all op_fits xs" "sub_run registry_ack_id (rng, sub_new c) xs = (ids, rng', s)" "length ids < 2 ^ 64"
  shows "sub_inv s"
proof -
  have "distinct ids"
    using sub_run_draws [OF assms(2)] registry_draws_distinct [OF assms(3)] by metis
  with sub_run_inv [OF sub_inv_new assms(1,2)] show ?thesis by (simp add: sub_new_def map_filter_simps)
qed

text \<open>C10: Whatever operations a subscription has served, in whatever order, with the ack ids of the
  registry: the log keeps within its two bounds and the three indexes are exact. The retained
  bytes are those of the log, the first unacknowledged index is that of the first entry that is
  not acknowledged, and an ack id leads to an entry exactly when that entry is leased under it.\<close>

theorem subscription_indexes_exact:
  assumes "list_all op_fits ops"
    and "sub_run registry_ack_id (rng, sub_new config) ops = (ids, rng', s)" and "length ids < 2 ^ 64"
  shows "length (ss_entries s) \<le> 100000
    \<and> ss_retained_bytes s = sum_list (map entry_bytes (ss_entries s)) \<and> ss_retained_bytes s \<le> 2 ^ 30
    \<and> (\<forall>e\<in>set (take (ss_first_unacked s) (ss_entries s)). en_state e = Acked)
    \<and> (ss_first_unacked s < length (ss_entries s) \<longrightarrow> en_state (ss_entries s ! ss_first_unacked s) \<noteq> Acked)
    \<and> (\<forall>a i. bm_get (ss_outstanding s) a = Some i \<longleftrightarrow>
          i < length (ss_entries s) \<and> (\<exists>d. en_state (ss_entries s ! i) = Outstanding a d))
    \<and> distinct ids"
proof -
  note inv = sub_inv_facts [OF registry_run_inv [OF assms]]
  show ?thesis
  proof (intro conjI allI)
    show "length (ss_entries s) \<le> 100000" "ss_retained_bytes s \<le> 2 ^ 30"
      "ss_retained_bytes s = sum_list (map entry_bytes (ss_entries s))"
      using inv by (simp_all add: log_bytes_def max_retained_per_sub_def max_retained_bytes_per_sub_def)
    show "\<forall>e\<in>set (take (ss_first_unacked s) (ss_entries s)). is_acked e"
      unfolding inv(4) takeWhile_eq_take [symmetric] by (auto dest: set_takeWhileD)
    show "ss_first_unacked s < length (ss_entries s) \<longrightarrow> en_state (ss_entries s ! ss_first_unacked s) \<noteq> Acked"
      unfolding inv(4) using nth_length_takeWhile [of is_acked "ss_entries s"] by blast
    show "bm_get (ss_outstanding s) a = Some i \<longleftrightarrow>
        i < length (ss_entries s) \<and> (\<exists>d. en_state (ss_entries s ! i) = Outstanding a d)" for a i
      using inv(5) unfolding indexed_def ack_of_Some by blast
    show "distinct ids"
      using sub_run_draws [OF assms(2)] registry_draws_distinct [OF assms(3)] by metis
  qed
qed


text \<open>A concrete subscription for the examples.\<close>

definition sample_config :: "bool \<Rightarrow> subscription_config" where
  "sample_config ordered =
     \<lparr>sc_name = \<lparr>sn_project = ''p'', sn_subscription = ''sub''\<rparr>, sc_topic = \<lparr>tn_project = ''p'', tn_topic = ''top''\<rparr>,
      sc_ack_deadline_seconds = 10, sc_labels = [], sc_expiration_policy = None,
      sc_retain_acked_messages = False, sc_message_retention_duration = None,
      sc_enable_message_ordering = ordered, sc_filter = filter_always, sc_dead_letter_policy = None,
      sc_retry_policy = None, sc_push_config = \<lparr>pc_endpoint = [], pc_attributes = []\<rparr>\<rparr>"

definition sample_ref :: "nat \<Rightarrow> string \<Rightarrow> message_ref" where
  "sample_ref n key =
     \<lparr>ref_addr = n, ref_stored = \<lparr>sm_message_id = dec n, sm_publish_time = int n,
        sm_message = \<lparr>pm_data = ''x'', pm_attributes = [], pm_ordering_key = key\<rparr>\<rparr>\<rparr>"

lemmas sample_defs = sample_config_def sample_ref_def sub_new_def pull_with_admission_def make_plan_def
  plan_pull_def select_entry_def empty_selection_def is_ready_def exhausted_def commit_forwards.simps
  lease_entry_def pull_deadline_def ack_deadline_def duration_from_seconds_def instant_checked_add_def
  checked_i_def i_ok_def i_min_def i_max_def advance_first_unacked_def sub_enqueue_def exceeds_bytes_def
  message_bytes_def sum_usize_def saturating_add_u_def u_max_def checked_add_u_def
  max_retained_per_sub_def max_retained_bytes_per_sub_def config_is_push_def revoke_forwards_def

abbreviation sample_ops :: "sub_op list" where
  "sample_ops \<equiv> [Enqueue (sample_ref 0 []) 0, Pull 5 0 True Mixed (\<lambda>_. True)]"

lemma sample_sub_run:
  "fst (sub_run registry_ack_id (7, sub_new (sample_config False)) sample_ops) = [fst (registry_ack_id 7)]
   \<and> ss_outstanding (snd (snd (sub_run registry_ack_id (7, sub_new (sample_config False)) sample_ops)))
     = [(fst (registry_ack_id 7), 0)]"
  by (simp add: sample_defs Let_def split: prod.split)


theorem subscription_indexes_exact_witness:
  "\<exists>rng' s. sub_run registry_ack_id (7, sub_new (sample_config False)) sample_ops
      = ([fst (registry_ack_id 7)], rng', s)
    \<and> ss_outstanding s = [(fst (registry_ack_id 7), 0)] \<and> length (ss_entries s) \<le> 100000
    \<and> (\<exists>d. en_state (ss_entries s ! 0) = Outstanding (fst (registry_ack_id 7)) d)"
proof -
  obtain ids rng' s where r: "sub_run registry_ack_id (7, sub_new (sample_config False)) sample_ops = (ids, rng', s)"
    by (cases "sub_run registry_ack_id (7, sub_new (sample_config False)) sample_ops")
  then have o: "ids = [fst (registry_ack_id 7)]" "ss_outstanding s = [(fst (registry_ack_id 7), 0)]"
    using sample_sub_run by simp_all
  from subscription_indexes_exact [OF _ r] o(1) have e: "length (ss_entries s) \<le> 100000"
    "\<forall>a i. bm_get (ss_outstanding s) a = Some i \<longleftrightarrow>
          i < length (ss_entries s) \<and> (\<exists>d. en_state (ss_entries s ! i) = Outstanding a d)"
    by simp_all
  from e(2) [THEN spec, THEN spec, of "fst (registry_ack_id 7)" 0] o(2)
  have "\<exists>d. en_state (ss_entries s ! 0) = Outstanding (fst (registry_ack_id 7)) d" by simp
  with r o e(1) show ?thesis by blast
qed

section \<open>The backlog is a queue\<close>

definition backlog :: "subscription_state \<Rightarrow> message_ref list" where
  "backlog s = map en_stored (filter (\<lambda>e. en_state e \<noteq> Acked) (ss_entries s))"

text \<open>
  What each operation may do to the backlog: publish appends when the backlog with the new
  message is within the bounds, acknowledgement takes out what is leased under the ids given,
  a completed transfer takes out the message transferred, the seeks say which retained messages
  are to be delivered again, and nothing else changes it.
\<close>

definition drop_first :: "('a \<Rightarrow> bool) \<Rightarrow> 'a list \<Rightarrow> 'a list" where
  "drop_first P xs = (case position P xs of None \<Rightarrow> xs | Some i \<Rightarrow> take i xs @ drop (Suc i) xs)"

fun backlog_after :: "subscription_state \<Rightarrow> sub_op \<Rightarrow> message_ref list" where
  "backlog_after s (Enqueue m now) =
     backlog s @ (if length (backlog s) < max_retained_per_sub
                    \<and> refs_bytes (backlog s @ [m]) \<le> max_retained_bytes_per_sub then [m] else [])"
| "backlog_after s (Acknowledge ids) =
     map en_stored (filter (\<lambda>e. en_state e \<noteq> Acked \<and> (\<forall>a\<in>set ids. ack_of e \<noteq> Some a)) (ss_entries s))"
| "backlog_after s (CompleteForward m) =
     map en_stored (drop_first (\<lambda>e. ref_id (en_stored e) = m \<and> en_state e = ForwardPending)
       (filter (\<lambda>e. en_state e \<noteq> Acked) (ss_entries s)))"
| "backlog_after s (SeekToTime t now) =
     (if sc_enable_message_ordering (ss_config s) then backlog s
      else filter (\<lambda>m. t \<le> sm_publish_time (ref_stored m)) (retained_messages s))"
| "backlog_after s (SeekToSnapshot captured r u t now) =
     (let missing = missing_messages captured r s;
          fits = (\<lambda>ms. length ms + length missing \<le> max_retained_per_sub
                        \<and> refs_bytes ms + refs_bytes missing \<le> max_retained_bytes_per_sub);
          later = (\<lambda>m. ref_id m \<notin> set r \<and> t \<le> sm_publish_time (ref_stored m));
          restore = (\<lambda>ms. filter (\<lambda>m. ref_id m \<in> set u \<or> later m)
                            (takeWhile (\<lambda>m. \<not> later m) ms @ missing @ dropWhile (\<lambda>m. \<not> later m) ms))
      in if fits (retained_messages s) then restore (retained_messages s)
         else if fits (backlog s) then restore (backlog s)
         else backlog s)"
| "backlog_after s _ = backlog s"

lemma backlog_map: "(\<And>e. en_stored (f e) = en_stored e) \<Longrightarrow> (\<And>e. is_acked (f e) \<longleftrightarrow> is_acked e) \<Longrightarrow>
    map en_stored (filter (\<lambda>e. \<not> is_acked e) (map f es)) = map en_stored (filter (\<lambda>e. \<not> is_acked e) es)"
  by (induction es) auto

lemma filter_cong_nth:
  assumes "length es = length fs"
    and "\<And>k. k < length es \<Longrightarrow> g (es ! k) = g (fs ! k) \<and> (P (es ! k) \<longleftrightarrow> Q (fs ! k))"
  shows "map g (filter P es) = map g (filter Q fs)"
  using assms
proof (induction es fs rule: list_induct2)
  case (Cons e es f fs)
  from Cons.prems [of 0] Cons.prems [of "Suc k" for k] Cons.IH show ?case by auto
qed simp

lemmas backlog_cong = filter_cong_nth [where g = en_stored and P = "\<lambda>e. \<not> is_acked e" and Q = "\<lambda>e. \<not> is_acked e"]

lemma nth_update_any: "xs[i := x] ! k = (if k = i \<and> i < length xs then x else xs ! k)"
  by (cases "i < length xs") (simp_all add: nth_list_update list_update_beyond not_less)

lemma backlog_set_state:
  "(d = Acked \<longleftrightarrow> is_acked (ss_entries s ! i)) \<Longrightarrow> backlog (set_state i d s) = backlog s"
  unfolding backlog_def set_state_simps
  by (rule backlog_cong) (auto simp: nth_update_any)

lemma backlog_outstanding [simp]: "backlog (s\<lparr>ss_outstanding := m\<rparr>) = backlog s" "backlog (advance_first_unacked s) = backlog s"
  by (simp_all add: backlog_def)

lemma backlog_requeue:
  assumes "sub_inv s" "bm_get (ss_outstanding s) a = Some i"
  shows "backlog (set_state i (Available t) (s\<lparr>ss_outstanding := m\<rparr>)) = backlog s"
  using indexedD(2) [OF sub_inv_facts(5) [OF assms(1)] assms(2)]
  by (subst backlog_set_state) (auto simp: ack_of_Some)

lemma backlog_modify: "sub_inv s \<Longrightarrow> backlog (modify_ack_deadline a seconds now s) = backlog s"
  by (auto simp: modify_ack_deadline_def backlog_requeue backlog_set_state split: option.split delivery.split)

lemma backlog_expire: "sub_inv s \<Longrightarrow> backlog (expire_deadlines now s) = backlog s"
proof -
  have "sub_inv s \<Longrightarrow> backlog (foldl (expire_one now) s ids) = backlog s" for ids s
    by (induction ids arbitrary: s) (auto simp: expire_one_def backlog_requeue requeue_inv split: option.split)
  then show "sub_inv s \<Longrightarrow> backlog (expire_deadlines now s) = backlog s" by (simp add: expire_deadlines_def)
qed

lemma backlog_resume: "backlog (resume_forward m now s) = backlog s" "backlog (pull_base auth now s) = backlog s"
  by (simp_all add: backlog_def resume_forward_def pull_base_def revoke_forwards_def backlog_map)

lemma backlog_pull:
  assumes inv: "sub_inv s" and step: "pull_with_admission n now auth b nx admit g s = (out, g', s')"
    and ids: "distinct (ack_ids_of out)" "set (ack_ids_of out) \<inter> set (acks (ss_entries s)) = {}"
  shows "backlog s' = backlog s"
proof -
  have fresh: "\<forall>a\<in>set (ack_ids_of out). bm_get (ss_outstanding s) a = None"
    using ids(2) outstanding_acks [OF inv] by (metis disjoint_iff)
  show ?thesis
  proof (cases rule: pull_cases [OF inv step ids(1) fresh])
    case (2 sel)
    let ?s = "pull_base auth now s"
    note c = 2(5) [unfolded pull_committed_def]
    note idle = plan_pull_idle [OF pull_base_facts(1) [OF inv] 2(1)]
    have "en_stored (ss_entries s' ! k) = en_stored (ss_entries ?s ! k)
        \<and> (is_acked (ss_entries s' ! k) \<longleftrightarrow> is_acked (ss_entries ?s ! k))" if "k < length (ss_entries s')" for k
    proof (cases "k \<in> set (sel_selected sel)")
      case True
      then obtain j where "j < length (sel_selected sel)" "k = sel_selected sel ! j" by (metis in_set_conv_nth)
      with c True idle(1) show ?thesis by (auto simp: idle_at_def)
    next
      case False
      with c that idle(2) show ?thesis by (auto simp: idle_at_def)
    qed
    with c have "backlog s' = backlog ?s" unfolding backlog_def by (intro backlog_cong) auto
    then show ?thesis by (simp add: backlog_resume)
  qed (simp add: backlog_resume)
qed


lemma acknowledge_one_backlog:
  assumes "sub_pre s"
  shows "map en_stored (filter (\<lambda>e. \<not> is_acked e \<and> (\<forall>a\<in>set ids. ack_of e \<noteq> Some a))
        (ss_entries (snd (acknowledge_one (n, s) b))))
    = map en_stored (filter (\<lambda>e. \<not> is_acked e \<and> (\<forall>a\<in>set (b # ids). ack_of e \<noteq> Some a)) (ss_entries s))"
proof (cases "bm_get (ss_outstanding s) b")
  case None
  with assms have "\<forall>i<length (ss_entries s). ack_of (ss_entries s ! i) \<noteq> Some b"
    using indexed_None [of "ss_entries s" "ss_outstanding s" b] by (simp add: sub_pre_def)
  then have "\<forall>e\<in>set (ss_entries s). ack_of e \<noteq> Some b" by (metis in_set_conv_nth)
  with None show ?thesis by (auto simp: acknowledge_one_def intro!: arg_cong [where f = "map en_stored"] filter_cong)
next
  case (Some i)
  have ix: "indexed (ss_entries s) (ss_outstanding s)" using assms by (simp add: sub_pre_def)
  have "ack_of (ss_entries s ! k) \<noteq> Some b" if "k < length (ss_entries s)" "k \<noteq> i" for k
    using indexed_get [OF ix that(1), of b] Some that(2) by auto
  with Some indexedD [OF ix Some] show ?thesis
    by (auto simp: acknowledge_one_def nth_update_any split: if_splits intro!: filter_cong_nth)
qed

lemma backlog_acknowledge:
  assumes "sub_inv s"
  shows "backlog (snd (acknowledge ids s)) = backlog_after s (Acknowledge ids)"
proof -
  have "sub_pre s \<Longrightarrow> backlog (snd (foldl acknowledge_one (n, s) ids))
      = map en_stored (filter (\<lambda>e. \<not> is_acked e \<and> (\<forall>a\<in>set ids. ack_of e \<noteq> Some a)) (ss_entries s))" for n s
  proof (induction ids arbitrary: n s)
    case (Cons b ids)
    obtain m t where t: "acknowledge_one (n, s) b = (m, t)" by fastforce
    have "sub_pre t" using acknowledge_one_pre [OF Cons.prems, of n b] t by simp
    from Cons.IH [OF this, of m] acknowledge_one_backlog [OF Cons.prems, of ids n b] t show ?case by simp
  qed (simp add: backlog_def)
  from this [OF sub_inv_pre [OF assms], of 0] show ?thesis
    by (cases "foldl acknowledge_one (0, s) ids") (simp add: acknowledge_def)
qed

lemma drop_first_simps:
  "drop_first P [] = []"
  "drop_first P (x # xs) = (if P x then xs else x # drop_first P xs)"
  by (simp_all add: drop_first_def split: option.split)

lemma ack_first:
  assumes "\<And>e. P e \<Longrightarrow> \<not> is_acked e"
  shows "map en_stored (filter (\<lambda>e. \<not> is_acked e)
      (case position P es of None \<Rightarrow> es | Some i \<Rightarrow> es[i := (es ! i)\<lparr>en_state := Acked\<rparr>]))
    = map en_stored (drop_first P (filter (\<lambda>e. \<not> is_acked e) es))"
proof (induction es)
  case (Cons e es)
  show ?case
  proof (cases "P e")
    case False
    then show ?thesis using Cons by (cases "position P es") (simp_all add: drop_first_simps)
  qed (simp add: drop_first_simps assms)
qed (simp add: drop_first_simps)

lemma backlog_complete:
  "backlog (snd (complete_forward m s)) = backlog_after s (CompleteForward m)"
  using ack_first [of "\<lambda>e. ref_id (en_stored e) = m \<and> en_state e = ForwardPending" "ss_entries s"]
  by (simp add: complete_forward_def backlog_def split: option.split) (simp split: option.splits)

lemma backlog_seek_time: "backlog (snd (seek_to_time t now s)) = backlog_after s (SeekToTime t now)"
proof -
  have "map en_stored (filter (\<lambda>e. \<not> is_acked e) (map (\<lambda>e. if sm_publish_time (ref_stored (en_stored e)) < t
      then e\<lparr>en_state := Acked\<rparr> else e\<lparr>en_state := Available now, en_attempt := 0\<rparr>) es))
    = filter (\<lambda>m. t \<le> sm_publish_time (ref_stored m)) (map en_stored es)" for es
    by (induction es) auto
  then show ?thesis by (simp add: seek_to_time_def rebuild_indexes_def backlog_def retained_messages_def)
qed


lemma log_bytes_refs: "refs_bytes (map en_stored es) = log_bytes es"
  by (simp add: refs_bytes_def log_bytes_def comp_def)

lemma backlog_bytes: "refs_bytes (backlog s) = log_bytes (filter (\<lambda>e. \<not> is_acked e) (ss_entries s))"
  by (simp add: backlog_def log_bytes_refs)

text \<open>The log a publication meets: without the acknowledged entries when it would not fit beside them.\<close>

lemma enqueue_eq:
  fixes m :: message_ref and s :: subscription_state
  assumes "sub_inv s"
  defines "bytes \<equiv> message_bytes (ref_stored m)"
  defines "live \<equiv> filter (\<lambda>e. \<not> is_acked e) (ss_entries s)"
  defines "full \<equiv> length (ss_entries s) \<ge> max_retained_per_sub \<or> log_bytes (ss_entries s) + bytes > max_retained_bytes_per_sub"
  shows "is_ok (fst (sub_enqueue m now s)) \<longleftrightarrow>
      length live < max_retained_per_sub \<and> log_bytes live + bytes \<le> max_retained_bytes_per_sub"
    and "ss_entries (snd (sub_enqueue m now s)) =
      (if full then live else ss_entries s)
      @ (if is_ok (fst (sub_enqueue m now s)) then [\<lparr>en_stored = m, en_state = Available now, en_attempt = 0\<rparr>] else [])"
proof -
  have "\<not> list_ex is_acked (ss_entries s) \<Longrightarrow> live = ss_entries s"
    by (simp add: live_def list_ex_iff filter_id_conv)
  moreover have "length live \<le> length (ss_entries s)" "log_bytes live \<le> log_bytes (ss_entries s)"
    by (simp_all add: live_def log_bytes_filter_le)
  moreover note sub_inv_facts(3) [OF assms(1)] sub_inv_facts(3) [OF reclaim_inv [OF assms(1)]]
  moreover have "ss_entries (reclaim_acked_entries s) = live" by (simp add: live_def)
  ultimately show "is_ok (fst (sub_enqueue m now s)) \<longleftrightarrow>
      length live < max_retained_per_sub \<and> log_bytes live + bytes \<le> max_retained_bytes_per_sub"
    and "ss_entries (snd (sub_enqueue m now s)) =
      (if full then live else ss_entries s)
      @ (if is_ok (fst (sub_enqueue m now s)) then [\<lparr>en_stored = m, en_state = Available now, en_attempt = 0\<rparr>] else [])"
    by (auto simp: sub_enqueue_def Let_def exceeds_bytes_iff bytes_def [symmetric] full_def
        simp del: entries_reclaim)
qed

lemma backlog_enqueue:
  assumes "sub_inv s"
  shows "backlog (snd (sub_enqueue m now s)) = backlog_after s (Enqueue m now)"
proof -
  have "refs_bytes (backlog s @ [m]) = refs_bytes (backlog s) + message_bytes (ref_stored m)"
    by (simp add: refs_bytes_def)
  then show ?thesis
    using enqueue_eq [OF assms, of m now]
    by (auto simp: backlog_def log_bytes_refs)
qed

lemma take_position: "take (case position P xs of Some i \<Rightarrow> i | None \<Rightarrow> length xs) xs = takeWhile (\<lambda>x. \<not> P x) xs"
    "drop (case position P xs of Some i \<Rightarrow> i | None \<Rightarrow> length xs) xs = dropWhile (\<lambda>x. \<not> P x) xs"
  by (induction xs) (auto split: option.split)

lemma map_takeWhile: "map f (takeWhile (\<lambda>x. P (f x)) xs) = takeWhile P (map f xs)"
    "map f (dropWhile (\<lambda>x. P (f x)) xs) = dropWhile P (map f xs)"
  by (induction xs) auto

lemma backlog_restored:
  defines "later \<equiv> \<lambda>r t m. ref_id m \<notin> set r \<and> t \<le> sm_publish_time (ref_stored m)"
  shows "map en_stored (filter (\<lambda>e. \<not> is_acked e) (map (restore_entry r u t now) (splice_missing ms r t now es)))
    = filter (\<lambda>m. ref_id m \<in> set u \<or> later r t m)
        (takeWhile (\<lambda>m. \<not> later r t m) (map en_stored es) @ ms @ dropWhile (\<lambda>m. \<not> later r t m) (map en_stored es))"
proof -
  have p: "published_after r t = (\<lambda>e. later r t (en_stored e))"
    by (simp add: fun_eq_iff published_after_def later_def)
  have "map en_stored (filter (\<lambda>e. \<not> is_acked e) (map (restore_entry r u t now) fs))
      = filter (\<lambda>m. ref_id m \<in> set u \<or> later r t m) (map en_stored fs)" for fs
    by (induction fs) (auto simp: restore_entry_def p)
  moreover have "map en_stored (splice_missing ms r t now es) =
      takeWhile (\<lambda>m. \<not> later r t m) (map en_stored es) @ ms @ dropWhile (\<lambda>m. \<not> later r t m) (map en_stored es)"
    by (simp add: splice_missing_def Let_def p take_position
        map_takeWhile [where P = "\<lambda>m. \<not> later r t m"] comp_def)
  ultimately show ?thesis by metis
qed

lemma backlog_seek_snapshot:
  assumes "sub_inv s" and "refs_bytes captured < 2 ^ 64"
  shows "backlog (snd (sub_seek_to_snapshot captured r u t now s)) = backlog_after s (SeekToSnapshot captured r u t now)"
proof -
  have b: "backlog (rebuild_indexes (s'\<lparr>ss_entries := map (restore_entry r u t now) (splice_missing ms r t now es)\<rparr>))
    = filter (\<lambda>m. ref_id m \<in> set u \<or> ref_id m \<notin> set r \<and> t \<le> sm_publish_time (ref_stored m))
        (takeWhile (\<lambda>m. \<not> (ref_id m \<notin> set r \<and> t \<le> sm_publish_time (ref_stored m))) (map en_stored es) @ ms
         @ dropWhile (\<lambda>m. \<not> (ref_id m \<notin> set r \<and> t \<le> sm_publish_time (ref_stored m))) (map en_stored es))" for s' ms es
    using backlog_restored [of r u t now ms es] by (simp add: backlog_def rebuild_indexes_def)
  show ?thesis
    unfolding seek_snapshot_eq [OF assms] backlog_after.simps Let_def retained_messages_def
      log_bytes_refs backlog_bytes
    by (simp only: if_distrib [of snd] if_distrib [of backlog] snd_conv b length_map log_bytes_refs)
      (simp add: backlog_def [of s, symmetric] backlog_bytes, simp add: backlog_def)
qed


lemma sub_run_snoc:
  "sub_run nx gs (xs @ [x]) =
     (let (ids, gs') = sub_run nx gs xs; (ids', gs'') = sub_step nx gs' x in (ids @ ids', gs''))"
  by (induction xs arbitrary: gs) (auto split: prod.splits)

lemma registry_step_fresh:
  assumes "list_all op_fits ops" "sub_run registry_ack_id (rng, sub_new c) ops = (ids, rng1, s)"
    and "sub_step registry_ack_id (rng1, s) x = (ids', rng2, s')" "length ids + length ids' < 2 ^ 64"
  shows "sub_inv s" "distinct ids'" "set ids' \<inter> set (acks (ss_entries s)) = {}"
proof -
  have "sub_run registry_ack_id (rng, sub_new c) (ops @ [x]) = (ids @ ids', rng2, s')"
    using assms(2,3) by (simp add: sub_run_snoc)
  from sub_run_draws [OF this] have d: "distinct (ids @ ids')"
    using registry_draws_distinct [OF assms(4)] by (metis length_append)
  with sub_run_inv [OF sub_inv_new assms(1,2)] have "set (acks (ss_entries s)) \<subseteq> set ids"
    by (simp add: sub_new_def map_filter_simps)
  with d show "distinct ids'" "set ids' \<inter> set (acks (ss_entries s)) = {}" by auto
  show "sub_inv s" using registry_run_inv [OF assms(1,2)] assms(4) by simp
qed



lemma sample_state:
  "snd (snd (sub_run registry_ack_id (7, sub_new (sample_config False)) sample_ops)) =
     (sub_new (sample_config False))\<lparr>ss_entries := [\<lparr>en_stored = sample_ref 0 [],
        en_state = Outstanding (fst (registry_ack_id 7)) 10000000000, en_attempt = 1\<rparr>],
      ss_outstanding := [(fst (registry_ack_id 7), 0)], ss_retained_bytes := 1\<rparr>"
  by (simp add: sample_defs Let_def split: prod.split)


end
