(* ===== verification/Ps_Order.thy ===== *)
theory Ps_Order
  imports Ps_Backlog
begin

text \<open>
  What a pull hands out: keyed messages of an ordered subscription in log order and never past
  an unacknowledged predecessor, on an unordered subscription exactly the first deliverable
  ones; and when: the redelivery backoff in closed form, and that a message whose lease lapsed
  is handed out again.
\<close>

section \<open>Selection on an ordered subscription\<close>

abbreviation key_at :: "entry list \<Rightarrow> nat \<Rightarrow> string" where
  "key_at es i \<equiv> ref_key (en_stored (es ! i))"

text \<open>
  At index \<open>i\<close> of the loop, with key \<open>x\<close> not blocked: every unacknowledged entry before \<open>i\<close> with
  this key has been selected for the first time by a subscription that is not push. A selected entry
  with the key marks it as emitted.
\<close>

definition order_ok :: "pull_plan \<Rightarrow> entry list \<Rightarrow> nat \<Rightarrow> selection \<Rightarrow> bool" where
  "order_ok p es i sel \<longleftrightarrow>
     (\<forall>j<i. \<not> is_acked (es ! j) \<longrightarrow> key_at es j \<noteq> [] \<longrightarrow>
        key_at es j \<in> set (sel_blocked sel)
        \<or> j \<in> set (sel_selected sel) \<and> key_at es j \<in> set (sel_emitted sel)
          \<and> \<not> pp_push p \<and> en_attempt (es ! j) = 0)
     \<and> (\<forall>k\<in>set (sel_selected sel). key_at es k \<noteq> [] \<longrightarrow>
          (\<forall>j<k. \<not> is_acked (es ! j) \<longrightarrow> key_at es j = key_at es k \<longrightarrow>
             j \<in> set (sel_selected sel) \<and> \<not> pp_push p \<and> en_attempt (es ! j) = 0))
     \<and> (\<forall>k\<in>set (sel_forwarded sel). key_at es k \<noteq> [] \<longrightarrow>
          (\<forall>j<k. \<not> is_acked (es ! j) \<longrightarrow> key_at es j \<noteq> key_at es k))"

lemma order_ok_step:
  assumes "order_ok p es i sel" "pp_ordered p" "\<not> pp_unkeyed_only p"
  shows "order_ok p es (Suc i) (select_entry p i (es ! i) sel)"
proof -
  note old = assms(1) [unfolded order_ok_def]
  show ?thesis
  proof (cases "is_acked (es ! i) \<or> key_at es i = []")
    case True
    with old assms(2,3) show ?thesis
      unfolding order_ok_def by (auto simp: select_entry_def Let_def less_Suc_eq)
  next
    case False
    show ?thesis
    proof (cases "key_at es i \<in> set (sel_blocked sel)")
      case True
      with False old assms(2,3) show ?thesis
        unfolding order_ok_def by (auto simp: select_entry_def Let_def less_Suc_eq)
    next
      case new: False
      then have before: "\<forall>j<i. \<not> is_acked (es ! j) \<longrightarrow> key_at es j = key_at es i \<longrightarrow>
          j \<in> set (sel_selected sel) \<and> key_at es i \<in> set (sel_emitted sel) \<and> \<not> pp_push p \<and> en_attempt (es ! j) = 0"
        using old False by metis
      with False new old assms(2,3) show ?thesis
        unfolding order_ok_def by (auto simp: select_entry_def Let_def less_Suc_eq)
    qed
  qed
qed


lemma nth_in_takeWhile: "j < length (takeWhile P xs) \<Longrightarrow> P (xs ! j)"
  using nth_mem [of j "takeWhile P xs"] by (auto simp: takeWhile_nth dest: set_takeWhileD)

lemma before_first_unacked: "sub_inv s \<Longrightarrow> j < ss_first_unacked s \<Longrightarrow> is_acked (ss_entries s ! j)"
  using nth_in_takeWhile [of j is_acked "ss_entries s"] by (simp add: sub_inv_facts)

lemma order_ok_start:
  "sub_inv s \<Longrightarrow> order_ok p (ss_entries s) (ss_first_unacked s) empty_selection"
  by (simp add: order_ok_def empty_selection_def before_first_unacked)

lemma plan_order:
  assumes "sub_inv s" "pp_ordered p" "\<not> pp_unkeyed_only p" "k \<in> set (sel_selected (plan_pull p s))"
    and "key_at (ss_entries s) k \<noteq> []" "j < k" "\<not> is_acked (ss_entries s ! j)" "key_at (ss_entries s) j = key_at (ss_entries s) k"
  shows "j \<in> set (sel_selected (plan_pull p s)) \<and> \<not> pp_push p \<and> en_attempt (ss_entries s ! j) = 0"
proof -
  obtain i where "order_ok p (ss_entries s) i (plan_pull p s)"
    by (rule plan_pull_rule [where I = "order_ok p (ss_entries s)", OF assms(1) order_ok_start [OF assms(1)]])
      (auto intro: order_ok_step [OF _ assms(2,3)])
  with assms(4-8) show ?thesis unfolding order_ok_def by metis
qed

lemma plan_unkeyed:
  assumes "sub_inv s" "pp_unkeyed_only p"
  shows "\<forall>k\<in>set (sel_selected (plan_pull p s)). key_at (ss_entries s) k = []"
proof -
  let ?I = "\<lambda>(i::nat) sel. \<forall>k\<in>set (sel_selected sel). key_at (ss_entries s) k = []"
  have "?I 0 empty_selection" by (simp add: empty_selection_def)
  moreover have "?I j sel \<Longrightarrow> ?I (Suc j) (select_entry p j (ss_entries s ! j) sel)" for j sel
    using assms(2) by (auto simp: select_entry_def Let_def)
  ultimately show ?thesis
    using plan_pull_rule [where I = ?I and s = s and p = p] assms(1) by blast
qed

section \<open>Selection on an unordered subscription\<close>

definition deliverable :: "pull_plan \<Rightarrow> entry \<Rightarrow> bool" where
  "deliverable p e \<longleftrightarrow> is_ready (pp_now p) e \<and> \<not> exhausted (pp_max_attempts p) e"

lemma select_entry_unordered:
  "\<not> pp_ordered p \<Longrightarrow> \<not> pp_unkeyed_only p \<Longrightarrow>
   sel_selected (select_entry p i e sel) = sel_selected sel @ (if deliverable p e then [i] else [])"
  by (auto simp: select_entry_def Let_def deliverable_def is_ready_def)

lemma select_from_unordered:
  assumes "\<not> pp_ordered p" "\<not> pp_unkeyed_only p" "length (sel_selected sel) \<le> pp_max p"
  shows "sel_selected (select_from p i es sel) =
    take (pp_max p) (sel_selected sel @ filter (\<lambda>k. deliverable p (es ! (k - i))) [i..<i + length es])"
  using assms(3)
proof (induction es arbitrary: i sel)
  case (Cons e es)
  have "filter (\<lambda>k. deliverable p ((e # es) ! (k - i))) [Suc i..<Suc i + length es]
      = filter (\<lambda>k. deliverable p (es ! (k - Suc i))) [Suc i..<Suc i + length es]"
    by (rule filter_cong) (auto simp: nth_Cons')
  moreover have cons: "[i..<i + length (e # es)] = i # [Suc i..<Suc i + length es]"
    using upt_conv_Cons [of i "Suc (i + length es)"] by (simp del: upt_Suc)
  ultimately have "filter (\<lambda>k. deliverable p ((e # es) ! (k - i))) [i..<i + length (e # es)]
      = (if deliverable p e then [i] else []) @ filter (\<lambda>k. deliverable p (es ! (k - Suc i))) [Suc i..<Suc i + length es]"
    unfolding cons by (simp del: upt_Suc)
  with Cons.IH [of "select_entry p i e sel" "Suc i"] Cons.prems show ?case
    by (auto simp: select_entry_unordered [OF assms(1,2)] simp del: upt_Suc)
qed simp

lemma plan_unordered:
  assumes "sub_inv s" "\<not> pp_ordered p" "\<not> pp_unkeyed_only p"
  shows "sel_selected (plan_pull p s) =
    take (pp_max p) (filter (\<lambda>k. deliverable p (ss_entries s ! k)) [0..<length (ss_entries s)])"
proof -
  let ?f = "ss_first_unacked s" and ?n = "length (ss_entries s)"
  have f: "?f \<le> ?n"
    using assms(1) by (simp add: sub_inv_facts length_takeWhile_le)
  have "[0..<?n] = [0..<?f] @ [?f..<?n]" using f by (metis le_add_diff_inverse upt_add_eq_append zero_le)
  moreover have "filter (\<lambda>k. deliverable p (ss_entries s ! k)) [0..<?f] = []"
    using before_first_unacked [OF assms(1)] by (auto simp: filter_empty_conv deliverable_def is_ready_def)
  moreover have "filter (\<lambda>k. deliverable p (live_entries s ! (k - ?f))) [?f..<?n]
      = filter (\<lambda>k. deliverable p (ss_entries s ! k)) [?f..<?n]"
    by (rule filter_cong) auto
  ultimately show ?thesis
    unfolding plan_pull_def using f
    by (subst select_from_unordered [OF assms(2,3)]) (simp_all add: empty_selection_def)
qed


section \<open>What a pull hands out\<close>

lemma make_plan_simps [simp]:
  "pp_max (make_plan s n now auth b) = n" "pp_now (make_plan s n now auth b) = now"
  "pp_ordered (make_plan s n now auth b) = sc_enable_message_ordering (ss_config s)"
  "pp_push (make_plan s n now auth b) = config_is_push (ss_config s)"
  "pp_unkeyed_only (make_plan s n now auth b) \<longleftrightarrow> sc_enable_message_ordering (ss_config s) \<and> b = SeparateUnkeyed
     \<and> list_ex (\<lambda>e. ref_key (en_stored e) = [] \<and> deliverable (make_plan s n now auth b) e) (live_entries s)"
  by (simp_all add: make_plan_def Let_def deliverable_def)

lemma plan_separate:
  assumes "sub_inv s" "sc_enable_message_ordering (ss_config s)" "sel = plan_pull (make_plan s n now auth SeparateUnkeyed) s"
  shows "(\<forall>k\<in>set (sel_selected sel). key_at (ss_entries s) k = []) \<or> (\<forall>k\<in>set (sel_selected sel). key_at (ss_entries s) k \<noteq> [])"
proof (cases "pp_unkeyed_only (make_plan s n now auth SeparateUnkeyed)")
  case True
  with plan_unkeyed assms(1,3) show ?thesis by blast
next
  case False
  let ?p = "make_plan s n now auth SeparateUnkeyed"
  have "key_at (ss_entries s) k \<noteq> []" if "k \<in> set (sel_selected sel)" for k
  proof -
    from plan_pull_picks [OF assms(1), of ?p] that assms(3)
    have k: "k < length (ss_entries s)" "deliverable ?p (ss_entries s ! k)"
      by (simp_all add: picks_ok_def deliverable_def)
    then have "ss_first_unacked s \<le> k"
      using before_first_unacked [OF assms(1), of k] by (fastforce simp: deliverable_def is_ready_def not_le [symmetric])
    then have "ss_entries s ! k \<in> set (live_entries s)"
      using k(1) by (auto simp: in_set_conv_nth intro!: exI [of _ "k - ss_first_unacked s"])
    with False k(2) assms(2) show ?thesis by (auto simp: list_ex_iff)
  qed
  then show ?thesis by blast
qed

text \<open>The indices a pull hands out, of the log it works on.\<close>

definition handed_out :: "subscription_state \<Rightarrow> pull_outcome \<Rightarrow> nat list \<Rightarrow> bool" where
  "handed_out s out is \<longleftrightarrow> set is \<subseteq> {..<length (ss_entries s)}
     \<and> map rm_message (po_received out) = map (\<lambda>i. en_stored (ss_entries s ! i)) is"

lemma received_messages:
  "length is = length xs \<Longrightarrow> map rm_message (map2 (received_at es) is xs) = map (\<lambda>i. en_stored (es ! i)) is"
  by (induction "is" xs rule: list_induct2) (simp_all add: received_at_def)

lemma pull_handed_out:
  assumes inv: "sub_inv s" and step: "pull_with_admission n now auth b nx admit g s = (out, g', s')"
    and ids: "distinct (ack_ids_of out)" "set (ack_ids_of out) \<inter> set (acks (ss_entries s)) = {}"
  defines "base \<equiv> pull_base auth now s"
  defines "sel \<equiv> plan_pull (make_plan base n now auth b) base"
  shows "handed_out base out [] \<or> handed_out base out (sel_selected sel)"
    and "(\<And>ms. admit ms) \<Longrightarrow> 0 < n \<Longrightarrow> handed_out base out (sel_selected sel)"
proof -
  have fresh: "\<forall>a\<in>set (ack_ids_of out). bm_get (ss_outstanding s) a = None"
    using ids(2) outstanding_acks [OF inv] by (metis disjoint_iff)
  have binv: "sub_inv base" using inv by (simp add: base_def pull_base_facts)
  have com: "handed_out base out (sel_selected sel)"
    if "pull_committed base sel (ack_ids_of out) d out s'" "length (sel_selected sel) = length (ack_ids_of out)" for d
  proof -
    have "po_received out = map2 (received_at (ss_entries base)) (sel_selected sel) (ack_ids_of out)"
      using that(1) unfolding pull_committed_def by blast
    then have "map rm_message (po_received out) = map (\<lambda>i. en_stored (ss_entries base ! i)) (sel_selected sel)"
      using received_messages [OF that(2)] by metis
    moreover have "set (sel_selected sel) \<subseteq> {..<length (ss_entries base)}"
      using plan_pull_idle(1) [OF binv refl] by (auto simp: idle_at_def sel_def)
    ultimately show ?thesis by (simp add: handed_out_def)
  qed
  show "handed_out base out [] \<or> handed_out base out (sel_selected sel)"
    by (rule pull_cases [OF inv step ids(1) fresh])
      (auto simp: handed_out_def [of _ _ "[]"] base_def [symmetric] sel_def [symmetric] intro: com)
  show "handed_out base out (sel_selected sel)" if "\<And>ms. admit ms" "0 < n"
  proof (rule pull_cases [OF inv step ids(1) fresh])
    assume refused: "po_received out = []" "s' = pull_base auth now s"
    have "sel_selected sel = []"
      using that step refused commit_leases_ids [of nx "pull_deadline (ss_config s) now" "sel_selected sel" g]
      unfolding pull_eq base_def [symmetric] sel_def [symmetric]
      by (auto split: prod.splits) (metis draws.simps fst_conv length_0_conv length_draws list.map_disc_iff)
    with refused show ?thesis by (simp add: handed_out_def)
  qed (auto simp: base_def [symmetric] sel_def [symmetric] intro: com)
qed


lemma registry_pull_fresh:
  assumes "list_all op_fits ops" "sub_run registry_ack_id (rng, sub_new c) ops = (ids, rng1, s)"
    and "pull_with_admission n now auth b registry_ack_id admit rng1 s = (out, rng2, s')"
    and "length ids + length (po_received out) < 2 ^ 64"
  shows "sub_inv s" "distinct (ack_ids_of out)" "set (ack_ids_of out) \<inter> set (acks (ss_entries s)) = {}"
proof -
  have "sub_step registry_ack_id (rng1, s) (Pull n now auth b admit) = (ack_ids_of out, rng2, s')"
    using assms(3) by simp
  from registry_step_fresh [OF assms(1,2) this] assms(4)
  show "sub_inv s" "distinct (ack_ids_of out)" "set (ack_ids_of out) \<inter> set (acks (ss_entries s)) = {}"
    by simp_all
qed

text \<open>C8: After any history of a subscription, a pull hands out at most the number of messages asked
  for, in log order. With message ordering, a keyed message is handed out only when every earlier
  message with its key is acknowledged or handed out for the first time in this same pull, and
  never together with one on a push subscription; in the separate mode keyed and unkeyed messages
  never share a response. Without message ordering, and with storage admitted, the pull hands out
  exactly the first messages that are due and have delivery attempts left.\<close>

theorem pull_respects_order:
  assumes "list_all op_fits ops" "sub_run registry_ack_id (rng, sub_new config) ops = (ids, rng1, s0)"
    and "pull_with_admission n now auth batching registry_ack_id admit rng1 s0 = (out, rng2, s')"
    and "length ids + length (po_received out) < 2 ^ 64"
  defines "s \<equiv> pull_base auth now s0"
  shows "\<exists>is. handed_out s out is \<and> sorted_wrt (<) is \<and> length is \<le> n
    \<and> (sc_enable_message_ordering (ss_config s) \<longrightarrow>
         (\<forall>k\<in>set is. \<forall>j<k. key_at (ss_entries s) k \<noteq> [] \<and> key_at (ss_entries s) j = key_at (ss_entries s) k
            \<and> en_state (ss_entries s ! j) \<noteq> Acked \<longrightarrow>
            j \<in> set is \<and> en_attempt (ss_entries s ! j) = 0 \<and> \<not> config_is_push (ss_config s)))
    \<and> (sc_enable_message_ordering (ss_config s) \<and> batching = SeparateUnkeyed \<longrightarrow>
         (\<forall>k\<in>set is. key_at (ss_entries s) k = []) \<or> (\<forall>k\<in>set is. key_at (ss_entries s) k \<noteq> []))
    \<and> (\<not> sc_enable_message_ordering (ss_config s) \<and> (\<forall>ms. admit ms) \<longrightarrow>
         is = take n (filter (\<lambda>k. deliverable (make_plan s n now auth batching) (ss_entries s ! k))
                        [0..<length (ss_entries s)]))"
    (is "\<exists>is. _ \<and> _ \<and> _ \<and> ?order is \<and> ?separate is \<and> ?exact is")
proof -
  note fresh = registry_pull_fresh [OF assms(1-4)]
  let ?p = "make_plan s n now auth batching"
  let ?sel = "sel_selected (plan_pull ?p s)"
  have inv: "sub_inv s" using fresh(1) by (simp add: s_def pull_base_facts)
  note out = pull_handed_out [OF fresh(1) assms(3) fresh(2,3), folded s_def]
  have picks: "sorted_wrt (<) ?sel" "length ?sel \<le> n"
    using plan_pull_picks [OF inv, of ?p] by (simp_all add: picks_ok_def)
  have order: "?order ?sel"
  proof (cases "pp_unkeyed_only ?p")
    case True
    with plan_unkeyed [OF inv] show ?thesis by blast
  next
    case False
    then show ?thesis using plan_order [OF inv _ False] by (auto simp del: make_plan_simps(5))
  qed
  have sep: "?separate ?sel"
    using plan_separate [OF inv, of "plan_pull ?p s" n now auth] by auto
  have exact: "?exact ?sel"
    using plan_unordered [OF inv, of ?p] by simp
  show ?thesis
  proof (cases "handed_out s out ?sel")
    case True
    with picks order sep exact show ?thesis by blast
  next
    case False
    with out have "handed_out s out []" "(\<forall>ms. admit ms) \<Longrightarrow> n = 0" by blast+
    then show ?thesis by (intro exI [of _ "[]"]) auto
  qed
qed


abbreviation sample_keyed :: "sub_op list" where
  "sample_keyed \<equiv> [Enqueue (sample_ref 0 ''k'') 0, Enqueue (sample_ref 1 ''k'') 0]"

abbreviation sample_keyed_state :: subscription_state where
  "sample_keyed_state \<equiv> snd (snd (sub_run registry_ack_id (7, sub_new (sample_config True)) sample_keyed))"

lemma sample_keyed_pull:
  "map rm_message (po_received (fst (pull_with_admission 1 0 True Mixed registry_ack_id (\<lambda>_. True) 7 sample_keyed_state)))
   = [sample_ref 0 ''k'']"
  by (simp add: sample_defs Let_def split: prod.split)

theorem pull_respects_order_witness:
  "sub_run registry_ack_id (7, sub_new (sample_config True)) sample_keyed = ([], 7, sample_keyed_state)
   \<and> (\<exists>out rng2 s'. pull_with_admission 1 0 True Mixed registry_ack_id (\<lambda>_. True) 7 sample_keyed_state = (out, rng2, s')
        \<and> map rm_message (po_received out) = [sample_ref 0 ''k'']
        \<and> (\<exists>is. handed_out sample_keyed_state out is \<and> sorted_wrt (<) is \<and> length is \<le> 1))"
proof -
  obtain out rng2 s' where
    p: "pull_with_admission 1 0 True Mixed registry_ack_id (\<lambda>_. True) 7 sample_keyed_state = (out, rng2, s')"
    by (cases "pull_with_admission 1 0 True Mixed registry_ack_id (\<lambda>_. True) 7 sample_keyed_state")
  have m: "map rm_message (po_received out) = [sample_ref 0 ''k'']"
    using sample_keyed_pull p by simp
  have r: "sub_run registry_ack_id (7, sub_new (sample_config True)) sample_keyed = ([], 7, sample_keyed_state)"
    by simp
  have "length ([] :: string list) + length (po_received out) < 2 ^ 64"
    using arg_cong [OF m, of length] by simp
  from pull_respects_order [OF _ r p this] r p m show ?thesis
    by (simp add: pull_base_def) blast
qed

section \<open>The redelivery backoff\<close>

lemma double_backoff_eq:
  assumes "0 < a" "a \<le> b" "i_ok 128 b"
  shows "double_backoff k b a = min b (a * 2 ^ k)"
  using assms
proof (induction k arbitrary: a)
  case (Suc k)
  show ?case
  proof (cases "b \<le> a")
    case True
    with Suc.prems show ?thesis
      using mult_left_mono [OF one_le_power [of "2::int" "Suc k"], of a] by (simp add: min_def)
  next
    case False
    have s: "min (saturating_i 128 (a * 2)) b = min (a * 2) b"
      using Suc.prems by (auto simp: saturating_i_nonneg i_ok_def min_def)
    have "double_backoff k b (min (a * 2) b) = min b (min (a * 2) b * 2 ^ k)"
      using Suc.prems by (intro Suc.IH) auto
    also have "\<dots> = min b (a * 2 ^ Suc k)"
    proof (cases "a * 2 \<le> b")
      case le: False
      have "b \<le> b * 2 ^ k" "a * 2 \<le> a * 2 * 2 ^ k"
        using Suc.prems mult_left_mono [OF one_le_power [of "2::int" k], of b]
          mult_left_mono [OF one_le_power [of "2::int" k], of "a * 2"] by simp_all
      with le show ?thesis by (simp add: min_def)
    qed (simp add: min_def)
    finally show ?thesis using False by (simp add: s)
  qed
qed (simp add: min_def)

text \<open>For a configuration the validation accepts, the redelivery delay after attempt \<open>n\<close> is the
  least of the maximum and the minimum doubled \<open>n - 1\<close> times, without overflow whatever
  the attempt; it never exceeds ten minutes. The delay is zero when the minimum is.\<close>

theorem redelivery_backoff_exact:
  assumes "config_validate c = Ok ()" "sc_retry_policy c = Some rp"
  shows "redelivery_backoff c attempt push_minimum = min (bp_maximum rp) (bp_minimum rp * 2 ^ (attempt - 1))
    \<and> 0 \<le> redelivery_backoff c attempt push_minimum
    \<and> redelivery_backoff c attempt push_minimum \<le> duration_from_seconds 600"
proof -
  let ?a = "bp_minimum rp" and ?b = "bp_maximum rp"
  have v: "0 \<le> ?a" "?a \<le> ?b" "?b \<le> duration_from_seconds 600"
    using assms(1,2) by (auto simp: config_validate_def validate_retry_def when_some_def and_then_eq_Inr
        max_retry_backoff_seconds_def split: if_splits)
  show ?thesis
  proof (cases "?a = 0")
    case True
    with assms(2) v show ?thesis by (auto simp: redelivery_backoff_def min_def)
  next
    case False
    with v have ab: "0 < ?a" "?a \<le> ?b" by auto
    have b: "?b \<le> 600000000000" "i_ok 128 ?b" using v by (simp_all add: duration_from_seconds_def i_ok_def i_min_def i_max_def)
    have "min ?b (?a * 2 ^ min k 127) = min ?b (?a * 2 ^ k)" for k :: nat
    proof (cases "k \<le> 127")
      case False
      then have "(2 :: int) ^ 127 \<le> 2 ^ k" by (intro power_increasing) auto
      moreover have "?b \<le> ?a * 2 ^ 127" "?a * 2 ^ 127 \<le> ?a * 2 ^ k" using ab b calculation by auto
      ultimately show ?thesis using False by (simp add: min_def)
    qed (simp add: min_def)
    with double_backoff_eq [OF ab b(2)] have
      "redelivery_backoff c attempt push_minimum = min ?b (?a * 2 ^ (attempt - 1))"
      using assms(2) ab by (simp add: redelivery_backoff_def)
    then show ?thesis using ab v(3) by (auto simp: min_def)
  qed
qed


theorem redelivery_backoff_exact_witness:
  "let rp = \<lparr>bp_minimum = 10000000000, bp_maximum = 60000000000\<rparr>;
       c = (sample_config False)\<lparr>sc_retry_policy := Some rp\<rparr>
   in config_validate c = Ok () \<and> redelivery_backoff c 3 0 = 40000000000
      \<and> redelivery_backoff c 4 0 = 60000000000"
proof -
  let ?rp = "\<lparr>bp_minimum = 10000000000, bp_maximum = 60000000000\<rparr>"
  let ?c = "(sample_config False)\<lparr>sc_retry_policy := Some ?rp\<rparr>"
  have v: "config_validate ?c = Ok ()"
    by (simp add: config_validate_def sample_config_def when_some_def validate_retry_def max_ack_deadline_seconds_def
        max_retry_backoff_seconds_def duration_from_seconds_def)
  with redelivery_backoff_exact [OF v, of ?rp 3 0] redelivery_backoff_exact [OF v, of ?rp 4 0]
  show ?thesis by (simp add: Let_def)
qed

section \<open>Lapsed leases\<close>

definition requeued :: "subscription_state \<Rightarrow> logical_instant \<Rightarrow> entry \<Rightarrow> entry" where
  "requeued s now e = e\<lparr>en_state := Available (requeue_at s now (en_attempt e))\<rparr>"

lemma requeued_simps [simp]: "ack_of (requeued s now e) = None" "en_stored (requeued s now e) = en_stored e"
  by (simp_all add: requeued_def)

lemma expire_one_entries:
  assumes "sub_inv s"
  shows "ss_entries (expire_one now s a) = map (\<lambda>e. if ack_of e = Some a then requeued s now e else e) (ss_entries s)"
proof (cases "bm_get (ss_outstanding s) a")
  case None
  with indexed_None [OF sub_inv_facts(5) [OF assms]] have "\<forall>e\<in>set (ss_entries s). ack_of e \<noteq> Some a"
    by (metis in_set_conv_nth)
  with None show ?thesis by (simp add: expire_one_def map_idI)
next
  case (Some i)
  note ix = sub_inv_facts(5) [OF assms]
  have "ack_of (ss_entries s ! k) = Some a \<longleftrightarrow> k = i" if "k < length (ss_entries s)" for k
    using indexed_get [OF ix that, of a] indexedD [OF ix Some] Some by auto
  with Some show ?thesis
    by (auto simp: expire_one_def requeued_def nth_update_any intro!: nth_equalityI)
qed

lemma expire_one_inv: "sub_inv s \<Longrightarrow> sub_inv (expire_one now s a)"
  by (simp add: expire_one_def requeue_inv split: option.split)

lemma requeued_cong:
  "ss_config t = ss_config s \<Longrightarrow> ss_push_minimum t = ss_push_minimum s \<Longrightarrow> requeued t = requeued s"
  by (simp add: fun_eq_iff requeued_def requeue_at_def)

lemma expire_one_requeued: "requeued (expire_one now s a) = requeued s"
  by (rule requeued_cong) (simp_all add: expire_one_def split: option.split)

lemma expire_ids_entries:
  "sub_inv s \<Longrightarrow> ss_entries (foldl (expire_one now) s ids) =
     map (\<lambda>e. if \<exists>a\<in>set ids. ack_of e = Some a then requeued s now e else e) (ss_entries s)"
proof (induction ids arbitrary: s)
  case (Cons a ids)
  show ?case
    using Cons.IH [OF expire_one_inv [OF Cons.prems], of now a]
    by (simp add: expire_one_requeued expire_one_entries [OF Cons.prems])
qed simp

lemma expire_config: "ss_config (expire_deadlines now s) = ss_config s"
proof -
  have "ss_config (foldl (expire_one now) s ids) = ss_config s" for ids
    by (induction ids arbitrary: s) (simp_all add: expire_one_def split: option.split)
  then show ?thesis by (simp add: expire_deadlines_def)
qed

lemma lapsed_ids:
  assumes "indexed (ss_entries s) (ss_outstanding s)" "i < length (ss_entries s)" "ack_of (ss_entries s ! i) = Some a"
  shows "a \<in> set (map fst (filter (\<lambda>(_, i). lapsed s now i) (ss_outstanding s))) \<longleftrightarrow> lapsed s now i"
proof -
  have wf: "bm_wf (ss_outstanding s)" using assms(1) unfolding indexed_def by blast
  have "a \<in> set (map fst (filter (\<lambda>(_, i). lapsed s now i) ps)) \<longleftrightarrow> (\<exists>j. (a, j) \<in> set ps \<and> lapsed s now j)" for ps
    by (induction ps) auto
  then have "a \<in> set (map fst (filter (\<lambda>(_, i). lapsed s now i) (ss_outstanding s)))
      \<longleftrightarrow> (\<exists>j. bm_get (ss_outstanding s) a = Some j \<and> lapsed s now j)"
    unfolding bm_get_eq_Some [OF wf] .
  with indexed_get [OF assms] show ?thesis by simp
qed

lemma expire_entries:
  assumes "sub_inv s"
  shows "ss_entries (expire_deadlines now s) =
    map (\<lambda>e. case en_state e of Outstanding _ d \<Rightarrow> if d \<le> now then requeued s now e else e | _ \<Rightarrow> e) (ss_entries s)"
  unfolding expire_deadlines_def expire_ids_entries [OF assms]
proof (rule map_cong [OF refl])
  let ?ids = "map fst (filter (\<lambda>(_, i). lapsed s now i) (ss_outstanding s))"
  fix e
  assume "e \<in> set (ss_entries s)"
  then obtain i where i: "i < length (ss_entries s)" "e = ss_entries s ! i" unfolding in_set_conv_nth by blast
  note ids = lapsed_ids [OF sub_inv_facts(5) [OF assms] i(1), folded i(2)]
  show "(if \<exists>a\<in>set ?ids. ack_of e = Some a then requeued s now e else e)
      = (case en_state e of Outstanding _ d \<Rightarrow> if d \<le> now then requeued s now e else e | _ \<Rightarrow> e)"
  proof (cases "en_state e")
    case (Outstanding a d)
    then have "(\<exists>a\<in>set ?ids. ack_of e = Some a) \<longleftrightarrow> a \<in> set ?ids" by simp
    also have "\<dots> \<longleftrightarrow> d \<le> now" unfolding ids [OF ack_of_simps(4) [OF Outstanding]]
      using Outstanding by (simp add: lapsed_def i(2) [symmetric])
    finally show ?thesis using Outstanding by simp
  qed simp_all
qed


text \<open>When every unacknowledged entry is due, the pull takes the whole backlog.\<close>

definition due_after :: "subscription_state \<Rightarrow> logical_instant \<Rightarrow> logical_instant \<Rightarrow> entry \<Rightarrow> bool" where
  "due_after s t t' e =
     (case en_state e of
        Available at \<Rightarrow> at \<le> t'
      | Outstanding _ d \<Rightarrow> d \<le> t \<and> requeue_at s t (en_attempt e) \<le> t'
      | Acked \<Rightarrow> True | ForwardPending \<Rightarrow> True)"

lemma due_ready:
  assumes "sub_inv s" "\<forall>e\<in>set (ss_entries s). due_after s t t' e"
    and "e \<in> set (ss_entries (pull_base False t' (expire_deadlines t s)))"
  shows "is_ready t' e \<longleftrightarrow> \<not> is_acked e"
proof -
  obtain e0 where e0: "e0 \<in> set (ss_entries s)"
    "e = (\<lambda>e. if en_state e = ForwardPending then e\<lparr>en_state := Available t'\<rparr> else e)
      (case en_state e0 of Outstanding _ d \<Rightarrow> if d \<le> t then requeued s t e0 else e0 | _ \<Rightarrow> e0)"
    using assms(3) by (auto simp: pull_base_def revoke_forwards_def expire_entries [OF assms(1)])
  have "due_after s t t' e0" using assms(2) e0(1) by blast
  then show ?thesis
    by (cases "en_state e0") (auto simp: e0(2) due_after_def is_ready_def requeued_def)
qed

lemma filter_nth_map: "map (\<lambda>k. f (xs ! k)) (filter (\<lambda>k. P (xs ! k)) [0..<length xs]) = map f (filter P xs)"
proof -
  have "map f (filter P (map ((!) xs) [0..<length xs])) = map (\<lambda>k. f (xs ! k)) (filter (\<lambda>k. P (xs ! k)) [0..<length xs])"
    by (simp add: filter_map comp_def del: map_nth)
  then show ?thesis by (simp add: map_nth)
qed

lemma pull_all_due:
  assumes "sub_inv s" "\<not> sc_enable_message_ordering (ss_config s)" "\<forall>e\<in>set (ss_entries s). is_ready t e \<longleftrightarrow> \<not> is_acked e"
    and "length (backlog s) \<le> n" "handed_out s out (sel_selected (plan_pull (make_plan s n t False b) s))"
  shows "map rm_message (po_received out) = backlog s"
proof -
  let ?p = "make_plan s n t False b" and ?es = "ss_entries s"
  have "filter (\<lambda>k. deliverable ?p (?es ! k)) [0..<length ?es] = filter (\<lambda>k. \<not> is_acked (?es ! k)) [0..<length ?es]"
    using assms(3) by (intro filter_cong) (auto simp: deliverable_def exhausted_def make_plan_def Let_def)
  moreover have b: "map (\<lambda>k. en_stored (?es ! k)) (filter (\<lambda>k. \<not> is_acked (?es ! k)) [0..<length ?es]) = backlog s"
    unfolding backlog_def by (rule filter_nth_map)
  moreover have "length (filter (\<lambda>k. \<not> is_acked (?es ! k)) [0..<length ?es]) = length (backlog s)"
    using arg_cong [OF b, of length] by (simp only: length_map)
  ultimately have "map (\<lambda>k. en_stored (?es ! k)) (sel_selected (plan_pull ?p s)) = backlog s"
    using plan_unordered [OF assms(1), of ?p] assms(2,4) by simp
  with assms(5) show ?thesis by (simp add: handed_out_def)
qed

text \<open>C9: Delivery is at least once. After any history of an unordered subscription, once the ack
  deadlines of all leases and then the redelivery backoffs have passed, a pull with room for the
  backlog (its storage admitted, no transfer to a dead-letter topic authorised) hands out every
  message published and not acknowledged, in log order.\<close>

theorem backlog_redelivered:
  assumes "list_all op_fits ops" "sub_run registry_ack_id (rng, sub_new config) ops = (ids, rng1, s)"
    and "\<not> sc_enable_message_ordering (ss_config s)"
    and "\<forall>e\<in>set (ss_entries s). due_after s t t' e" "length (backlog s) \<le> n" "\<And>ms. admit ms"
    and "pull_with_admission n t' False batching registry_ack_id admit rng1 (expire_deadlines t s) = (out, rng2, s')"
    and "length ids + length (po_received out) < 2 ^ 64"
  shows "map rm_message (po_received out) = backlog s"
proof -
  let ?s = "expire_deadlines t s"
  have ops: "list_all op_fits (ops @ [ExpireDeadlines t])"
    "sub_run registry_ack_id (rng, sub_new config) (ops @ [ExpireDeadlines t]) = (ids, rng1, ?s)"
    using assms(1,2) by (simp_all add: sub_run_snoc)
  note fresh = registry_pull_fresh [OF ops assms(7,8)]
  have inv: "sub_inv s" using registry_run_inv [OF assms(1,2)] assms(8) by simp
  have base: "sub_inv (pull_base False t' ?s)" "backlog (pull_base False t' ?s) = backlog s"
    using fresh(1) by (simp_all add: pull_base_facts backlog_resume backlog_expire [OF inv])
  have "ss_config ?s = ss_config s" by (rule expire_config)
  then have cfg: "\<not> sc_enable_message_ordering (ss_config (pull_base False t' ?s))"
    using assms(3) by (simp add: pull_base_facts)
  show ?thesis
  proof (cases "n = 0")
    case True
    then show ?thesis using assms(5,7) by (auto simp: pull_with_admission_def Let_def)
  next
    case False
    with pull_handed_out(2) [OF fresh(1) assms(7) fresh(2,3) assms(6)] have
      "handed_out (pull_base False t' ?s) out
        (sel_selected (plan_pull (make_plan (pull_base False t' ?s) n t' False batching) (pull_base False t' ?s)))"
      by simp
    from pull_all_due [OF base(1) cfg _ _ this] due_ready [OF inv assms(4)] base(2) assms(5)
    show ?thesis by simp
  qed
qed


abbreviation sample_leased :: subscription_state where
  "sample_leased \<equiv> snd (snd (sub_run registry_ack_id (7, sub_new (sample_config False)) sample_ops))"

lemma sample_redelivery:
  "length (po_received (fst (pull_with_admission 1 10000000000 False Mixed registry_ack_id (\<lambda>_. True) rng
     (expire_deadlines 10000000000 sample_leased)))) = 1"
  unfolding sample_state
  by (simp add: sample_defs expire_deadlines_def lapsed_def expire_one_def set_state_def requeue_at_def
      redelivery_backoff_def bm_remove_def Let_def split: prod.split)

theorem backlog_redelivered_witness:
  "\<exists>rng1 out rng2 s'. sub_run registry_ack_id (7, sub_new (sample_config False)) sample_ops
      = ([fst (registry_ack_id 7)], rng1, sample_leased)
    \<and> pull_with_admission 1 10000000000 False Mixed registry_ack_id (\<lambda>_. True) rng1
        (expire_deadlines 10000000000 sample_leased) = (out, rng2, s')
    \<and> map rm_message (po_received out) = [sample_ref 0 []]"
proof -
  obtain rng1 where r: "sub_run registry_ack_id (7, sub_new (sample_config False)) sample_ops
      = ([fst (registry_ack_id 7)], rng1, sample_leased)"
    using sample_sub_run by (metis prod.collapse)
  obtain out rng2 s' where p: "pull_with_admission 1 10000000000 False Mixed registry_ack_id (\<lambda>_. True) rng1
      (expire_deadlines 10000000000 sample_leased) = (out, rng2, s')"
    by (metis prod_cases3)
  have "map rm_message (po_received out) = backlog sample_leased"
  proof (rule backlog_redelivered [OF _ r _ _ _ _ p])
    show "\<forall>e\<in>set (ss_entries sample_leased). due_after sample_leased 10000000000 10000000000 e"
      unfolding sample_state
      by (simp add: due_after_def requeue_at_def redelivery_backoff_def sample_defs)
    show "length [fst (registry_ack_id 7)] + length (po_received out) < 2 ^ 64"
      using sample_redelivery [of rng1] p by simp
  qed (unfold sample_state, simp_all add: backlog_def sample_config_def sub_new_def)
  moreover have "backlog sample_leased = [sample_ref 0 []]"
    unfolding sample_state by (simp add: backlog_def)
  ultimately show ?thesis using r p by metis
qed

end
