(* ===== verification/Bytes.thy ===== *)
theory Bytes
  imports Prelude
begin

text \<open>
  Big-endian bytes of an unsigned integer (\<open>to_be_bytes\<close>) and groups of six bits printed in an
  alphabet of 64 characters, as the tokens of the sources print them.
\<close>

section \<open>Digits\<close>

lemma digits_eq:
  "(\<And>i. i < k \<Longrightarrow> (m :: nat) div b ^ i mod b = n div b ^ i mod b) \<Longrightarrow> m mod b ^ k = n mod b ^ k"
proof (induction k)
  case (Suc k)
  have "m mod b ^ Suc k = b ^ k * (m div b ^ k mod b) + m mod b ^ k" for m :: nat
    by (metis mod_mult2_eq mult.commute power_Suc)
  with Suc show ?case by (metis less_Suc_eq)
qed simp

text \<open>The \<open>k\<close> low bytes of \<open>n\<close>, most significant first.\<close>

definition be_bytes :: "nat \<Rightarrow> nat \<Rightarrow> nat list" where
  "be_bytes k n = map (\<lambda>i. n div 256 ^ i mod 256) (rev [0..<k])"

lemma length_be_bytes [simp]: "length (be_bytes k n) = k"
  by (simp add: be_bytes_def)

lemma be_bytes_bound: "b \<in> set (be_bytes k n) \<Longrightarrow> b < 256"
  by (auto simp: be_bytes_def)

lemma be_bytes_inj:
  assumes "be_bytes k m = be_bytes k n" "m < 256 ^ k" "n < 256 ^ k"
  shows "m = n"
proof -
  have "m div 256 ^ i mod 256 = n div 256 ^ i mod 256" if "i < k" for i
    using assms(1) that by (simp add: be_bytes_def)
  from digits_eq [OF this] have "m mod 256 ^ k = n mod 256 ^ k" by blast
  with assms(2,3) show ?thesis by simp
qed

section \<open>Six bits at a time\<close>

text \<open>A group of three bytes as one number, and its four digits.\<close>

definition triple :: "nat \<Rightarrow> nat \<Rightarrow> nat \<Rightarrow> nat" where
  "triple a b c = a * 65536 + b * 256 + c"

definition six_bits :: "string \<Rightarrow> nat \<Rightarrow> nat \<Rightarrow> char" where
  "six_bits alphabet n shift = alphabet ! (n div 2 ^ shift mod 64)"

lemma triple_inj:
  assumes "triple a b c = triple a' b' c'" "b < 256" "b' < 256" "c < 256" "c' < 256"
  shows "a = a'" "b = b'" "c = c'"
proof -
  have low: "x = x' \<and> y = y'" if "x * 256 + y = x' * 256 + y'" "y < 256" "y' < 256" for x y x' y' :: nat
    using arg_cong [OF that(1), of "\<lambda>n. n div 256"] arg_cong [OF that(1), of "\<lambda>n. n mod 256"] that(2,3)
    by simp
  have "(a * 256 + b) * 256 + c = (a' * 256 + b') * 256 + c'"
    using assms(1) by (simp add: triple_def algebra_simps)
  from low [OF this assms(4,5)] low [of a b a' b'] assms(2,3)
  show "a = a'" "b = b'" "c = c'" by simp_all
qed

lemma six_bits_inj:
  assumes "distinct alphabet" "length alphabet = 64"
    and "\<And>s. s \<in> {18, 12, 6, 0} \<Longrightarrow> six_bits alphabet m s = six_bits alphabet n s"
    and "m < 2 ^ 24" "n < 2 ^ 24"
  shows "m = n"
proof -
  have d: "m div 2 ^ s mod 64 = n div 2 ^ s mod 64" if "s \<in> {18, 12, 6, 0}" for s
    using assms(3) [OF that] assms(1,2) by (simp add: six_bits_def nth_eq_iff_index_eq)
  have "m div 64 ^ i mod 64 = n div 64 ^ i mod 64" if "i < 4" for i
  proof -
    have "i = 0 \<or> i = 1 \<or> i = 2 \<or> i = 3" using that by arith
    then show ?thesis using d [of 0] d [of 6] d [of 12] d [of 18] by auto
  qed
  from digits_eq [OF this] have "m mod 64 ^ 4 = n mod 64 ^ 4" by blast
  with assms(4,5) show ?thesis by simp
qed

end
