(* ===== verification/Ps_Iam.thy ===== *)
theory Ps_Iam
  imports Bytes BTree Ps_Message
begin

text \<open>
  Access policies of Pub/Sub resources (crates/fireemu-core-pubsub/src/iam.rs): role bindings
  replaced by compare-and-swap on an opaque etag. Etags encode the incarnation of the resource
  and the revision of its policy; no two policies of a registry share one.
\<close>

record policy_binding =
  pb_role :: string
  pb_members :: "string list"

record resource_policy =
  rp_version :: "nat option"
  rp_bindings :: "policy_binding list"
  rp_etag :: string

record policy_state =
  pl_incarnation :: nat
  pl_revision :: nat
  pl_policy :: resource_policy

definition etag_alphabet :: string where
  "etag_alphabet = ''ABCDEFGHIJKLMNOPQRSTUVWXYZabcdefghijklmnopqrstuvwxyz0123456789+/''"

text \<open>\<open>chunks_exact(3)\<close>: a remainder shorter than three bytes is left out.\<close>

fun etag :: "nat list \<Rightarrow> string" where
  "etag (a # b # c # rest) = map (six_bits etag_alphabet (triple a b c)) [18, 12, 6, 0] @ etag rest"
| "etag _ = []"

definition policy_new :: "nat \<Rightarrow> policy_state" where
  "policy_new incarnation =
     \<lparr>pl_incarnation = incarnation, pl_revision = 0,
      pl_policy = \<lparr>rp_version = None, rp_bindings = [], rp_etag = etag (be_bytes 3 incarnation)\<rparr>\<rparr>"

definition policy_get :: "policy_state \<Rightarrow> resource_policy" where
  "policy_get p = pl_policy p"

definition policy_set ::
    "string \<Rightarrow> nat option \<Rightarrow> policy_binding list \<Rightarrow> policy_state \<Rightarrow> (code, resource_policy) result \<times> policy_state" where
  "policy_set expected version bindings p =
     (if expected \<noteq> rp_etag (pl_policy p) then (Err FailedPrecondition, p)
      else if version \<notin> {None, Some 0, Some 1, Some 3} then (Err InvalidArgument, p)
      else case checked_add_u 64 (pl_revision p) 1 of
             None \<Rightarrow> (Err ResourceExhausted, p)
           | Some revision \<Rightarrow>
               if \<not> revision < 2 ^ 48 then (Err ResourceExhausted, p)
               else let p' = p\<lparr>pl_revision := revision,
                              pl_policy := \<lparr>rp_version = Some 1, rp_bindings = bindings,
                                rp_etag = etag (be_bytes 3 (pl_incarnation p) @ be_bytes 6 revision)\<rparr>\<rparr>
                    in (Ok (policy_get p'), p'))"

definition policy_grants :: "policy_state \<Rightarrow> string \<Rightarrow> string \<Rightarrow> bool" where
  "policy_grants p role member =
     list_ex (\<lambda>b. pb_role b = role \<and> list_ex (\<lambda>m. m = member) (pb_members b)) (rp_bindings (pl_policy p))"

section \<open>Etags are injective\<close>

lemma etag_alphabet_ok: "distinct etag_alphabet" "length etag_alphabet = 64"
  by (simp_all add: etag_alphabet_def)

lemma etag_inj:
  assumes "length xs = length ys" "3 dvd length xs" "\<forall>b\<in>set xs \<union> set ys. b < 256" "etag xs = etag ys"
  shows "xs = ys"
  using assms
proof (induction xs arbitrary: ys rule: etag.induct)
  case (1 a b c rest)
  obtain a' b' c' rest' where ys: "ys = a' # b' # c' # rest'"
    using "1.prems"(1) by (cases ys rule: etag.cases) auto
  have bounds: "triple a b c < 2 ^ 24" "triple a' b' c' < 2 ^ 24"
    using "1.prems"(3) by (auto simp: ys triple_def)
  have "triple a b c = triple a' b' c'"
    by (rule six_bits_inj [OF etag_alphabet_ok _ bounds]) (use "1.prems"(4) ys in auto)
  with "1.prems"(3) have "a = a'" "b = b'" "c = c'" by (auto simp: ys dest: triple_inj)
  moreover have "3 dvd length rest" using "1.prems"(2) unfolding list.size(4) by presburger
  then have "rest = rest'"
    using "1.prems" by (intro "1.IH") (auto simp: ys)
  ultimately show ?case by (simp add: ys)
qed (auto simp: dvd_def, presburger+)

lemma length_etag: "length (etag bs) = 4 * (length bs div 3)"
  by (induction bs rule: etag.induct) (auto simp: div_add_self1)

text \<open>The etag of revision \<open>r\<close> of incarnation \<open>i\<close>.\<close>

definition etag_of :: "nat \<Rightarrow> nat \<Rightarrow> string" where
  "etag_of i r = (if r = 0 then etag (be_bytes 3 i) else etag (be_bytes 3 i @ be_bytes 6 r))"

lemma etag_of_inj:
  assumes "etag_of i r = etag_of j q" "i < 2 ^ 24" "j < 2 ^ 24" "r < 2 ^ 48" "q < 2 ^ 48"
  shows "i = j \<and> r = q"
proof -
  have z: "r = 0 \<longleftrightarrow> q = 0"
    using arg_cong [OF assms(1), of length] by (auto simp: etag_of_def length_etag split: if_splits)
  have bytes: "(if r = 0 then be_bytes 3 i else be_bytes 3 i @ be_bytes 6 r)
      = (if q = 0 then be_bytes 3 j else be_bytes 3 j @ be_bytes 6 q)"
    by (rule etag_inj) (use assms(1) z in \<open>auto simp: etag_of_def dest: be_bytes_bound split: if_splits\<close>)
  with z have "be_bytes 3 i = be_bytes 3 j" "r \<noteq> 0 \<Longrightarrow> be_bytes 6 r = be_bytes 6 q"
    by (auto split: if_splits)
  with assms(2-5) z show ?thesis
    using be_bytes_inj [of 3 i j] be_bytes_inj [of 6 r q] by auto
qed

section \<open>Compare and swap\<close>

definition policy_inv :: "policy_state \<Rightarrow> bool" where
  "policy_inv p \<longleftrightarrow> pl_incarnation p < 2 ^ 24 \<and> pl_revision p < 2 ^ 48
     \<and> rp_etag (pl_policy p) = etag_of (pl_incarnation p) (pl_revision p)"

lemma policy_new_inv: "i < 2 ^ 24 \<Longrightarrow> policy_inv (policy_new i)"
  by (simp add: policy_inv_def policy_new_def etag_of_def)

type_synonym policy_write = "string \<times> nat option \<times> policy_binding list"

definition policy_step :: "policy_state \<Rightarrow> policy_write \<Rightarrow> policy_state" where
  "policy_step p = (\<lambda>(e, v, bs). snd (policy_set e v bs p))"

lemma policy_step_inv: "policy_inv p \<Longrightarrow> policy_inv (policy_step p w)"
  by (cases w) (auto simp: policy_step_def policy_set_def policy_inv_def etag_of_def Let_def split: option.split)

lemma policy_step_mono: "pl_incarnation (policy_step p w) = pl_incarnation p \<and> pl_revision p \<le> pl_revision (policy_step p w)"
  by (cases w) (auto simp: policy_step_def policy_set_def Let_def split: option.split)

interpretation policy: monotone_machine policy_step policy_inv pl_revision
  by unfold_locales (simp_all add: policy_step_inv policy_step_mono)

lemma policy_exec_incarnation: "pl_incarnation (exec policy_step p ws) = pl_incarnation p"
  by (induction ws arbitrary: p) (simp_all add: policy_step_mono)

lemma policy_set_ok:
  "fst (policy_set e v bs p) = Ok rp \<Longrightarrow>
     e = rp_etag (pl_policy p) \<and> pl_revision (snd (policy_set e v bs p)) = Suc (pl_revision p)
     \<and> rp = pl_policy (snd (policy_set e v bs p)) \<and> rp_bindings rp = bs"
  by (auto simp: policy_set_def policy_get_def Let_def split: if_splits option.splits)

lemma policy_set_stale: "e \<noteq> rp_etag (pl_policy p) \<Longrightarrow> policy_set e v bs p = (Err FailedPrecondition, p)"
  by (simp add: policy_set_def)

lemma policy_set_err: "fst (policy_set e v bs p) = Err c \<Longrightarrow> snd (policy_set e v bs p) = p"
  by (auto simp: policy_set_def Let_def split: if_splits option.splits)

text \<open>C31: No update of a policy is lost. Two writers that read the same policy of a resource cannot
  both replace it: once one of them has, the etag the other read is refused, however many writes
  come between, and the refusal changes nothing. The same holds of an etag read from an earlier
  resource of that name.\<close>

theorem policy_compare_and_swap:
  fixes ws :: "policy_write list"
  assumes "policy_inv p" "fst (policy_set (rp_etag (pl_policy p)) v bs p) = Ok rp" "policy_inv q"
    and "pl_incarnation q \<noteq> pl_incarnation p"
  defines "later \<equiv> exec policy_step (snd (policy_set (rp_etag (pl_policy p)) v bs p)) ws"
  shows "rp_bindings rp = bs \<and> rp = pl_policy (snd (policy_set (rp_etag (pl_policy p)) v bs p))
    \<and> policy_set (rp_etag (pl_policy p)) v' bs' later = (Err FailedPrecondition, later)
    \<and> policy_set (rp_etag (pl_policy q)) v' bs' later = (Err FailedPrecondition, later)"
proof -
  let ?p1 = "snd (policy_set (rp_etag (pl_policy p)) v bs p)"
  note ok = policy_set_ok [OF assms(2)]
  have p1: "?p1 = policy_step p (rp_etag (pl_policy p), v, bs)" by (simp add: policy_step_def)
  then have inv: "policy_inv ?p1" "pl_incarnation ?p1 = pl_incarnation p"
    using policy_step_inv [OF assms(1)] policy_step_mono by metis+
  have l: "policy_inv later" "pl_incarnation later = pl_incarnation p" "pl_revision p < pl_revision later"
    using policy.exec_inv [OF inv(1), of ws] policy.exec_mono [OF inv(1), of ws] ok inv(2)
    by (simp_all add: later_def policy_exec_incarnation)
  have "rp_etag (pl_policy later) \<noteq> rp_etag (pl_policy p)" "rp_etag (pl_policy later) \<noteq> rp_etag (pl_policy q)"
    using l assms(1,3,4) etag_of_inj unfolding policy_inv_def by (metis less_irrefl)+
  with ok policy_set_stale show ?thesis by metis
qed

theorem policy_compare_and_swap_witness:
  "let p = policy_new 1; b = \<lparr>pb_role = ''roles/pubsub.publisher'', pb_members = [''user:a'']\<rparr>;
       p1 = snd (policy_set (rp_etag (pl_policy p)) None [b] p)
   in rp_bindings (pl_policy p1) = [b]
      \<and> policy_set (rp_etag (pl_policy p)) None [] p1 = (Err FailedPrecondition, p1)"
proof -
  let ?p = "policy_new 1" and ?b = "\<lparr>pb_role = ''roles/pubsub.publisher'', pb_members = [''user:a'']\<rparr>"
  let ?p1 = "snd (policy_set (rp_etag (pl_policy ?p)) None [?b] ?p)"
  have "fst (policy_set (rp_etag (pl_policy ?p)) None [?b] ?p) = Ok (pl_policy ?p1)"
    by (simp add: policy_set_def policy_new_def policy_get_def Let_def checked_add_u_def)
  note cas = policy_compare_and_swap [OF policy_new_inv this policy_new_inv [of 2], where ws = "[]" and v' = None and bs' = "[]"]
  have "pl_incarnation (policy_new 2) \<noteq> pl_incarnation (policy_new 1)" by (simp add: policy_new_def)
  with cas show ?thesis by (simp add: Let_def)
qed

end
