(* ===== verification/Ps_Paging.thy ===== *)
theory Ps_Paging
  imports Bytes Ps_Message
begin

text \<open>
  Pages of a listing (crates/fireemu-core-pubsub/src/pagination.rs), by the opaque cursors of
  the service and by the resource-name cursors of the emulator. A client that follows the tokens
  reads every resource once and comes to an end.
\<close>

unbundle bit_operations_syntax

datatype paging_policy = StrictPaging | EmulatorPaging

record 'a page =
  pg_resources :: "'a list"
  pg_next_page_token :: string

section \<open>Cursors\<close>

definition token_alphabet :: string where
  "token_alphabet = ''ABCDEFGHIJKLMNOPQRSTUVWXYZabcdefghijklmnopqrstuvwxyz0123456789-_''"

definition token_hash :: "64 word \<Rightarrow> string \<Rightarrow> 64 word" where
  "token_hash seed name = foldl (\<lambda>hash byte. (hash XOR of_nat (of_char byte)) * 0x100000001b3) seed name"

text \<open>Nineteen bytes: two whole hashes and the first three bytes of the third.\<close>

definition token_bytes :: "string \<Rightarrow> nat list" where
  "token_bytes name =
     be_bytes 8 (unat (token_hash 0xcbf29ce484222325 name))
     @ be_bytes 8 (unat (token_hash 0x84222325cbf29ce4 name))
     @ take 3 (be_bytes 8 (unat (token_hash 0x9e3779b97f4a7c15 name)))"

text \<open>\<open>chunks(3)\<close>: the last chunk may be shorter and prints one digit more than it has bytes.\<close>

fun token_text :: "nat list \<Rightarrow> string" where
  "token_text (a # b # c # rest) = map (six_bits token_alphabet (triple a b c)) [18, 12, 6, 0] @ token_text rest"
| "token_text [a, b] = map (six_bits token_alphabet (triple a b 0)) [18, 12, 6]"
| "token_text [a] = map (six_bits token_alphabet (triple a 0 0)) [18, 12]"
| "token_text [] = []"

definition opaque_token :: "string \<Rightarrow> string" where
  "opaque_token name = token_text (token_bytes name)"

section \<open>Pages\<close>

definition page_limit :: "paging_policy \<Rightarrow> int \<Rightarrow> (code, nat) result" where
  "page_limit policy page_size =
     (case policy of
        StrictPaging \<Rightarrow>
          if \<not> (0 \<le> page_size \<and> page_size \<le> 1000) then Err InvalidArgument
          else if page_size = 0 then Ok (u_max 64) else Ok (nat page_size)
      | EmulatorPaging \<Rightarrow> if page_size \<le> 0 then Ok 1000 else Ok (nat page_size))"

definition page_start ::
    "'a list \<Rightarrow> string \<Rightarrow> paging_policy \<Rightarrow> ('a \<Rightarrow> string) \<Rightarrow> string option \<Rightarrow> (code, nat) result" where
  "page_start resources page_token policy name issued_boundary =
     (if page_token = [] then Ok 0
      else case policy of
             StrictPaging \<Rightarrow>
               (case position (\<lambda>r. opaque_token (name r) = page_token) resources of
                  Some i \<Rightarrow> Ok (i + 1)
                | None \<Rightarrow>
                    (case issued_boundary of
                       Some boundary \<Rightarrow>
                         Ok (case position (\<lambda>r. name r > boundary) resources of
                               Some i \<Rightarrow> i | None \<Rightarrow> length resources)
                     | None \<Rightarrow> Err InvalidArgument))
           | EmulatorPaging \<Rightarrow>
               Ok (case position (\<lambda>r. name r \<ge> page_token) resources of
                     Some i \<Rightarrow> i | None \<Rightarrow> length resources))"

definition paginate_after ::
    "'a list \<Rightarrow> int \<Rightarrow> string \<Rightarrow> paging_policy \<Rightarrow> ('a \<Rightarrow> string) \<Rightarrow> string option \<Rightarrow> (code, 'a page) result" where
  "paginate_after resources page_size page_token policy name issued_boundary =
     and_then (page_limit policy page_size) (\<lambda>limit.
     and_then (page_start resources page_token policy name issued_boundary) (\<lambda>start.
       let end' = min (saturating_add_u 64 start limit) (length resources);
           next_page_token =
             (if end' < length resources
              then (case policy of
                      StrictPaging \<Rightarrow> opaque_token (name (resources ! (end' - 1)))
                    | EmulatorPaging \<Rightarrow> name (resources ! end'))
              else [])
       in Ok \<lparr>pg_resources = take limit (drop start resources), pg_next_page_token = next_page_token\<rparr>))"

definition paginate :: "'a list \<Rightarrow> int \<Rightarrow> string \<Rightarrow> paging_policy \<Rightarrow> ('a \<Rightarrow> string) \<Rightarrow> (code, 'a page) result" where
  "paginate resources page_size page_token policy name =
     paginate_after resources page_size page_token policy name None"

section \<open>A client that follows the tokens\<close>

text \<open>The pages a client collects with at most \<open>fuel\<close> requests; None when it has not come to the end.\<close>

fun read_pages :: "nat \<Rightarrow> 'a list \<Rightarrow> int \<Rightarrow> paging_policy \<Rightarrow> ('a \<Rightarrow> string) \<Rightarrow> string \<Rightarrow> 'a list option" where
  "read_pages 0 resources page_size policy name token = None"
| "read_pages (Suc fuel) resources page_size policy name token =
     (case paginate resources page_size token policy name of
        Inl _ \<Rightarrow> None
      | Inr page \<Rightarrow>
          if pg_next_page_token page = [] then Some (pg_resources page)
          else map_option ((@) (pg_resources page))
                 (read_pages fuel resources page_size policy name (pg_next_page_token page)))"

text \<open>The token that stands for index \<open>i\<close> of a listing.\<close>

definition token_at :: "'a list \<Rightarrow> paging_policy \<Rightarrow> ('a \<Rightarrow> string) \<Rightarrow> nat \<Rightarrow> string" where
  "token_at resources policy name i =
     (if i = 0 then []
      else case policy of
             StrictPaging \<Rightarrow> opaque_token (name (resources ! (i - 1)))
           | EmulatorPaging \<Rightarrow> name (resources ! i))"

definition listing_ok :: "'a list \<Rightarrow> paging_policy \<Rightarrow> ('a \<Rightarrow> string) \<Rightarrow> bool" where
  "listing_ok resources policy name \<longleftrightarrow>
     sorted_wrt (<) (map name resources) \<and> list_all (\<lambda>r. name r \<noteq> []) resources
     \<and> length resources < 2 ^ 64
     \<and> (policy = StrictPaging \<longrightarrow> distinct (map (\<lambda>r. opaque_token (name r)) resources))"

lemma position_eqI: "i < length xs \<Longrightarrow> P (xs ! i) \<Longrightarrow> (\<And>j. j < i \<Longrightarrow> \<not> P (xs ! j)) \<Longrightarrow> position P xs = Some i"
proof (induction xs arbitrary: i)
  case (Cons x xs)
  show ?case
  proof (cases i)
    case (Suc k)
    have "position P xs = Some k"
      using Cons.prems Suc Cons.prems(3) [of "Suc j" for j] by (intro Cons.IH) auto
    with Cons.prems(3) [of 0] Suc show ?thesis by simp
  qed (use Cons.prems in simp)
qed simp

lemma token_bytes_length: "length (token_bytes name) = 19"
  by (simp add: token_bytes_def)

lemma token_text_not_Nil: "bs \<noteq> [] \<Longrightarrow> token_text bs \<noteq> []"
  by (cases bs rule: token_text.cases) auto

lemma opaque_token_not_Nil [simp]: "opaque_token name \<noteq> []"
  unfolding opaque_token_def
  by (rule token_text_not_Nil) (use token_bytes_length [of name] in \<open>auto simp del: token_text.simps\<close>)

lemma page_start_at:
  assumes "listing_ok resources policy name" "i < length resources"
  shows "page_start resources (token_at resources policy name i) policy name None = Ok i"
proof (cases "i = 0")
  case False
  show ?thesis
  proof (cases policy)
    case StrictPaging
    have "position (\<lambda>r. opaque_token (name r) = opaque_token (name (resources ! (i - 1)))) resources = Some (i - 1)"
      using assms StrictPaging False
      by (intro position_eqI) (auto simp: listing_ok_def distinct_conv_nth)
    with False StrictPaging show ?thesis by (simp add: page_start_def token_at_def)
  next
    case EmulatorPaging
    have less: "name (resources ! j) < name (resources ! i)" if "j < i" for j
      using assms that by (auto simp: listing_ok_def sorted_wrt_map sorted_wrt_iff_nth_less)
    have "position (\<lambda>r. name r \<ge> name (resources ! i)) resources = Some i"
      using assms(2) less by (intro position_eqI) (auto simp: not_le)
    moreover have "name (resources ! i) \<noteq> []"
      using assms by (auto simp: listing_ok_def list_all_length)
    ultimately show ?thesis using False EmulatorPaging by (simp add: page_start_def token_at_def)
  qed
qed (simp add: page_start_def token_at_def)

lemma paginate_at:
  assumes "listing_ok resources policy name" "i < length resources \<or> i = 0" "page_limit policy page_size = Ok limit"
  shows "paginate resources page_size (token_at resources policy name i) policy name = Ok
    \<lparr>pg_resources = take limit (drop i resources),
     pg_next_page_token = (if i + limit < length resources then token_at resources policy name (i + limit) else [])\<rparr>"
proof -
  have start: "page_start resources (token_at resources policy name i) policy name None = Ok i"
  proof (cases "i = 0")
    case False
    with assms(2) show ?thesis using page_start_at [OF assms(1)] by blast
  qed (simp add: page_start_def token_at_def)
  have "0 < limit"
    using assms(3) by (auto simp: page_limit_def u_max_def split: paging_policy.splits if_splits)
  moreover have "min (saturating_add_u 64 i limit) (length resources) = min (i + limit) (length resources)"
    using assms(1) by (auto simp: listing_ok_def saturating_add_u_def u_max_def min_def)
  ultimately show ?thesis
    using start assms(3) by (auto simp: paginate_def paginate_after_def Let_def token_at_def min_def split: paging_policy.split)
qed

lemma read_pages_from:
  assumes "listing_ok resources policy name" "page_limit policy page_size = Ok limit"
    and "i < length resources \<or> i = 0" "length resources - i < fuel"
  shows "read_pages fuel resources page_size policy name (token_at resources policy name i) = Some (drop i resources)"
  using assms(3,4)
proof (induction fuel arbitrary: i)
  case (Suc fuel)
  have pos: "0 < limit"
    using assms(2) by (auto simp: page_limit_def u_max_def split: paging_policy.splits if_splits)
  note page = paginate_at [OF assms(1) Suc.prems(1) assms(2)]
  show ?case
  proof (cases "i + limit < length resources")
    case True
    have "read_pages fuel resources page_size policy name (token_at resources policy name (i + limit)) = Some (drop (i + limit) resources)"
      using True pos Suc.prems(2) by (intro Suc.IH) auto
    moreover have "token_at resources policy name (i + limit) \<noteq> []"
      using True pos assms(1) by (auto simp: token_at_def listing_ok_def list_all_length split: paging_policy.split)
    moreover have "take limit (drop i resources) @ drop (i + limit) resources = drop i resources"
      by (metis add.commute append_take_drop_id drop_drop)
    ultimately show ?thesis using True by (simp add: page)
  next
    case False
    then show ?thesis by (simp add: page)
  qed
qed simp

text \<open>C32: A client that starts without a token and follows the next-page tokens of an unchanged
  listing reads every resource exactly once, in name order, and comes to the end: after at most
  one request more than there are resources there is no further token. This holds for both
  policies and every page size the policy accepts, for the opaque cursors as long as no two names
  of the listing share one.\<close>

theorem pages_cover_listing:
  assumes "listing_ok resources policy name" "page_limit policy page_size = Ok limit"
  shows "read_pages (Suc (length resources)) resources page_size policy name [] = Some resources"
  using read_pages_from [OF assms, of 0 "Suc (length resources)"] by (simp add: token_at_def del: read_pages.simps)

theorem pages_cover_listing_witness:
  "listing_ok [''a'', ''b'', ''c''] EmulatorPaging (\<lambda>r. r) \<and> page_limit EmulatorPaging 2 = Ok 2
   \<and> read_pages 4 [''a'', ''b'', ''c''] 2 EmulatorPaging (\<lambda>r. r) [] = Some [''a'', ''b'', ''c'']"
proof -
  have "listing_ok [''a'', ''b'', ''c''] EmulatorPaging (\<lambda>r. r)"
    by (simp add: listing_ok_def less_char_def)
  moreover have "page_limit EmulatorPaging 2 = Ok 2" by (simp add: page_limit_def)
  ultimately show ?thesis
    using pages_cover_listing [of "[''a'', ''b'', ''c'']" EmulatorPaging "\<lambda>r. r" 2 2]
    by (simp add: eval_nat_numeral)
qed

end
