(* ===== verification/Ps_Label.thy ===== *)
theory Ps_Label
  imports Ps_Label_Table Ps_Subscription
begin

text \<open>
  Labels of Pub/Sub resources (the search of crates/fireemu-core-pubsub/src/label_value.rs and
  \<open>validate_labels\<close> of configuration.rs) and the production rules of a subscription
  configuration that use them (subscription.rs). The search by bisection finds exactly the
  characters of the class.
\<close>

section \<open>The search\<close>

text \<open>
  \<open>binary_search_by(..).is_ok()\<close> with the comparison of the source: a range below the scalar is
  less, one above it greater, one around it equal. On a sorted table the outcome does not depend
  on where a probe falls; here it falls in the middle.
\<close>

function range_search :: "(nat \<times> nat) list \<Rightarrow> nat \<Rightarrow> bool" where
  "range_search rs scalar =
     (if rs = [] then False
      else let mid = length rs div 2; (a, b) = rs ! mid
           in if b < scalar then range_search (drop (Suc mid) rs) scalar
              else if a > scalar then range_search (take mid rs) scalar
              else True)"
  by auto
termination
  by (relation "measure (\<lambda>(rs, _). length rs)") (auto simp: div_less_dividend)

declare range_search.simps [simp del]

definition is_lowercase_or_other_letter :: "nat \<Rightarrow> bool" where
  "is_lowercase_or_other_letter ch = range_search letter_ranges ch"

definition is_lowercase_other_letter_or_number :: "nat \<Rightarrow> bool" where
  "is_lowercase_other_letter_or_number ch = range_search letter_or_number_ranges ch"

definition is_label_value_char :: "nat \<Rightarrow> bool" where
  "is_label_value_char ch \<longleftrightarrow> ch = of_char CHR ''_'' \<or> ch = of_char CHR ''-'' \<or> is_lowercase_other_letter_or_number ch"

definition in_ranges :: "(nat \<times> nat) list \<Rightarrow> nat \<Rightarrow> bool" where
  "in_ranges rs scalar \<longleftrightarrow> (\<exists>(a, b)\<in>set rs. a \<le> scalar \<and> scalar \<le> b)"

lemma ranges_above_low: "ranges_above low rs \<Longrightarrow> (a, b) \<in> set rs \<Longrightarrow> low < a \<and> a \<le> b"
  by (induction low rs rule: ranges_above.induct) fastforce+

lemma ranges_above_mono: "ranges_above low rs \<Longrightarrow> low' \<le> low \<Longrightarrow> ranges_above low' rs"
  by (cases rs) auto

lemma ranges_above_split:
  "ranges_above low (xs @ (a, b) # ys) \<longleftrightarrow>
     ranges_above low xs \<and> (\<forall>(c, d)\<in>set xs. d < a) \<and> low < a \<and> a \<le> b \<and> ranges_above b ys"
proof (induction low xs rule: ranges_above.induct)
  case (2 low c d xs)
  then show ?case by (auto dest: ranges_above_low)
qed auto

lemma range_search_eq: "ranges_above low rs \<Longrightarrow> range_search rs scalar \<longleftrightarrow> in_ranges rs scalar"
proof (induction rs scalar arbitrary: low rule: range_search.induct)
  case (1 rs scalar)
  show ?case
  proof (cases "rs = []")
    case True
    then show ?thesis by (simp add: range_search.simps in_ranges_def)
  next
    case False
    define mid where "mid = length rs div 2"
    obtain a b where ab: "rs ! mid = (a, b)" by fastforce
    have mid: "mid < length rs" using False by (simp add: mid_def div_less_dividend)
    have split: "rs = take mid rs @ (a, b) # drop (Suc mid) rs" using id_take_nth_drop [OF mid] ab by simp
    from "1.prems" split have ok: "ranges_above low (take mid rs)" "\<forall>(c, d)\<in>set (take mid rs). d < a"
      "low < a" "a \<le> b" "ranges_above b (drop (Suc mid) rs)"
      using ranges_above_split by metis+
    have up: "\<forall>(c, d)\<in>set (drop (Suc mid) rs). b < c"
      using ranges_above_low [OF ok(5)] by blast
    have "in_ranges rs scalar \<longleftrightarrow> in_ranges (take mid rs) scalar \<or> a \<le> scalar \<and> scalar \<le> b
        \<or> in_ranges (drop (Suc mid) rs) scalar"
      by (subst split) (auto simp: in_ranges_def)
    moreover have "in_ranges (take mid rs) scalar \<Longrightarrow> scalar < a" "in_ranges (drop (Suc mid) rs) scalar \<Longrightarrow> b < scalar"
      using ok(2) up by (fastforce simp: in_ranges_def)+
    ultimately show ?thesis
      using "1.IH"(1) [OF False mid_def ab [symmetric] refl _ ok(5)] "1.IH"(2) [OF False mid_def ab [symmetric] refl _ _ ok(1)] ok(4)
      by (subst range_search.simps) (auto simp: False mid_def [symmetric] ab Let_def)
  qed
qed

section \<open>Labels\<close>

definition validate_label :: "string \<times> string \<Rightarrow> (code, unit) result" where
  "validate_label = (\<lambda>(key, v).
     if (case str_chars key of [] \<Rightarrow> True | ch # _ \<Rightarrow> \<not> is_lowercase_or_other_letter ch) then Err InvalidArgument
     else if length (str_chars key) > 63 then Err InvalidArgument
     else if \<not> list_all is_label_value_char (str_chars key) then Err InvalidArgument
     else if length (str_chars v) > 63 then Err InvalidArgument
     else if List.find (\<lambda>ch. \<not> is_label_value_char ch) (str_chars v) \<noteq> None then Err InvalidArgument
     else Ok ())"

fun validate_labels :: "(string, string) bmap \<Rightarrow> (code, unit) result" where
  "validate_labels [] = Ok ()"
| "validate_labels (label # labels) = and_then (validate_label label) (\<lambda>_. validate_labels labels)"

text \<open>\<open>validate_production_configuration\<close> of a subscription.\<close>

definition validate_production_configuration :: "subscription_config \<Rightarrow> (code, unit) result" where
  "validate_production_configuration c =
     (if \<not> (min_ack_deadline_seconds \<le> sc_ack_deadline_seconds c \<and> sc_ack_deadline_seconds c \<le> max_ack_deadline_seconds)
      then Err InvalidArgument
      else and_then (validate_labels (sc_labels c)) (\<lambda>_.
        let ttl = (case sc_expiration_policy c of
                     None \<Rightarrow> Some (duration_from_seconds 2678400)
                   | Some policy \<Rightarrow> xp_ttl policy)
        in case ttl of
             None \<Rightarrow> Ok ()
           | Some ttl \<Rightarrow>
               if ttl < duration_from_seconds 86400 then Err InvalidArgument
               else if resolved_retention c > ttl then Err InvalidArgument
               else Ok ()))"

text \<open>C33: A label map is accepted exactly when every key starts with a lower-case or other letter and
  has at most 63 characters, every value has at most 63 characters, and all of them are in the
  label class: underscore, hyphen, or a character of the table of letters and numbers. Everything
  else is refused as an invalid argument, never in any other way. The bisection of the source
  decides membership in its tables for every scalar.\<close>

theorem labels_accepted_iff:
  "validate_labels labels = (if \<forall>(key, v)\<in>set labels.
       (\<exists>ch rest. str_chars key = ch # rest \<and> in_ranges letter_ranges ch)
       \<and> length (str_chars key) \<le> 63 \<and> length (str_chars v) \<le> 63
       \<and> (\<forall>ch\<in>set (str_chars key) \<union> set (str_chars v).
            ch = 95 \<or> ch = 45 \<or> in_ranges letter_or_number_ranges ch)
     then Ok () else Err InvalidArgument)"
proof -
  have search: "range_search letter_ranges ch \<longleftrightarrow> in_ranges letter_ranges ch"
    "range_search letter_or_number_ranges ch \<longleftrightarrow> in_ranges letter_or_number_ranges ch" for ch
    by (rule range_search_eq, rule letter_ranges_sorted letter_or_number_ranges_sorted)+
  define ok where "ok = (\<lambda>(key, v). (\<exists>ch rest. str_chars key = ch # rest \<and> in_ranges letter_ranges ch)
       \<and> length (str_chars key) \<le> 63 \<and> length (str_chars v) \<le> 63
       \<and> (\<forall>ch\<in>set (str_chars key) \<union> set (str_chars v).
            ch = 95 \<or> ch = 45 \<or> in_ranges letter_or_number_ranges ch))"
  have one: "validate_label label = (if ok label then Ok () else Err InvalidArgument)" for label
    by (cases label) (auto simp: ok_def validate_label_def is_lowercase_or_other_letter_def is_label_value_char_def
        is_lowercase_other_letter_or_number_def search list_all_iff find_None_iff not_less split: list.splits)
  have "validate_labels labels = (if \<forall>label\<in>set labels. ok label then Ok () else Err InvalidArgument)"
    by (induction labels) (simp_all add: one)
  then show ?thesis by (simp add: ok_def)
qed

theorem labels_accepted_iff_witness:
  "validate_labels [(''env'', ''prod-1'')] = Ok () \<and> validate_labels [(''Env'', [])] = Err InvalidArgument"
proof -
  have in1: "in_ranges letter_or_number_ranges ch" if "97 \<le> ch \<and> ch \<le> 122 \<or> 48 \<le> ch \<and> ch \<le> 57" for ch
  proof -
    have "(0x61, 0x7A) \<in> set letter_or_number_ranges" "(0x30, 0x39) \<in> set letter_or_number_ranges"
      by (simp_all add: letter_or_number_ranges_def letter_or_number_ranges_1_def)
    with that show ?thesis by (force simp: in_ranges_def)
  qed
  have in2: "in_ranges letter_ranges 101"
  proof -
    have "(0x61, 0x7A) \<in> set letter_ranges" by (simp add: letter_ranges_def letter_ranges_1_def)
    then show ?thesis unfolding in_ranges_def by (rule bexI [rotated]) simp
  qed
  have no: "\<not> in_ranges letter_ranges 69"
  proof -
    obtain rs where rs: "letter_ranges = (0x61, 0x7A) # rs" by (simp add: letter_ranges_def letter_ranges_1_def)
    have "ranges_above 0x7A rs" using letter_ranges_sorted unfolding rs ranges_above.simps by blast
    then show ?thesis using ranges_above_low [of "0x7A" rs] by (fastforce simp: in_ranges_def rs)
  qed
  show ?thesis
    using labels_accepted_iff [of "[(''env'', ''prod-1'')]"] labels_accepted_iff [of "[(''Env'', [])]"]
    by (simp add: str_chars.simps in1 in2 no)
qed

end
