(* ===== verification/Ps_Message_Id.thy ===== *)
theory Ps_Message_Id
  imports Prelude
begin

text \<open>
  The ids of published Pub/Sub messages (crates/fireemu-core-types/src/pubsub_message_id.rs): a
  counter mapped into a range of seventeen-digit decimals by a fixed permutation. The broker and
  the functions runtime each own half of the counters.
\<close>

definition message_id_first :: nat where "message_id_first = 22250000000000000"
definition message_id_full_span :: nat where "message_id_full_span = 10000000000000"
definition message_id_step :: nat where "message_id_step = 6180339887499"
definition message_id_span :: nat where "message_id_span = message_id_full_span div 2"

definition pubsub_message_id :: "nat \<Rightarrow> string" where
  "pubsub_message_id counter =
     dec (message_id_first + (counter * message_id_step) mod message_id_full_span)"

definition runtime_message_id :: "nat \<Rightarrow> string" where
  "runtime_message_id counter =
     (let own = (max counter 1 - 1) mod message_id_span + 1 in pubsub_message_id (message_id_span + own))"

section \<open>The ids are distinct\<close>

lemma decimal_value_bound: "list_all is_ascii_digit ds \<Longrightarrow> decimal_value ds < 10 ^ length ds"
proof (induction ds rule: rev_induct)
  case (snoc d ds)
  then have "digit_val d < 10" "decimal_value ds < 10 ^ length ds"
    by (auto simp: is_ascii_digit_def less_eq_char_def digit_val_def)
  then show ?case by (simp add: decimal_value_snoc)
qed (simp add: decimal_value_def)

lemma dec_inj: "dec m = dec n \<Longrightarrow> m = n"
  by (metis dec_value)

lemma dec_length_exact: "10 ^ w \<le> n \<Longrightarrow> n < 10 ^ Suc w \<Longrightarrow> length (dec n) = Suc w"
proof -
  assume n: "10 ^ w \<le> n" "n < 10 ^ Suc w"
  have "(10::nat) ^ w < 10 ^ length (dec n)"
    using decimal_value_bound [OF dec_digits, of n] n(1) unfolding dec_value by (rule order.strict_trans1 [rotated])
  then have "w < length (dec n)" by (rule power_less_imp_less_exp [rotated]) simp
  with dec_length [OF _ n(2)] show "length (dec n) = Suc w" by simp
qed

lemma step_coprime: "coprime message_id_full_span message_id_step"
  by (simp add: message_id_full_span_def message_id_step_def coprime_iff_gcd_eq_1 gcd_nat.simps)

lemma message_id_inj:
  assumes "c < d" "d - c < message_id_full_span"
  shows "pubsub_message_id c \<noteq> pubsub_message_id d"
proof
  assume "pubsub_message_id c = pubsub_message_id d"
  then have "(c * message_id_step) mod message_id_full_span = (d * message_id_step) mod message_id_full_span"
    unfolding pubsub_message_id_def by (auto dest: dec_inj)
  moreover have "c * message_id_step \<le> d * message_id_step" using assms(1) by simp
  ultimately have "message_id_full_span dvd d * message_id_step - c * message_id_step"
    using mod_eq_dvd_iff_nat by metis
  then have "message_id_full_span dvd d - c"
    using step_coprime by (simp add: diff_mult_distrib [symmetric] coprime_dvd_mult_left_iff)
  with assms show False using nat_dvd_not_less [of "d - c"] by simp
qed

lemma message_id_length: "length (pubsub_message_id c) = 17"
proof -
  let ?n = "message_id_first + (c * message_id_step) mod message_id_full_span"
  have "(c * message_id_step) mod message_id_full_span < message_id_full_span"
    by (simp add: message_id_full_span_def)
  then have "10 ^ 16 \<le> ?n" "?n < 10 ^ Suc 16"
    by (simp_all add: message_id_first_def message_id_full_span_def)
  then show ?thesis
    using dec_length_exact [of 16 ?n] by (simp add: pubsub_message_id_def)
qed

text \<open>C30: No two messages share an id. An id is a decimal of seventeen digits; counters less than the
  full span apart have different ids; and no id the broker gives, while its counter is in its half,
  is one the functions runtime gives, whatever counter that has reached.\<close>

theorem message_ids_distinct:
  "length (pubsub_message_id c) = 17 \<and> list_all is_ascii_digit (pubsub_message_id c)
   \<and> (c < d \<longrightarrow> d - c < message_id_full_span \<longrightarrow> pubsub_message_id c \<noteq> pubsub_message_id d)
   \<and> (1 \<le> c \<longrightarrow> c \<le> message_id_span \<longrightarrow> pubsub_message_id c \<noteq> runtime_message_id r)"
proof -
  have "pubsub_message_id c \<noteq> runtime_message_id r" if "1 \<le> c" "c \<le> message_id_span"
  proof -
    define own where "own = (max r 1 - 1) mod message_id_span + 1"
    have "own \<ge> 1" "own \<le> message_id_span"
      by (simp_all add: own_def message_id_span_def message_id_full_span_def Suc_leI)
    with that have "c < message_id_span + own" "message_id_span + own - c < message_id_full_span"
      by (simp_all add: message_id_span_def message_id_full_span_def)
    then show ?thesis
      unfolding runtime_message_id_def Let_def own_def [symmetric] by (rule message_id_inj)
  qed
  then show ?thesis
    using message_id_inj [of c d] message_id_length [of c] by (simp add: pubsub_message_id_def dec_digits)
qed

theorem message_ids_distinct_witness:
  "pubsub_message_id 1 \<noteq> pubsub_message_id 2 \<and> pubsub_message_id 1 \<noteq> runtime_message_id 1"
  using message_ids_distinct [of 1 2 1] by (simp add: message_id_full_span_def message_id_span_def)

end
