(* ===== verification/Ps_Registry.thy ===== *)
theory Ps_Registry
  imports Ps_Order Ps_Iam Ps_Paging Ps_Label Rfc3339 Ps_Message_Id
begin

text \<open>
  The Pub/Sub registry (crates/fireemu-core-pubsub/src/state.rs): topics, subscriptions, access
  policies, snapshots, publication and dead-letter transfer over the subscriptions of
  \<open>Ps_Subscription\<close>. One definition per method; a method on \<open>&mut self\<close> gives its result and the
  registry it leaves. A call that can reach an \<open>expect\<close> gives None there.

  The wake-up callbacks of the registry carry no state and are left out. The sizes of Rust's types
  and the capacity of a buffer, which the byte accounting of snapshots reads, are the record
  \<open>layout\<close>, an argument of the operations that read them; a capacity is taken as a function of
  the contents. An \<open>Arc\<close> is an address drawn from \<open>ps_next_addr\<close>.
\<close>

section \<open>State\<close>

definition max_topics :: nat where "max_topics = 10000"
definition max_subscriptions :: nat where "max_subscriptions = 10000"
definition max_messages_per_publish :: nat where "max_messages_per_publish = 1000"
definition max_snapshots :: nat where "max_snapshots = 10000"
definition snapshot_ttl_seconds :: int where "snapshot_ttl_seconds = 7 * 24 * 60 * 60"
definition min_snapshot_ttl_seconds :: int where "min_snapshot_ttl_seconds = 60 * 60"
definition max_snapshot_retained_bytes :: nat where "max_snapshot_retained_bytes = 64 * 1024 * 1024"

record backlog_snapshot =
  snp_name :: string
  snp_owner_project :: string
  snp_topic :: topic_name
  snp_topic_incarnation :: nat
  snp_created_at :: logical_instant
  snp_expire_at :: logical_instant
  snp_labels :: "(string, string) bmap"
  snp_unacknowledged_ids :: "string bset"
  snp_retained_ids :: "string bset"
  snp_captured :: "message_ref list"

record dead_letter_forward =
  dlf_source :: subscription_name
  dlf_topic :: topic_name
  dlf_message :: message_ref

record pull_result =
  pr_received :: "received_message list"
  pr_dead_lettered :: "dead_letter_forward list"

record prepared_publication =
  prep_topic_key :: string
  prep_topic_incarnation :: nat
  prep_initial_counter :: nat
  prep_next_counter :: nat
  prep_published :: "message_ref list"
  prep_subscription_keys :: "string list"
  prep_snapshot_names :: "string list"
  prep_snapshot_bytes :: nat

record topic_entry =
  te_name :: topic_name
  te_labels :: "(string, string) bmap"
  te_incarnation :: nat
  te_retention :: "logical_duration option"

record pubsub_state =
  ps_seed :: "64 word"
  ps_policies :: "(string, policy_state) bmap"
  ps_policy_incarnation :: nat
  ps_enforce_iam :: bool
  ps_grants_required :: bool
  ps_project_numbers :: "(string, string) bmap"
  ps_page_boundaries :: "(string, (string, string option) bmap) bmap"
  ps_topics :: "(string, topic_entry) bmap"
  ps_subscriptions :: "(string, subscription_state) bmap"
  ps_topic_subs :: "(string, string bset) bmap"
  ps_function_subs :: "string bset"
  ps_snapshots :: "(string, backlog_snapshot) bmap"
  ps_topic_snapshots :: "(string \<times> nat, string bset) bmap"
  ps_message_refs :: "(string, nat) bmap"
  ps_topic_counter :: nat
  ps_message_counter :: nat
  ps_ack_rng :: "64 word"
  ps_snapshot_counter :: nat
  ps_snapshot_bytes :: nat
  ps_push_minimum :: logical_duration
  ps_next_addr :: nat

record layout =
  lay_string :: nat
  lay_arc :: nat
  lay_usize :: nat
  lay_stored_message :: nat
  lay_snapshot :: nat
  lay_capacity :: "string \<Rightarrow> nat"

definition ack_seed :: "64 word \<Rightarrow> 64 word" where
  "ack_seed seed = xor seed 0x5053554241434b5f"

definition pubsub_new :: "64 word \<Rightarrow> pubsub_state" where
  "pubsub_new seed =
     \<lparr>ps_seed = seed, ps_policies = [], ps_policy_incarnation = 0, ps_enforce_iam = False,
      ps_grants_required = False, ps_project_numbers = [], ps_page_boundaries = [], ps_topics = [],
      ps_subscriptions = [], ps_topic_subs = [], ps_function_subs = [], ps_snapshots = [],
      ps_topic_snapshots = [], ps_message_refs = [], ps_topic_counter = 0, ps_message_counter = 0,
      ps_ack_rng = ack_seed seed, ps_snapshot_counter = 0, ps_snapshot_bytes = 0,
      ps_push_minimum = duration_from_millis default_push_minimum_millis, ps_next_addr = 0\<rparr>"

text \<open>\<open>sub_mut\<close>, with what is done to the subscription it lends out.\<close>

definition sub_mut ::
    "subscription_name \<Rightarrow> (subscription_state \<Rightarrow> 'r \<times> subscription_state) \<Rightarrow> pubsub_state
     \<Rightarrow> (code, 'r) result \<times> pubsub_state" where
  "sub_mut name f st =
     (case bm_get (ps_subscriptions st) (subscription_to_full name) of
        None \<Rightarrow> (Err NotFound, st)
      | Some s \<Rightarrow>
          (let (r, s') = f s
           in (Ok r, st\<lparr>ps_subscriptions := bm_insert (subscription_to_full name) s' (ps_subscriptions st)\<rparr>)))"

text \<open>A method of the subscription that can fail itself.\<close>

definition flatten :: "(code, (code, 'r) result) result \<times> pubsub_state \<Rightarrow> (code, 'r) result \<times> pubsub_state" where
  "flatten = (\<lambda>(r, st). (and_then r (\<lambda>x. x), st))"

definition unit_result :: "(subscription_state \<Rightarrow> subscription_state) \<Rightarrow> subscription_state \<Rightarrow> unit \<times> subscription_state" where
  "unit_result f s = ((), f s)"

section \<open>Access policies\<close>

fun validate_project_numbers :: "(string \<times> string) list \<Rightarrow> (code, unit) result" where
  "validate_project_numbers [] = Ok ()"
| "validate_project_numbers ((project, number) # rest) =
     and_then (validate_project project) (\<lambda>_.
       if number = [] \<or> length number > 20 \<or> \<not> list_all is_ascii_digit number \<or> hd number = CHR ''0''
       then Err InvalidArgument else validate_project_numbers rest)"

definition set_project_numbers :: "(string, string) bmap \<Rightarrow> pubsub_state \<Rightarrow> (code, unit) result \<times> pubsub_state" where
  "set_project_numbers numbers st =
     (case validate_project_numbers numbers of
        Inl e \<Rightarrow> (Err e, st)
      | Inr _ \<Rightarrow> (Ok (), st\<lparr>ps_project_numbers := numbers\<rparr>))"

definition set_dead_letter_iam_enforcement :: "bool \<Rightarrow> pubsub_state \<Rightarrow> pubsub_state" where
  "set_dead_letter_iam_enforcement enforce st = st\<lparr>ps_enforce_iam := enforce, ps_grants_required := enforce\<rparr>"

definition set_dead_letter_grants_required :: "bool \<Rightarrow> pubsub_state \<Rightarrow> pubsub_state" where
  "set_dead_letter_grants_required required st = st\<lparr>ps_grants_required := required\<rparr>"

definition get_resource_policy :: "pubsub_state \<Rightarrow> string \<Rightarrow> (code, resource_policy) result" where
  "get_resource_policy st resource = ok_or (map_option policy_get (bm_get (ps_policies st) resource)) NotFound"

definition set_resource_policy ::
    "string \<Rightarrow> string \<Rightarrow> nat option \<Rightarrow> policy_binding list \<Rightarrow> pubsub_state
     \<Rightarrow> (code, resource_policy) result \<times> pubsub_state" where
  "set_resource_policy resource expected version bindings st =
     (case bm_get (ps_policies st) resource of
        None \<Rightarrow> (Err NotFound, st)
      | Some p \<Rightarrow>
          (let (r, p') = policy_set expected version bindings p
           in (r, st\<lparr>ps_policies := bm_insert resource p' (ps_policies st)\<rparr>)))"

definition create_resource_policy :: "string \<Rightarrow> pubsub_state \<Rightarrow> (code, unit) result \<times> pubsub_state" where
  "create_resource_policy resource st =
     (case checked_add_u 32 (ps_policy_incarnation st) 1 of
        None \<Rightarrow> (Err ResourceExhausted, st)
      | Some incarnation \<Rightarrow>
          if \<not> incarnation \<le> 0x00ffffff then (Err ResourceExhausted, st)
          else (Ok (), st\<lparr>ps_policy_incarnation := incarnation,
                          ps_policies := bm_insert resource (policy_new incarnation) (ps_policies st)\<rparr>))"

definition dead_letter_authorized :: "pubsub_state \<Rightarrow> subscription_name \<Rightarrow> topic_name \<Rightarrow> bool" where
  "dead_letter_authorized st source destination =
     (if \<not> ps_enforce_iam st \<or> \<not> ps_grants_required st then True
      else case bm_get (ps_project_numbers st) (sn_project source) of
             None \<Rightarrow> False
           | Some number \<Rightarrow>
               (let member = ''serviceAccount:service-'' @ number @ ''@gcp-sa-pubsub.iam.gserviceaccount.com''
                in is_some_and (\<lambda>p. policy_grants p ''roles/pubsub.subscriber'' member)
                     (bm_get (ps_policies st) (subscription_to_full source))
                   \<and> is_some_and (\<lambda>p. policy_grants p ''roles/pubsub.publisher'' member)
                     (bm_get (ps_policies st) (topic_to_full destination))))"

section \<open>Listing pages\<close>

definition issue_boundary :: "string \<Rightarrow> string \<Rightarrow> string \<Rightarrow> pubsub_state \<Rightarrow> pubsub_state" where
  "issue_boundary list_context token boundary st =
     (let tokens = (case bm_get (ps_page_boundaries st) list_context of Some m \<Rightarrow> m | None \<Rightarrow> []);
          v = (case bm_get tokens token of
                 Some previous \<Rightarrow> if previous \<noteq> Some boundary then None else previous
               | None \<Rightarrow> Some boundary)
      in st\<lparr>ps_page_boundaries := bm_insert list_context (bm_insert token v tokens) (ps_page_boundaries st)\<rparr>)"

definition registry_paginate ::
    "string \<Rightarrow> 'a list \<Rightarrow> int \<Rightarrow> string \<Rightarrow> paging_policy \<Rightarrow> ('a \<Rightarrow> string) \<Rightarrow> pubsub_state
     \<Rightarrow> ((code, 'a page) result \<times> pubsub_state) option" where
  "registry_paginate list_context resources page_size page_token policy name st =
     (let boundary = Option.bind (Option.bind (bm_get (ps_page_boundaries st) list_context)
                                    (\<lambda>tokens. bm_get tokens page_token)) (\<lambda>b. b)
      in case paginate_after resources page_size page_token policy name boundary of
           Inl e \<Rightarrow> Some (Err e, st)
         | Inr page \<Rightarrow>
             if policy = StrictPaging \<and> pg_next_page_token page \<noteq> []
             then (if pg_resources page = [] then None
                   else Some (Ok page, issue_boundary list_context (pg_next_page_token page)
                                         (name (List.last (pg_resources page))) st))
             else Some (Ok page, st))"

definition registry_set_push_minimum :: "logical_duration \<Rightarrow> pubsub_state \<Rightarrow> pubsub_state" where
  "registry_set_push_minimum interval st =
     (let interval = (if interval < 0 then 0 else interval)
      in st\<lparr>ps_push_minimum := interval,
            ps_subscriptions := map (map_prod id (set_push_minimum interval)) (ps_subscriptions st)\<rparr>)"

section \<open>Topics\<close>

definition create_topic_with_retention ::
    "topic_name \<Rightarrow> (string, string) bmap \<Rightarrow> logical_duration option \<Rightarrow> pubsub_state
     \<Rightarrow> (code, unit) result \<times> pubsub_state" where
  "create_topic_with_retention name labels retention st =
     (case when_some retention validate_retention of
        Inl e \<Rightarrow> (Err e, st)
      | Inr _ \<Rightarrow>
          let key = topic_to_full name
          in if bm_contains (ps_topics st) key then (Err AlreadyExists, st)
             else if length (ps_topics st) \<ge> max_topics then (Err ResourceExhausted, st)
             else case checked_add_u 64 (ps_topic_counter st) 1 of
                    None \<Rightarrow> (Err ResourceExhausted, st)
                  | Some counter \<Rightarrow>
                      (let (r, st) = create_resource_policy key (st\<lparr>ps_topic_counter := counter\<rparr>)
                       in case r of
                            Inl e \<Rightarrow> (Err e, st)
                          | Inr _ \<Rightarrow>
                              let attached = (case bm_get (ps_topic_subs st) key of Some ks \<Rightarrow> ks | None \<Rightarrow> [])
                              in (Ok (), st\<lparr>ps_topic_subs := bm_insert key attached (ps_topic_subs st),
                                            ps_topics := bm_insert key
                                              \<lparr>te_name = name, te_labels = labels,
                                               te_incarnation = ps_topic_counter st, te_retention = retention\<rparr>
                                              (ps_topics st)\<rparr>)))"

definition create_topic :: "topic_name \<Rightarrow> (string, string) bmap \<Rightarrow> pubsub_state \<Rightarrow> (code, unit) result \<times> pubsub_state" where
  "create_topic name labels = create_topic_with_retention name labels None"

definition topic_exists :: "pubsub_state \<Rightarrow> topic_name \<Rightarrow> bool" where
  "topic_exists st name = bm_contains (ps_topics st) (topic_to_full name)"

definition topic_labels :: "pubsub_state \<Rightarrow> topic_name \<Rightarrow> (code, (string, string) bmap) result" where
  "topic_labels st name = ok_or (map_option te_labels (bm_get (ps_topics st) (topic_to_full name))) NotFound"

definition update_topic_labels ::
    "topic_name \<Rightarrow> (string, string) bmap \<Rightarrow> bool \<Rightarrow> pubsub_state \<Rightarrow> (code, unit) result \<times> pubsub_state" where
  "update_topic_labels name labels strict st =
     (case (if strict then validate_labels labels else Ok ()) of
        Inl e \<Rightarrow> (Err e, st)
      | Inr _ \<Rightarrow>
          (case bm_get (ps_topics st) (topic_to_full name) of
             None \<Rightarrow> (Err NotFound, st)
           | Some t \<Rightarrow> (Ok (), st\<lparr>ps_topics := bm_insert (topic_to_full name) (t\<lparr>te_labels := labels\<rparr>) (ps_topics st)\<rparr>)))"

definition topic_retention :: "pubsub_state \<Rightarrow> topic_name \<Rightarrow> (code, logical_duration option) result" where
  "topic_retention st name = ok_or (map_option te_retention (bm_get (ps_topics st) (topic_to_full name))) NotFound"

definition list_topics :: "pubsub_state \<Rightarrow> string \<Rightarrow> topic_name list" where
  "list_topics st project = map te_name (filter (\<lambda>t. tn_project (te_name t) = project) (bm_values (ps_topics st)))"

definition detach_subscription :: "pubsub_state \<Rightarrow> string \<Rightarrow> pubsub_state" where
  "detach_subscription st key =
     (case bm_get (ps_subscriptions st) key of
        None \<Rightarrow> st
      | Some s \<Rightarrow> st\<lparr>ps_subscriptions := bm_insert key (mark_topic_deleted s) (ps_subscriptions st)\<rparr>)"

definition delete_topic :: "topic_name \<Rightarrow> pubsub_state \<Rightarrow> (code, unit) result \<times> pubsub_state" where
  "delete_topic name st =
     (let key = topic_to_full name
      in if \<not> bm_contains (ps_topics st) key then (Err NotFound, st)
         else let attached = (case bm_get (ps_topic_subs st) key of Some ks \<Rightarrow> ks | None \<Rightarrow> []);
                  st = st\<lparr>ps_topics := bm_remove key (ps_topics st),
                          ps_policies := bm_remove key (ps_policies st),
                          ps_page_boundaries :=
                            filter (\<lambda>(list_context, _). \<not> prefix (key @ ''/'') list_context) (ps_page_boundaries st),
                          ps_topic_subs := bm_remove key (ps_topic_subs st)\<rparr>
              in (Ok (), foldl detach_subscription st attached))"

definition topic_subscriptions :: "pubsub_state \<Rightarrow> topic_name \<Rightarrow> string list" where
  "topic_subscriptions st name =
     (case bm_get (ps_topic_subs st) (topic_to_full name) of Some ks \<Rightarrow> ks | None \<Rightarrow> [])"

section \<open>Subscriptions\<close>

text \<open>The key goes into the topic's set before the policy is created, as in the source.\<close>

definition create_subscription :: "subscription_config \<Rightarrow> pubsub_state \<Rightarrow> (code, unit) result \<times> pubsub_state" where
  "create_subscription config st =
     (case config_validate config of
        Inl e \<Rightarrow> (Err e, st)
      | Inr _ \<Rightarrow>
          let key = subscription_to_full (sc_name config);
              topic_key = topic_to_full (sc_topic config)
          in if bm_contains (ps_subscriptions st) key then (Err AlreadyExists, st)
             else if \<not> is_deleted_sentinel (sc_topic config) \<and> \<not> bm_contains (ps_topics st) topic_key
             then (Err NotFound, st)
             else if is_some_and (\<lambda>dl. \<not> bm_contains (ps_topics st) (topic_to_full (dl_topic dl)))
                       (sc_dead_letter_policy config)
             then (Err NotFound, st)
             else if length (ps_subscriptions st) \<ge> max_subscriptions then (Err ResourceExhausted, st)
             else let attached = (case bm_get (ps_topic_subs st) topic_key of Some ks \<Rightarrow> ks | None \<Rightarrow> []);
                      (r, st) = create_resource_policy key
                        (st\<lparr>ps_topic_subs := bm_insert topic_key (bs_insert key attached) (ps_topic_subs st)\<rparr>)
                  in case r of
                       Inl e \<Rightarrow> (Err e, st)
                     | Inr _ \<Rightarrow>
                         (Ok (), st\<lparr>ps_subscriptions :=
                            bm_insert key (set_push_minimum (ps_push_minimum st) (sub_new config))
                              (ps_subscriptions st)\<rparr>))"

definition mark_function_subscription :: "subscription_name \<Rightarrow> pubsub_state \<Rightarrow> (code, unit) result \<times> pubsub_state" where
  "mark_function_subscription name st =
     (let key = subscription_to_full name
      in if \<not> bm_contains (ps_subscriptions st) key then (Err NotFound, st)
         else (Ok (), st\<lparr>ps_function_subs := bs_insert key (ps_function_subs st)\<rparr>))"

definition registry_subscription_config :: "pubsub_state \<Rightarrow> subscription_name \<Rightarrow> (code, subscription_config) result" where
  "registry_subscription_config st name =
     ok_or (map_option ss_config (bm_get (ps_subscriptions st) (subscription_to_full name))) NotFound"

definition next_delivery_at :: "pubsub_state \<Rightarrow> subscription_name \<Rightarrow> (code, logical_instant option) result" where
  "next_delivery_at st name =
     ok_or (map_option next_available_at (bm_get (ps_subscriptions st) (subscription_to_full name))) NotFound"

definition registry_next_pull_deadline ::
    "pubsub_state \<Rightarrow> subscription_name \<Rightarrow> logical_instant \<Rightarrow> (code, logical_instant option) result" where
  "registry_next_pull_deadline st name now =
     ok_or (map_option (\<lambda>s. next_pull_deadline s now) (bm_get (ps_subscriptions st) (subscription_to_full name))) NotFound"

definition list_subscriptions :: "pubsub_state \<Rightarrow> string \<Rightarrow> subscription_config list" where
  "list_subscriptions st project =
     filter (\<lambda>c. sn_project (sc_name c) = project) (map ss_config (bm_values (ps_subscriptions st)))"

definition push_subscriptions :: "pubsub_state \<Rightarrow> topic_name \<Rightarrow> (subscription_name \<times> string) list" where
  "push_subscriptions st topic =
     map (\<lambda>s. (sc_name (ss_config s), pc_endpoint (sc_push_config (ss_config s))))
       (filter (\<lambda>s. config_is_push (ss_config s))
         (List.map_filter (bm_get (ps_subscriptions st))
           (case bm_get (ps_topic_subs st) (topic_to_full topic) of Some ks \<Rightarrow> ks | None \<Rightarrow> [])))"

definition delete_subscription :: "subscription_name \<Rightarrow> pubsub_state \<Rightarrow> (code, unit) result \<times> pubsub_state" where
  "delete_subscription name st =
     (let key = subscription_to_full name
      in case bm_get (ps_subscriptions st) key of
           None \<Rightarrow> (Err NotFound, st)
         | Some s \<Rightarrow>
             let topic_key = topic_to_full (sc_topic (ss_config s));
                 topic_subs = (case bm_get (ps_topic_subs st) topic_key of
                                 None \<Rightarrow> ps_topic_subs st
                               | Some ks \<Rightarrow> bm_insert topic_key (bs_remove key ks) (ps_topic_subs st))
             in (Ok (), st\<lparr>ps_subscriptions := bm_remove key (ps_subscriptions st),
                           ps_policies := bm_remove key (ps_policies st),
                           ps_function_subs := bs_remove key (ps_function_subs st),
                           ps_topic_subs := topic_subs\<rparr>))"

definition update_ack_deadline :: "subscription_name \<Rightarrow> nat \<Rightarrow> pubsub_state \<Rightarrow> (code, unit) result \<times> pubsub_state" where
  "update_ack_deadline name seconds st =
     flatten (sub_mut name (\<lambda>s.
       if \<not> (min_ack_deadline_seconds \<le> seconds \<and> seconds \<le> max_ack_deadline_seconds)
       then (Err InvalidArgument, s)
       else (Ok (), set_ack_deadline seconds s)) st)"

definition update_push_config :: "subscription_name \<Rightarrow> push_config \<Rightarrow> pubsub_state \<Rightarrow> (code, unit) result \<times> pubsub_state" where
  "update_push_config name push st = sub_mut name (unit_result (set_push_config push)) st"

record subscription_update =
  su_ack_deadline_seconds :: "nat option"
  su_labels :: "(string, string) bmap option"
  su_retain_acked_messages :: "bool option"
  su_message_retention_duration :: "logical_duration option option"
  su_expiration_policy :: "expiration_policy option option"
  su_retry_policy :: "backoff_policy option option"
  su_dead_letter_policy :: "dead_letter_policy option option"
  su_push_config :: "push_config option"

definition chosen :: "'a option \<Rightarrow> 'a \<Rightarrow> 'a" where
  "chosen x old = (case x of None \<Rightarrow> old | Some v \<Rightarrow> v)"

definition update_candidate :: "subscription_update \<Rightarrow> subscription_config \<Rightarrow> subscription_config" where
  "update_candidate u c =
     c\<lparr>sc_ack_deadline_seconds := chosen (su_ack_deadline_seconds u) (sc_ack_deadline_seconds c),
       sc_labels := chosen (su_labels u) (sc_labels c),
       sc_retain_acked_messages := chosen (su_retain_acked_messages u) (sc_retain_acked_messages c),
       sc_message_retention_duration := chosen (su_message_retention_duration u) (sc_message_retention_duration c),
       sc_expiration_policy := chosen (su_expiration_policy u) (sc_expiration_policy c),
       sc_retry_policy := chosen (su_retry_policy u) (sc_retry_policy c),
       sc_dead_letter_policy := chosen (su_dead_letter_policy u) (sc_dead_letter_policy c),
       sc_push_config := chosen (su_push_config u) (sc_push_config c)\<rparr>"

definition update_subscription_configuration ::
    "subscription_name \<Rightarrow> subscription_update \<Rightarrow> bool \<Rightarrow> pubsub_state \<Rightarrow> (code, unit) result \<times> pubsub_state" where
  "update_subscription_configuration name u strict st =
     (case registry_subscription_config st name of
        Inl e \<Rightarrow> (Err e, st)
      | Inr c \<Rightarrow>
          let candidate = update_candidate u c
          in case and_then (config_validate candidate)
                    (\<lambda>_. if strict then validate_production_configuration candidate else Ok ()) of
               Inl e \<Rightarrow> (Err e, st)
             | Inr _ \<Rightarrow> sub_mut name (unit_result (replace_config candidate)) st)"

definition update_subscription ::
    "subscription_name \<Rightarrow> nat option \<Rightarrow> push_config option \<Rightarrow> pubsub_state \<Rightarrow> (code, unit) result \<times> pubsub_state" where
  "update_subscription name ack_deadline_seconds push st =
     update_subscription_configuration name
       \<lparr>su_ack_deadline_seconds = ack_deadline_seconds, su_labels = None, su_retain_acked_messages = None,
        su_message_retention_duration = None, su_expiration_policy = None, su_retry_policy = None,
        su_dead_letter_policy = None, su_push_config = push\<rparr> True st"

section \<open>Snapshots\<close>

text \<open>\<open>split_once\<close> with a string for its pattern.\<close>

fun split_once_str :: "string \<Rightarrow> string \<Rightarrow> (string \<times> string) option" where
  "split_once_str pat [] = (if pat = [] then Some ([], []) else None)"
| "split_once_str pat (b # s) =
     (case strip_prefix pat (b # s) of
        Some rest \<Rightarrow> Some ([], rest)
      | None \<Rightarrow> map_option (\<lambda>(x, y). (b # x, y)) (split_once_str pat s))"

definition parse_snapshot_name :: "string \<Rightarrow> (code, string \<times> string) result" where
  "parse_snapshot_name name =
     and_then (ok_or (strip_prefix ''projects/'' name) InvalidArgument) (\<lambda>rest.
     and_then (ok_or (split_once_str ''/snapshots/'' rest) InvalidArgument) (\<lambda>(project, snapshot).
     and_then (validate_project project) (\<lambda>_.
     and_then (validate_resource_id snapshot) (\<lambda>_. Ok (project, snapshot)))))"

definition saturating_mul_u :: "nat \<Rightarrow> nat \<Rightarrow> nat \<Rightarrow> nat" where
  "saturating_mul_u w a b = min (a * b) (u_max w)"

definition owned_string_bytes :: "layout \<Rightarrow> string \<Rightarrow> nat" where
  "owned_string_bytes L v = saturating_add_u 64 (saturating_add_u 64 (lay_string L) (lay_capacity L v)) 64"

definition snapshot_reference_bytes :: "layout \<Rightarrow> string \<Rightarrow> bool \<Rightarrow> nat" where
  "snapshot_reference_bytes L message_id unacknowledged =
     saturating_add_u 64
       (saturating_add_u 64 (saturating_mul_u 64 (lay_arc L) 2) (owned_string_bytes L message_id))
       (if unacknowledged then owned_string_bytes L message_id else 0)"

definition pair_bytes :: "layout \<Rightarrow> (string, string) bmap \<Rightarrow> nat" where
  "pair_bytes L m =
     sum_usize (map (\<lambda>(k, v). saturating_add_u 64 (owned_string_bytes L k) (owned_string_bytes L v)) m)"

definition snapshot_shared_message_bytes :: "layout \<Rightarrow> stored_message \<Rightarrow> nat" where
  "snapshot_shared_message_bytes L m =
     saturating_add_u 64 (saturating_add_u 64 (saturating_add_u 64 (saturating_add_u 64 (saturating_add_u 64
       (lay_stored_message L) (saturating_mul_u 64 (lay_usize L) 2))
       (lay_capacity L (pm_data (sm_message m))))
       (lay_capacity L (pm_ordering_key (sm_message m))))
       (pair_bytes L (pm_attributes (sm_message m))))
       (owned_string_bytes L (sm_message_id m))"

definition snapshot_owned_bytes :: "layout \<Rightarrow> backlog_snapshot \<Rightarrow> nat" where
  "snapshot_owned_bytes L snp =
     (let references = sum_usize (map (\<lambda>m. snapshot_reference_bytes L (ref_id m)
                                           (bs_contains (snp_unacknowledged_ids snp) (ref_id m))) (snp_captured snp));
          labels = pair_bytes L (snp_labels snp)
      in saturating_add_u 64 (saturating_add_u 64 (saturating_add_u 64 (saturating_add_u 64 (saturating_add_u 64
           (saturating_add_u 64 (lay_snapshot L) 256)
           (owned_string_bytes L (snp_name snp)))
           (owned_string_bytes L (snp_owner_project snp)))
           (length (topic_to_full (snp_topic snp))))
           references)
           labels)"

definition release_message :: "layout \<Rightarrow> pubsub_state \<Rightarrow> message_ref \<Rightarrow> pubsub_state" where
  "release_message L st m =
     (case bm_get (ps_message_refs st) (ref_id m) of
        None \<Rightarrow> st
      | Some refs \<Rightarrow>
          if refs - 1 = 0
          then st\<lparr>ps_message_refs := bm_remove (ref_id m) (ps_message_refs st),
                  ps_snapshot_bytes := ps_snapshot_bytes st - snapshot_shared_message_bytes L (ref_stored m)\<rparr>
          else st\<lparr>ps_message_refs := bm_insert (ref_id m) (refs - 1) (ps_message_refs st)\<rparr>)"

definition remove_snapshot :: "layout \<Rightarrow> string \<Rightarrow> pubsub_state \<Rightarrow> backlog_snapshot option \<times> pubsub_state" where
  "remove_snapshot L name st =
     (case bm_get (ps_snapshots st) name of
        None \<Rightarrow> (None, st)
      | Some snp \<Rightarrow>
          let topic_key = (topic_to_full (snp_topic snp), snp_topic_incarnation snp);
              topic_snapshots =
                (case bm_get (ps_topic_snapshots st) topic_key of
                   None \<Rightarrow> ps_topic_snapshots st
                 | Some names \<Rightarrow>
                     if bs_remove name names = [] then bm_remove topic_key (ps_topic_snapshots st)
                     else bm_insert topic_key (bs_remove name names) (ps_topic_snapshots st));
              st = st\<lparr>ps_snapshots := bm_remove name (ps_snapshots st),
                      ps_topic_snapshots := topic_snapshots,
                      ps_snapshot_bytes := ps_snapshot_bytes st - snapshot_owned_bytes L snp\<rparr>
          in (Some snp, foldl (release_message L) st (snp_captured snp)))"

definition remove_snapshots :: "layout \<Rightarrow> string list \<Rightarrow> pubsub_state \<Rightarrow> pubsub_state" where
  "remove_snapshots L names st = foldl (\<lambda>st name. snd (remove_snapshot L name st)) st names"

definition remove_expired_snapshots :: "layout \<Rightarrow> logical_instant \<Rightarrow> pubsub_state \<Rightarrow> pubsub_state" where
  "remove_expired_snapshots L now st =
     remove_snapshots L (map snp_name (filter (\<lambda>snp. snp_expire_at snp \<le> now) (bm_values (ps_snapshots st)))) st"

definition snapshot_lifetime :: "logical_instant option \<Rightarrow> logical_instant \<Rightarrow> (code, logical_duration) result" where
  "snapshot_lifetime oldest_unacknowledged now =
     (let age = (case Option.bind oldest_unacknowledged (checked_duration_since now) of
                   Some age \<Rightarrow> if age > 0 then age else 0
                 | None \<Rightarrow> 0);
          lifetime = (case checked_i 128 (duration_from_seconds snapshot_ttl_seconds - age) of
                        Some d \<Rightarrow> d | None \<Rightarrow> i_min 128)
      in if lifetime < duration_from_seconds min_snapshot_ttl_seconds then Err FailedPrecondition
         else Ok lifetime)"

definition snapshot_name_of :: "string \<Rightarrow> nat \<Rightarrow> string" where
  "snapshot_name_of project counter = ''projects/'' @ project @ ''/snapshots/snapshot-'' @ dec counter"

function free_snapshot_name :: "(string, backlog_snapshot) bmap \<Rightarrow> string \<Rightarrow> nat \<Rightarrow> (code, string \<times> nat option) result" where
  "free_snapshot_name snapshots project counter =
     (case checked_add_u 64 counter 1 of
        None \<Rightarrow> Err ResourceExhausted
      | Some counter' \<Rightarrow>
          if bm_contains snapshots (snapshot_name_of project counter')
          then free_snapshot_name snapshots project counter'
          else Ok (snapshot_name_of project counter', Some counter'))"
  by pat_completeness auto
termination
  by (relation "measure (\<lambda>(_, _, counter). 2 ^ 64 - counter)") auto

declare free_snapshot_name.simps [simp del]

definition available_snapshot_name ::
    "pubsub_state \<Rightarrow> string \<Rightarrow> subscription_name \<Rightarrow> (code, string \<times> nat option) result" where
  "available_snapshot_name st requested_name subscription =
     (if requested_name \<noteq> [] then Ok (requested_name, None)
      else free_snapshot_name (ps_snapshots st) (sn_project subscription) (ps_snapshot_counter st))"

text \<open>\<open>try_fold\<close> with \<open>checked_add\<close>.\<close>

fun checked_total :: "nat \<Rightarrow> nat list \<Rightarrow> (code, nat) result" where
  "checked_total n [] = Ok n"
| "checked_total n (b # bs) =
     (case checked_add_u 64 n b of None \<Rightarrow> Err ResourceExhausted | Some n' \<Rightarrow> checked_total n' bs)"

text \<open>The shared bytes of the messages that no snapshot holds yet.\<close>

definition new_shared_bytes :: "layout \<Rightarrow> pubsub_state \<Rightarrow> message_ref list \<Rightarrow> nat list" where
  "new_shared_bytes L st ms =
     map (\<lambda>m. snapshot_shared_message_bytes L (ref_stored m))
       (filter (\<lambda>m. \<not> bm_contains (ps_message_refs st) (ref_id m)) ms)"

definition additional_snapshot_bytes :: "layout \<Rightarrow> pubsub_state \<Rightarrow> backlog_snapshot \<Rightarrow> (code, nat) result" where
  "additional_snapshot_bytes L st snp =
     checked_total (snapshot_owned_bytes L snp) (new_shared_bytes L st (snp_captured snp))"

definition count_reference :: "nat \<Rightarrow> (string, nat) bmap \<Rightarrow> message_ref \<Rightarrow> (string, nat) bmap" where
  "count_reference n refs m =
     bm_insert (ref_id m) (((case bm_get refs (ref_id m) of Some k \<Rightarrow> k | None \<Rightarrow> 0) + n) mod 2 ^ 64) refs"

definition capture ::
    "string \<Rightarrow> string \<Rightarrow> topic_entry \<Rightarrow> (string, string) bmap \<Rightarrow> logical_instant \<Rightarrow> logical_duration
     \<Rightarrow> subscription_state \<Rightarrow> backlog_snapshot" where
  "capture name project t labels now lifetime s =
     \<lparr>snp_name = name, snp_owner_project = project, snp_topic = sc_topic (ss_config s),
      snp_topic_incarnation = te_incarnation t, snp_created_at = now,
      snp_expire_at = (case instant_checked_add now lifetime of Some e \<Rightarrow> e | None \<Rightarrow> i_max 128),
      snp_labels = labels, snp_unacknowledged_ids = unacknowledged_message_ids s,
      snp_retained_ids = retained_message_ids s, snp_captured = retained_messages s\<rparr>"

definition store_snapshot :: "backlog_snapshot \<Rightarrow> nat \<Rightarrow> nat option \<Rightarrow> pubsub_state \<Rightarrow> pubsub_state" where
  "store_snapshot snp bytes next_counter st =
     (let topic_key = (topic_to_full (snp_topic snp), snp_topic_incarnation snp);
          names = (case bm_get (ps_topic_snapshots st) topic_key of Some ns \<Rightarrow> ns | None \<Rightarrow> [])
      in st\<lparr>ps_snapshot_bytes := ps_snapshot_bytes st + bytes,
            ps_message_refs := foldl (count_reference 1) (ps_message_refs st) (snp_captured snp),
            ps_snapshot_counter := (case next_counter of Some c \<Rightarrow> c | None \<Rightarrow> ps_snapshot_counter st),
            ps_topic_snapshots := bm_insert topic_key (bs_insert (snp_name snp) names) (ps_topic_snapshots st),
            ps_snapshots := bm_insert (snp_name snp) snp (ps_snapshots st)\<rparr>)"

definition build_snapshot ::
    "layout \<Rightarrow> string \<Rightarrow> subscription_name \<Rightarrow> (string, string) bmap \<Rightarrow> logical_instant \<Rightarrow> pubsub_state
     \<Rightarrow> (code, backlog_snapshot \<times> nat \<times> nat option) result" where
  "build_snapshot L requested_name subscription labels now st =
     (case bm_get (ps_subscriptions st) (subscription_to_full subscription) of
        None \<Rightarrow> Err NotFound
      | Some s \<Rightarrow>
          if is_deleted_sentinel (sc_topic (ss_config s)) then Err NotFound
          else case bm_get (ps_topics st) (topic_to_full (sc_topic (ss_config s))) of
            None \<Rightarrow> Err NotFound
          | Some t \<Rightarrow>
              and_then (available_snapshot_name st requested_name subscription) (\<lambda>(name, next_counter).
              and_then (parse_snapshot_name name) (\<lambda>(project, _).
                if project \<noteq> sn_project subscription then Err InvalidArgument
                else if bm_contains (ps_snapshots st) name then Err AlreadyExists
                else if length (ps_snapshots st) \<ge> max_snapshots then Err ResourceExhausted
                else and_then (snapshot_lifetime (oldest_unacknowledged_publish_time s) now) (\<lambda>lifetime.
                  let snp = capture name project t labels now lifetime s
                  in and_then (additional_snapshot_bytes L st snp) (\<lambda>bytes.
                       if is_some_and (\<lambda>n. n \<le> max_snapshot_retained_bytes)
                            (checked_add_u 64 (ps_snapshot_bytes st) bytes)
                       then Ok (snp, bytes, next_counter) else Err ResourceExhausted)))))"

definition create_snapshot ::
    "layout \<Rightarrow> string \<Rightarrow> subscription_name \<Rightarrow> (string, string) bmap \<Rightarrow> logical_instant \<Rightarrow> pubsub_state
     \<Rightarrow> (code, backlog_snapshot) result \<times> pubsub_state" where
  "create_snapshot L requested_name subscription labels now st =
     (let st = remove_expired_snapshots L now st
      in case build_snapshot L requested_name subscription labels now st of
           Inl e \<Rightarrow> (Err e, st)
         | Inr (snp, bytes, next_counter) \<Rightarrow> (Ok snp, store_snapshot snp bytes next_counter st))"

definition get_snapshot :: "layout \<Rightarrow> string \<Rightarrow> logical_instant \<Rightarrow> pubsub_state \<Rightarrow> (code, backlog_snapshot) result \<times> pubsub_state" where
  "get_snapshot L name now st =
     (case parse_snapshot_name name of
        Inl e \<Rightarrow> (Err e, st)
      | Inr _ \<Rightarrow> (let st = remove_expired_snapshots L now st
                 in (ok_or (bm_get (ps_snapshots st) name) NotFound, st)))"

definition list_snapshots :: "layout \<Rightarrow> string \<Rightarrow> logical_instant \<Rightarrow> pubsub_state \<Rightarrow> backlog_snapshot list \<times> pubsub_state" where
  "list_snapshots L project now st =
     (let st = remove_expired_snapshots L now st
      in (filter (\<lambda>snp. snp_owner_project snp = project) (bm_values (ps_snapshots st)), st))"

definition list_topic_snapshots ::
    "layout \<Rightarrow> topic_name \<Rightarrow> logical_instant \<Rightarrow> pubsub_state \<Rightarrow> (code, string list) result \<times> pubsub_state" where
  "list_topic_snapshots L topic now st =
     (let st = remove_expired_snapshots L now st
      in (case bm_get (ps_topics st) (topic_to_full topic) of
            None \<Rightarrow> Err NotFound
          | Some t \<Rightarrow> Ok (case bm_get (ps_topic_snapshots st) (topic_to_full topic, te_incarnation t) of
                            Some names \<Rightarrow> names | None \<Rightarrow> []), st))"

definition update_snapshot ::
    "layout \<Rightarrow> string \<Rightarrow> (string, string) bmap \<Rightarrow> logical_instant \<Rightarrow> pubsub_state \<Rightarrow> (code, backlog_snapshot) result \<times> pubsub_state" where
  "update_snapshot L name labels now st =
     (case parse_snapshot_name name of
        Inl e \<Rightarrow> (Err e, st)
      | Inr _ \<Rightarrow>
          (let st = remove_expired_snapshots L now st
           in case bm_get (ps_snapshots st) name of
                None \<Rightarrow> (Err NotFound, st)
              | Some snp \<Rightarrow>
                  let updated = snp\<lparr>snp_labels := labels\<rparr>
                  in case checked_add_u 64 (ps_snapshot_bytes st - snapshot_owned_bytes L snp) (snapshot_owned_bytes L updated) of
                       None \<Rightarrow> (Err ResourceExhausted, st)
                     | Some total_bytes \<Rightarrow>
                         if total_bytes > max_snapshot_retained_bytes then (Err ResourceExhausted, st)
                         else (Ok updated, st\<lparr>ps_snapshot_bytes := total_bytes,
                                              ps_snapshots := bm_insert name updated (ps_snapshots st)\<rparr>)))"

definition delete_snapshot :: "layout \<Rightarrow> string \<Rightarrow> logical_instant \<Rightarrow> pubsub_state \<Rightarrow> (code, unit) result \<times> pubsub_state" where
  "delete_snapshot L name now st =
     (case parse_snapshot_name name of
        Inl e \<Rightarrow> (Err e, st)
      | Inr _ \<Rightarrow>
          (let (r, st) = remove_snapshot L name (remove_expired_snapshots L now st)
           in (ok_or (map_option (\<lambda>_. ()) r) NotFound, st)))"

definition registry_seek_to_snapshot ::
    "layout \<Rightarrow> subscription_name \<Rightarrow> string \<Rightarrow> logical_instant \<Rightarrow> pubsub_state \<Rightarrow> (code, unit) result \<times> pubsub_state" where
  "registry_seek_to_snapshot L subscription snapshot_name now st =
     (let (r, st) = get_snapshot L snapshot_name now st
      in case and_then r (\<lambda>snp. map_sum id (Pair snp) (registry_subscription_config st subscription)) of
           Inl e \<Rightarrow> (Err e, st)
         | Inr (snp, c) \<Rightarrow>
             if sc_topic c \<noteq> snp_topic snp
                \<or> map_option te_incarnation (bm_get (ps_topics st) (topic_to_full (sc_topic c))) \<noteq> Some (snp_topic_incarnation snp)
             then (Err FailedPrecondition, st)
             else flatten (sub_mut subscription
                    (sub_seek_to_snapshot (snp_captured snp) (snp_retained_ids snp) (snp_unacknowledged_ids snp)
                       (snp_created_at snp) now) st))"

section \<open>Publication\<close>

definition snapshot_publish_admission ::
    "layout \<Rightarrow> pubsub_state \<Rightarrow> string \<Rightarrow> nat \<Rightarrow> message_ref list \<Rightarrow> (code, string list \<times> nat) result" where
  "snapshot_publish_admission L st topic_key topic_incarnation published =
     (let names = (case bm_get (ps_topic_snapshots st) (topic_key, topic_incarnation) of Some ns \<Rightarrow> ns | None \<Rightarrow> [])
      in and_then (checked_total 0 (map (\<lambda>m. snapshot_reference_bytes L (ref_id m) True) published)) (\<lambda>per_snapshot.
         and_then (if per_snapshot * length names < 2 ^ 64 then Ok (per_snapshot * length names)
                   else Err ResourceExhausted) (\<lambda>reference_bytes.
         and_then (if names = [] then Ok 0 else checked_total 0 (new_shared_bytes L st published)) (\<lambda>shared_bytes.
           case Option.bind (checked_add_u 64 (ps_snapshot_bytes st) reference_bytes)
                  (\<lambda>t. checked_add_u 64 t shared_bytes) of
             None \<Rightarrow> Err ResourceExhausted
           | Some t \<Rightarrow> if t \<le> max_snapshot_retained_bytes then Ok (names, t) else Err ResourceExhausted))))"

fun subscriptions_admit :: "pubsub_state \<Rightarrow> message_ref list \<Rightarrow> string list \<Rightarrow> (code, unit) result" where
  "subscriptions_admit st published [] = Ok ()"
| "subscriptions_admit st published (key # keys) =
     (if bs_contains (ps_function_subs st) key then subscriptions_admit st published keys
      else case bm_get (ps_subscriptions st) key of
             None \<Rightarrow> subscriptions_admit st published keys
           | Some s \<Rightarrow>
               and_then (ensure_enqueue_capacity s
                           (filter (\<lambda>m. admits s (pm_attributes (sm_message m))) (map ref_stored published)))
                 (\<lambda>_. subscriptions_admit st published keys))"

definition publish_admission ::
    "layout \<Rightarrow> pubsub_state \<Rightarrow> string \<Rightarrow> nat \<Rightarrow> message_ref list \<Rightarrow> (code, string list \<times> string list \<times> nat) result" where
  "publish_admission L st topic_key topic_incarnation published =
     (let keys = (case bm_get (ps_topic_subs st) topic_key of Some ks \<Rightarrow> ks | None \<Rightarrow> [])
      in and_then (subscriptions_admit st published keys) (\<lambda>_.
         and_then (snapshot_publish_admission L st topic_key topic_incarnation published)
           (\<lambda>(names, bytes). Ok (keys, names, bytes))))"

fun validate_messages :: "pubsub_message list \<Rightarrow> (code, unit) result" where
  "validate_messages [] = Ok ()"
| "validate_messages (m # ms) = and_then (message_validate m) (\<lambda>_. validate_messages ms)"

text \<open>The records of a publication, at addresses from \<open>addr\<close> on, and the counter after them.\<close>

fun number_messages ::
    "logical_instant \<Rightarrow> nat \<Rightarrow> nat \<Rightarrow> (pubsub_message \<times> string option) list \<Rightarrow> (code, message_ref list \<times> nat) result" where
  "number_messages now addr counter [] = Ok ([], counter)"
| "number_messages now addr counter ((m, Some i) # ms) =
     and_then (number_messages now (Suc addr) counter ms) (\<lambda>(refs, c).
       Ok (\<lparr>ref_addr = addr, ref_stored = \<lparr>sm_message_id = i, sm_publish_time = now, sm_message = m\<rparr>\<rparr> # refs, c))"
| "number_messages now addr counter ((m, None) # ms) =
     (case checked_add_u 64 counter 1 of
        None \<Rightarrow> Err ResourceExhausted
      | Some counter' \<Rightarrow>
          if \<not> counter' \<le> message_id_span then Err ResourceExhausted
          else and_then (number_messages now (Suc addr) counter' ms) (\<lambda>(refs, c).
            Ok (\<lparr>ref_addr = addr,
                 ref_stored = \<lparr>sm_message_id = pubsub_message_id counter', sm_publish_time = now, sm_message = m\<rparr>\<rparr>
                # refs, c)))"

definition prepare_publish_numbered ::
    "layout \<Rightarrow> topic_name \<Rightarrow> (pubsub_message \<times> string option) list \<Rightarrow> logical_instant \<Rightarrow> pubsub_state
     \<Rightarrow> (code, prepared_publication) result \<times> pubsub_state" where
  "prepare_publish_numbered L topic messages now st =
     (case bm_get (ps_topics st) (topic_to_full topic) of
        None \<Rightarrow> (Err NotFound, st)
      | Some t \<Rightarrow>
          if length messages > max_messages_per_publish then (Err InvalidArgument, st)
          else case validate_messages (map fst messages) of
            Inl e \<Rightarrow> (Err e, st)
          | Inr _ \<Rightarrow>
              let st = remove_expired_snapshots L now st
              in case number_messages now (ps_next_addr st) (ps_message_counter st) messages of
                   Inl e \<Rightarrow> (Err e, st)
                 | Inr (published, next_counter) \<Rightarrow>
                     let st = st\<lparr>ps_next_addr := ps_next_addr st + length messages\<rparr>
                     in (map_sum id (\<lambda>(keys, names, bytes).
                           \<lparr>prep_topic_key = topic_to_full topic, prep_topic_incarnation = te_incarnation t,
                            prep_initial_counter = ps_message_counter st, prep_next_counter = next_counter,
                            prep_published = published, prep_subscription_keys = keys,
                            prep_snapshot_names = names, prep_snapshot_bytes = bytes\<rparr>)
                          (publish_admission L st (topic_to_full topic) (te_incarnation t) published), st))"

definition prepare_publish ::
    "layout \<Rightarrow> topic_name \<Rightarrow> pubsub_message list \<Rightarrow> logical_instant \<Rightarrow> pubsub_state
     \<Rightarrow> (code, prepared_publication) result \<times> pubsub_state" where
  "prepare_publish L topic messages = prepare_publish_numbered L topic (map (\<lambda>m. (m, None)) messages)"

definition prepare_publish_with_message_ids ::
    "layout \<Rightarrow> topic_name \<Rightarrow> (pubsub_message \<times> string) list \<Rightarrow> logical_instant \<Rightarrow> pubsub_state
     \<Rightarrow> (code, prepared_publication) result \<times> pubsub_state" where
  "prepare_publish_with_message_ids L topic messages now st =
     (if \<not> (list_all (\<lambda>(_, i). i \<noteq> []) messages \<and> distinct (map snd messages)) then (Err InvalidArgument, st)
      else prepare_publish_numbered L topic (map (\<lambda>(m, i). (m, Some i)) messages) now st)"

fun enqueue_all :: "logical_instant \<Rightarrow> message_ref list \<Rightarrow> subscription_state \<Rightarrow> subscription_state option" where
  "enqueue_all now [] s = Some s"
| "enqueue_all now (m # ms) s =
     (if admits s (pm_attributes (sm_message (ref_stored m)))
      then case sub_enqueue m now s of (Inl _, _) \<Rightarrow> None | (Inr _, s') \<Rightarrow> enqueue_all now ms s'
      else enqueue_all now ms s)"

fun fan_out ::
    "string bset \<Rightarrow> logical_instant \<Rightarrow> message_ref list \<Rightarrow> string list \<Rightarrow> (string, subscription_state) bmap
     \<Rightarrow> (string, subscription_state) bmap option" where
  "fan_out function_subs now published [] subs = Some subs"
| "fan_out function_subs now published (key # keys) subs =
     (if bs_contains function_subs key then fan_out function_subs now published keys subs
      else case bm_get subs key of
             None \<Rightarrow> fan_out function_subs now published keys subs
           | Some s \<Rightarrow>
               Option.bind (enqueue_all now published s)
                 (\<lambda>s'. fan_out function_subs now published keys (bm_insert key s' subs)))"

definition retain_message :: "backlog_snapshot \<Rightarrow> message_ref \<Rightarrow> backlog_snapshot" where
  "retain_message snp m =
     snp\<lparr>snp_unacknowledged_ids := bs_insert (ref_id m) (snp_unacknowledged_ids snp),
         snp_retained_ids := bs_insert (ref_id m) (snp_retained_ids snp),
         snp_captured := snp_captured snp @ [m]\<rparr>"

fun retain_in_snapshots :: "message_ref list \<Rightarrow> string list \<Rightarrow> (string, backlog_snapshot) bmap \<Rightarrow> (string, backlog_snapshot) bmap option" where
  "retain_in_snapshots published [] snapshots = Some snapshots"
| "retain_in_snapshots published (name # names) snapshots =
     (case bm_get snapshots name of
        None \<Rightarrow> None
      | Some snp \<Rightarrow> retain_in_snapshots published names (bm_insert name (foldl retain_message snp published) snapshots))"

definition add_references :: "nat \<Rightarrow> (string, nat) bmap \<Rightarrow> message_ref \<Rightarrow> (string, nat) bmap" where
  "add_references n refs m =
     bm_insert (ref_id m) (saturating_add_u 64 (case bm_get refs (ref_id m) of Some k \<Rightarrow> k | None \<Rightarrow> 0) n) refs"

definition retain_snapshot_publication :: "string list \<Rightarrow> message_ref list \<Rightarrow> pubsub_state \<Rightarrow> pubsub_state option" where
  "retain_snapshot_publication names published st =
     map_option (\<lambda>snapshots.
         st\<lparr>ps_snapshots := snapshots,
            ps_message_refs := (if names = [] then ps_message_refs st
                                else foldl (add_references (length names)) (ps_message_refs st) published)\<rparr>)
       (retain_in_snapshots published names (ps_snapshots st))"

definition commit_prepared ::
    "layout \<Rightarrow> prepared_publication \<Rightarrow> logical_instant \<Rightarrow> pubsub_state
     \<Rightarrow> ((code, message_ref list) result \<times> pubsub_state) option" where
  "commit_prepared L p now st =
     (case bm_get (ps_topics st) (prep_topic_key p) of
        None \<Rightarrow> Some (Err NotFound, st)
      | Some t \<Rightarrow>
          if te_incarnation t \<noteq> prep_topic_incarnation p \<or> ps_message_counter st \<noteq> prep_initial_counter p
          then Some (Err FailedPrecondition, st)
          else case publish_admission L st (prep_topic_key p) (prep_topic_incarnation p) (prep_published p) of
            Inl e \<Rightarrow> Some (Err e, st)
          | Inr (keys, names, bytes) \<Rightarrow>
              if keys \<noteq> prep_subscription_keys p \<or> names \<noteq> prep_snapshot_names p \<or> bytes \<noteq> prep_snapshot_bytes p
              then Some (Err FailedPrecondition, st)
              else let publish_time = (case prep_published p of m # _ \<Rightarrow> sm_publish_time (ref_stored m) | [] \<Rightarrow> now)
                   in Option.bind (fan_out (ps_function_subs st) publish_time (prep_published p)
                                     (prep_subscription_keys p) (ps_subscriptions st)) (\<lambda>subs.
                      Option.bind (retain_snapshot_publication (prep_snapshot_names p) (prep_published p)
                                     (st\<lparr>ps_subscriptions := subs\<rparr>)) (\<lambda>st.
                      Some (Ok (prep_published p),
                            st\<lparr>ps_snapshot_bytes := prep_snapshot_bytes p,
                               ps_message_counter := prep_next_counter p\<rparr>))))"

text \<open>Admission and commit of one call.\<close>

definition commit_result ::
    "layout \<Rightarrow> logical_instant \<Rightarrow> (code, prepared_publication) result \<times> pubsub_state
     \<Rightarrow> ((code, message_ref list) result \<times> pubsub_state) option" where
  "commit_result L now = (\<lambda>(r, st). case r of Inl e \<Rightarrow> Some (Err e, st) | Inr p \<Rightarrow> commit_prepared L p now st)"

definition publish_shared ::
    "layout \<Rightarrow> topic_name \<Rightarrow> pubsub_message list \<Rightarrow> logical_instant \<Rightarrow> pubsub_state
     \<Rightarrow> ((code, message_ref list) result \<times> pubsub_state) option" where
  "publish_shared L topic messages now st = commit_result L now (prepare_publish L topic messages now st)"

definition publish_with_message_ids ::
    "layout \<Rightarrow> topic_name \<Rightarrow> (pubsub_message \<times> string) list \<Rightarrow> logical_instant \<Rightarrow> pubsub_state
     \<Rightarrow> ((code, message_ref list) result \<times> pubsub_state) option" where
  "publish_with_message_ids L topic messages now st =
     commit_result L now (prepare_publish_with_message_ids L topic messages now st)"

definition registry_publish ::
    "layout \<Rightarrow> topic_name \<Rightarrow> pubsub_message list \<Rightarrow> logical_instant \<Rightarrow> pubsub_state
     \<Rightarrow> ((code, string list) result \<times> pubsub_state) option" where
  "registry_publish L topic messages now st =
     map_option (\<lambda>(r, st). (map_sum id (map ref_id) r, st)) (publish_shared L topic messages now st)"

section \<open>Dead letters\<close>

definition can_commit_dead_letter :: "pubsub_state \<Rightarrow> dead_letter_forward \<Rightarrow> bool" where
  "can_commit_dead_letter st f \<longleftrightarrow>
     dead_letter_authorized st (dlf_source f) (dlf_topic f)
     \<and> is_some_and (\<lambda>s.
          is_some_and (\<lambda>p. dl_topic p = dlf_topic f) (sc_dead_letter_policy (ss_config s))
          \<and> list_ex (\<lambda>m. ptr_eq m (dlf_message f)) (pending_forwards s))
        (bm_get (ps_subscriptions st) (subscription_to_full (dlf_source f)))"

definition resume_dead_letter :: "dead_letter_forward \<Rightarrow> logical_instant \<Rightarrow> pubsub_state \<Rightarrow> pubsub_state" where
  "resume_dead_letter f now st = snd (sub_mut (dlf_source f) (unit_result (resume_forward (dlf_message f) now)) st)"

definition trim_end :: "char \<Rightarrow> string \<Rightarrow> string" where
  "trim_end c s = rev (dropWhile (\<lambda>b. b = c) (rev s))"

definition dead_letter_time :: "string \<Rightarrow> string" where
  "dead_letter_time published =
     (let p = butlast published
      in (if CHR ''.'' \<in> set p then trim_end CHR ''.'' (trim_end CHR ''0'' p) else p) @ ''+00:00'')"

definition dead_letter_attributes ::
    "subscription_name \<Rightarrow> nat \<Rightarrow> string \<Rightarrow> (string, string) bmap \<Rightarrow> (string, string) bmap" where
  "dead_letter_attributes source attempt published attributes =
     bm_insert ''CloudPubSubDeadLetterSourceTopicPublishTime'' published
     (bm_insert ''CloudPubSubDeadLetterSourceDeliveryCount'' (dec attempt)
     (bm_insert ''CloudPubSubDeadLetterSourceSubscriptionProject'' (sn_project source)
     (bm_insert ''CloudPubSubDeadLetterSourceSubscription'' (sn_subscription source) attributes)))"

definition prepare_dead_letter_publication ::
    "layout \<Rightarrow> dead_letter_forward \<Rightarrow> logical_instant \<Rightarrow> pubsub_state
     \<Rightarrow> (code, prepared_publication) result \<times> pubsub_state" where
  "prepare_dead_letter_publication L f now st =
     (if \<not> can_commit_dead_letter st f then (Err FailedPrecondition, resume_dead_letter f now st)
      else let message = sm_message (ref_stored (dlf_message f))
           in case (if \<not> ps_enforce_iam st then Ok message
                    else case Option.bind (bm_get (ps_subscriptions st) (subscription_to_full (dlf_source f)))
                                (\<lambda>s. forwarding_attempt s (dlf_message f)) of
                           None \<Rightarrow> Err FailedPrecondition
                         | Some attempt \<Rightarrow>
                             (case to_rfc3339 (sm_publish_time (ref_stored (dlf_message f))) of
                                Inl _ \<Rightarrow> Err FailedPrecondition
                              | Inr published \<Rightarrow>
                                  Ok (message\<lparr>pm_attributes := dead_letter_attributes (dlf_source f) attempt
                                         (dead_letter_time published) (pm_attributes message)\<rparr>))) of
                Inl e \<Rightarrow> (Err e, st)
              | Inr m \<Rightarrow> prepare_publish L (dlf_topic f) [m] now st)"

definition complete_dead_letter :: "subscription_name \<Rightarrow> string \<Rightarrow> pubsub_state \<Rightarrow> (code, bool) result \<times> pubsub_state" where
  "complete_dead_letter source message_id st = sub_mut source (complete_forward message_id) st"

definition pending_dead_letters :: "pubsub_state \<Rightarrow> dead_letter_forward list" where
  "pending_dead_letters st =
     concat (map (\<lambda>s. case sc_dead_letter_policy (ss_config s) of
                        None \<Rightarrow> []
                      | Some policy \<Rightarrow>
                          map (\<lambda>m. \<lparr>dlf_source = sc_name (ss_config s), dlf_topic = dl_topic policy, dlf_message = m\<rparr>)
                            (pending_forwards s)) (bm_values (ps_subscriptions st)))"

section \<open>Delivery\<close>

definition pull_with_dead_letters_admitted ::
    "subscription_name \<Rightarrow> nat \<Rightarrow> logical_instant \<Rightarrow> ordered_pull_batching \<Rightarrow> (stored_message list \<Rightarrow> bool)
     \<Rightarrow> pubsub_state \<Rightarrow> (code, pull_result) result \<times> pubsub_state" where
  "pull_with_dead_letters_admitted name max_messages now batching admit st =
     (let key = subscription_to_full name
      in case bm_get (ps_subscriptions st) key of
           None \<Rightarrow> (Err NotFound, st)
         | Some s0 \<Rightarrow>
             let s = expire_deadlines now s0;
                 authorized = is_some_and (\<lambda>policy. dead_letter_authorized st name (dl_topic policy))
                                (sc_dead_letter_policy (ss_config s));
                 (outcome, rng, s') = pull_with_admission max_messages now authorized batching registry_ack_id admit
                                        (ps_ack_rng st) s;
                 dead_lettered =
                   (case sc_dead_letter_policy (ss_config s') of
                      Some policy \<Rightarrow> map (\<lambda>m. \<lparr>dlf_source = name, dlf_topic = dl_topic policy, dlf_message = m\<rparr>)
                                       (po_dead_lettered outcome)
                    | None \<Rightarrow> [])
             in (Ok \<lparr>pr_received = po_received outcome, pr_dead_lettered = dead_lettered\<rparr>,
                 st\<lparr>ps_ack_rng := rng, ps_subscriptions := bm_insert key s' (ps_subscriptions st)\<rparr>))"

definition pull_with_dead_letters_batching ::
    "subscription_name \<Rightarrow> nat \<Rightarrow> logical_instant \<Rightarrow> ordered_pull_batching \<Rightarrow> pubsub_state
     \<Rightarrow> (code, pull_result) result \<times> pubsub_state" where
  "pull_with_dead_letters_batching name max_messages now batching =
     pull_with_dead_letters_admitted name max_messages now batching (\<lambda>_. True)"

definition pull_with_dead_letters ::
    "subscription_name \<Rightarrow> nat \<Rightarrow> logical_instant \<Rightarrow> pubsub_state \<Rightarrow> (code, pull_result) result \<times> pubsub_state" where
  "pull_with_dead_letters name max_messages now = pull_with_dead_letters_batching name max_messages now Mixed"

fun forward_all :: "layout \<Rightarrow> logical_instant \<Rightarrow> dead_letter_forward list \<Rightarrow> pubsub_state \<Rightarrow> pubsub_state option" where
  "forward_all L now [] st = Some st"
| "forward_all L now (f # fs) st =
     (let (r, st) = prepare_dead_letter_publication L f now st
      in case r of
           Inl _ \<Rightarrow> forward_all L now fs st
         | Inr p \<Rightarrow>
             Option.bind (commit_prepared L p now st) (\<lambda>(r, st).
               if is_ok r
               then forward_all L now fs (snd (complete_dead_letter (dlf_source f) (ref_id (dlf_message f)) st))
               else forward_all L now fs st))"

definition registry_pull ::
    "layout \<Rightarrow> subscription_name \<Rightarrow> nat \<Rightarrow> logical_instant \<Rightarrow> pubsub_state
     \<Rightarrow> ((code, received_message list) result \<times> pubsub_state) option" where
  "registry_pull L name max_messages now st =
     (let (r, st) = pull_with_dead_letters name max_messages now st
      in case r of
           Inl e \<Rightarrow> Some (Err e, st)
         | Inr outcome \<Rightarrow>
             map_option (Pair (Ok (pr_received outcome))) (forward_all L now (pr_dead_lettered outcome) st))"

definition registry_acknowledge :: "subscription_name \<Rightarrow> string list \<Rightarrow> pubsub_state \<Rightarrow> (code, nat) result \<times> pubsub_state" where
  "registry_acknowledge name ack_ids st = sub_mut name (acknowledge ack_ids) st"

definition registry_retain_outstanding ::
    "subscription_name \<Rightarrow> string bset \<Rightarrow> logical_instant \<Rightarrow> pubsub_state \<Rightarrow> (code, string bset) result \<times> pubsub_state" where
  "registry_retain_outstanding name ack_ids now st = sub_mut name (retain_outstanding_ack_ids ack_ids now) st"

definition registry_modify_ack_deadline ::
    "subscription_name \<Rightarrow> string list \<Rightarrow> nat \<Rightarrow> logical_instant \<Rightarrow> pubsub_state \<Rightarrow> (code, unit) result \<times> pubsub_state" where
  "registry_modify_ack_deadline name ack_ids seconds now st =
     sub_mut name (unit_result (\<lambda>s. foldl (\<lambda>s a. modify_ack_deadline a seconds now s) s ack_ids)) st"

definition registry_seek_to_time ::
    "subscription_name \<Rightarrow> logical_instant \<Rightarrow> logical_instant \<Rightarrow> pubsub_state \<Rightarrow> (code, unit) result \<times> pubsub_state" where
  "registry_seek_to_time name time now st = flatten (sub_mut name (seek_to_time time now) st)"

definition expire_all :: "layout \<Rightarrow> logical_instant \<Rightarrow> pubsub_state \<Rightarrow> pubsub_state" where
  "expire_all L now st =
     (let st = remove_expired_snapshots L now st
      in st\<lparr>ps_subscriptions := map (map_prod id (expire_deadlines now)) (ps_subscriptions st)\<rparr>)"

definition reported_topic :: "pubsub_state \<Rightarrow> subscription_name \<Rightarrow> string option" where
  "reported_topic st name =
     map_option (\<lambda>s. let topic = topic_to_full (sc_topic (ss_config s))
                     in if bm_contains (ps_topics st) topic then topic else deleted_topic)
       (bm_get (ps_subscriptions st) (subscription_to_full name))"

section \<open>Reset\<close>

definition registry_clear :: "pubsub_state \<Rightarrow> pubsub_state" where
  "registry_clear st =
     st\<lparr>ps_page_boundaries := [], ps_topics := [], ps_policies := [], ps_subscriptions := [], ps_topic_subs := [],
        ps_function_subs := [], ps_snapshots := [], ps_topic_snapshots := [], ps_message_refs := [],
        ps_snapshot_bytes := 0, ps_message_counter := 0, ps_ack_rng := ack_seed (ps_seed st),
        ps_snapshot_counter := 0\<rparr>"

definition clear_project :: "layout \<Rightarrow> string \<Rightarrow> pubsub_state \<Rightarrow> pubsub_state" where
  "clear_project L project st =
     (let st = st\<lparr>ps_page_boundaries := filter (\<lambda>(list_context, _). \<not> prefix (''projects/'' @ project @ ''/'') list_context)
                     (ps_page_boundaries st)\<rparr>;
          st = foldl (\<lambda>st c. snd (delete_subscription (sc_name c) st)) st (list_subscriptions st project);
          st = foldl (\<lambda>st t. snd (delete_topic t st)) st (list_topics st project)
      in remove_snapshots L
           (map snp_name (filter (\<lambda>snp. snp_owner_project snp = project) (bm_values (ps_snapshots st)))) st)"

text \<open>\<open>split('/').nth(1)\<close>\<close>

definition second_segment :: "string \<Rightarrow> string option" where
  "second_segment s = map_option (\<lambda>(_, rest). takeWhile (\<lambda>b. b \<noteq> CHR ''/'') rest) (split_once CHR ''/'' s)"

definition clear_projects_where :: "layout \<Rightarrow> (string \<Rightarrow> bool) \<Rightarrow> pubsub_state \<Rightarrow> pubsub_state" where
  "clear_projects_where L matches st =
     foldl (\<lambda>st project. clear_project L project st) st
       (filter matches (bs_of_list (
          List.map_filter second_segment (bm_keys (ps_page_boundaries st))
          @ map (\<lambda>t. tn_project (te_name t)) (bm_values (ps_topics st))
          @ map (\<lambda>s. sn_project (sc_name (ss_config s))) (bm_values (ps_subscriptions st))
          @ map snp_owner_project (bm_values (ps_snapshots st)))))"

end
