(* ===== verification/Ps_Registry_Inv.thy ===== *)
theory Ps_Registry_Inv
  imports Ps_Registry
begin

text \<open>
  The registry as a state machine: its operations as steps, the well-formedness they keep, and
  that no step reaches an \<open>expect\<close> of the source. Publication fans out to exactly the attached
  subscriptions, a snapshot restores the backlog it captured.
\<close>

section \<open>Well-formed registries\<close>

abbreviation sub_topic :: "subscription_state \<Rightarrow> string" where
  "sub_topic s \<equiv> topic_to_full (sc_topic (ss_config s))"

definition attached :: "('k::linorder, string bset) bmap \<Rightarrow> 'k \<Rightarrow> string bset" where
  "attached topic_subs key = (case bm_get topic_subs key of Some ks \<Rightarrow> ks | None \<Rightarrow> [])"

lemma attached_simps [simp]:
  "attached [] key = []"
  "attached (bm_insert k ks m) key = (if key = k then ks else attached m key)"
  "attached (bm_remove k m) key = (if key = k then [] else attached m key)"
  by (simp_all add: attached_def)

text \<open>The topic each subscription is configured with.\<close>

definition route :: "(string, subscription_state) bmap \<Rightarrow> string \<Rightarrow> string option" where
  "route subs key = map_option sub_topic (bm_get subs key)"

text \<open>The ack ids the registry has issued with its first \<open>n\<close> draws.\<close>

definition issued :: "64 word \<Rightarrow> nat \<Rightarrow> string set" where
  "issued seed n = set (draws registry_ack_id (ack_seed seed) n)"

definition log_ok :: "string set \<Rightarrow> string \<Rightarrow> subscription_state \<Rightarrow> bool" where
  "log_ok ids key s \<longleftrightarrow>
     key = subscription_to_full (sc_name (ss_config s)) \<and> sub_inv s \<and> set (acks (ss_entries s)) \<subseteq> ids"

definition logs_ok :: "string set \<Rightarrow> (string, subscription_state) bmap \<Rightarrow> bool" where
  "logs_ok ids subs \<longleftrightarrow> (\<forall>k s. bm_get subs k = Some s \<longrightarrow> log_ok ids k s)"

text \<open>
  Routing: the sets of attached subscriptions are those of the live topics, and a subscription is
  in the set of a topic exactly when it is configured with it. While resource policies can still
  be created, the sets name no subscription that does not exist.
\<close>

definition routed ::
    "(string, topic_entry) bmap \<Rightarrow> (string \<Rightarrow> string option) \<Rightarrow> (string, string bset) bmap \<Rightarrow> bool \<Rightarrow> bool" where
  "routed topics r topic_subs creatable \<longleftrightarrow>
     (\<forall>tk. bs_wf (attached topic_subs tk))
     \<and> (\<forall>tk. tk \<noteq> deleted_topic \<longrightarrow> bm_get topics tk = None \<longrightarrow> attached topic_subs tk = [])
     \<and> (\<forall>k tk. r k = Some tk \<longrightarrow> tk = deleted_topic \<or> bm_get topics tk \<noteq> None)
     \<and> (\<forall>k tk. tk \<noteq> deleted_topic \<longrightarrow> r k = Some tk \<longrightarrow> k \<in> set (attached topic_subs tk))
     \<and> (\<forall>tk k t. k \<in> set (attached topic_subs tk) \<longrightarrow> r k = Some t \<longrightarrow> t = tk)
     \<and> (creatable \<longrightarrow> (\<forall>tk k. k \<in> set (attached topic_subs tk) \<longrightarrow> r k \<noteq> None))"

abbreviation snp_topic_key :: "backlog_snapshot \<Rightarrow> string \<times> nat" where
  "snp_topic_key snp \<equiv> (topic_to_full (snp_topic snp), snp_topic_incarnation snp)"

definition snapshots_indexed :: "(string, backlog_snapshot) bmap \<Rightarrow> (string \<times> nat, string bset) bmap \<Rightarrow> bool" where
  "snapshots_indexed snapshots topic_snapshots \<longleftrightarrow>
     (\<forall>name snp. bm_get snapshots name = Some snp \<longrightarrow> snp_name snp = name)
     \<and> (\<forall>key name. name \<in> set (attached topic_snapshots key)
          \<longleftrightarrow> (\<exists>snp. bm_get snapshots name = Some snp \<and> snp_topic_key snp = key))"

definition maps_wf :: "pubsub_state \<Rightarrow> bool" where
  "maps_wf st \<longleftrightarrow>
     bm_wf (ps_topics st) \<and> bm_wf (ps_subscriptions st) \<and> bm_wf (ps_topic_subs st) \<and> bm_wf (ps_policies st)
     \<and> bm_wf (ps_snapshots st) \<and> bm_wf (ps_topic_snapshots st) \<and> bm_wf (ps_message_refs st)
     \<and> bm_wf (ps_page_boundaries st) \<and> bs_wf (ps_function_subs st)"

abbreviation creatable :: "pubsub_state \<Rightarrow> bool" where
  "creatable st \<equiv> ps_policy_incarnation st < 0x00ffffff"

definition registry_ok :: "nat \<Rightarrow> pubsub_state \<Rightarrow> bool" where
  "registry_ok n st \<longleftrightarrow>
     maps_wf st
     \<and> logs_ok (issued (ps_seed st) n) (ps_subscriptions st)
     \<and> ps_ack_rng st = after_draws registry_ack_id (ack_seed (ps_seed st)) n
     \<and> routed (ps_topics st) (route (ps_subscriptions st)) (ps_topic_subs st) (creatable st)
     \<and> snapshots_indexed (ps_snapshots st) (ps_topic_snapshots st)"

lemma registry_okD:
  assumes "registry_ok n st"
  shows "maps_wf st" "logs_ok (issued (ps_seed st) n) (ps_subscriptions st)"
    "ps_ack_rng st = after_draws registry_ack_id (ack_seed (ps_seed st)) n"
    "routed (ps_topics st) (route (ps_subscriptions st)) (ps_topic_subs st) (creatable st)"
    "snapshots_indexed (ps_snapshots st) (ps_topic_snapshots st)"
  using assms by (simp_all add: registry_ok_def)

lemma logs_okD: "logs_ok ids subs \<Longrightarrow> bm_get subs k = Some s \<Longrightarrow> log_ok ids k s"
  by (simp add: logs_ok_def)

lemma registry_ok_new: "registry_ok 0 (pubsub_new seed)"
  by (simp add: registry_ok_def pubsub_new_def maps_wf_def logs_ok_def routed_def route_def snapshots_indexed_def)

lemma deleted_topic_iff: "topic_to_full t = deleted_topic \<longleftrightarrow> is_deleted_sentinel t"
  by (simp add: topic_to_full_def deleted_topic_def)

lemma routedI:
  assumes "\<And>tk. bs_wf (attached ts tk)"
    and "\<And>tk. tk \<noteq> deleted_topic \<Longrightarrow> bm_get t tk = None \<Longrightarrow> attached ts tk = []"
    and "\<And>k tk. r k = Some tk \<Longrightarrow> tk = deleted_topic \<or> bm_get t tk \<noteq> None"
    and "\<And>k tk. tk \<noteq> deleted_topic \<Longrightarrow> r k = Some tk \<Longrightarrow> k \<in> set (attached ts tk)"
    and "\<And>k tk tk'. k \<in> set (attached ts tk) \<Longrightarrow> r k = Some tk' \<Longrightarrow> tk' = tk"
    and "\<And>k tk. c \<Longrightarrow> k \<in> set (attached ts tk) \<Longrightarrow> r k \<noteq> None"
  shows "routed t r ts c"
  using assms by (simp add: routed_def)

lemma routedD:
  assumes "routed t r ts c"
  shows "bs_wf (attached ts tk)"
    and "tk \<noteq> deleted_topic \<Longrightarrow> bm_get t tk = None \<Longrightarrow> attached ts tk = []"
    and "r k = Some tk \<Longrightarrow> tk = deleted_topic \<or> bm_get t tk \<noteq> None"
    and "tk \<noteq> deleted_topic \<Longrightarrow> r k = Some tk \<Longrightarrow> k \<in> set (attached ts tk)"
    and "k \<in> set (attached ts tk) \<Longrightarrow> r k = Some tk' \<Longrightarrow> tk' = tk"
    and "c \<Longrightarrow> k \<in> set (attached ts tk) \<Longrightarrow> r k \<noteq> None"
  using assms unfolding routed_def by blast+

lemma routed_mono: "routed t s ts c \<Longrightarrow> (c' \<Longrightarrow> c) \<Longrightarrow> routed t s ts c'"
  by (auto simp: routed_def)

section \<open>Operations on one subscription\<close>

lemma logs_ok_insert: "logs_ok ids subs \<Longrightarrow> log_ok ids k s \<Longrightarrow> logs_ok ids (bm_insert k s subs)"
  by (auto simp: logs_ok_def)

lemma logs_ok_mono: "logs_ok ids subs \<Longrightarrow> ids \<subseteq> ids' \<Longrightarrow> logs_ok ids' subs"
  by (fastforce simp: logs_ok_def log_ok_def)

text \<open>Replacing a subscription keeps the routes when it keeps its topic.\<close>

lemma route_insert [simp]: "route (bm_insert k s subs) = (route subs)(k \<mapsto> sub_topic s)"
  by (rule ext) (simp add: route_def)

lemma route_remove [simp]: "route (bm_remove k subs) = (route subs)(k := None)"
  by (rule ext) (simp add: route_def)

lemma route_replace: "bm_get subs k = Some s \<Longrightarrow> sub_topic s' = sub_topic s \<Longrightarrow> route (bm_insert k s' subs) = route subs"
  by (rule ext) (simp add: route_def)

lemma registry_ok_replace:
  assumes "registry_ok n st" "bm_get (ps_subscriptions st) k = Some s"
    and "log_ok (issued (ps_seed st) n) k s'" "sub_topic s' = sub_topic s"
  shows "registry_ok n (st\<lparr>ps_subscriptions := bm_insert k s' (ps_subscriptions st)\<rparr>)"
  using assms(1,3) route_replace [OF assms(2,4)]
  by (auto simp: registry_ok_def maps_wf_def simp del: route_insert intro: logs_ok_insert)

text \<open>What an operation of a subscription keeps.\<close>

definition keeps_log :: "(subscription_state \<Rightarrow> subscription_state) \<Rightarrow> bool" where
  "keeps_log f \<longleftrightarrow> (\<forall>s. sub_inv s \<longrightarrow>
     sub_inv (f s) \<and> set (acks (ss_entries (f s))) \<subseteq> set (acks (ss_entries s))
     \<and> sc_name (ss_config (f s)) = sc_name (ss_config s) \<and> sc_topic (ss_config (f s)) = sc_topic (ss_config s))"

lemma keeps_logD:
  assumes "keeps_log f" "sub_inv s"
  shows "sub_inv (f s)" "set (acks (ss_entries (f s))) \<subseteq> set (acks (ss_entries s))"
    "sc_name (ss_config (f s)) = sc_name (ss_config s)" "sc_topic (ss_config (f s)) = sc_topic (ss_config s)"
  using assms by (simp_all add: keeps_log_def)

lemma keeps_log_ok: "keeps_log f \<Longrightarrow> log_ok ids k s \<Longrightarrow> log_ok ids k (f s)"
  by (auto simp: log_ok_def keeps_logD dest: keeps_logD(2) [THEN subsetD])

lemma keeps_log_topic: "keeps_log f \<Longrightarrow> log_ok ids k s \<Longrightarrow> sub_topic (f s) = sub_topic s"
  by (simp add: log_ok_def keeps_logD)

lemma sub_mut_ok:
  assumes "registry_ok n st" "keeps_log (\<lambda>s. snd (f s))"
  shows "registry_ok n (snd (sub_mut name f st))"
proof (cases "bm_get (ps_subscriptions st) (subscription_to_full name)")
  case (Some s)
  note ok = logs_okD [OF registry_okD(2) [OF assms(1)] Some]
  have "snd (sub_mut name f st)
      = st\<lparr>ps_subscriptions := bm_insert (subscription_to_full name) (snd (f s)) (ps_subscriptions st)\<rparr>"
    by (simp add: sub_mut_def Some split: prod.split)
  with registry_ok_replace [OF assms(1) Some keeps_log_ok [OF assms(2) ok] keeps_log_topic [OF assms(2) ok]]
  show ?thesis by simp
qed (simp add: sub_mut_def assms(1))

lemma snd_flatten [simp]: "snd (flatten p) = snd p"
  by (simp add: flatten_def split: prod.split)

lemma keeps_log_comp:
  assumes "keeps_log f" "keeps_log g"
  shows "keeps_log (\<lambda>s. g (f s))"
  unfolding keeps_log_def
proof (intro allI impI)
  fix s
  assume "sub_inv s"
  note f = keeps_logD [OF assms(1) this]
  note g = keeps_logD [OF assms(2) f(1)]
  show "sub_inv (g (f s)) \<and> set (acks (ss_entries (g (f s)))) \<subseteq> set (acks (ss_entries s))
      \<and> sc_name (ss_config (g (f s))) = sc_name (ss_config s) \<and> sc_topic (ss_config (g (f s))) = sc_topic (ss_config s)"
    using f g by (intro conjI) (blast, rule subset_trans [OF g(2) f(2)], simp_all)
qed

lemma keeps_log_id: "keeps_log (\<lambda>s. s)"
  by (simp add: keeps_log_def)

lemma keeps_log_fold: "(\<And>x. keeps_log (\<lambda>s. f s x)) \<Longrightarrow> keeps_log (\<lambda>s. foldl f s xs)"
proof (induction xs)
  case (Cons x xs)
  show ?case using keeps_log_comp [OF Cons.prems Cons.IH [OF Cons.prems], of x] by simp
qed (simp add: keeps_log_id)

lemma keeps_log_config:
  assumes "\<And>c. sc_name (g c) = sc_name c" "\<And>c. sc_topic (g c) = sc_topic c"
  shows "keeps_log (\<lambda>s. s\<lparr>ss_config := g (ss_config s)\<rparr>)"
  using assms by (simp add: keeps_log_def config_inv)

lemma expire_one_config: "ss_config (expire_one now s a) = ss_config s"
  by (simp add: expire_one_def set_state_def split: option.split)

lemma acknowledge_config: "ss_config (snd (acknowledge ids s)) = ss_config s"
proof -
  have "ss_config (snd (foldl acknowledge_one p ids)) = ss_config (snd p)" for p
  proof (induction ids arbitrary: p)
    case (Cons a ids)
    then show ?case
      by (cases p) (auto simp: acknowledge_one_def set_state_def split: option.split)
  qed simp
  from this [of "(0, s)"] show ?thesis
    by (simp add: acknowledge_def advance_first_unacked_def split: prod.split) (metis snd_conv)
qed

lemma keeps_log_acknowledge: "keeps_log (\<lambda>s. snd (acknowledge ids s))"
  by (simp add: keeps_log_def acknowledge_inv acks_acknowledge acknowledge_config)

lemma keeps_log_complete: "keeps_log (\<lambda>s. snd (complete_forward m s))"
  by (auto simp: keeps_log_def complete_forward_inv acks_complete_forward [THEN subsetD])
    (simp_all add: complete_forward_def set_state_def advance_first_unacked_def split: option.split)

lemma keeps_log_resume: "keeps_log (resume_forward m now)"
  by (simp add: keeps_log_def resume_inv) (simp add: resume_forward_def acks_map)

lemma keeps_log_expire: "keeps_log (expire_deadlines now)"
  by (simp add: keeps_log_def expire_inv acks_expire expire_config)

lemma keeps_log_modify: "keeps_log (modify_ack_deadline a seconds now)"
  by (simp add: keeps_log_def modify_inv acks_modify)
    (simp add: modify_ack_deadline_def set_state_def split: option.split delivery.split)

lemma keeps_log_seek_time: "keeps_log (\<lambda>s. snd (seek_to_time t now s))"
  by (simp add: keeps_log_def seek_time_inv acks_seeks(1)) (simp add: seek_to_time_def rebuild_indexes_def)

lemma keeps_log_set_push_minimum: "keeps_log (set_push_minimum t)"
  by (simp add: keeps_log_def set_push_minimum_def config_inv)

lemmas keeps_log_ops = keeps_log_acknowledge keeps_log_complete keeps_log_resume keeps_log_expire
  keeps_log_modify keeps_log_seek_time keeps_log_set_push_minimum

section \<open>Operations on the whole registry\<close>

lemma bm_get_map_values: "bm_get (map (map_prod id f) m) k = map_option f (bm_get m k)"
  by (induction m) auto

lemma bm_wf_map_values: "bm_wf (map (map_prod id f) m) = bm_wf m"
  by (simp add: bm_wf_def comp_def)

lemma values_mut_ok:
  assumes "registry_ok n st" "keeps_log f"
  shows "registry_ok n (st\<lparr>ps_subscriptions := map (map_prod id f) (ps_subscriptions st)\<rparr>)"
proof -
  note ok = logs_okD [OF registry_okD(2) [OF assms(1)]]
  have t: "sub_topic (f s) = sub_topic s" if "bm_get (ps_subscriptions st) k = Some s" for k s
    using keeps_log_topic [OF assms(2) ok [OF that]] .
  have "route (map (map_prod id f) (ps_subscriptions st)) = route (ps_subscriptions st)"
  proof (rule ext)
    fix k
    show "route (map (map_prod id f) (ps_subscriptions st)) k = route (ps_subscriptions st) k"
      using t by (cases "bm_get (ps_subscriptions st) k") (simp_all add: route_def bm_get_map_values)
  qed
  moreover have "logs_ok (issued (ps_seed st) n) (map (map_prod id f) (ps_subscriptions st))"
    unfolding logs_ok_def bm_get_map_values by (auto dest!: ok intro: keeps_log_ok [OF assms(2)])
  ultimately show ?thesis
    using assms(1) by (simp add: registry_ok_def maps_wf_def bm_wf_map_values)
qed

lemma create_policy_fields:
  assumes "create_resource_policy r st = (res, st')"
  shows "\<exists>i p. st' = st\<lparr>ps_policy_incarnation := i, ps_policies := p\<rparr>
    \<and> ps_policy_incarnation st \<le> i \<and> (bm_wf (ps_policies st) \<longrightarrow> bm_wf p)
    \<and> (is_ok res \<longrightarrow> creatable st) \<and> (\<not> is_ok res \<longrightarrow> \<not> creatable st \<and> i = ps_policy_incarnation st)"
  using assms
  by (intro exI [of _ "ps_policy_incarnation st'"] exI [of _ "ps_policies st'"])
    (auto simp: create_resource_policy_def split: option.splits if_splits)

lemma attached_same [simp]: "attached (bm_insert k (attached m k) m) = attached m"
  by (rule ext) simp

lemma routed_new_topic: "routed t r ts c \<Longrightarrow> routed (bm_insert key e t) r (bm_insert key (attached ts key) ts) c"
  by (auto simp: routed_def simp del: attached_simps)

lemma create_topic_ok:
  assumes "registry_ok n st"
  shows "registry_ok n (snd (create_topic_with_retention name labels retention st))"
proof -
  let ?key = "topic_to_full name"
  define st0 where "st0 = st\<lparr>ps_topic_counter := Suc (ps_topic_counter st)\<rparr>"
  have ok0: "registry_ok n st0" using assms by (simp add: registry_ok_def maps_wf_def st0_def)
  obtain res st1 where c: "create_resource_policy ?key st0 = (res, st1)" by fastforce
  from create_policy_fields [OF c] obtain i p where
    st1: "st1 = st0\<lparr>ps_policy_incarnation := i, ps_policies := p\<rparr>" "ps_policy_incarnation st0 \<le> i"
    "bm_wf (ps_policies st0) \<longrightarrow> bm_wf p" by blast
  have "routed (ps_topics st0) (route (ps_subscriptions st0)) (ps_topic_subs st0) (i < 0xffffff)"
    by (rule routed_mono [OF registry_okD(4) [OF ok0]]) (use st1(2) in simp)
  then have ok1: "registry_ok n st1" using ok0 st1(3) by (simp add: registry_ok_def maps_wf_def st1(1))
  have "registry_ok n (st1\<lparr>ps_topic_subs := bm_insert ?key (attached (ps_topic_subs st1) ?key) (ps_topic_subs st1),
      ps_topics := bm_insert ?key e (ps_topics st1)\<rparr>)" for e
    using ok1 by (auto simp: registry_ok_def maps_wf_def intro: routed_new_topic)
  with assms ok1 show ?thesis
    by (auto simp: create_topic_with_retention_def Let_def c [unfolded st0_def] attached_def
        split: sum.split option.split)
qed

lemma detach_fold:
  "\<exists>subs. foldl detach_subscription st ks = st\<lparr>ps_subscriptions := subs\<rparr>
     \<and> (bm_wf (ps_subscriptions st) \<longrightarrow> bm_wf subs)
     \<and> (\<forall>k. bm_get subs k = (if k \<in> set ks then map_option mark_topic_deleted (bm_get (ps_subscriptions st) k)
                              else bm_get (ps_subscriptions st) k))"
proof (induction ks arbitrary: st)
  case Nil
  show ?case by (intro exI [of _ "ps_subscriptions st"]) simp
next
  case (Cons k ks)
  define subs1 where "subs1 = ps_subscriptions (detach_subscription st k)"
  have st1: "detach_subscription st k = st\<lparr>ps_subscriptions := subs1\<rparr>"
    "bm_wf (ps_subscriptions st) \<longrightarrow> bm_wf subs1"
    "\<forall>j. bm_get subs1 j = (if j = k then map_option mark_topic_deleted (bm_get (ps_subscriptions st) j)
                            else bm_get (ps_subscriptions st) j)"
    by (auto simp: subs1_def detach_subscription_def split: option.split)
  have idem: "mark_topic_deleted (mark_topic_deleted s) = mark_topic_deleted s" for s
    by (simp add: mark_topic_deleted_def)
  from Cons.IH [of "st\<lparr>ps_subscriptions := subs1\<rparr>"] obtain subs where
    "foldl detach_subscription (st\<lparr>ps_subscriptions := subs1\<rparr>) ks = st\<lparr>ps_subscriptions := subs\<rparr>"
    "bm_wf subs1 \<longrightarrow> bm_wf subs"
    "\<forall>j. bm_get subs j = (if j \<in> set ks then map_option mark_topic_deleted (bm_get subs1 j) else bm_get subs1 j)"
    by auto
  with st1 show ?case
    by (intro exI [of _ subs]) (auto simp: idem option.map_comp comp_def)
qed

lemma mark_deleted_simps [simp]:
  "sub_topic (mark_topic_deleted s) = deleted_topic" "sub_inv (mark_topic_deleted s) = sub_inv s"
  "ss_entries (mark_topic_deleted s) = ss_entries s" "sc_name (ss_config (mark_topic_deleted s)) = sc_name (ss_config s)"
  by (simp_all add: mark_topic_deleted_def topic_to_full_def is_deleted_sentinel_def config_inv)

lemma log_ok_mark_deleted [simp]: "log_ok ids k (mark_topic_deleted s) = log_ok ids k s"
  by (simp add: log_ok_def)

lemma routed_delete_topic:
  assumes "routed t r ts c" "\<And>k. r' k = (if k \<in> set (attached ts key) then map_option (\<lambda>_. deleted_topic) (r k) else r k)"
  shows "routed (bm_remove key t) r' (bm_remove key ts) c"
proof -
  have r: "r' k = Some tk \<longleftrightarrow> (if k \<in> set (attached ts key) then r k \<noteq> None \<and> tk = deleted_topic else r k = Some tk)" for k tk
    by (auto simp: assms(2))
  note d = routedD [OF assms(1)]
  show ?thesis
  proof (rule routedI)
    fix k tk tk'
    show "tk = deleted_topic \<or> bm_get (bm_remove key t) tk \<noteq> None" if "r' k = Some tk"
      using that d(3,4) by (auto simp: r split: if_splits)
    show "k \<in> set (attached (bm_remove key ts) tk)" if "tk \<noteq> deleted_topic" "r' k = Some tk"
      using that d(4) by (auto simp: r split: if_splits)
    show "tk' = tk" if "k \<in> set (attached (bm_remove key ts) tk)" "r' k = Some tk'"
      using that d(5) by (auto simp: r split: if_splits)
    show "r' k \<noteq> None" if c "k \<in> set (attached (bm_remove key ts) tk)"
      using that d(6) by (auto simp: assms(2) split: if_splits)
  qed (use d(1,2) in auto)
qed

lemma delete_topic_ok:
  assumes "registry_ok n st"
  shows "registry_ok n (snd (delete_topic name st))"
proof -
  let ?key = "topic_to_full name"
  define st1 where "st1 = st\<lparr>ps_topics := bm_remove ?key (ps_topics st), ps_policies := bm_remove ?key (ps_policies st),
    ps_page_boundaries := filter (\<lambda>(list_context, _). \<not> prefix (?key @ ''/'') list_context) (ps_page_boundaries st),
    ps_topic_subs := bm_remove ?key (ps_topic_subs st)\<rparr>"
  have same: "ps_subscriptions st1 = ps_subscriptions st" by (simp add: st1_def)
  from detach_fold [of st1 "attached (ps_topic_subs st) ?key"] obtain subs where
    subs: "foldl detach_subscription st1 (attached (ps_topic_subs st) ?key) = st1\<lparr>ps_subscriptions := subs\<rparr>"
    "bm_wf (ps_subscriptions st) \<longrightarrow> bm_wf subs"
    "\<And>k. bm_get subs k = (if k \<in> set (attached (ps_topic_subs st) ?key)
       then map_option mark_topic_deleted (bm_get (ps_subscriptions st) k) else bm_get (ps_subscriptions st) k)"
    unfolding same by blast
  have "routed (bm_remove ?key (ps_topics st)) (route subs) (bm_remove ?key (ps_topic_subs st)) (creatable st)"
    by (rule routed_delete_topic [OF registry_okD(4) [OF assms]])
      (simp add: route_def subs(3) option.map_comp comp_def)
  moreover have "logs_ok (issued (ps_seed st) n) subs"
    using registry_okD(2) [OF assms] by (auto simp: logs_ok_def subs(3))
  ultimately have "registry_ok n (st1\<lparr>ps_subscriptions := subs\<rparr>)"
    using assms subs(2) by (auto simp: st1_def registry_ok_def maps_wf_def)
  then show ?thesis
    using assms by (simp add: delete_topic_def Let_def attached_def [symmetric] st1_def [symmetric] subs(1))
qed

lemma routed_new_sub:
  assumes "routed t r ts c" c "r key = None" "tk = deleted_topic \<or> bm_get t tk \<noteq> None"
  shows "routed t (r(key \<mapsto> tk)) (bm_insert tk (bs_insert key (attached ts tk)) ts) c"
proof -
  note d = routedD [OF assms(1)]
  have "key \<notin> set (attached ts j)" for j using d(6) [OF assms(2)] assms(3) by blast
  with assms(3,4) show ?thesis
    by (intro routedI) (use d in \<open>auto simp: bs_wf_insert split: if_splits\<close>)
qed

text \<open>A failed creation leaves the key in the set of the topic; no policy can be created after it.\<close>

lemma routed_dangling:
  assumes "routed t r ts c" "r key = None" "tk = deleted_topic \<or> bm_get t tk \<noteq> None"
  shows "routed t r (bm_insert tk (bs_insert key (attached ts tk)) ts) False"
proof -
  note d = routedD [OF assms(1)]
  let ?ts = "bm_insert tk (bs_insert key (attached ts tk)) ts"
  show ?thesis
  proof (rule routedI)
    fix k j j'
    show "bs_wf (attached ?ts j)" by (simp add: d(1) bs_wf_insert)
    show "attached ?ts j = []" if "j \<noteq> deleted_topic" "bm_get t j = None"
      using that d(2) [OF that] assms(3) by auto
    show "k \<in> set (attached ?ts j)" if "j \<noteq> deleted_topic" "r k = Some j"
      using d(4) [OF that] by (cases "j = tk") simp_all
    show "j' = j" if "k \<in> set (attached ?ts j)" "r k = Some j'"
      using that(1) assms(2) that(2) d(5) [OF _ that(2)] by (cases "j = tk") auto
  qed (use d(3) in auto)
qed

lemma set_push_minimum_simps [simp]:
  "ss_config (set_push_minimum d s) = ss_config s" "ss_entries (set_push_minimum d s) = ss_entries s"
  "sub_inv (set_push_minimum d s) = sub_inv s"
  by (simp_all add: set_push_minimum_def config_inv)

lemma sub_new_simps [simp]: "ss_config (sub_new c) = c" "ss_entries (sub_new c) = []"
  by (simp_all add: sub_new_def)

lemma create_subscription_ok:
  assumes "registry_ok n st"
  shows "registry_ok n (snd (create_subscription c st))"
proof -
  let ?key = "subscription_to_full (sc_name c)" and ?tk = "topic_to_full (sc_topic c)"
  let ?ts = "bm_insert ?tk (bs_insert ?key (attached (ps_topic_subs st) ?tk)) (ps_topic_subs st)"
  define st0 where "st0 = st\<lparr>ps_topic_subs := ?ts\<rparr>"
  obtain res st1 where cr: "create_resource_policy ?key st0 = (res, st1)" by fastforce
  from create_policy_fields [OF cr] obtain i p where
    f: "st1 = st0\<lparr>ps_policy_incarnation := i, ps_policies := p\<rparr>" "ps_policy_incarnation st0 \<le> i"
    "bm_wf (ps_policies st0) \<longrightarrow> bm_wf p" "is_ok res \<longrightarrow> creatable st0"
    "\<not> is_ok res \<longrightarrow> \<not> creatable st0 \<and> i = ps_policy_incarnation st0" by blast
  note st1 = f [unfolded st0_def, simplified]
  have "registry_ok n (snd (create_subscription c st))"
    if new: "bm_get (ps_subscriptions st) ?key = None" and topic: "?tk = deleted_topic \<or> bm_get (ps_topics st) ?tk \<noteq> None"
      and eq: "create_subscription c st = (case res of Inl e \<Rightarrow> (Err e, st1) | Inr _ \<Rightarrow> (Ok (), st1\<lparr>ps_subscriptions :=
        bm_insert ?key (set_push_minimum (ps_push_minimum st1) (sub_new c)) (ps_subscriptions st1)\<rparr>))"
  proof (cases res)
    case (Inl e)
    then have "routed (ps_topics st) (route (ps_subscriptions st)) ?ts (i < 0xffffff)"
      using routed_dangling [OF registry_okD(4) [OF assms] _ topic, of ?key] new st1(5) by (simp add: route_def)
    then show ?thesis using assms st1(3) by (auto simp: eq Inl st1(1) registry_ok_def maps_wf_def)
  next
    case (Inr u)
    then have "routed (ps_topics st) ((route (ps_subscriptions st))(?key \<mapsto> ?tk)) ?ts (creatable st)"
      using routed_new_sub [OF registry_okD(4) [OF assms] _ _ topic, of ?key] new st1(4) by (simp add: route_def)
    then have "routed (ps_topics st) ((route (ps_subscriptions st))(?key \<mapsto> ?tk)) ?ts (i < 0xffffff)"
      by (rule routed_mono) (use st1(2) in simp)
    moreover have "log_ok (issued (ps_seed st) n) ?key (set_push_minimum d (sub_new c))" for d
      by (simp add: log_ok_def sub_inv_new map_filter_simps)
    ultimately show ?thesis
      using assms st1(3) by (auto simp: eq Inr st1(1) registry_ok_def maps_wf_def intro: logs_ok_insert)
  qed
  with assms show ?thesis
    by (auto simp: create_subscription_def Let_def cr [unfolded st0_def attached_def] bm_contains_def deleted_topic_iff split: sum.split)
qed

lemma bs_remove_Nil [simp]: "bs_remove x [] = []"
  by (simp add: bs_remove_def)

lemma routed_drop_sub:
  assumes "routed t r ts c" "r key = Some tk"
    and "\<And>j. attached ts' j = (if j = tk then bs_remove key (attached ts j) else attached ts j)"
  shows "routed t (r(key := None)) ts' c"
proof -
  note d = routedD [OF assms(1)]
  have key: "key \<in> set (attached ts j) \<Longrightarrow> j = tk" for j using d(5) assms(2) by metis
  have sub: "set (attached ts' j) = set (attached ts j) - {key}" for j using key by (auto simp: assms(3))
  show ?thesis
  proof (rule routedI)
    show "bs_wf (attached ts' j)" for j using d(1) by (simp add: assms(3) bs_wf_remove)
    show "attached ts' j = []" if "j \<noteq> deleted_topic" "bm_get t j = None" for j
      using d(2) [OF that] by (cases "j = tk") (simp_all add: assms(3))
  qed (use d(3-6) in \<open>auto simp: sub split: if_splits\<close>)
qed

lemma delete_subscription_ok:
  assumes "registry_ok n st"
  shows "registry_ok n (snd (delete_subscription name st))"
proof (cases "bm_get (ps_subscriptions st) (subscription_to_full name)")
  case (Some s)
  let ?key = "subscription_to_full name" and ?tk = "sub_topic s"
  define ts where "ts = (case bm_get (ps_topic_subs st) ?tk of None \<Rightarrow> ps_topic_subs st
    | Some ks \<Rightarrow> bm_insert ?tk (bs_remove ?key ks) (ps_topic_subs st))"
  have "attached ts j = (if j = ?tk then bs_remove ?key (attached (ps_topic_subs st) j) else attached (ps_topic_subs st) j)" for j
    by (simp add: ts_def attached_def split: option.split)
  then have "routed (ps_topics st) ((route (ps_subscriptions st))(?key := None)) ts (creatable st)"
    using routed_drop_sub [OF registry_okD(4) [OF assms], of ?key ?tk ts] Some by (simp add: route_def)
  moreover have "bm_wf ts" using assms by (auto simp: ts_def registry_ok_def maps_wf_def split: option.split)
  moreover have "logs_ok (issued (ps_seed st) n) (bm_remove ?key (ps_subscriptions st))"
    using registry_okD(2) [OF assms] by (simp add: logs_ok_def)
  ultimately show ?thesis
    using assms by (auto simp: delete_subscription_def Let_def Some ts_def [symmetric] registry_ok_def maps_wf_def)
qed (simp add: delete_subscription_def assms)

section \<open>Snapshots\<close>

lemma release_fold:
  "\<exists>refs bytes. foldl (release_message L) st ms = st\<lparr>ps_message_refs := refs, ps_snapshot_bytes := bytes\<rparr>
     \<and> (bm_wf (ps_message_refs st) \<longrightarrow> bm_wf refs)"
proof (induction ms arbitrary: st)
  case Nil
  show ?case by (intro exI [of _ "ps_message_refs st"] exI [of _ "ps_snapshot_bytes st"]) simp
next
  case (Cons m ms)
  define st1 where "st1 = release_message L st m"
  have st1: "st1 = st\<lparr>ps_message_refs := ps_message_refs st1, ps_snapshot_bytes := ps_snapshot_bytes st1\<rparr>"
    "bm_wf (ps_message_refs st) \<longrightarrow> bm_wf (ps_message_refs st1)"
    by (auto simp: st1_def release_message_def split: option.split)
  from Cons.IH [of st1] obtain refs bytes where
    "foldl (release_message L) st1 ms = st1\<lparr>ps_message_refs := refs, ps_snapshot_bytes := bytes\<rparr>"
    "bm_wf (ps_message_refs st1) \<longrightarrow> bm_wf refs" by blast
  moreover have "st1\<lparr>ps_message_refs := refs, ps_snapshot_bytes := bytes\<rparr>
      = st\<lparr>ps_message_refs := refs, ps_snapshot_bytes := bytes\<rparr>" by (subst st1(1)) simp
  ultimately show ?case using st1(2) by (auto simp: st1_def [symmetric])
qed

lemma indexed_remove:
  assumes "snapshots_indexed snaps ts" "bm_get snaps name = Some snp"
    and "\<And>key. attached ts' key = (if key = snp_topic_key snp then bs_remove name (attached ts key) else attached ts key)"
  shows "snapshots_indexed (bm_remove name snaps) ts'"
  using assms by (auto simp: snapshots_indexed_def)

lemma remove_snapshot_fields:
  assumes "registry_ok n st"
  shows "\<exists>snaps ts refs bytes. snd (remove_snapshot L name st) =
      st\<lparr>ps_snapshots := snaps, ps_topic_snapshots := ts, ps_message_refs := refs, ps_snapshot_bytes := bytes\<rparr>
    \<and> snaps = bm_remove name (ps_snapshots st) \<and> bm_wf ts \<and> bm_wf refs \<and> snapshots_indexed snaps ts"
proof (cases "bm_get (ps_snapshots st) name")
  case None
  then have "bm_remove name (ps_snapshots st) = ps_snapshots st"
    by (intro bm_remove_absent) (simp add: map_of_eq_None_iff)
  with assms None show ?thesis
    by (intro exI [of _ "ps_snapshots st"] exI [of _ "ps_topic_snapshots st"] exI [of _ "ps_message_refs st"]
        exI [of _ "ps_snapshot_bytes st"]) (simp add: remove_snapshot_def registry_ok_def maps_wf_def)
next
  case (Some snp)
  let ?key = "snp_topic_key snp"
  define ts where "ts = (case bm_get (ps_topic_snapshots st) ?key of None \<Rightarrow> ps_topic_snapshots st
     | Some names \<Rightarrow> if bs_remove name names = [] then bm_remove ?key (ps_topic_snapshots st)
                     else bm_insert ?key (bs_remove name names) (ps_topic_snapshots st))"
  define st1 where "st1 = st\<lparr>ps_snapshots := bm_remove name (ps_snapshots st), ps_topic_snapshots := ts,
     ps_snapshot_bytes := ps_snapshot_bytes st - snapshot_owned_bytes L snp\<rparr>"
  have "attached ts j = (if j = ?key then bs_remove name (attached (ps_topic_snapshots st) j) else attached (ps_topic_snapshots st) j)" for j
    by (simp add: ts_def attached_def split: option.split)
  then have "snapshots_indexed (bm_remove name (ps_snapshots st)) ts"
    by (rule indexed_remove [OF registry_okD(5) [OF assms] Some])
  moreover have "bm_wf ts" using assms by (auto simp: ts_def registry_ok_def maps_wf_def split: option.split)
  moreover obtain refs bytes where
    "foldl (release_message L) st1 (snp_captured snp) = st1\<lparr>ps_message_refs := refs, ps_snapshot_bytes := bytes\<rparr>" "bm_wf refs"
    using release_fold [of L st1 "snp_captured snp"] assms by (auto simp: st1_def registry_ok_def maps_wf_def)
  moreover have "snd (remove_snapshot L name st) = foldl (release_message L) st1 (snp_captured snp)"
    by (simp add: remove_snapshot_def Some Let_def st1_def ts_def)
  ultimately show ?thesis
    by (intro exI [of _ "bm_remove name (ps_snapshots st)"] exI [of _ ts] exI [of _ refs] exI [of _ bytes])
      (simp add: st1_def)
qed

lemma remove_snapshot_ok:
  assumes "registry_ok n st"
  shows "registry_ok n (snd (remove_snapshot L name st))"
  using remove_snapshot_fields [OF assms, of L name] assms by (auto simp: registry_ok_def maps_wf_def)

text \<open>Removing snapshots touches nothing but the snapshots.\<close>

definition same_logs :: "pubsub_state \<Rightarrow> pubsub_state \<Rightarrow> bool" where
  "same_logs st st' \<longleftrightarrow>
     ps_topics st' = ps_topics st \<and> ps_subscriptions st' = ps_subscriptions st \<and> ps_topic_subs st' = ps_topic_subs st
     \<and> ps_function_subs st' = ps_function_subs st \<and> ps_message_counter st' = ps_message_counter st
     \<and> ps_seed st' = ps_seed st \<and> ps_ack_rng st' = ps_ack_rng st"

lemma remove_snapshots_ok:
  assumes "registry_ok n st"
  shows "registry_ok n (remove_snapshots L names st)" "same_logs st (remove_snapshots L names st)"
    "\<And>name. bm_get (ps_snapshots (remove_snapshots L names st)) name =
       (if name \<in> set names then None else bm_get (ps_snapshots st) name)"
proof -
  have "registry_ok n st \<Longrightarrow> registry_ok n (remove_snapshots L names st) \<and> same_logs st (remove_snapshots L names st)
    \<and> (\<forall>name. bm_get (ps_snapshots (remove_snapshots L names st)) name =
         (if name \<in> set names then None else bm_get (ps_snapshots st) name))" for st
  proof (induction names arbitrary: st)
    case (Cons a names)
    define st1 where "st1 = snd (remove_snapshot L a st)"
    have "registry_ok n st1" unfolding st1_def by (rule remove_snapshot_ok [OF Cons.prems])
    moreover have "same_logs st st1" "\<forall>name. bm_get (ps_snapshots st1) name = (if name = a then None else bm_get (ps_snapshots st) name)"
      using remove_snapshot_fields [OF Cons.prems, of L a] by (auto simp: st1_def same_logs_def)
    moreover have "remove_snapshots L (a # names) st = remove_snapshots L names st1"
      by (simp add: remove_snapshots_def st1_def)
    ultimately show ?case using Cons.IH [of st1] by (simp add: same_logs_def)
  qed (simp add: remove_snapshots_def same_logs_def)
  from this [OF assms] show "registry_ok n (remove_snapshots L names st)" "same_logs st (remove_snapshots L names st)"
    "\<And>name. bm_get (ps_snapshots (remove_snapshots L names st)) name =
       (if name \<in> set names then None else bm_get (ps_snapshots st) name)" by blast+
qed

lemma remove_expired_ok:
  assumes "registry_ok n st"
  shows "registry_ok n (remove_expired_snapshots L now st)" "same_logs st (remove_expired_snapshots L now st)"
    "bm_get (ps_snapshots (remove_expired_snapshots L now st)) name =
       (case bm_get (ps_snapshots st) name of
          None \<Rightarrow> None | Some snp \<Rightarrow> if snp_expire_at snp \<le> now then None else Some snp)"
proof -
  let ?names = "map snp_name (filter (\<lambda>snp. snp_expire_at snp \<le> now) (bm_values (ps_snapshots st)))"
  have wf: "bm_wf (ps_snapshots st)" using assms by (simp add: registry_ok_def maps_wf_def)
  have named: "bm_get (ps_snapshots st) k = Some snp \<Longrightarrow> snp_name snp = k" for k snp
    using registry_okD(5) [OF assms] by (simp add: snapshots_indexed_def)
  have "name \<in> set ?names \<longleftrightarrow> (\<exists>snp. bm_get (ps_snapshots st) name = Some snp \<and> snp_expire_at snp \<le> now)"
    using named by (auto simp: bm_values_def bm_get_eq_Some [OF wf] image_iff)
  then show "bm_get (ps_snapshots (remove_expired_snapshots L now st)) name =
       (case bm_get (ps_snapshots st) name of
          None \<Rightarrow> None | Some snp \<Rightarrow> if snp_expire_at snp \<le> now then None else Some snp)"
    unfolding remove_expired_snapshots_def remove_snapshots_ok(3) [OF assms] by (auto split: option.split)
qed (simp_all add: remove_expired_snapshots_def remove_snapshots_ok [OF assms])

end
