(* ===== verification/Ps_Publish.thy ===== *)
theory Ps_Publish
  imports Ps_Registry_Inv
begin

text \<open>
  Publication: the admission test of the registry is exact, a publication that passes it is
  appended to the backlog of every attached subscription and never stops halfway.
\<close>

section \<open>Room in a subscription\<close>

abbreviation ref_admits :: "subscription_state \<Rightarrow> message_ref \<Rightarrow> bool" where
  "ref_admits s m \<equiv> admits s (pm_attributes (sm_message (ref_stored m)))"

definition room :: "subscription_state \<Rightarrow> message_ref list \<Rightarrow> bool" where
  "room s ms \<longleftrightarrow> length (backlog s) + length ms \<le> max_retained_per_sub
     \<and> refs_bytes (backlog s) + refs_bytes ms \<le> max_retained_bytes_per_sub"

lemma batch_size_eq:
  "batch_size c b ms =
     (if ms = [] \<or> c + length ms < 2 ^ 64 \<and> b + sum_list (map message_bytes ms) < 2 ^ 64
      then Ok (c + length ms, b + sum_list (map message_bytes ms)) else Err ResourceExhausted)"
  by (induction c b ms rule: batch_size.induct) (auto simp: and_then_def ok_or_def checked_add_u_def)

lemma fits_limits_iff:
  "fits_limits ac ab c b \<longleftrightarrow> c + ac \<le> max_retained_per_sub \<and> b + ab \<le> max_retained_bytes_per_sub"
  using bounds_64 by (auto simp: fits_limits_def checked_add_u_def)

lemma acked_size_eq:
  assumes "length (filter is_acked es) < 2 ^ 64" "log_bytes (filter is_acked es) < 2 ^ 64"
  shows "acked_size es = (length (filter is_acked es), log_bytes (filter is_acked es))"
proof -
  have "foldl (\<lambda>(cnt, bytes) e. (saturating_add_u 64 cnt 1, saturating_add_u 64 bytes (entry_bytes e))) (c, b) fs
      = (c + length fs, b + log_bytes fs)" if "c + length fs < 2 ^ 64" "b + log_bytes fs < 2 ^ 64" for c b fs
    using that
  proof (induction fs arbitrary: c b)
    case (Cons e fs)
    then have "saturating_add_u 64 c 1 = c + 1" "saturating_add_u 64 b (entry_bytes e) = b + entry_bytes e"
      by (auto simp: saturating_add_u_def u_max_def log_bytes_def)
    with Cons show ?case by (simp add: log_bytes_def)
  qed (simp add: log_bytes_def)
  from this [of 0 _ 0] assms show ?thesis by (simp add: acked_size_def)
qed

text \<open>The test admits a batch exactly when it fits beside the unacknowledged messages.\<close>

lemma ensure_capacity_iff:
  assumes "sub_inv s"
  shows "ensure_enqueue_capacity s (map ref_stored ms) = Ok () \<longleftrightarrow> room s ms"
proof -
  let ?es = "ss_entries s" and ?live = "filter (\<lambda>e. \<not> is_acked e) (ss_entries s)"
  note f = sub_inv_facts [OF assms]
  have acked: "length (filter is_acked ?es) < 2 ^ 64" "log_bytes (filter is_acked ?es) < 2 ^ 64"
    using f(1,2) bounds_64 log_bytes_filter_le [of is_acked ?es] length_filter_le [of is_acked ?es] by linarith+
  have split: "length ?es - length (filter is_acked ?es) = length ?live" "log_bytes ?es - log_bytes (filter is_acked ?es) = log_bytes ?live"
    "length ?live \<le> length ?es" "log_bytes ?live \<le> log_bytes ?es"
    using filter_split_length [of is_acked ?es] log_bytes_split [of is_acked ?es] by simp_all
  have b: "length (backlog s) = length ?live" "refs_bytes (backlog s) = log_bytes ?live"
    by (simp_all add: backlog_def log_bytes_refs)
  have bytes: "sum_list (map message_bytes (map ref_stored ms)) = refs_bytes ms"
    by (simp add: refs_bytes_def comp_def)
  show ?thesis
    unfolding ensure_enqueue_capacity_def batch_size_eq bytes acked_size_eq [OF acked] f(3) room_def b
    using split bounds_64 by (auto simp: fits_limits_iff refs_bytes_def)
qed

lemma enqueue_config: "ss_config (snd (sub_enqueue m now s)) = ss_config s"
  by (simp add: sub_enqueue_def Let_def reclaim_acked_entries_def rebuild_indexes_def)

lemma enqueue_room:
  assumes "sub_inv s"
  shows "is_ok (fst (sub_enqueue m now s)) \<longleftrightarrow> room s [m]"
    and "room s [m] \<Longrightarrow> backlog (snd (sub_enqueue m now s)) = backlog s @ [m]"
proof -
  have "room s [m] \<longleftrightarrow> length (backlog s) < max_retained_per_sub \<and> refs_bytes (backlog s @ [m]) \<le> max_retained_bytes_per_sub"
    by (auto simp: room_def refs_bytes_def)
  with backlog_enqueue [OF assms] show "room s [m] \<Longrightarrow> backlog (snd (sub_enqueue m now s)) = backlog s @ [m]"
    by simp
  show "is_ok (fst (sub_enqueue m now s)) \<longleftrightarrow> room s [m]"
    unfolding enqueue_eq(1) [OF assms] room_def by (auto simp: backlog_bytes refs_bytes_def [of "[m]"]) (simp_all add: backlog_def)
qed

text \<open>The entries that are not acknowledged, and those a publication appends.\<close>

abbreviation unacked :: "subscription_state \<Rightarrow> entry list" where
  "unacked s \<equiv> filter (\<lambda>e. \<not> is_acked e) (ss_entries s)"

abbreviation fresh_entry :: "logical_instant \<Rightarrow> message_ref \<Rightarrow> entry" where
  "fresh_entry now m \<equiv> \<lparr>en_stored = m, en_state = Available now, en_attempt = 0\<rparr>"

lemma backlog_unacked: "backlog s = map en_stored (unacked s)"
  by (simp add: backlog_def)

lemma enqueue_unacked:
  assumes "sub_inv s" "room s [m]"
  shows "unacked (snd (sub_enqueue m now s)) = unacked s @ [fresh_entry now m]"
  using enqueue_eq(2) [OF assms(1), of m now] enqueue_room(1) [OF assms(1), of m now] assms(2) by auto

lemma enqueue_all_ok:
  assumes "sub_inv s" "room s (filter (ref_admits s) ms)"
  shows "\<exists>s'. enqueue_all now ms s = Some s' \<and> sub_inv s' \<and> unacked s' = unacked s @ map (fresh_entry now) (filter (ref_admits s) ms)
    \<and> set (acks (ss_entries s')) \<subseteq> set (acks (ss_entries s)) \<and> ss_config s' = ss_config s"
  using assms
proof (induction ms arbitrary: s)
  case (Cons m ms)
  show ?case
  proof (cases "ref_admits s m")
    case True
    define s1 where "s1 = snd (sub_enqueue m now s)"
    have one: "room s [m]" using Cons.prems(2) True by (auto simp: room_def refs_bytes_def)
    have c: "ss_config s1 = ss_config s" by (simp add: s1_def enqueue_config)
    have b: "backlog s1 = backlog s @ [m]" unfolding s1_def by (rule enqueue_room(2) [OF Cons.prems(1) one])
    have u: "unacked s1 = unacked s @ [fresh_entry now m]" unfolding s1_def by (rule enqueue_unacked [OF Cons.prems(1) one])
    have a: "ref_admits s1 = ref_admits s" by (simp add: fun_eq_iff admits_def c)
    have "room s1 (filter (ref_admits s1) ms)" using Cons.prems(2) True by (simp add: room_def a b refs_bytes_def)
    with Cons.IH [of s1] enqueue_inv [OF Cons.prems(1), of m now] obtain s' where s': "enqueue_all now ms s1 = Some s'" "sub_inv s'"
      "unacked s' = unacked s1 @ map (fresh_entry now) (filter (ref_admits s1) ms)" "set (acks (ss_entries s')) \<subseteq> set (acks (ss_entries s1))" "ss_config s' = ss_config s1"
      by (auto simp: s1_def)
    have "sub_enqueue m now s = (Ok (), s1)"
      using enqueue_room(1) [OF Cons.prems(1), of m now] one by (cases "sub_enqueue m now s") (auto simp: s1_def is_ok_iff)
    moreover have "set (acks (ss_entries s1)) \<subseteq> set (acks (ss_entries s))" unfolding s1_def by (rule acks_enqueue)
    ultimately show ?thesis using s' True by (intro exI [of _ s']) (auto simp: a u c)
  qed (use Cons in auto)
qed simp

section \<open>Fan-out\<close>

text \<open>What a publication does to the subscription under a key.\<close>

definition receives :: "string bset \<Rightarrow> string list \<Rightarrow> string \<Rightarrow> bool" where
  "receives function_subs keys key \<longleftrightarrow> key \<in> set keys \<and> key \<notin> set function_subs"

lemma fan_out_ok:
  assumes "distinct keys" "bm_wf subs"
    and "\<And>k s. receives fs keys k \<Longrightarrow> bm_get subs k = Some s \<Longrightarrow> sub_inv s \<and> room s (filter (ref_admits s) ms)"
  shows "\<exists>subs'. fan_out fs now ms keys subs = Some subs' \<and> bm_wf subs'
    \<and> (\<forall>k. bm_get subs' k = (if receives fs keys k then Option.bind (bm_get subs k) (enqueue_all now ms) else bm_get subs k))"
  using assms
proof (induction keys arbitrary: subs)
  case (Cons key keys)
  have skip: ?case if "key \<in> set fs \<or> bm_get subs key = None"
  proof -
    from that have "fan_out fs now ms (key # keys) subs = fan_out fs now ms keys subs" by auto
    moreover from Cons.IH [OF _ Cons.prems(2)] Cons.prems(1,3) obtain subs' where
      "fan_out fs now ms keys subs = Some subs'" "bm_wf subs'"
      "\<forall>k. bm_get subs' k = (if receives fs keys k then Option.bind (bm_get subs k) (enqueue_all now ms) else bm_get subs k)"
      by (auto simp: receives_def)
    ultimately show ?thesis using that Cons.prems(1) by (intro exI [of _ subs']) (auto simp: receives_def)
  qed
  show ?case
  proof (cases "key \<in> set fs \<or> bm_get subs key = None")
    case False
    then obtain s where s: "bm_get subs key = Some s" "key \<notin> set fs" by auto
    with Cons.prems(3) [of key s] enqueue_all_ok obtain s' where s': "enqueue_all now ms s = Some s'"
      by (fastforce simp: receives_def)
    define subs1 where "subs1 = bm_insert key s' subs"
    have "bm_get subs1 k = bm_get subs k" if "receives fs keys k" for k
      using that Cons.prems(1) by (auto simp: subs1_def receives_def)
    with Cons.IH [of subs1] Cons.prems obtain subs' where "fan_out fs now ms keys subs1 = Some subs'" "bm_wf subs'"
      "\<forall>k. bm_get subs' k = (if receives fs keys k then Option.bind (bm_get subs1 k) (enqueue_all now ms) else bm_get subs1 k)"
      by (fastforce simp: receives_def subs1_def bm_wf_insert)
    then show ?thesis using s s' Cons.prems(1)
      by (intro exI [of _ subs']) (auto simp: subs1_def receives_def)
  qed (rule skip)
qed (simp add: receives_def)

lemma subscriptions_admit_iff:
  assumes "\<And>k s. bm_get (ps_subscriptions st) k = Some s \<Longrightarrow> sub_inv s"
  shows "subscriptions_admit st ms keys = Ok () \<longleftrightarrow>
    (\<forall>k s. receives (ps_function_subs st) keys k \<longrightarrow> bm_get (ps_subscriptions st) k = Some s \<longrightarrow> room s (filter (ref_admits s) ms))"
proof (induction keys)
  case (Cons key keys)
  have "ensure_enqueue_capacity s (filter (\<lambda>m. admits s (pm_attributes (sm_message m))) (map ref_stored ms)) = Ok ()
      \<longleftrightarrow> room s (filter (ref_admits s) ms)" if "bm_get (ps_subscriptions st) key = Some s" for s
    using ensure_capacity_iff [OF assms [OF that]] by (simp add: filter_map comp_def)
  with Cons.IH show ?case
    by (cases "bm_get (ps_subscriptions st) key") (auto simp: receives_def and_then_eq_Inr)
qed (simp add: receives_def)

text \<open>The effect of a publication on the subscriptions.\<close>

definition delivered :: "string \<Rightarrow> logical_instant \<Rightarrow> message_ref list \<Rightarrow> pubsub_state \<Rightarrow> pubsub_state \<Rightarrow> bool" where
  "delivered topic_key now ms st st' \<longleftrightarrow>
     (\<forall>k. case bm_get (ps_subscriptions st) k of
        None \<Rightarrow> bm_get (ps_subscriptions st') k = None
      | Some s \<Rightarrow> \<exists>s'. bm_get (ps_subscriptions st') k = Some s' \<and> ss_config s' = ss_config s
          \<and> unacked s' = unacked s @ map (fresh_entry now)
                (if receives (ps_function_subs st) (attached (ps_topic_subs st) topic_key) k
                 then filter (ref_admits s) ms else []))"

lemma delivered_cong:
  assumes "ps_subscriptions st1 = ps_subscriptions st2"
  shows "delivered key now ms st st1 = delivered key now ms st st2"
  unfolding delivered_def assms ..

lemma fan_out_delivers:
  assumes ok: "registry_ok n st"
    and admit: "subscriptions_admit st ms (attached (ps_topic_subs st) topic_key) = Ok ()"
  shows "\<exists>subs. fan_out (ps_function_subs st) now ms (attached (ps_topic_subs st) topic_key) (ps_subscriptions st) = Some subs
    \<and> registry_ok n (st\<lparr>ps_subscriptions := subs\<rparr>) \<and> delivered topic_key now ms st (st\<lparr>ps_subscriptions := subs\<rparr>)"
proof -
  let ?keys = "attached (ps_topic_subs st) topic_key" and ?fs = "ps_function_subs st"
  have log: "log_ok (issued (ps_seed st) n) k s" if "bm_get (ps_subscriptions st) k = Some s" for k s
    by (rule logs_okD [OF registry_okD(2) [OF ok] that])
  then have inv: "sub_inv s" if "bm_get (ps_subscriptions st) k = Some s" for k s
    using that by (auto simp: log_ok_def)
  have rooms: "\<forall>k s. receives ?fs ?keys k \<longrightarrow> bm_get (ps_subscriptions st) k = Some s \<longrightarrow> room s (filter (ref_admits s) ms)"
    using admit subscriptions_admit_iff [of st ms ?keys] inv by blast
  have "distinct ?keys" using routedD(1) [OF registry_okD(4) [OF ok]] by (simp add: bs_wf_distinct)
  moreover have "bm_wf (ps_subscriptions st)" using ok by (simp add: registry_ok_def maps_wf_def)
  ultimately obtain subs where subs: "fan_out ?fs now ms ?keys (ps_subscriptions st) = Some subs" "bm_wf subs"
    "\<forall>k. bm_get subs k = (if receives ?fs ?keys k then Option.bind (bm_get (ps_subscriptions st) k) (enqueue_all now ms)
       else bm_get (ps_subscriptions st) k)"
    using fan_out_ok [of ?keys "ps_subscriptions st" ?fs ms now] rooms inv by blast
  have each: "\<exists>s'. bm_get subs k = Some s' \<and> log_ok (issued (ps_seed st) n) k s' \<and> ss_config s' = ss_config s
      \<and> unacked s' = unacked s @ map (fresh_entry now) (if receives ?fs ?keys k then filter (ref_admits s) ms else [])"
    if k: "bm_get (ps_subscriptions st) k = Some s" for k s
  proof (cases "receives ?fs ?keys k")
    case True
    with rooms k have "room s (filter (ref_admits s) ms)" by blast
    from enqueue_all_ok [OF inv [OF k] this, of now] obtain s' where "enqueue_all now ms s = Some s'" "sub_inv s'"
      "unacked s' = unacked s @ map (fresh_entry now) (filter (ref_admits s) ms)" "set (acks (ss_entries s')) \<subseteq> set (acks (ss_entries s))"
      "ss_config s' = ss_config s" by blast
    with True k log [OF k] show ?thesis by (auto simp: subs(3) log_ok_def)
  qed (use k log [OF k] in \<open>simp add: subs(3)\<close>)
  have none: "bm_get subs k = None" if "bm_get (ps_subscriptions st) k = None" for k using that by (simp add: subs(3))
  have "route subs = route (ps_subscriptions st)"
  proof (rule ext)
    fix k
    show "route subs k = route (ps_subscriptions st) k"
      using each [of k] none [of k] by (cases "bm_get (ps_subscriptions st) k") (auto simp: route_def)
  qed
  moreover have "logs_ok (issued (ps_seed st) n) subs"
    unfolding logs_ok_def using each none by (metis not_None_eq option.inject)
  ultimately have "registry_ok n (st\<lparr>ps_subscriptions := subs\<rparr>)"
    using ok subs(2) by (simp add: registry_ok_def maps_wf_def)
  moreover have "delivered topic_key now ms st (st\<lparr>ps_subscriptions := subs\<rparr>)"
    unfolding delivered_def using each none by (fastforce split: option.split)
  ultimately show ?thesis using subs(1) by blast
qed

section \<open>Commit\<close>

lemma retain_message_simps [simp]:
  "snp_name (retain_message snp m) = snp_name snp" "snp_topic (retain_message snp m) = snp_topic snp"
  "snp_topic_incarnation (retain_message snp m) = snp_topic_incarnation snp"
  by (simp_all add: retain_message_def)

lemma retain_fold_simps [simp]:
  "snp_name (foldl retain_message snp ms) = snp_name snp" "snp_topic (foldl retain_message snp ms) = snp_topic snp"
  "snp_topic_incarnation (foldl retain_message snp ms) = snp_topic_incarnation snp"
  by (induction ms arbitrary: snp) simp_all

lemma retain_ok:
  assumes "\<And>name. name \<in> set names \<Longrightarrow> bm_get snaps name \<noteq> None" "bm_wf snaps" "snapshots_indexed snaps ts"
  shows "\<exists>snaps'. retain_in_snapshots ms names snaps = Some snaps' \<and> bm_wf snaps' \<and> snapshots_indexed snaps' ts"
  using assms
proof (induction names arbitrary: snaps)
  case (Cons name names)
  then obtain snp where snp: "bm_get snaps name = Some snp" by fastforce
  define snaps1 where "snaps1 = bm_insert name (foldl retain_message snp ms) snaps"
  have "snapshots_indexed snaps1 ts"
    using Cons.prems(3) snp by (auto simp: snapshots_indexed_def snaps1_def)
  then show ?case
    using Cons.IH [of snaps1] Cons.prems(1,2) snp by (auto simp: snaps1_def bm_wf_insert)
qed simp

lemma bm_wf_foldl: "bm_wf m \<Longrightarrow> (\<And>m x. bm_wf m \<Longrightarrow> bm_wf (f m x)) \<Longrightarrow> bm_wf (foldl f m xs)"
  by (induction xs arbitrary: m) simp_all

lemma retain_publication_ok:
  assumes "registry_ok n st"
  shows "\<exists>snaps refs. retain_snapshot_publication (attached (ps_topic_snapshots st) key) ms st
      = Some (st\<lparr>ps_snapshots := snaps, ps_message_refs := refs\<rparr>)
    \<and> registry_ok n (st\<lparr>ps_snapshots := snaps, ps_message_refs := refs\<rparr>)"
proof -
  have wf: "bm_wf (ps_snapshots st)" "bm_wf (ps_message_refs st)" using assms by (simp_all add: registry_ok_def maps_wf_def)
  have "bm_get (ps_snapshots st) name \<noteq> None" if "name \<in> set (attached (ps_topic_snapshots st) key)" for name
    using that registry_okD(5) [OF assms] by (cases key) (auto simp: snapshots_indexed_def)
  from retain_ok [OF this wf(1) registry_okD(5) [OF assms]] obtain snaps where
    r: "retain_in_snapshots ms (attached (ps_topic_snapshots st) key) (ps_snapshots st) = Some snaps"
    "bm_wf snaps" "snapshots_indexed snaps (ps_topic_snapshots st)" by blast
  define refs where "refs = (if attached (ps_topic_snapshots st) key = [] then ps_message_refs st
    else foldl (add_references (length (attached (ps_topic_snapshots st) key))) (ps_message_refs st) ms)"
  have "bm_wf (foldl (add_references k) (ps_message_refs st) ms)" for k
    using wf(2) by (rule bm_wf_foldl) (simp add: add_references_def bm_wf_insert)
  then have "bm_wf refs" using wf(2) by (simp add: refs_def)
  with assms r show ?thesis
    by (intro exI [of _ snaps] exI [of _ refs])
      (simp add: retain_snapshot_publication_def refs_def [symmetric] registry_ok_def maps_wf_def)
qed

lemma publish_admission_Ok:
  assumes "publish_admission L st topic_key inc ms = Ok (keys, names, bytes)"
  shows "keys = attached (ps_topic_subs st) topic_key" "names = attached (ps_topic_snapshots st) (topic_key, inc)"
    "subscriptions_admit st ms keys = Ok ()"
  using assms
  by (auto simp: publish_admission_def snapshot_publish_admission_def attached_def Let_def and_then_eq_Inr
      split: option.splits if_splits)

text \<open>A commit gives a result whatever publication it is handed; a refused one changes nothing.\<close>

definition commit_current :: "layout \<Rightarrow> prepared_publication \<Rightarrow> pubsub_state \<Rightarrow> bool" where
  "commit_current L p st \<longleftrightarrow>
     map_option te_incarnation (bm_get (ps_topics st) (prep_topic_key p)) = Some (prep_topic_incarnation p)
     \<and> ps_message_counter st = prep_initial_counter p
     \<and> publish_admission L st (prep_topic_key p) (prep_topic_incarnation p) (prep_published p)
       = Ok (prep_subscription_keys p, prep_snapshot_names p, prep_snapshot_bytes p)"

lemma commit_refused: "\<not> commit_current L p st \<Longrightarrow> \<exists>e. commit_prepared L p now st = Some (Err e, st)"
  by (auto simp: commit_prepared_def commit_current_def split: option.split sum.split)

definition committed :: "prepared_publication \<Rightarrow> pubsub_state \<Rightarrow> pubsub_state \<Rightarrow> bool" where
  "committed p st st' \<longleftrightarrow>
     ps_message_counter st' = prep_next_counter p
     \<and> ps_topics st' = ps_topics st \<and> ps_topic_subs st' = ps_topic_subs st \<and> ps_function_subs st' = ps_function_subs st
     \<and> (\<exists>t. delivered (prep_topic_key p) t (prep_published p) st st')"

lemma commit_accepted:
  assumes "registry_ok n st" "commit_current L p st"
  shows "\<exists>st'. commit_prepared L p now st = Some (Ok (prep_published p), st') \<and> registry_ok n st' \<and> committed p st st'"
proof -
  let ?key = "prep_topic_key p" and ?inc = "prep_topic_incarnation p" and ?ms = "prep_published p"
  have current: "publish_admission L st ?key ?inc ?ms = Ok (prep_subscription_keys p, prep_snapshot_names p, prep_snapshot_bytes p)"
    using assms(2) by (simp add: commit_current_def)
  note adm = publish_admission_Ok [OF current]
  define t0 where "t0 = (case ?ms of m # _ \<Rightarrow> sm_publish_time (ref_stored m) | [] \<Rightarrow> now)"
  from fan_out_delivers [OF assms(1) adm(3) [unfolded adm(1)], of t0] obtain subs where
    f: "fan_out (ps_function_subs st) t0 ?ms (attached (ps_topic_subs st) ?key) (ps_subscriptions st) = Some subs"
    "registry_ok n (st\<lparr>ps_subscriptions := subs\<rparr>)" "delivered ?key t0 ?ms st (st\<lparr>ps_subscriptions := subs\<rparr>)" by blast
  from retain_publication_ok [OF f(2), of "(?key, ?inc)" ?ms] obtain snaps refs where
    g: "retain_snapshot_publication (prep_snapshot_names p) ?ms (st\<lparr>ps_subscriptions := subs\<rparr>)
      = Some (st\<lparr>ps_subscriptions := subs, ps_snapshots := snaps, ps_message_refs := refs\<rparr>)"
    "registry_ok n (st\<lparr>ps_subscriptions := subs, ps_snapshots := snaps, ps_message_refs := refs\<rparr>)"
    by (auto simp: adm(2))
  let ?st' = "st\<lparr>ps_subscriptions := subs, ps_snapshots := snaps, ps_message_refs := refs,
    ps_snapshot_bytes := prep_snapshot_bytes p, ps_message_counter := prep_next_counter p\<rparr>"
  have "commit_prepared L p now st = Some (Ok ?ms, ?st')"
    using assms(2) f(1) g(1)
    by (auto simp: commit_prepared_def commit_current_def t0_def [symmetric] adm(1) Let_def)
  moreover have "registry_ok n ?st'" using g(2) by (simp add: registry_ok_def maps_wf_def)
  moreover have "committed p st ?st'"
    using f(3) delivered_cong [of ?st' "st\<lparr>ps_subscriptions := subs\<rparr>"] by (auto simp: committed_def)
  ultimately show ?thesis by blast
qed

lemma commit_total:
  assumes "registry_ok n st"
  obtains e where "commit_prepared L p now st = Some (Err e, st)"
  | st' where "commit_prepared L p now st = Some (Ok (prep_published p), st')" "registry_ok n st'" "committed p st st'"
  using commit_refused [of L p st now] commit_accepted [OF assms, of L p now] by blast

end
