(* ===== verification/Ps_Broker.thy ===== *)
theory Ps_Broker
  imports Ps_Publish
begin

text \<open>
  The registry under any sequence of its operations: it stays well formed and no operation
  panics. A publication is delivered to exactly the attached subscriptions or changes nothing,
  a snapshot restores the backlog it captured, a dead letter is moved or stays.
\<close>

section \<open>Pull\<close>

lemma pull_received_bound:
  assumes "sub_inv s" "pull_with_admission n now auth b nx admit g s = (out, g', s')"
  shows "length (po_received out) \<le> max_retained_per_sub"
proof -
  define base where "base = pull_base auth now s"
  define sel where "sel = plan_pull (make_plan base n now auth b) base"
  have inv: "sub_inv base" using assms(1) by (simp add: base_def pull_base_facts)
  obtain dl s1 where fwd: "commit_forwards (sel_forwarded sel) base = (dl, s1)" by fastforce
  obtain rs h s2 where lea: "commit_leases nx (pull_deadline (ss_config s) now) (sel_selected sel) (g, s1) = (rs, h, s2)"
    by (cases "commit_leases nx (pull_deadline (ss_config s) now) (sel_selected sel) (g, s1)") auto
  have "length rs = length (sel_selected sel)"
    using arg_cong [OF commit_leases_ids [of nx "pull_deadline (ss_config s) now" "sel_selected sel" g s1], of length]
    by (simp add: lea)
  moreover have "po_received out = [] \<or> po_received out = rs"
    using assms(2) fwd lea unfolding pull_eq base_def [symmetric] sel_def [symmetric] by (auto split: if_splits)
  moreover note idle = plan_pull_idle [OF inv sel_def]
  have "set (sel_selected sel) \<subseteq> {..<length (ss_entries base)}" using idle(1) by (auto simp: idle_at_def)
  then have "card (set (sel_selected sel)) \<le> length (ss_entries base)" using subset_eq_atLeast0_lessThan_card by (simp add: lessThan_atLeast0)
  then have "length (sel_selected sel) \<le> max_retained_per_sub"
    using distinct_card [OF idle(3)] sub_inv_facts(1) [OF inv] by simp
  ultimately show ?thesis by auto
qed

lemma pull_config:
  assumes "pull_with_admission n now auth b nx admit g s = (out, g', s')"
  shows "ss_config s' = ss_config s"
proof -
  have f: "ss_config (snd (commit_forwards is s)) = ss_config s" for "is" s
    by (induction "is" s rule: commit_forwards.induct) (auto simp: set_state_def split: prod.splits)
  have l: "ss_config (snd (snd (commit_leases nx d is (g, s)))) = ss_config s" for d "is" g s
    by (induction nx d "is" "(g, s)" arbitrary: g s rule: commit_leases.induct)
      (auto simp: lease_entry_def Let_def split: prod.splits)
  show ?thesis
    using assms unfolding pull_eq
    by (auto simp: pull_base_facts(3) advance_first_unacked_def split: if_splits prod.splits)
      (metis f l pull_base_facts(3) snd_conv)+
qed

lemma issued_add: "issued seed (n + m) = issued seed n \<union> set (draws registry_ack_id (after_draws registry_ack_id (ack_seed seed) n) m)"
  by (simp add: issued_def draws_add)

lemma pull_admitted_ok:
  assumes ok: "registry_ok n st" and bound: "n + max_retained_per_sub < 2 ^ 64"
  shows "\<exists>m\<le>max_retained_per_sub. registry_ok (n + m) (snd (pull_with_dead_letters_admitted name k now b admit st))"
proof (cases "bm_get (ps_subscriptions st) (subscription_to_full name)")
  case None
  with ok show ?thesis by (intro exI [of _ 0]) (simp add: pull_with_dead_letters_admitted_def)
next
  case (Some s0)
  let ?key = "subscription_to_full name"
  define s where "s = expire_deadlines now s0"
  note log = keeps_log_ok [OF keeps_log_expire logs_okD [OF registry_okD(2) [OF ok] Some], of now, folded s_def]
  define auth where "auth = is_some_and (\<lambda>policy. dead_letter_authorized st name (dl_topic policy)) (sc_dead_letter_policy (ss_config s))"
  obtain out rng s' where pull: "pull_with_admission k now auth b registry_ack_id admit (ps_ack_rng st) s = (out, rng, s')"
    by (cases "pull_with_admission k now auth b registry_ack_id admit (ps_ack_rng st) s") auto
  define m where "m = length (po_received out)"
  have inv: "sub_inv s" and acks: "set (acks (ss_entries s)) \<subseteq> issued (ps_seed st) n" using log by (simp_all add: log_ok_def)
  have m: "m \<le> max_retained_per_sub" unfolding m_def by (rule pull_received_bound [OF inv pull])
  have d: "ack_ids_of out = draws registry_ack_id (ps_ack_rng st) m" "rng = after_draws registry_ack_id (ps_ack_rng st) m"
    using pull_draws [OF pull] by (simp_all add: m_def)
  have "distinct (draws registry_ack_id (ack_seed (ps_seed st)) (n + m))"
    by (rule registry_draws_distinct) (use m bound in linarith)
  then have fresh: "distinct (ack_ids_of out)" "set (ack_ids_of out) \<inter> issued (ps_seed st) n = {}"
    unfolding d(1) registry_okD(3) [OF ok] draws_add issued_def by auto
  have step: "sub_inv s'" "set (acks (ss_entries s')) \<subseteq> set (acks (ss_entries s)) \<union> set (ack_ids_of out)"
    using sub_step_pull [OF inv pull fresh(1)] fresh(2) acks by blast+
  have "log_ok (issued (ps_seed st) (n + m)) ?key s'"
    using log step acks pull_config [OF pull] unfolding issued_add log_ok_def d(1) registry_okD(3) [OF ok] by auto
  moreover have "logs_ok (issued (ps_seed st) (n + m)) (ps_subscriptions st)"
    by (rule logs_ok_mono [OF registry_okD(2) [OF ok]]) (simp add: issued_add)
  moreover have "route (bm_insert ?key s' (ps_subscriptions st)) = route (ps_subscriptions st)"
    by (rule route_replace [OF Some]) (simp add: pull_config [OF pull] s_def expire_config)
  moreover have "rng = after_draws registry_ack_id (ack_seed (ps_seed st)) (n + m)"
    by (simp add: d(2) registry_okD(3) [OF ok] after_draws_add)
  ultimately have "registry_ok (n + m) (st\<lparr>ps_ack_rng := rng, ps_subscriptions := bm_insert ?key s' (ps_subscriptions st)\<rparr>)"
    using ok by (auto simp: registry_ok_def maps_wf_def simp del: route_insert intro: logs_ok_insert)
  then show ?thesis
    using m by (intro exI [of _ m]) (simp add: pull_with_dead_letters_admitted_def Some Let_def s_def [symmetric] auth_def [symmetric] pull)
qed

section \<open>Snapshots\<close>

lemma indexed_store:
  assumes "snapshots_indexed snaps ts" "bm_get snaps (snp_name snp) = None"
  shows "snapshots_indexed (bm_insert (snp_name snp) snp snaps)
    (bm_insert (snp_topic_key snp) (bs_insert (snp_name snp) (attached ts (snp_topic_key snp))) ts)"
  using assms by (auto simp: snapshots_indexed_def)

lemma build_snapshot_Ok:
  assumes "build_snapshot L requested sub labels now st = Ok (snp, bytes, next_counter)"
  shows "bm_get (ps_snapshots st) (snp_name snp) = None"
  using assms
  by (auto simp: build_snapshot_def and_then_eq_Inr Let_def capture_def bm_contains_def split: option.splits if_splits)

lemma create_snapshot_ok:
  assumes "registry_ok n st"
  shows "registry_ok n (snd (create_snapshot L requested sub labels now st))"
proof -
  define st1 where "st1 = remove_expired_snapshots L now st"
  have ok: "registry_ok n st1" unfolding st1_def by (rule remove_expired_ok(1) [OF assms])
  have "registry_ok n (store_snapshot snp bytes c st1)"
    if "build_snapshot L requested sub labels now st1 = Ok (snp, bytes, c)" for snp bytes c
  proof -
    have "bm_wf (foldl (count_reference 1) (ps_message_refs st1) (snp_captured snp))"
      using ok by (intro bm_wf_foldl) (auto simp: registry_ok_def maps_wf_def count_reference_def)
    moreover have "snapshots_indexed (bm_insert (snp_name snp) snp (ps_snapshots st1))
      (bm_insert (snp_topic_key snp) (bs_insert (snp_name snp) (attached (ps_topic_snapshots st1) (snp_topic_key snp)))
        (ps_topic_snapshots st1))"
      by (rule indexed_store [OF registry_okD(5) [OF ok] build_snapshot_Ok [OF that]])
    ultimately show ?thesis
      using ok by (simp add: store_snapshot_def Let_def attached_def [symmetric] registry_ok_def maps_wf_def bm_wf_insert)
  qed
  with ok show ?thesis
    by (auto simp: create_snapshot_def Let_def st1_def [symmetric] split: sum.split)
qed

lemma get_snapshot_ok: "registry_ok n st \<Longrightarrow> registry_ok n (snd (get_snapshot L name now st))"
  by (simp add: get_snapshot_def Let_def remove_expired_ok(1) split: sum.split)

lemma list_snapshots_ok:
  "registry_ok n st \<Longrightarrow> registry_ok n (snd (list_snapshots L project now st))"
  "registry_ok n st \<Longrightarrow> registry_ok n (snd (list_topic_snapshots L topic now st))"
  by (simp_all add: list_snapshots_def list_topic_snapshots_def Let_def remove_expired_ok(1))

lemma update_snapshot_ok:
  assumes "registry_ok n st"
  shows "registry_ok n (snd (update_snapshot L name labels now st))"
proof -
  define st1 where "st1 = remove_expired_snapshots L now st"
  have ok: "registry_ok n st1" unfolding st1_def by (rule remove_expired_ok(1) [OF assms])
  have "registry_ok n (st1\<lparr>ps_snapshot_bytes := t, ps_snapshots := bm_insert name (snp\<lparr>snp_labels := labels\<rparr>) (ps_snapshots st1)\<rparr>)"
    if "bm_get (ps_snapshots st1) name = Some snp" for snp t
  proof -
    have "snapshots_indexed (bm_insert name (snp\<lparr>snp_labels := labels\<rparr>) (ps_snapshots st1)) (ps_topic_snapshots st1)"
      using registry_okD(5) [OF ok] that by (auto simp: snapshots_indexed_def)
    then show ?thesis using ok by (simp add: registry_ok_def maps_wf_def bm_wf_insert)
  qed
  with ok assms show ?thesis
    by (auto simp: update_snapshot_def Let_def st1_def [symmetric] split: sum.split option.split)
qed

lemma delete_snapshot_ok: "registry_ok n st \<Longrightarrow> registry_ok n (snd (delete_snapshot L name now st))"
  using remove_snapshot_ok [OF remove_expired_ok(1)]
  by (simp add: delete_snapshot_def split: sum.split prod.split) (metis snd_conv)

lemma keeps_log_seek_snapshot:
  "refs_bytes captured < 2 ^ 64 \<Longrightarrow> keeps_log (\<lambda>s. snd (sub_seek_to_snapshot captured r u t now s))"
  by (simp add: keeps_log_def seek_snapshot_inv acks_seeks(2))
    (simp add: sub_seek_to_snapshot_def Let_def rebuild_indexes_def reclaim_acked_entries_def)

text \<open>What a snapshot captured fits in memory.\<close>

definition snapshot_fits :: "pubsub_state \<Rightarrow> string \<Rightarrow> bool" where
  "snapshot_fits st name \<longleftrightarrow>
     (case bm_get (ps_snapshots st) name of None \<Rightarrow> True | Some snp \<Rightarrow> refs_bytes (snp_captured snp) < 2 ^ 64)"

lemma get_snapshot_Ok:
  assumes "registry_ok n st" "get_snapshot L name now st = (Ok snp, st')"
  shows "bm_get (ps_snapshots st) name = Some snp" "snp_expire_at snp > now" "st' = remove_expired_snapshots L now st"
  using assms(2) remove_expired_ok(3) [OF assms(1), of L now name]
  by (auto simp: get_snapshot_def Let_def ok_or_def split: sum.splits option.splits if_splits)

lemma map_sum_Pair_Ok: "map_sum id (Pair x) c = Inr (a, b) \<longleftrightarrow> x = a \<and> c = Inr b"
  by (cases c) auto

lemma seek_to_snapshot_ok:
  assumes "registry_ok n st" "snapshot_fits st name"
  shows "registry_ok n (snd (registry_seek_to_snapshot L sub name now st))"
proof -
  obtain r st1 where g: "get_snapshot L name now st = (r, st1)" by fastforce
  have ok: "registry_ok n st1" using get_snapshot_ok [OF assms(1), of L name now] by (simp add: g)
  have "registry_ok n (snd (sub_mut sub (sub_seek_to_snapshot (snp_captured snp) (snp_retained_ids snp)
      (snp_unacknowledged_ids snp) (snp_created_at snp) now) st1))" if "r = Ok snp" for snp
    using get_snapshot_Ok(1) [OF assms(1) g [unfolded that]] assms(2)
    by (intro sub_mut_ok [OF ok] keeps_log_seek_snapshot) (simp add: snapshot_fits_def)
  with ok show ?thesis
    by (auto simp: registry_seek_to_snapshot_def g and_then_eq_Inr map_sum_Pair_Ok split: sum.split prod.split)
qed

section \<open>Preparing a publication\<close>

lemma number_messages_Ok:
  assumes "number_messages now addr c ms = Ok (refs, c')"
  shows "map (\<lambda>m. sm_message (ref_stored m)) refs = map fst ms"
    and "\<forall>m\<in>set refs. sm_publish_time (ref_stored m) = now"
    and "map ref_addr refs = [addr..<addr + length ms]"
    and "c \<le> message_id_span \<Longrightarrow> c' \<le> message_id_span" "c \<le> c'"
  using assms
  by (induction now addr c ms arbitrary: refs rule: number_messages.induct)
    (auto simp: and_then_eq_Inr upt_conv_Cons simp del: upt_Suc split: option.splits if_splits)

lemma number_messages_ids:
  "number_messages now addr c (map (\<lambda>m. (m, None)) ms) = Ok (refs, c') \<Longrightarrow>
     map ref_id refs = map pubsub_message_id [Suc c..<Suc (c + length ms)] \<and> c' = c + length ms"
proof (induction ms arbitrary: addr c refs)
  case (Cons m ms)
  then obtain refs' where r: "number_messages now (Suc addr) (Suc c) (map (\<lambda>m. (m, None)) ms) = Ok (refs', c')"
    "map ref_id refs = pubsub_message_id (Suc c) # map ref_id refs'"
    by (auto simp: and_then_eq_Inr split: option.splits if_splits)
  from Cons.IH [OF r(1)] r(2) show ?case by (simp add: upt_conv_Cons del: upt_Suc)
qed simp

lemma prepare_ok:
  assumes "registry_ok n st" "prepare_publish_numbered L topic ms now st = (r, st1)"
  shows "registry_ok n st1" "same_logs st st1"
    and "r = Ok p \<Longrightarrow> commit_current L p st1 \<and> prep_topic_key p = topic_to_full topic
      \<and> (\<exists>addr. number_messages now addr (ps_message_counter st) ms = Ok (prep_published p, prep_next_counter p))"
proof -
  define st0 where "st0 = remove_expired_snapshots L now st"
  have ok0: "registry_ok n st0" "same_logs st st0" unfolding st0_def using remove_expired_ok [OF assms(1)] by blast+
  have next': "registry_ok n (st0\<lparr>ps_next_addr := a\<rparr>)" "same_logs st (st0\<lparr>ps_next_addr := a\<rparr>)" for a
    using ok0(1) apply (simp add: registry_ok_def maps_wf_def)
    using ok0(2) by (simp add: same_logs_def)
  have id: "same_logs st st" by (simp add: same_logs_def)
  show "registry_ok n st1" "same_logs st st1"
    using assms ok0 next' id
    by (auto simp: prepare_publish_numbered_def Let_def st0_def [symmetric] split: option.splits if_splits sum.splits)
  show "r = Ok p \<Longrightarrow> commit_current L p st1 \<and> prep_topic_key p = topic_to_full topic
      \<and> (\<exists>addr. number_messages now addr (ps_message_counter st) ms = Ok (prep_published p, prep_next_counter p))"
    using assms(2) ok0(2)
    by (auto simp: prepare_publish_numbered_def Let_def st0_def [symmetric] commit_current_def same_logs_def map_sum_def
        split: option.splits if_splits sum.splits intro!: exI [of _ "ps_next_addr st0"])
qed

lemma prepare_dead_letter_ok:
  assumes "registry_ok n st"
  shows "registry_ok n (snd (prepare_dead_letter_publication L f now st))"
proof -
  have "registry_ok n (resume_dead_letter f now st)"
    unfolding resume_dead_letter_def
    by (rule sub_mut_ok [OF assms]) (simp add: unit_result_def keeps_log_resume)
  moreover have "registry_ok n (snd (prepare_publish_numbered L topic ms now st))" for topic ms
    using prepare_ok(1) [OF assms] by (cases "prepare_publish_numbered L topic ms now st") auto
  ultimately show ?thesis
    using assms by (auto simp: prepare_dead_letter_publication_def prepare_publish_def Let_def split: sum.split)
qed

lemma complete_dead_letter_ok: "registry_ok n st \<Longrightarrow> registry_ok n (snd (complete_dead_letter source m st))"
  unfolding complete_dead_letter_def by (rule sub_mut_ok [OF _ keeps_log_complete])

lemma forward_all_ok: "registry_ok n st \<Longrightarrow> \<exists>st'. forward_all L now fs st = Some st' \<and> registry_ok n st'"
proof (induction fs arbitrary: st)
  case (Cons f fs)
  obtain r st1 where p: "prepare_dead_letter_publication L f now st = (r, st1)" by fastforce
  have ok: "registry_ok n st1" using prepare_dead_letter_ok [OF Cons.prems, of L f now] by (simp add: p)
  show ?case
  proof (cases r)
    case (Inr q)
    show ?thesis
      by (rule commit_total [OF ok, of L q now]) (use Cons.IH ok in \<open>auto simp: p Inr complete_dead_letter_ok\<close>)
  qed (use p Cons.IH [OF ok] in simp)
qed simp

section \<open>Steps\<close>

text \<open>
  One rule per operation: the state it leaves, or None where it panics. What a call
  is given fits in memory: a listing has a length, a snapshot's messages have a size.
\<close>

inductive registry_step :: "layout \<Rightarrow> pubsub_state \<Rightarrow> pubsub_state option \<Rightarrow> bool" where
  step_set_project_numbers: "registry_step L st (Some (snd (set_project_numbers ns st)))"
| step_set_dead_letter_iam_enforcement: "registry_step L st (Some (set_dead_letter_iam_enforcement b st))"
| step_set_dead_letter_grants_required: "registry_step L st (Some (set_dead_letter_grants_required b st))"
| step_set_resource_policy: "registry_step L st (Some (snd (set_resource_policy r e v bs st)))"
| step_paginate: "length names < 2 ^ 64 \<Longrightarrow> registry_step L st (map_option snd (registry_paginate c names limit token policy (\<lambda>x. x) st))"
| step_set_push_minimum_interval: "registry_step L st (Some (registry_set_push_minimum d st))"
| step_create_topic: "registry_step L st (Some (snd (create_topic_with_retention t labels d st)))"
| step_update_topic_labels: "registry_step L st (Some (snd (update_topic_labels t labels strict st)))"
| step_delete_topic: "registry_step L st (Some (snd (delete_topic t st)))"
| step_create_subscription: "registry_step L st (Some (snd (create_subscription c st)))"
| step_mark_function_subscription: "registry_step L st (Some (snd (mark_function_subscription s st)))"
| step_delete_subscription: "registry_step L st (Some (snd (delete_subscription s st)))"
| step_update_ack_deadline: "registry_step L st (Some (snd (update_ack_deadline s d st)))"
| step_update_push_config: "registry_step L st (Some (snd (update_push_config s c st)))"
| step_update_subscription: "registry_step L st (Some (snd (update_subscription_configuration s u strict st)))"
| step_create_snapshot: "registry_step L st (Some (snd (create_snapshot L name s labels now st)))"
| step_get_snapshot: "registry_step L st (Some (snd (get_snapshot L name now st)))"
| step_list_snapshots: "registry_step L st (Some (snd (list_snapshots L p now st)))"
| step_list_topic_snapshots: "registry_step L st (Some (snd (list_topic_snapshots L t now st)))"
| step_update_snapshot: "registry_step L st (Some (snd (update_snapshot L name labels now st)))"
| step_delete_snapshot: "registry_step L st (Some (snd (delete_snapshot L name now st)))"
| step_seek_subscription_to_snapshot: "snapshot_fits st name \<Longrightarrow> registry_step L st (Some (snd (registry_seek_to_snapshot L s name now st)))"
| step_prepare_publish: "registry_step L st (Some (snd (prepare_publish_numbered L t ms now st)))"
| step_commit_prepared: "registry_step L st (map_option snd (commit_prepared L p now st))"
| step_publish: "registry_step L st (map_option snd (registry_publish L t ms now st))"
| step_publish_with_message_ids: "registry_step L st (map_option snd (publish_with_message_ids L t ms now st))"
| step_pull_messages: "registry_step L st (map_option snd (registry_pull L s n now st))"
| step_pull_admitted: "registry_step L st (Some (snd (pull_with_dead_letters_admitted s n now b admit st)))"
| step_prepare_dead_letter: "registry_step L st (Some (snd (prepare_dead_letter_publication L f now st)))"
| step_resume_dead_letter: "registry_step L st (Some (resume_dead_letter f now st))"
| step_complete_dead_letter: "registry_step L st (Some (snd (complete_dead_letter s m st)))"
| step_acknowledge_messages: "registry_step L st (Some (snd (registry_acknowledge s ids st)))"
| step_retain_outstanding: "registry_step L st (Some (snd (registry_retain_outstanding s ids now st)))"
| step_modify_deadlines: "registry_step L st (Some (snd (registry_modify_ack_deadline s ids d now st)))"
| step_seek_subscription_to_time: "registry_step L st (Some (snd (registry_seek_to_time s t now st)))"
| step_expire_all: "registry_step L st (Some (expire_all L now st))"
| step_clear: "registry_step L st (Some (registry_clear st))"
| step_clear_project: "registry_step L st (Some (clear_project L p st))"
| step_clear_projects_where: "registry_step L st (Some (clear_projects_where L P st))"

section \<open>Every step keeps the registry well formed\<close>

lemma settings_ok:
  assumes "registry_ok n st"
  shows "registry_ok n (snd (set_project_numbers ns st))" "registry_ok n (set_dead_letter_iam_enforcement b st)"
    "registry_ok n (set_dead_letter_grants_required b st)" "registry_ok n (snd (set_resource_policy r e v bs st))"
    "registry_ok n (snd (update_topic_labels t labels strict st))" "registry_ok n (snd (mark_function_subscription s st))"
proof -
  show "registry_ok n (snd (set_project_numbers ns st))" "registry_ok n (set_dead_letter_iam_enforcement b st)"
    "registry_ok n (set_dead_letter_grants_required b st)"
    using assms by (auto simp: registry_ok_def maps_wf_def set_project_numbers_def set_dead_letter_iam_enforcement_def
        set_dead_letter_grants_required_def split: sum.split)
  show "registry_ok n (snd (set_resource_policy r e v bs st))" "registry_ok n (snd (mark_function_subscription s st))"
    using assms by (auto simp: registry_ok_def maps_wf_def set_resource_policy_def mark_function_subscription_def
        Let_def bm_wf_insert bs_wf_insert split: option.split prod.split)
  have "routed (bm_insert key e t) r ts c" if "routed t r ts c" "bm_get t key \<noteq> None" for t r ts c key e
    using that by (auto simp: routed_def)
  with assms show "registry_ok n (snd (update_topic_labels t labels strict st))"
    by (auto simp: update_topic_labels_def registry_ok_def maps_wf_def bm_wf_insert split: sum.split option.split)
qed

lemma paginate_strict_page:
  assumes "paginate_after resources limit token StrictPaging name boundary = Ok page" "pg_next_page_token page \<noteq> []"
    and "length resources < 2 ^ 64"
  shows "pg_resources page \<noteq> []"
  using assms
  by (auto simp: paginate_after_def page_limit_def and_then_eq_Inr Let_def u_max_def saturating_add_u_def
      split: if_splits)

lemma paginate_ok:
  assumes "registry_ok n st" "length resources < 2 ^ 64"
  shows "\<exists>r st'. registry_paginate c resources limit token policy name st = Some (r, st') \<and> registry_ok n st'"
proof -
  have "registry_ok n (issue_boundary c t b st)" for t b
    using assms by (simp add: issue_boundary_def Let_def registry_ok_def maps_wf_def bm_wf_insert)
  with assms show ?thesis
    by (auto simp: registry_paginate_def Let_def dest: paginate_strict_page [OF _ _ assms(2)] split: sum.split)
qed

lemma update_configuration_ok:
  assumes "registry_ok n st"
  shows "registry_ok n (snd (update_subscription_configuration name u strict st))"
proof (cases "bm_get (ps_subscriptions st) (subscription_to_full name)")
  case (Some s)
  note log = logs_okD [OF registry_okD(2) [OF assms] Some]
  have "registry_ok n (st\<lparr>ps_subscriptions := bm_insert (subscription_to_full name)
      (replace_config (update_candidate u (ss_config s)) s) (ps_subscriptions st)\<rparr>)"
    by (rule registry_ok_replace [OF assms Some])
      (use log in \<open>simp_all add: log_ok_def replace_config_def update_candidate_def config_inv\<close>)
  with assms Some show ?thesis
    by (auto simp: update_subscription_configuration_def registry_subscription_config_def Let_def sub_mut_def
        unit_result_def split: sum.split)
qed (simp add: update_subscription_configuration_def registry_subscription_config_def assms)

lemma keeps_log_settings:
  "keeps_log (set_push_config c)"
  "keeps_log (\<lambda>s. snd (if P then (Err e, s) else (Ok (), set_ack_deadline d s)))"
  by (auto simp: keeps_log_def set_push_config_def set_ack_deadline_def config_inv)

lemma subscription_ops_ok:
  assumes "registry_ok n st"
  shows "registry_ok n (snd (update_ack_deadline s d st))" "registry_ok n (snd (update_push_config s c st))"
    "registry_ok n (resume_dead_letter f now st)" "registry_ok n (snd (registry_acknowledge s ids st))"
    "registry_ok n (snd (registry_retain_outstanding s ids now st))"
    "registry_ok n (snd (registry_modify_ack_deadline s ids d now st))"
    "registry_ok n (snd (registry_seek_to_time s t now st))"
  unfolding update_ack_deadline_def update_push_config_def resume_dead_letter_def registry_acknowledge_def
    registry_retain_outstanding_def registry_modify_ack_deadline_def registry_seek_to_time_def snd_flatten
  by (rule sub_mut_ok [OF assms];
      simp add: keeps_log_settings keeps_log_ops keeps_log_fold unit_result_def retain_outstanding_ack_ids_def Let_def)+

lemma foldl_ok: "P st \<Longrightarrow> (\<And>st x. P st \<Longrightarrow> P (f st x)) \<Longrightarrow> P (foldl f st xs)"
  by (induction xs arbitrary: st) simp_all

lemma clear_project_ok:
  assumes "registry_ok n st"
  shows "registry_ok n (clear_project L project st)"
proof -
  let ?st = "st\<lparr>ps_page_boundaries := filter (\<lambda>(list_context, _). \<not> prefix (''projects/'' @ project @ ''/'') list_context)
    (ps_page_boundaries st)\<rparr>"
  have "registry_ok n ?st" using assms by (simp add: registry_ok_def maps_wf_def bm_wf_filter)
  then show ?thesis
    unfolding clear_project_def Let_def
    by (intro remove_snapshots_ok(1) foldl_ok [where P = "registry_ok n"]) (simp_all add: delete_subscription_ok delete_topic_ok)
qed

lemma resets_ok:
  assumes "registry_ok n st"
  shows "registry_ok 0 (registry_clear st)" "registry_ok n (clear_projects_where L P st)" "registry_ok n (expire_all L now st)"
    "registry_ok n (registry_set_push_minimum d st)"
proof -
  show "registry_ok 0 (registry_clear st)"
    by (simp add: registry_clear_def registry_ok_def maps_wf_def logs_ok_def routed_def route_def snapshots_indexed_def)
  show "registry_ok n (clear_projects_where L P st)"
    unfolding clear_projects_where_def by (rule foldl_ok [where P = "registry_ok n"]) (simp_all add: assms clear_project_ok)
  show "registry_ok n (expire_all L now st)"
    unfolding expire_all_def Let_def by (rule values_mut_ok [OF remove_expired_ok(1) [OF assms] keeps_log_expire])
  have "registry_ok n (st\<lparr>ps_push_minimum := x\<rparr>)" for x using assms by (simp add: registry_ok_def maps_wf_def)
  from values_mut_ok [OF this keeps_log_set_push_minimum] show "registry_ok n (registry_set_push_minimum d st)"
    by (simp add: registry_set_push_minimum_def Let_def)
qed

lemma commit_result_ok:
  assumes "registry_ok n st"
  shows "\<exists>r st'. commit_result L now (q, st) = Some (r, st') \<and> registry_ok n st'"
proof (cases q)
  case (Inr p)
  show ?thesis by (rule commit_total [OF assms, of L p now]) (use assms in \<open>auto simp: commit_result_def Inr\<close>)
qed (simp add: commit_result_def assms)

lemma publish_ok:
  assumes "registry_ok n st"
  shows "\<exists>st'. map_option snd (registry_publish L t ms now st) = Some st' \<and> registry_ok n st'"
    and "\<exists>st'. map_option snd (publish_with_message_ids L t ims now st) = Some st' \<and> registry_ok n st'"
proof -
  have *: "\<exists>st'. map_option snd (commit_result L now (prepare_publish_numbered L t ms now st)) = Some st' \<and> registry_ok n st'" for ms
    using prepare_ok(1) [OF assms] commit_result_ok
    by (cases "prepare_publish_numbered L t ms now st") (metis option.simps(9) snd_conv)
  then show "\<exists>st'. map_option snd (registry_publish L t ms now st) = Some st' \<and> registry_ok n st'"
    by (simp add: registry_publish_def publish_shared_def prepare_publish_def option.map_comp comp_def case_prod_beta)
  show "\<exists>st'. map_option snd (publish_with_message_ids L t ims now st) = Some st' \<and> registry_ok n st'"
    using * assms by (simp add: publish_with_message_ids_def prepare_publish_with_message_ids_def commit_result_def)
qed

lemma registry_pull_ok:
  assumes "registry_ok n st" "n + max_retained_per_sub < 2 ^ 64"
  shows "\<exists>m\<le>max_retained_per_sub. \<exists>st'. map_option snd (registry_pull L s k now st) = Some st' \<and> registry_ok (n + m) st'"
proof -
  obtain r st1 where p: "pull_with_dead_letters s k now st = (r, st1)" by fastforce
  with pull_admitted_ok [OF assms, of s k now Mixed "\<lambda>_. True"] obtain m where
    m: "m \<le> max_retained_per_sub" "registry_ok (n + m) st1"
    by (auto simp: pull_with_dead_letters_def pull_with_dead_letters_batching_def)
  show ?thesis
  proof (cases r)
    case (Inr out)
    from forward_all_ok [OF m(2)] obtain st2 where
      "forward_all L now (pr_dead_lettered out) st1 = Some st2" "registry_ok (n + m) st2" by blast
    with m(1) p Inr show ?thesis by (auto simp: registry_pull_def)
  qed (use m p in \<open>auto simp: registry_pull_def\<close>)
qed

lemmas same_count_ok = settings_ok subscription_ops_ok update_configuration_ok create_topic_ok delete_topic_ok
  create_subscription_ok delete_subscription_ok create_snapshot_ok get_snapshot_ok list_snapshots_ok
  update_snapshot_ok delete_snapshot_ok seek_to_snapshot_ok prepare_dead_letter_ok complete_dead_letter_ok
  resets_ok(2-4) clear_project_ok

lemma registry_step_ok:
  assumes "registry_step L st r" "registry_ok n st" "n + max_retained_per_sub < 2 ^ 64"
  shows "\<exists>st' m. r = Some st' \<and> m \<le> n + max_retained_per_sub \<and> registry_ok m st'"
proof -
  have same: ?thesis if "r = Some st'" "registry_ok n st'" for st'
    using that by (intro exI [of _ st'] exI [of _ n]) simp
  show ?thesis
    using assms(1)
  proof cases
    case (step_paginate names c limit token policy)
    from paginate_ok [OF assms(2) step_paginate(2), of c limit token policy "\<lambda>x. x"] obtain res st' where
      "registry_paginate c names limit token policy (\<lambda>x. x) st = Some (res, st')" "registry_ok n st'" by blast
    then show ?thesis by (intro same) (simp_all add: step_paginate(1))
  next
    case (step_prepare_publish t ms now)
    show ?thesis
      by (rule same [OF step_prepare_publish], rule prepare_ok(1) [OF assms(2)], rule prod.collapse [symmetric])
  next
    case (step_commit_prepared p now)
    show ?thesis by (rule commit_total [OF assms(2), of L p now]) (use step_commit_prepared same assms(2) in auto)
  next
    case (step_publish t ms now)
    from publish_ok(1) [OF assms(2), of L t ms now] show ?thesis unfolding step_publish [symmetric] using same by blast
  next
    case (step_publish_with_message_ids t ms now)
    from publish_ok(2) [OF assms(2), of L t ms now] show ?thesis
      unfolding step_publish_with_message_ids [symmetric] using same by blast
  next
    case (step_pull_messages s k now)
    from registry_pull_ok [OF assms(2,3), of L s k now] obtain m st' where
      "m \<le> max_retained_per_sub" "r = Some st'" "registry_ok (n + m) st'" unfolding step_pull_messages [symmetric] by blast
    then show ?thesis by (intro exI [of _ st'] exI [of _ "n + m"]) simp
  next
    case (step_pull_admitted s k now b admit)
    from pull_admitted_ok [OF assms(2,3), of s k now b admit] obtain m where
      "m \<le> max_retained_per_sub" "registry_ok (n + m) (the r)" by (auto simp: step_pull_admitted)
    then show ?thesis by (intro exI [of _ "the r"] exI [of _ "n + m"]) (simp add: step_pull_admitted)
  next
    case step_clear
    with resets_ok(1) [OF assms(2)] show ?thesis by (intro exI [of _ "the r"] exI [of _ 0]) simp
  qed (rule same, assumption, simp add: assms(2) same_count_ok)+
qed

text \<open>The registries \<open>k\<close> operations lead to.\<close>

inductive registry_reaches :: "layout \<Rightarrow> 64 word \<Rightarrow> nat \<Rightarrow> pubsub_state \<Rightarrow> bool" for L seed where
  reaches_new: "registry_reaches L seed 0 (pubsub_new seed)"
| reaches_step: "registry_reaches L seed k st \<Longrightarrow> registry_step L st (Some st') \<Longrightarrow> registry_reaches L seed (Suc k) st'"

lemma registry_reaches_ok:
  "registry_reaches L seed k st \<Longrightarrow> k * max_retained_per_sub < 2 ^ 64 \<Longrightarrow> \<exists>n\<le>k * max_retained_per_sub. registry_ok n st"
proof (induction rule: registry_reaches.induct)
  case (reaches_step k st st')
  then obtain n where n: "n \<le> k * max_retained_per_sub" "registry_ok n st" by auto
  with reaches_step.prems have "n + max_retained_per_sub < 2 ^ 64" by simp
  from registry_step_ok [OF reaches_step.hyps(2) n(2) this] n(1) show ?case
    by (metis add.commute add_le_cancel_left le_trans mult_Suc option.inject)
qed (use registry_ok_new in auto)

end
