(* ===== verification/Ps_Service.thy ===== *)
theory Ps_Service
  imports Ps_Broker
begin

text \<open>
  What the Pub/Sub registry promises its clients, after any history of operations: it is well
  formed and never panics, a publication reaches exactly the attached subscriptions, a snapshot
  restores the backlog it captured, and a dead letter is moved or stays where it was.
\<close>

section \<open>Well-formedness\<close>


definition sample_layout :: layout where
  "sample_layout = \<lparr>lay_string = 24, lay_arc = 8, lay_usize = 8, lay_stored_message = 120, lay_snapshot = 200, lay_capacity = length\<rparr>"

definition sample_topic :: topic_name where
  "sample_topic = \<lparr>tn_project = ''p'', tn_topic = ''news''\<rparr>"

definition sample_subscription :: subscription_config where
  "sample_subscription = (sample_config False)\<lparr>sc_topic := sample_topic\<rparr>"

definition sample_registry :: pubsub_state where
  "sample_registry = snd (create_subscription sample_subscription (snd (create_topic_with_retention sample_topic [] None (pubsub_new 7))))"

lemma sample_reached: "registry_reaches sample_layout 7 2 sample_registry"
  using reaches_step [OF reaches_step [OF reaches_new step_create_topic] step_create_subscription]
  by (simp add: sample_registry_def numeral_2_eq_2)


text \<open>The registry of the examples, field by field, and one publication to it.\<close>

definition sample_message :: pubsub_message where
  "sample_message = \<lparr>pm_data = ''hi'', pm_attributes = [], pm_ordering_key = []\<rparr>"

lemma sample_names:
  "topic_to_full sample_topic = ''projects/p/topics/news''" "\<not> is_deleted_sentinel sample_topic"
  "sc_topic sample_subscription = sample_topic" "sc_dead_letter_policy sample_subscription = None"
  "subscription_to_full (sc_name sample_subscription) = ''projects/p/subscriptions/sub''"
  "config_validate sample_subscription = Ok ()"
  by (simp_all add: sample_topic_def topic_to_full_def is_deleted_sentinel_def deleted_topic_def
      sample_subscription_def sample_config_def subscription_to_full_def config_validate_def when_some_def max_ack_deadline_seconds_def)

definition sample_with_topic :: pubsub_state where
  "sample_with_topic = (pubsub_new 7)\<lparr>ps_topic_counter := 1, ps_policy_incarnation := 1,
     ps_policies := [(''projects/p/topics/news'', policy_new 1)], ps_topic_subs := [(''projects/p/topics/news'', [])],
     ps_topics := [(''projects/p/topics/news'', \<lparr>te_name = sample_topic, te_labels = [], te_incarnation = 1, te_retention = None\<rparr>)]\<rparr>"

lemma registry_new_fields:
  "ps_topics (pubsub_new seed) = []" "ps_topic_counter (pubsub_new seed) = 0" "ps_policy_incarnation (pubsub_new seed) = 0"
  "ps_policies (pubsub_new seed) = []" "ps_topic_subs (pubsub_new seed) = []" "ps_subscriptions (pubsub_new seed) = []"
  "ps_snapshots (pubsub_new seed) = []" "ps_topic_snapshots (pubsub_new seed) = []" "ps_message_refs (pubsub_new seed) = []"
  "ps_function_subs (pubsub_new seed) = []" "ps_message_counter (pubsub_new seed) = 0" "ps_snapshot_bytes (pubsub_new seed) = 0"
  "ps_next_addr (pubsub_new seed) = 0"
  by (simp_all add: pubsub_new_def)

lemma sample_topic_created: "create_topic_with_retention sample_topic [] None (pubsub_new 7) = (Ok (), sample_with_topic)"
  by (simp add: create_topic_with_retention_def when_some_def sample_names registry_new_fields bm_contains_def max_topics_def
      create_resource_policy_def sample_with_topic_def checked_add_u_def Let_def)

lemma sample_subscription_created:
  "create_subscription sample_subscription sample_with_topic = (Ok (), sample_with_topic\<lparr>ps_policy_incarnation := Suc 1,
     ps_policies := bm_insert ''projects/p/subscriptions/sub'' (policy_new (Suc 1)) (ps_policies sample_with_topic),
     ps_topic_subs := [(''projects/p/topics/news'', [''projects/p/subscriptions/sub''])],
     ps_subscriptions := [(''projects/p/subscriptions/sub'',
       set_push_minimum (ps_push_minimum sample_with_topic) (sub_new sample_subscription))]\<rparr>)"
  by (simp add: create_subscription_def sample_names sample_with_topic_def registry_new_fields bm_contains_def max_subscriptions_def
      create_resource_policy_def checked_add_u_def Let_def bs_insert_def bm_insert_def)

lemma sample_registry_fields:
  "ps_topics sample_registry = [(''projects/p/topics/news'', \<lparr>te_name = sample_topic, te_labels = [], te_incarnation = 1, te_retention = None\<rparr>)]"
  "ps_topic_subs sample_registry = [(''projects/p/topics/news'', [''projects/p/subscriptions/sub''])]"
  "ps_subscriptions sample_registry = [(''projects/p/subscriptions/sub'',
     set_push_minimum (ps_push_minimum sample_with_topic) (sub_new sample_subscription))]"
  "ps_snapshots sample_registry = []" "ps_topic_snapshots sample_registry = []" "ps_message_refs sample_registry = []"
  "ps_function_subs sample_registry = []" "ps_message_counter sample_registry = 0" "ps_snapshot_bytes sample_registry = 0"
  "ps_next_addr sample_registry = 0"
  by (simp_all add: sample_registry_def sample_topic_created sample_subscription_created)
    (simp_all add: sample_with_topic_def registry_new_fields)

definition sample_published :: message_ref where
  "sample_published = \<lparr>ref_addr = 0, ref_stored = \<lparr>sm_message_id = pubsub_message_id 1, sm_publish_time = 0, sm_message = sample_message\<rparr>\<rparr>"

lemma sample_admitted:
  "subscriptions_admit (sample_registry\<lparr>ps_next_addr := Suc 0\<rparr>) [sample_published] [''projects/p/subscriptions/sub''] = Ok ()"
  by (simp add: sample_registry_fields set_push_minimum_def sub_new_def admits_def sample_subscription_def sample_config_def
      filter_always_def sample_published_def sample_message_def ensure_enqueue_capacity_def message_bytes_def sum_usize_def
      saturating_add_u_def u_max_def fits_limits_def checked_add_u_def and_then_def ok_or_def
      max_retained_per_sub_def max_retained_bytes_per_sub_def)

lemma sample_snapshots_admit:
  "snapshot_publish_admission sample_layout (sample_registry\<lparr>ps_next_addr := Suc 0\<rparr>) ''projects/p/topics/news'' (Suc 0) [sample_published] = Ok ([], 0)"
  by (simp add: snapshot_publish_admission_def sample_registry_fields sample_published_def snapshot_reference_bytes_def
      owned_string_bytes_def saturating_mul_u_def saturating_add_u_def u_max_def checked_add_u_def sample_layout_def
      message_id_length max_snapshot_retained_bytes_def and_then_def)

lemma sample_validated: "message_validate sample_message = Ok ()"
  by (simp add: sample_message_def message_validate_def message_bounds validate_ordering_key_def)

lemma sample_numbered: "number_messages 0 0 0 [(sample_message, None)] = Ok ([sample_published], 1)"
  by (simp add: sample_published_def message_id_span_def message_id_full_span_def checked_add_u_def and_then_def)

lemma sample_no_expired: "remove_expired_snapshots L now sample_registry = sample_registry"
  by (simp add: remove_expired_snapshots_def remove_snapshots_def bm_values_def sample_registry_fields)

lemma sample_prepared: "is_ok (fst (prepare_publish sample_layout sample_topic [sample_message] 0 sample_registry))"
  by (simp add: prepare_publish_def prepare_publish_numbered_def sample_names sample_no_expired sample_registry_fields(1,8,10)
      max_messages_per_publish_def sample_validated sample_numbered Let_def publish_admission_def
      sample_registry_fields(2) sample_admitted sample_snapshots_admit is_ok_iff del: number_messages.simps subscriptions_admit.simps)

section \<open>Publication\<close>

lemma delivered_same_logs:
  assumes "same_logs st st1"
  shows "delivered key t ms st1 st' = delivered key t ms st st'"
proof -
  have eq: "ps_subscriptions st1 = ps_subscriptions st" "ps_function_subs st1 = ps_function_subs st"
    "ps_topic_subs st1 = ps_topic_subs st" using assms by (simp_all add: same_logs_def)
  show ?thesis unfolding delivered_def eq ..
qed

lemma publish_shared_cases:
  assumes "registry_ok n st" "\<not> is_deleted_sentinel topic"
  obtains e st' where "publish_shared L topic ms now st = Some (Err e, st')" "same_logs st st'"
  | refs st' where "publish_shared L topic ms now st = Some (Ok refs, st')"
      "map (\<lambda>m. sm_message (ref_stored m)) refs = ms"
      "map ref_id refs = map pubsub_message_id [Suc (ps_message_counter st)..<Suc (ps_message_counter st + length ms)]"
      "ps_message_counter st' = ps_message_counter st + length ms" "\<exists>t. delivered (topic_to_full topic) t refs st st'"
proof -
  obtain r st1 where p: "prepare_publish_numbered L topic (map (\<lambda>m. (m, None)) ms) now st = (r, st1)" by fastforce
  note ok = prepare_ok [OF assms(1) p]
  have eq: "publish_shared L topic ms now st = commit_result L now (r, st1)"
    by (simp add: publish_shared_def prepare_publish_def p)
  show thesis
  proof (cases r)
    case (Inl e)
    then show thesis using that(1) ok(2) by (simp add: eq commit_result_def)
  next
    case (Inr q)
    from ok(3) [OF Inr] obtain addr where q: "commit_current L q st1" "prep_topic_key q = topic_to_full topic"
      "number_messages now addr (ps_message_counter st) (map (\<lambda>m. (m, None)) ms) = Ok (prep_published q, prep_next_counter q)" by blast
    from commit_accepted [OF ok(1) q(1)] obtain st' where
      c: "commit_prepared L q now st1 = Some (Ok (prep_published q), st')" "committed q st1 st'" by blast
    have "\<exists>t. delivered (topic_to_full topic) t (prep_published q) st st'"
      using c(2) delivered_same_logs [OF ok(2)] q(2) by (simp add: committed_def)
    with that(2) [of "prep_published q" st'] c number_messages_Ok(1) [OF q(3)] number_messages_ids [OF q(3)]
    show thesis by (simp add: eq commit_result_def Inr committed_def comp_def)
  qed
qed

text \<open>The subscriptions that receive a publication are those configured with its topic.\<close>

lemma delivered_unacked:
  assumes ok: "registry_ok n st" and "\<not> is_deleted_sentinel topic"
    and "\<exists>t. delivered (topic_to_full topic) t refs st st'" and key: "bm_get (ps_subscriptions st) key = Some s"
  defines "new \<equiv> if sub_topic s = topic_to_full topic \<and> key \<notin> set (ps_function_subs st) then filter (ref_admits s) refs else []"
  shows "\<exists>s' t. bm_get (ps_subscriptions st') key = Some s' \<and> ss_config s' = ss_config s
      \<and> unacked s' = unacked s @ map (fresh_entry t) new"
    and "\<exists>s'. bm_get (ps_subscriptions st') key = Some s' \<and> backlog s' = backlog s @ new"
proof -
  have "route (ps_subscriptions st) key = Some (sub_topic s)" using key by (simp add: route_def)
  with routedD(4,5) [OF registry_okD(4) [OF ok]] assms(2)
  have new: "receives (ps_function_subs st) (attached (ps_topic_subs st) (topic_to_full topic)) key
      \<longleftrightarrow> sub_topic s = topic_to_full topic \<and> key \<notin> set (ps_function_subs st)"
    unfolding receives_def deleted_topic_iff [symmetric] by metis
  from assms(3) obtain t where "delivered (topic_to_full topic) t refs st st'" by blast
  from this [unfolded delivered_def, THEN spec, of key] key
  show u: "\<exists>s' t. bm_get (ps_subscriptions st') key = Some s' \<and> ss_config s' = ss_config s
      \<and> unacked s' = unacked s @ map (fresh_entry t) new"
    unfolding new new_def by auto
  then show "\<exists>s'. bm_get (ps_subscriptions st') key = Some s' \<and> backlog s' = backlog s @ new"
    unfolding backlog_unacked by (auto simp: comp_def)
qed

text \<open>C4: Publication is atomic and exact. After any history, publishing to a topic gives a result. When
  it is refused, no subscription and no message counter has changed. When it succeeds, the published
  records are the messages given, in order, under the next ids of the registry, and the backlog of each
  subscription grows by exactly the records its filter admits when it is attached to the topic and not
  served by the functions bridge, and by nothing otherwise.\<close>

theorem publish_exact:
  assumes "registry_reaches L seed k st" and "k * max_retained_per_sub < 2 ^ 64" and "\<not> is_deleted_sentinel topic"
  shows "\<exists>r st'. publish_shared L topic ms now st = Some (r, st') \<and>
    (case r of
       Inl e \<Rightarrow> ps_subscriptions st' = ps_subscriptions st \<and> ps_message_counter st' = ps_message_counter st
     | Inr refs \<Rightarrow>
         map (\<lambda>m. sm_message (ref_stored m)) refs = ms
         \<and> map ref_id refs = map pubsub_message_id [Suc (ps_message_counter st)..<Suc (ps_message_counter st + length ms)]
         \<and> ps_message_counter st' = ps_message_counter st + length ms
         \<and> (\<forall>key s. bm_get (ps_subscriptions st) key = Some s \<longrightarrow>
              (\<exists>s'. bm_get (ps_subscriptions st') key = Some s' \<and> backlog s' = backlog s @
                 (if sub_topic s = topic_to_full topic \<and> key \<notin> set (ps_function_subs st)
                  then filter (ref_admits s) refs else []))))"
proof -
  from registry_reaches_ok [OF assms(1,2)] obtain n where ok: "registry_ok n st" by blast
  show ?thesis
    by (rule publish_shared_cases [OF ok assms(3), of L ms now])
      (use delivered_unacked(2) [OF ok assms(3)] in \<open>simp_all add: same_logs_def\<close>)
qed

lemma sample_publishes: "\<exists>refs st'. publish_shared sample_layout sample_topic [sample_message] 0 sample_registry = Some (Ok refs, st')"
proof -
  obtain p st1 where p: "prepare_publish_numbered sample_layout sample_topic [(sample_message, None)] 0 sample_registry = (Ok p, st1)"
    using sample_prepared by (cases "prepare_publish sample_layout sample_topic [sample_message] 0 sample_registry")
      (auto simp: is_ok_iff prepare_publish_def)
  from registry_reaches_ok [OF sample_reached] obtain n where "registry_ok n sample_registry"
    by (auto simp: max_retained_per_sub_def)
  note ok = prepare_ok [OF this p]
  have "commit_current sample_layout p st1" using ok(3) by blast
  from commit_accepted [OF ok(1) this, of 0] show ?thesis
    by (auto simp: publish_shared_def prepare_publish_def p commit_result_def)
qed

theorem publish_exact_witness:
  "\<exists>refs st' s'. publish_shared sample_layout sample_topic [sample_message] 0 sample_registry = Some (Ok refs, st')
     \<and> map (\<lambda>m. sm_message (ref_stored m)) refs = [sample_message]
     \<and> bm_get (ps_subscriptions st') ''projects/p/subscriptions/sub'' = Some s' \<and> backlog s' = refs"
proof -
  let ?s = "set_push_minimum (ps_push_minimum sample_with_topic) (sub_new sample_subscription)"
  have k: "2 * max_retained_per_sub < 2 ^ 64" by (simp add: max_retained_per_sub_def)
  obtain refs st' where r: "publish_shared sample_layout sample_topic [sample_message] 0 sample_registry = Some (Ok refs, st')"
    using sample_publishes by blast
  have s: "bm_get (ps_subscriptions sample_registry) ''projects/p/subscriptions/sub'' = Some ?s"
    by (simp add: sample_registry_fields)
  have a: "ref_admits ?s m" for m
    by (simp add: admits_def sample_subscription_def sample_config_def filter_always_def filter_matches_def)
  from publish_exact [OF sample_reached k sample_names(2), of "[sample_message]" 0] r
  have e: "map (\<lambda>m. sm_message (ref_stored m)) refs = [sample_message]"
    "\<forall>key s. bm_get (ps_subscriptions sample_registry) key = Some s \<longrightarrow>
       (\<exists>s'. bm_get (ps_subscriptions st') key = Some s' \<and> backlog s' = backlog s @
         (if sub_topic s = topic_to_full sample_topic \<and> key \<notin> set (ps_function_subs sample_registry)
          then filter (ref_admits s) refs else []))"
    by simp_all
  note e(1) e(2) [rule_format, OF s]
  with r show ?thesis by (simp add: sample_names sample_registry_fields a backlog_def)
qed

section \<open>Snapshots\<close>

text \<open>What clients do with the messages handed to them, on any subscription.\<close>

inductive registry_consumes :: "nat \<Rightarrow> pubsub_state \<Rightarrow> pubsub_state \<Rightarrow> bool" where
  consumes_refl: "registry_consumes 0 st st"
| consumes_pull: "registry_consumes j st st' \<Longrightarrow>
    registry_consumes (Suc j) st (snd (pull_with_dead_letters_admitted name n now b admit st'))"
| consumes_acknowledge: "registry_consumes j st st' \<Longrightarrow> registry_consumes (Suc j) st (snd (registry_acknowledge name ids st'))"
| consumes_modify: "registry_consumes j st st' \<Longrightarrow>
    registry_consumes (Suc j) st (snd (registry_modify_ack_deadline name ids seconds now st'))"
| consumes_retain: "registry_consumes j st st' \<Longrightarrow>
    registry_consumes (Suc j) st (snd (registry_retain_outstanding name ids now st'))"

lemma consumes_reaches:
  "registry_consumes j st st' \<Longrightarrow> registry_reaches L seed k st \<Longrightarrow> registry_reaches L seed (k + j) st'"
proof (induction rule: registry_consumes.induct)
  case (consumes_pull j st st' name n now b admit)
  then show ?case using reaches_step [OF _ step_pull_admitted] by simp
next
  case (consumes_acknowledge j st st' name ids)
  then show ?case using reaches_step [OF _ step_acknowledge_messages] by simp
next
  case (consumes_modify j st st' name ids seconds now)
  then show ?case using reaches_step [OF _ step_modify_deadlines] by simp
next
  case (consumes_retain j st st' name ids now)
  then show ?case using reaches_step [OF _ step_retain_outstanding] by simp
qed simp

text \<open>They keep the log of every subscription and change the state of its entries only.\<close>

definition same_log :: "subscription_state \<Rightarrow> subscription_state \<Rightarrow> bool" where
  "same_log s s' \<longleftrightarrow> ss_config s' = ss_config s \<and> retained_messages s' = retained_messages s"

lemma same_log_refl [simp]: "same_log s s"
  by (simp add: same_log_def)

lemma same_log_trans: "same_log s s' \<Longrightarrow> same_log s' s'' \<Longrightarrow> same_log s s''"
  by (simp add: same_log_def)

lemma same_log_set_state [simp]: "same_log s (set_state i d s)"
  by (simp add: same_log_def retained_messages_def set_state_def map_update_same)

lemma same_log_fields:
  "same_log s (s'\<lparr>ss_outstanding := m\<rparr>) = same_log s s'" "same_log s (s'\<lparr>ss_first_unacked := i\<rparr>) = same_log s s'"
  "same_log (s\<lparr>ss_outstanding := m\<rparr>) s' = same_log s s'"
  by (simp_all add: same_log_def retained_messages_def)

lemma same_log_foldl: "(\<And>s x. same_log s (f s x)) \<Longrightarrow> same_log s (foldl f s xs)"
  by (induction xs arbitrary: s) (auto intro: same_log_trans)

lemma same_log_release: "same_log s (set_state i d (s\<lparr>ss_outstanding := m\<rparr>))"
  using same_log_set_state [of "s\<lparr>ss_outstanding := m\<rparr>" i d] by (simp only: same_log_fields)

lemma same_log_expire: "same_log s (expire_deadlines now s)"
  unfolding expire_deadlines_def
  by (rule same_log_foldl) (simp add: expire_one_def same_log_release split: option.split)

lemma same_log_modify: "same_log s (modify_ack_deadline a seconds now s)"
  by (simp add: modify_ack_deadline_def same_log_release split: option.split delivery.split)

lemma same_log_acknowledge: "same_log s (snd (acknowledge ids s))"
proof -
  have "same_log s (snd (foldl acknowledge_one (n, s) ids))" for n s
  proof (induction ids arbitrary: n s)
    case (Cons a ids)
    have "same_log s (snd (acknowledge_one (n, s) a))"
      by (simp add: acknowledge_one_def same_log_release split: option.split)
    then show ?case using Cons.IH by (cases "acknowledge_one (n, s) a") (auto intro: same_log_trans)
  qed simp
  from this [of s 0] show ?thesis
    by (auto simp: acknowledge_def advance_first_unacked_def same_log_fields split: prod.split)
qed

lemma same_log_pull:
  assumes "pull_with_admission n now auth b nx admit g s = (out, g', s')"
  shows "same_log s s'"
proof -
  have base: "same_log s (pull_base auth now s)"
    by (auto simp: same_log_def pull_base_def revoke_forwards_def retained_messages_def)
  have f: "same_log s (snd (commit_forwards is s))" for "is" s
  proof (induction "is" arbitrary: s)
    case (Cons i "is")
    then show ?case using same_log_trans [OF same_log_set_state Cons.IH] by (simp split: prod.split) (metis snd_conv)
  qed simp
  have l: "same_log s (snd (snd (commit_leases nx d is (g, s))))" for d "is" g s
  proof (induction "is" arbitrary: g s)
    case (Cons i "is")
    have "same_log s (snd (lease_entry i a d s))" for a
      by (simp add: lease_entry_eq same_log_def retained_messages_def map_update_same)
    then show ?case using Cons.IH by (auto simp: split: prod.split) (metis same_log_trans snd_conv)
  qed simp
  define sel where "sel = plan_pull (make_plan (pull_base auth now s) n now auth b) (pull_base auth now s)"
  obtain dl s1 where fwd: "commit_forwards (sel_forwarded sel) (pull_base auth now s) = (dl, s1)" by fastforce
  obtain rs h s2 where lea: "commit_leases nx (pull_deadline (ss_config s) now) (sel_selected sel) (g, s1) = (rs, h, s2)"
    by (cases "commit_leases nx (pull_deadline (ss_config s) now) (sel_selected sel) (g, s1)") auto
  have "same_log s s2"
    using same_log_trans [OF same_log_trans [OF base f [of _ "sel_forwarded sel"]] l
        [of _ "pull_deadline (ss_config s) now" "sel_selected sel" g]] by (simp add: fwd lea)
  moreover have "s' = pull_base auth now s \<or> s' = advance_first_unacked s2"
    using assms fwd lea unfolding pull_eq sel_def [symmetric] by (auto split: if_splits)
  ultimately show ?thesis using base by (auto simp: advance_first_unacked_def same_log_fields)
qed

definition same_contents :: "pubsub_state \<Rightarrow> pubsub_state \<Rightarrow> bool" where
  "same_contents st st' \<longleftrightarrow> ps_topics st' = ps_topics st \<and> ps_snapshots st' = ps_snapshots st
     \<and> (\<forall>key. rel_option same_log (bm_get (ps_subscriptions st) key) (bm_get (ps_subscriptions st') key))"

lemma same_contents_sub_mut:
  assumes "same_contents st st'" "\<And>s. same_log s (snd (f s))"
  shows "same_contents st (snd (sub_mut name f st'))"
proof (cases "bm_get (ps_subscriptions st') (subscription_to_full name)")
  case (Some s)
  with assms show ?thesis
    by (auto simp: same_contents_def sub_mut_def option_rel_Some2 split: prod.split intro: same_log_trans)
      (metis (full_types) option_rel_Some2 same_log_trans snd_conv)
qed (use assms(1) in \<open>simp add: sub_mut_def\<close>)

lemma same_contents_pull:
  assumes "same_contents st st'"
  shows "same_contents st (snd (pull_with_dead_letters_admitted name n now b admit st'))"
proof (cases "bm_get (ps_subscriptions st') (subscription_to_full name)")
  case (Some s)
  define auth where "auth = is_some_and (\<lambda>policy. dead_letter_authorized st' name (dl_topic policy))
    (sc_dead_letter_policy (ss_config (expire_deadlines now s)))"
  obtain out rng s' where p: "pull_with_admission n now auth b registry_ack_id admit (ps_ack_rng st') (expire_deadlines now s) = (out, rng, s')"
    by (cases "pull_with_admission n now auth b registry_ack_id admit (ps_ack_rng st') (expire_deadlines now s)") auto
  have "same_log s s'" by (rule same_log_trans [OF same_log_expire same_log_pull [OF p]])
  moreover have "snd (pull_with_dead_letters_admitted name n now b admit st')
      = (snd (sub_mut name (\<lambda>_. ((), s')) st'))\<lparr>ps_ack_rng := rng\<rparr>"
    by (simp add: pull_with_dead_letters_admitted_def sub_mut_def Some Let_def auth_def [symmetric] p)
  moreover obtain s0 where "bm_get (ps_subscriptions st) (subscription_to_full name) = Some s0" "same_log s0 s"
    using assms Some unfolding same_contents_def by (metis option_rel_Some2)
  ultimately show ?thesis
    using assms Some by (auto simp: same_contents_def sub_mut_def intro: same_log_trans)
qed (simp add: pull_with_dead_letters_admitted_def assms)

lemma consumes_same_contents: "registry_consumes j st st' \<Longrightarrow> same_contents st st'"
proof (induction rule: registry_consumes.induct)
  case (consumes_refl st)
  show ?case by (simp add: same_contents_def option.rel_refl)
next
  case (consumes_modify j st st' name ids seconds now)
  show ?case
    unfolding registry_modify_ack_deadline_def
    by (rule same_contents_sub_mut [OF consumes_modify.IH]) (simp add: unit_result_def same_log_foldl same_log_modify)
qed (auto simp: registry_acknowledge_def registry_retain_outstanding_def retain_outstanding_ack_ids_def Let_def same_log_acknowledge
    same_log_expire intro: same_contents_pull same_contents_sub_mut)

definition captured_from :: "pubsub_state \<Rightarrow> subscription_state \<Rightarrow> backlog_snapshot \<Rightarrow> bool" where
  "captured_from st s snp \<longleftrightarrow>
     map_option te_incarnation (bm_get (ps_topics st) (sub_topic s)) = Some (snp_topic_incarnation snp)
     \<and> snp_topic snp = sc_topic (ss_config s) \<and> snp_captured snp = retained_messages s
     \<and> snp_retained_ids snp = retained_message_ids s \<and> snp_unacknowledged_ids snp = unacknowledged_message_ids s"

lemma create_snapshot_Ok:
  assumes "registry_ok n st" "create_snapshot L requested name labels now st = (Ok snp, st1)"
    and "bm_get (ps_subscriptions st) (subscription_to_full name) = Some s"
  shows "captured_from st s snp"
    and "ps_topics st1 = ps_topics st" "ps_subscriptions st1 = ps_subscriptions st"
    and "bm_get (ps_snapshots st1) (snp_name snp) = Some snp" "is_ok (parse_snapshot_name (snp_name snp))"
proof -
  define st0 where "st0 = remove_expired_snapshots L now st"
  have same: "ps_topics st0 = ps_topics st" "ps_subscriptions st0 = ps_subscriptions st"
    using remove_expired_ok(2) [OF assms(1), of L now] by (simp_all add: st0_def same_logs_def)
  from assms(2) obtain bytes c where b: "build_snapshot L requested name labels now st0 = Ok (snp, bytes, c)" "st1 = store_snapshot snp bytes c st0"
    by (auto simp: create_snapshot_def Let_def st0_def [symmetric] split: sum.splits)
  have "captured_from st s snp \<and> is_ok (parse_snapshot_name (snp_name snp))"
    using b(1) assms(3)
    by (auto simp: build_snapshot_def same and_then_eq_Inr Let_def is_ok_iff capture_def captured_from_def
        split: option.splits if_splits)
  then show "captured_from st s snp" "is_ok (parse_snapshot_name (snp_name snp))" by blast+
  show "ps_topics st1 = ps_topics st" "ps_subscriptions st1 = ps_subscriptions st" "bm_get (ps_snapshots st1) (snp_name snp) = Some snp"
    by (simp_all add: b(2) store_snapshot_def Let_def same)
qed

lemma filter_by_key: "distinct (map f xs) \<Longrightarrow> filter (\<lambda>x. f x \<in> set (map f (filter P xs))) xs = filter P xs"
  by (rule filter_cong) (auto simp: distinct_map dest: inj_onD)

text \<open>Seeking a subscription to what was captured of the same log.\<close>

lemma seek_captured:
  assumes "sub_inv s'" "retained_messages s' = retained_messages s" "distinct (map ref_id (retained_messages s))"
  shows "\<exists>s''. sub_seek_to_snapshot (retained_messages s) (retained_message_ids s) (unacknowledged_message_ids s) t now s' = (Ok (), s'')
    \<and> backlog s'' = backlog s"
proof -
  let ?ms = "retained_messages s" and ?r = "retained_message_ids s" and ?u = "unacknowledged_message_ids s"
  have ids: "set ?r = set (map ref_id ?ms)" "set ?u = set (map ref_id (backlog s))"
    by (auto simp: retained_message_ids_def unacknowledged_message_ids_def retained_messages_def backlog_def)
  have none: "missing_messages ?ms ?r s' = []"
    using assms(2) by (auto simp: missing_messages_def Let_def filter_empty_conv retained_messages_def) (metis imageI image_image image_set)
  have eq: "refs_bytes ?ms = log_bytes (ss_entries s')" "length ?ms = length (ss_entries s')"
    using log_bytes_refs [of "ss_entries s'"] assms(2) by (metis retained_messages_def, metis length_map retained_messages_def)
  have fits: "length ?ms \<le> max_retained_per_sub" "refs_bytes ?ms \<le> max_retained_bytes_per_sub"
    using sub_inv_facts(1,2) [OF assms(1)] unfolding eq by simp_all
  then have bytes: "refs_bytes ?ms < 2 ^ 64" using bounds_64(2) by linarith
  have later: "ref_id m \<in> set ?r" if "m \<in> set ?ms" for m using that by (simp add: ids)
  have "backlog (snd (sub_seek_to_snapshot ?ms ?r ?u t now s')) = filter (\<lambda>m. ref_id m \<in> set ?u) ?ms"
    unfolding backlog_seek_snapshot [OF assms(1) bytes] using fits later
    by (simp add: none Let_def assms(2) refs_bytes_def [of "[]"] del: filter_append cong: filter_cong)
  also have "\<dots> = backlog s"
    using filter_by_key [of "\<lambda>e. ref_id (en_stored e)" "ss_entries s" "\<lambda>e. \<not> is_acked e"] assms(3)
    unfolding ids backlog_def retained_messages_def by (simp add: filter_map comp_def)
  finally have "backlog (snd (sub_seek_to_snapshot ?ms ?r ?u t now s')) = backlog s" .
  moreover have "fst (sub_seek_to_snapshot ?ms ?r ?u t now s') = Ok ()"
    unfolding seek_snapshot_eq [OF assms(1) bytes] using sub_inv_facts(1,2) [OF assms(1)] by (simp add: none refs_bytes_def)
  ultimately show ?thesis by (cases "sub_seek_to_snapshot ?ms ?r ?u t now s'") auto
qed


text \<open>One message published to the registry of the examples, pulled, acknowledged and brought back.\<close>

definition sample_log :: subscription_state where
  "sample_log = (set_push_minimum (ps_push_minimum sample_with_topic) (sub_new sample_subscription))
     \<lparr>ss_entries := [\<lparr>en_stored = sample_published, en_state = Available 0, en_attempt = 0\<rparr>], ss_retained_bytes := 2\<rparr>"

definition sample_with_message :: pubsub_state where
  "sample_with_message = sample_registry\<lparr>ps_next_addr := Suc 0,
     ps_subscriptions := [(''projects/p/subscriptions/sub'', sample_log)], ps_snapshots := [], ps_message_refs := [],
     ps_snapshot_bytes := 0, ps_message_counter := 1\<rparr>"

lemma sample_prepared_eq: "prepare_publish sample_layout sample_topic [sample_message] 0 sample_registry
  = (Ok \<lparr>prep_topic_key = ''projects/p/topics/news'', prep_topic_incarnation = 1, prep_initial_counter = 0,
       prep_next_counter = 1, prep_published = [sample_published], prep_subscription_keys = [''projects/p/subscriptions/sub''],
       prep_snapshot_names = [], prep_snapshot_bytes = 0\<rparr>, sample_registry\<lparr>ps_next_addr := Suc 0\<rparr>)"
  by (simp add: prepare_publish_def prepare_publish_numbered_def sample_names sample_no_expired sample_registry_fields(1,8,10)
      max_messages_per_publish_def sample_validated sample_numbered Let_def publish_admission_def
      sample_registry_fields(2) sample_admitted sample_snapshots_admit del: number_messages.simps subscriptions_admit.simps)

lemma sample_enqueued:
  "enqueue_all 0 [sample_published] (set_push_minimum (ps_push_minimum sample_with_topic) (sub_new sample_subscription)) = Some sample_log"
  by (simp add: sample_log_def set_push_minimum_def sub_new_def admits_def sample_subscription_def sample_config_def
      filter_always_def filter_matches_def sample_published_def sample_message_def sub_enqueue_def exceeds_bytes_def message_bytes_def sum_usize_def
      saturating_add_u_def u_max_def checked_add_u_def Let_def max_retained_per_sub_def max_retained_bytes_per_sub_def)

lemma sample_publish: "publish_shared sample_layout sample_topic [sample_message] 0 sample_registry = Some (Ok [sample_published], sample_with_message)"
  by (simp add: publish_shared_def sample_prepared_eq commit_result_def commit_prepared_def sample_registry_fields
      publish_admission_def sample_admitted sample_snapshots_admit sample_enqueued retain_snapshot_publication_def
      sample_with_message_def bm_insert_def Let_def sample_published_def [THEN arg_cong [where f = "\<lambda>m. sm_publish_time (ref_stored m)"]] del: enqueue_all.simps subscriptions_admit.simps)

abbreviation sample_name :: subscription_name where
  "sample_name \<equiv> \<lparr>sn_project = ''p'', sn_subscription = ''sub''\<rparr>"

lemma sample_snapshot_name: "parse_snapshot_name ''projects/p/snapshots/snap'' = Ok (''p'', ''snap'')"
  by (simp add: parse_snapshot_name_def strip_prefix_def and_then_def ok_or_def validate_project_def validate_resource_id_def
      max_project_len_def min_id_len_def max_id_len_def is_ascii_alphabetic_def is_ascii_lowercase_def is_id_byte_def is_ascii_alphanumeric_def
      is_c0_def)

lemma sample_log_fields:
  "sc_topic (ss_config sample_log) = sample_topic" "oldest_unacknowledged_publish_time sample_log = Some 0"
  "retained_messages sample_log = [sample_published]" "unacknowledged_message_ids sample_log = [pubsub_message_id 1]"
  "backlog sample_log = [sample_published]"
  by (simp_all add: sample_log_def sample_names sample_published_def oldest_unacknowledged_publish_time_def iter_min_def retained_messages_def
      unacknowledged_message_ids_def bs_of_list_def bs_insert_def backlog_def)

lemma sample_lifetime: "snapshot_lifetime (Some 0) 0 = Ok (duration_from_seconds snapshot_ttl_seconds)"
  by (simp add: snapshot_lifetime_def checked_duration_since_def checked_i_def i_ok_def i_min_def i_max_def snapshot_ttl_seconds_def
      min_snapshot_ttl_seconds_def duration_from_seconds_def)

lemma saturating_add_small: "a + b < 2 ^ 64 \<Longrightarrow> saturating_add_u 64 a b = a + b"
  by (simp add: saturating_add_u_def u_max_def)

lemma sample_snapshot_bytes:
  "\<exists>bytes. additional_snapshot_bytes sample_layout sample_with_message
     (capture ''projects/p/snapshots/snap'' ''p'' t [] 0 d sample_log) = Ok bytes \<and> bytes \<le> max_snapshot_retained_bytes"
  by (simp add: additional_snapshot_bytes_def snapshot_owned_bytes_def capture_def sample_log_fields sample_names new_shared_bytes_def
      sample_with_message_def bm_contains_def snapshot_shared_message_bytes_def pair_bytes_def sum_usize_def
      snapshot_reference_bytes_def owned_string_bytes_def saturating_mul_u_def saturating_add_small u_max_def checked_add_u_def
      sample_layout_def sample_published_def sample_message_def message_id_length max_snapshot_retained_bytes_def Let_def)

lemma sample_snapshot:
  "\<exists>snp st1. create_snapshot sample_layout ''projects/p/snapshots/snap'' sample_name [] 0 sample_with_message = (Ok snp, st1) \<and> 0 < snp_expire_at snp"
proof -
  let ?t = "\<lparr>te_name = sample_topic, te_labels = [], te_incarnation = Suc 0, te_retention = None\<rparr>"
  let ?snp = "capture ''projects/p/snapshots/snap'' ''p'' ?t [] 0 (duration_from_seconds snapshot_ttl_seconds) sample_log"
  obtain bytes where b: "additional_snapshot_bytes sample_layout sample_with_message ?snp = Ok bytes" "bytes \<le> max_snapshot_retained_bytes"
    using sample_snapshot_bytes by blast
  have f: "bm_get (ps_subscriptions sample_with_message) ''projects/p/subscriptions/sub'' = Some sample_log"
    "bm_get (ps_topics sample_with_message) ''projects/p/topics/news'' = Some ?t" "ps_snapshots sample_with_message = []"
    "ps_snapshot_bytes sample_with_message = 0"
    by (simp_all add: sample_with_message_def sample_registry_fields)
  have "build_snapshot sample_layout ''projects/p/snapshots/snap'' sample_name [] 0 sample_with_message = Ok (?snp, bytes, None)"
    using b by (simp add: build_snapshot_def subscription_to_full_def f sample_log_fields sample_names available_snapshot_name_def
        sample_snapshot_name bm_contains_def max_snapshots_def sample_lifetime Let_def checked_add_u_def max_snapshot_retained_bytes_def)
  then show ?thesis
    by (simp add: create_snapshot_def remove_expired_snapshots_def remove_snapshots_def f bm_values_def capture_def
        instant_checked_add_def checked_i_def i_ok_def i_min_def i_max_def snapshot_ttl_seconds_def duration_from_seconds_def)
qed

lemma sample_message_reached: "registry_reaches sample_layout 7 3 sample_with_message"
proof -
  have "map_option snd (registry_publish sample_layout sample_topic [sample_message] 0 sample_registry) = Some sample_with_message"
    by (simp add: registry_publish_def sample_publish)
  then have "registry_step sample_layout sample_registry (Some sample_with_message)" using step_publish by metis
  from reaches_step [OF sample_reached this] show ?thesis by (simp add: numeral_3_eq_3 numeral_2_eq_2)
qed


section \<open>Dead letters\<close>

text \<open>The first entry of a log that is reserved for forwarding under an id.\<close>

definition reserved :: "string \<Rightarrow> entry \<Rightarrow> bool" where
  "reserved m e \<longleftrightarrow> ref_id (en_stored e) = m \<and> en_state e = ForwardPending"

lemma drop_first_append: "(\<forall>y\<in>set ys. \<not> P y) \<Longrightarrow> drop_first P (xs @ ys) = drop_first P xs @ ys"
proof (induction xs)
  case Nil
  then show ?case by (simp add: drop_first_def position_None_iff [THEN iffD2])
qed (simp add: drop_first_simps)

lemma complete_backlog: "backlog (snd (complete_forward m s)) = map en_stored (drop_first (reserved m) (unacked s))"
  using backlog_complete [of m s] by (simp add: reserved_def [abs_def])

text \<open>What became of the backlogs: all as they were, or one message moved.\<close>

definition kept_backlogs :: "pubsub_state \<Rightarrow> pubsub_state \<Rightarrow> bool" where
  "kept_backlogs st st' \<longleftrightarrow> (\<forall>key s. bm_get (ps_subscriptions st) key = Some s \<longrightarrow>
     (\<exists>s'. bm_get (ps_subscriptions st') key = Some s' \<and> backlog s' = backlog s))"

definition moved :: "dead_letter_forward \<Rightarrow> message_ref \<Rightarrow> pubsub_state \<Rightarrow> pubsub_state \<Rightarrow> bool" where
  "moved f m st st' \<longleftrightarrow> (\<forall>key s. bm_get (ps_subscriptions st) key = Some s \<longrightarrow>
     (\<exists>s'. bm_get (ps_subscriptions st') key = Some s' \<and> backlog s' =
        (if key = subscription_to_full (dlf_source f)
         then map en_stored (drop_first (reserved (ref_id (dlf_message f))) (unacked s)) else backlog s)
        @ (if sub_topic s = topic_to_full (dlf_topic f) \<and> key \<notin> set (ps_function_subs st) \<and> ref_admits s m
           then [m] else [])))"

lemma kept_same_logs: "same_logs st st' \<Longrightarrow> kept_backlogs st st'"
  by (simp add: same_logs_def kept_backlogs_def)

lemma kept_resumed:
  assumes "registry_ok n st"
  shows "kept_backlogs st (resume_dead_letter f now st)"
proof -
  have "bm_wf (ps_subscriptions st)" using assms by (simp add: registry_ok_def maps_wf_def)
  then show ?thesis
    by (auto simp: kept_backlogs_def resume_dead_letter_def sub_mut_def unit_result_def bm_get_insert backlog_resume split: option.split)
qed

lemma moved_complete:
  assumes ok: "registry_ok n st" "registry_ok n st1" and topic: "\<not> is_deleted_sentinel (dlf_topic f)"
    and d: "\<exists>t. delivered (topic_to_full (dlf_topic f)) t [m] st st1"
  shows "moved f m st (snd (complete_dead_letter (dlf_source f) (ref_id (dlf_message f)) st1))"
  unfolding moved_def
proof (intro allI impI)
  fix key s assume s: "bm_get (ps_subscriptions st) key = Some s"
  let ?id = "ref_id (dlf_message f)"
  let ?new = "if sub_topic s = topic_to_full (dlf_topic f) \<and> key \<notin> set (ps_function_subs st) \<and> ref_admits s m then [m] else []"
  from delivered_unacked(1) [OF ok(1) topic d s] obtain s1 t where
    s1: "bm_get (ps_subscriptions st1) key = Some s1" "unacked s1 = unacked s @ map (fresh_entry t) ?new"
    by (auto split: if_splits)
  have wf: "bm_wf (ps_subscriptions st1)" using ok(2) by (simp add: registry_ok_def maps_wf_def)
  have "drop_first (reserved ?id) (unacked s1) = drop_first (reserved ?id) (unacked s) @ map (fresh_entry t) ?new"
    unfolding s1(2) by (rule drop_first_append) (simp add: reserved_def)
  then have "backlog (snd (complete_forward ?id s1)) = map en_stored (drop_first (reserved ?id) (unacked s)) @ ?new"
    by (simp add: complete_backlog)
  moreover have "backlog s1 = backlog s @ ?new" by (simp add: backlog_unacked s1(2))
  ultimately show "\<exists>s'. bm_get (ps_subscriptions (snd (complete_dead_letter (dlf_source f) ?id st1))) key = Some s' \<and> backlog s' =
      (if key = subscription_to_full (dlf_source f) then map en_stored (drop_first (reserved ?id) (unacked s)) else backlog s) @ ?new"
    using s1(1) wf
    by (auto simp: complete_dead_letter_def sub_mut_def bm_get_insert Let_def case_prod_beta split: option.split)
qed

lemma dead_letter_prepared:
  assumes ok: "registry_ok n st" and p: "prepare_dead_letter_publication L f now st = (r, st1)"
  obtains e where "r = Err e" "kept_backlogs st st1"
  | q msg where "r = Ok q" "prepare_publish L (dlf_topic f) [msg] now st = (Ok q, st1)" "can_commit_dead_letter st f"
      "pm_data msg = pm_data (sm_message (ref_stored (dlf_message f)))"
      "pm_ordering_key msg = pm_ordering_key (sm_message (ref_stored (dlf_message f)))"
proof (cases "can_commit_dead_letter st f")
  case False
  then show thesis using that(1) p kept_resumed [OF ok] by (auto simp: prepare_dead_letter_publication_def)
next
  case True
  note auth = True
  from p True consider e where "r = Err e" "st1 = st"
    | msg where "prepare_publish L (dlf_topic f) [msg] now st = (r, st1)"
      "pm_data msg = pm_data (sm_message (ref_stored (dlf_message f)))"
      "pm_ordering_key msg = pm_ordering_key (sm_message (ref_stored (dlf_message f)))"
    by (auto simp: prepare_dead_letter_publication_def Let_def split: if_splits option.splits sum.splits)
  then show thesis
  proof cases
    case 1
    then show thesis using that(1) by (simp add: kept_backlogs_def)
  next
    case 2
    from prepare_ok(2) [OF ok 2(1) [unfolded prepare_publish_def]] have "kept_backlogs st st1" by (rule kept_same_logs)
    with that 2 auth show thesis by (cases r) auto
  qed
qed



section \<open>A refused subscription that stays listed\<close>

text \<open>When the policy incarnations are used up, creating a subscription is refused, but its name has
  already been entered in the topic's set: the topic lists a subscription that does not exist.\<close>

lemma refused_subscription_listed:
  assumes "config_validate config = Ok ()" and "bm_get (ps_subscriptions st) (subscription_to_full (sc_name config)) = None"
    and "bm_contains (ps_topics st) (topic_to_full (sc_topic config))" and "sc_dead_letter_policy config = None"
    and "length (ps_subscriptions st) < max_subscriptions" and "ps_policy_incarnation st = 0x00ffffff" and "maps_wf st"
  shows "\<exists>st'. create_subscription config st = (Err ResourceExhausted, st')
    \<and> registry_subscription_config st' (sc_name config) = Err NotFound
    \<and> subscription_to_full (sc_name config) \<in> set (topic_subscriptions st' (sc_topic config))"
proof -
  have "bm_wf (ps_topic_subs st)" using assms(7) by (simp add: maps_wf_def)
  with assms(1-6) show ?thesis
    by (simp add: create_subscription_def create_resource_policy_def checked_add_u_def u_max_def bm_contains_def Let_def
        registry_subscription_config_def ok_or_def topic_subscriptions_def bm_get_insert)
qed

section \<open>A seek that inverts the order of publication\<close>

text \<open>A publication is added to the snapshots of its topic, and so to their retained ids. A seek puts the
  captured messages that the log lacks before the first message that is not retained and was published
  after the snapshot; no publication to the topic is that message, so they go to the end. Here the
  snapshot captured message 1 and retains message 2, published after it with the same ordering key, and
  the subscription, created in between, holds message 2: after the seek message 1 follows message 2.\<close>

lemma sample_ids: "dec (Suc 0) = ''1''" "dec 2 = ''2''"
  by code_simp+

lemma seek_inverts_order:
  "backlog (snd (sub_seek_to_snapshot [sample_ref 1 ''k'', sample_ref 2 ''k''] [''1'', ''2''] [''1'', ''2''] 2 9
     ((sub_new (sample_config True))\<lparr>ss_entries := [fresh_entry 2 (sample_ref 2 ''k'')], ss_retained_bytes := 2\<rparr>)))
   = [sample_ref 2 ''k'', sample_ref 1 ''k'']"
  by (simp add: sub_seek_to_snapshot_def sample_config_def sub_new_def missing_messages_def splice_missing_def restore_entry_def
      published_after_def sample_ref_def bs_of_list_def bs_insert_def admits_def filter_always_def filter_matches_def rebuild_indexes_def
      backlog_def sum_usize_def message_bytes_def saturating_add_u_def u_max_def max_retained_per_sub_def max_retained_bytes_per_sub_def Let_def
      bs_contains_def sample_ids del: dec.simps)

end
