(* ===== verification/Spec2Isabelle.thy ===== *)
theory Spec2Isabelle
  imports
    Rfc3339 Outbox Session_Life Idle_Ledger Admission_Barrier Fault_Plan Tenancy
    Push_Id Db_Writes Db_View Db_Query Ps_Order Ps_Iam Ps_Paging Ps_Label Ps_Service
begin

text \<open>
  \<^bold>\<open>fireemu\<close> is a local emulator of the Firebase services. Its core crates are free of I/O: each
  owns one state machine or data model and takes the time, the random seed and the limits as
  arguments. This library models core crates under \<^verbatim>\<open>src/crates/\<close> and proves what they promise to
  the transports built on them.

  \<^bold>\<open>Conventions.\<close> An unsigned integer of width \<open>w\<close> is a natural number below \<open>2^w\<close>, a signed one
  an integer within \<open>i_ok w\<close>; wrapping, checked and saturating arithmetic is written out. A
  \<open>String\<close> is the list of its UTF-8 bytes, compared bytewise as Rust does. \<open>Result\<close> is a sum
  whose left side is the error, \<open>&mut self\<close> methods return the new state, a \<open>BTreeMap\<close> or
  \<open>BTreeSet\<close> is a strictly sorted list, and a panic is the value \<open>None\<close>. Error texts are not
  modelled; error kinds are.

  \<^bold>\<open>Shared library.\<close> \<^verbatim>\<open>Prelude\<close> has results, bounded integers and the three machine contracts
  (invariant, monotone, absorbing) every state machine below is an interpretation of; \<^verbatim>\<open>BTree\<close>
  the ordered sets and maps with their interface locales; \<^verbatim>\<open>Compare\<close> comparison functions, the
  stable sort and the contract of a comparison; \<^verbatim>\<open>Utf\<close> UTF-8 decoding and UTF-16 encoding;
  \<^verbatim>\<open>Float64\<close> IEEE 754 doubles with rounding to nearest even.

  \<^bold>\<open>Value types\<close> (\<^verbatim>\<open>fireemu-core-types\<close>). \<^verbatim>\<open>Logical_Time\<close> and \<^verbatim>\<open>Rfc3339\<close> (\<^verbatim>\<open>time.rs\<close>): the civil
  calendar is a bijection with day numbers and printing then parsing an instant gives it back.
  \<^verbatim>\<open>Ids\<close> (\<^verbatim>\<open>ids.rs\<close>): validated identifiers. \<^verbatim>\<open>Determinism\<close> (\<^verbatim>\<open>determinism.rs\<close>): the generators; ids never
  repeat and the bounded draw ends.

  \<^bold>\<open>Events\<close> (\<^verbatim>\<open>fireemu-core-events\<close>). \<^verbatim>\<open>Event_Record\<close> is one delivery with its retry policy, \<^verbatim>\<open>Outbox\<close>
  the queue with five indexes: the indexes always agree with the records, dispatch takes the
  first eligible record, and eviction never loses a live one.

  \<^bold>\<open>Sessions\<close> (\<^verbatim>\<open>fireemu-core-session\<close>). \<^verbatim>\<open>Virtual_Clock\<close>, \<^verbatim>\<open>Session_Life\<close>, \<^verbatim>\<open>Idle_Ledger\<close>,
  \<^verbatim>\<open>Admission_Barrier\<close>, \<^verbatim>\<open>Fault_Plan\<close> and \<^verbatim>\<open>Tenancy\<close> follow the files of the same subject. Time never
  runs backwards unless asked to, epochs never share ids, no request straddles a reset, the
  idle verdict is exact, fault plans of projects do not mix, and a bucket or key has one owner.

  \<^bold>\<open>Realtime Database\<close> (\<^verbatim>\<open>fireemu-core-database\<close>). \<^verbatim>\<open>Db_Number\<close>, \<^verbatim>\<open>Db_Key\<close>, \<^verbatim>\<open>Db_Node\<close> and \<^verbatim>\<open>Db_Build\<close> are
  the data model: the order of numbers is the order of their exact values, the key order is
  total, and reading back exported JSON gives the same node. \<^verbatim>\<open>Push_Id\<close>: generated ids strictly
  increase. \<^verbatim>\<open>Db_Server_Value\<close>, \<^verbatim>\<open>Db_Tree\<close> and \<^verbatim>\<open>Db_Writes\<close> are writes: a set changes exactly the written
  location, a multipath update is all or nothing, and the stored tree stays canonical and
  within the limits. \<^verbatim>\<open>Db_Scope\<close> and \<^verbatim>\<open>Db_View\<close>: a saved scope undoes every write below it, and the view
  through it reads the tree as it was. \<^verbatim>\<open>Db_Query\<close>: a query cuts a contiguous range out of one
  total order of the children.

  \<^bold>\<open>Pub/Sub\<close> (\<^verbatim>\<open>fireemu-core-pubsub\<close>). \<^verbatim>\<open>Ps_Message\<close> (\<^verbatim>\<open>message.rs\<close>, \<^verbatim>\<open>name.rs\<close>, \<^verbatim>\<open>error.rs\<close>) has messages and
  resource names, \<^verbatim>\<open>Ps_Filter\<close> (\<^verbatim>\<open>filter.rs\<close>) the lexer, parser and evaluation of filters: a printed
  filter parses back to itself. \<^verbatim>\<open>Bytes\<close> and \<^verbatim>\<open>Ps_Paging\<close> (\<^verbatim>\<open>pagination.rs\<close>): following the cursors lists
  everything once. \<^verbatim>\<open>Ps_Iam\<close> (\<^verbatim>\<open>iam.rs\<close>): a policy changes only from the revision the caller saw.
  \<^verbatim>\<open>Ps_Label_Table\<close> and \<^verbatim>\<open>Ps_Label\<close> (\<^verbatim>\<open>label_value.rs\<close>, \<^verbatim>\<open>configuration.rs\<close>): labels are accepted exactly
  when they follow the published rules. \<^verbatim>\<open>Ps_Message_Id\<close> (\<^verbatim>\<open>pubsub_message_id.rs\<close>): no two messages
  share an id.

  \<^verbatim>\<open>Ps_Subscription\<close> (\<^verbatim>\<open>subscription.rs\<close>) is one subscription: its log of messages, leases, acknowledgements,
  retries, dead letters and seeks. \<^verbatim>\<open>Ps_Delivery\<close> has its invariant, \<^verbatim>\<open>Ps_Backlog\<close> the refinement of
  the log to a queue, \<^verbatim>\<open>Ps_Order\<close> the order of keyed messages, and that a message not acknowledged
  comes back.

  \<^verbatim>\<open>Ps_Registry\<close> (\<^verbatim>\<open>state.rs\<close>) is the broker: the record \<open>pubsub_state\<close> with one definition per method.
  An \<open>Arc\<close> is a message with the address it was allocated at, so \<open>Arc::ptr_eq\<close> compares addresses;
  the sizes of the in-memory layout, which the byte accounting of snapshots adds up, are the
  parameter \<open>layout\<close>. \<^verbatim>\<open>Ps_Registry_Inv\<close> is the invariant that ties the maps of the registry together,
  \<^verbatim>\<open>Ps_Publish\<close> the two phases of a publication, \<^verbatim>\<open>Ps_Broker\<close> the step relation over all operations and
  the histories it generates. \<^verbatim>\<open>Ps_Service\<close> has what holds after every history: no operation panics,
  a publication reaches exactly the attached subscriptions, a snapshot brings back the backlog it
  captured, and a dead letter is moved or stays.

  \<^bold>\<open>Bounds.\<close> Loops are structural recursion or have a measure; the only fuel is the number of
  redraws of the bounded draw, whose theorem gives the fuel that is enough. Sizes below \<open>2^64\<close> of
  collections in memory are not modelled; where a sum of sizes could pass it, the theorem says so
  (\<open>op_fits\<close>, \<open>snapshot_fits\<close>). An operation draws at most \<open>max_retained_per_sub\<close> ack ids, which are
  distinct until the generator has gone through its \<open>2^64\<close> states; histories of the registry are
  therefore bounded by \<open>k * max_retained_per_sub < 2^64\<close> operations.

  \<^bold>\<open>Not modelled.\<close> The transports, the daemon, the UI and generated code (I/O and third-party
  libraries), and the core crates for Firestore, Storage, Authentication, App Check, Functions,
  Security Rules, limits and export formats. In the database crate, \<^verbatim>\<open>hash.rs\<close> and the byte
  accounting \<open>retained_bytes\<close> are left out; in the Pub/Sub crate, the observers that wake waiting
  pulls, the read-only \<open>resources\<close> report and the printing of durations in error texts.
\<close>

end
